(* ===== verification/Tacenta_Prelude.thy ===== *)
theory Tacenta_Prelude
  imports Main "HOL-Library.Word" "HOL-Library.Finite_Map" "HOL-Library.List_Lexorder"
    "HOL-Library.Monad_Syntax"
begin

section \<open>Shared vocabulary of the development\<close>

text \<open>
  What every component of the workspace uses of Rust and of its standard library: machine
  integers at their width, byte strings, big-endian integers, checked slicing, UTF-8 validation,
  \<open>Result\<close> values, counted loops, and hash maps. The codecs of the wire, relay, directory and
  group crates are all built from these.

  Conventions.
  \<^item> \<open>u8\<close>, \<open>u16\<close>, \<open>u32\<close>, \<open>u64\<close> are words of that width; comparisons are unsigned.
  \<^item> \<open>usize\<close> is 64 bits wide (the server targets), and lengths of vectors are \<open>nat\<close>: a Rust
    vector never holds more than \<open>isize::MAX\<close> bytes, so arithmetic on lengths does not wrap.
    Where the code saturates a \<open>usize\<close> or \<open>u64\<close> addition, the saturation is written out.
  \<^item> \<open>String\<close> is the list of its UTF-8 bytes; Rust orders strings by those bytes.
  \<^item> \<open>Option\<close> is \<open>option\<close>, \<open>Result<T, E>\<close> is \<open>'e + 'a\<close> with the error on the left.
  \<^item> A function that may panic (\<open>expect\<close>, \<open>assert!\<close>) returns \<open>option\<close> with \<open>None\<close> for the
    panic; its text block says so.
  \<^item> \<open>HashMap\<close> is a finite map: equality is extensional, as Rust's is, and iteration order is
    not part of the value.
\<close>


subsection \<open>Machine integers\<close>

type_synonym byte = "8 word"
type_synonym u16 = "16 word"
type_synonym u32 = "32 word"
type_synonym u64 = "64 word"
type_synonym bytes = "byte list"

abbreviation u64_max :: u64 where
  "u64_max \<equiv> - 1"

definition usize_max :: nat where
  "usize_max = 2 ^ 64 - 1"

text \<open>\<open>usize::saturating_add\<close> on lengths.\<close>

definition usize_saturating_add :: "nat \<Rightarrow> nat \<Rightarrow> nat" where
  "usize_saturating_add a b = min (a + b) usize_max"

text \<open>\<open>u64::saturating_add\<close>, \<open>saturating_sub\<close>, \<open>checked_add\<close> and \<open>checked_sub\<close>.\<close>

definition saturating_add :: "u64 \<Rightarrow> u64 \<Rightarrow> u64" where
  "saturating_add a b = (if unat a + unat b < 2 ^ 64 then a + b else u64_max)"

definition saturating_sub :: "u64 \<Rightarrow> u64 \<Rightarrow> u64" where
  "saturating_sub a b = (if b \<le> a then a - b else 0)"

definition checked_add :: "u64 \<Rightarrow> u64 \<Rightarrow> u64 option" where
  "checked_add a b = (if unat a + unat b < 2 ^ 64 then Some (a + b) else None)"

definition checked_sub :: "u64 \<Rightarrow> u64 \<Rightarrow> u64 option" where
  "checked_sub a b = (if b \<le> a then Some (a - b) else None)"

lemma unat_u64_max: "unat u64_max = 2 ^ 64 - 1"
  by (simp add: unsigned_minus_1_eq_mask mask_eq_exp_minus_1)

lemma unat_u64_less [simp]: "unat (x :: u64) < 18446744073709551616"
  using unsigned_less [of x, where ?'a = nat] by simp

lemma unat_u64_le [simp]: "unat (x :: u64) \<le> 18446744073709551615"
  using unat_u64_less [of x] by linarith

lemma less_u64_max: "x \<noteq> u64_max \<Longrightarrow> unat (x :: u64) < 18446744073709551615"
proof -
  assume "x \<noteq> u64_max"
  then have "unat x \<noteq> unat u64_max" by (simp add: word_unat_eq_iff)
  moreover have "unat u64_max = 18446744073709551615" by (simp add: unat_u64_max)
  ultimately show ?thesis using unat_u64_less [of x] by linarith
qed

lemma unat_u32_less [simp]: "unat (x :: u32) < 4294967296"
  using unsigned_less [of x, where ?'a = nat] by simp

lemma unat_u16_less [simp]: "unat (x :: u16) < 65536"
  using unsigned_less [of x, where ?'a = nat] by simp

lemma unat_byte_less [simp]: "unat (x :: byte) < 256"
  using unsigned_less [of x, where ?'a = nat] by simp

lemma saturating_add_code [code]:
  "saturating_add a b = (if uint a + uint b < 18446744073709551616 then a + b else u64_max)"
  by (simp add: saturating_add_def flip: of_nat_less_iff [where 'a = int])

lemma checked_add_code [code]:
  "checked_add a b = (if uint a + uint b < 18446744073709551616 then Some (a + b) else None)"
  by (simp add: checked_add_def flip: of_nat_less_iff [where 'a = int])

lemma usize_saturating_add_code [code]:
  "usize_saturating_add a b =
     (if int a + int b < 18446744073709551616 then a + b else usize_max)"
  by (simp add: usize_saturating_add_def usize_max_def min_def)

lemma unat_saturating_add:
  "unat (saturating_add a b) = min (unat a + unat b) (2 ^ 64 - 1)"
proof (cases "unat a + unat b < 2 ^ 64")
  case True
  then show ?thesis
    by (simp add: saturating_add_def unat_word_ariths)
next
  case False
  then show ?thesis
    by (simp add: saturating_add_def unat_u64_max)
qed

lemma unat_saturating_sub: "unat (saturating_sub a b) = unat a - unat b"
  by (auto simp: saturating_sub_def unat_sub word_le_nat_alt)

lemma checked_sub_Some:
  "checked_sub a b = Some c \<longleftrightarrow> unat b \<le> unat a \<and> unat c = unat a - unat b"
  by (auto simp: checked_sub_def unat_sub word_le_nat_alt word_unat_eq_iff)

lemma checked_sub_None: "checked_sub a b = None \<longleftrightarrow> unat a < unat b"
  by (auto simp: checked_sub_def word_le_nat_alt)

lemma unat_of_nat_u64: "n < 2 ^ 64 \<Longrightarrow> unat (of_nat n :: u64) = n"
  by (simp add: unat_of_nat)

lemma unat_of_nat_u32: "n < 2 ^ 32 \<Longrightarrow> unat (of_nat n :: u32) = n"
  by (simp add: unat_of_nat)

lemma unat_of_nat_u16: "n < 2 ^ 16 \<Longrightarrow> unat (of_nat n :: u16) = n"
  by (simp add: unat_of_nat)

lemma checked_add_Some:
  "checked_add a b = Some c \<longleftrightarrow> unat a + unat b < 2 ^ 64 \<and> unat c = unat a + unat b"
proof (cases "unat a + unat b < 2 ^ 64")
  case True
  then have "unat (a + b) = unat a + unat b"
    by (simp add: unat_word_ariths)
  with True show ?thesis
    by (auto simp: checked_add_def word_unat_eq_iff)
qed (simp add: checked_add_def)


subsection \<open>Big-endian integers\<close>

text \<open>\<open>to_be_bytes\<close> and \<open>from_be_bytes\<close>, first for any number of bytes, then at each width.\<close>

primrec be_bytes :: "nat \<Rightarrow> nat \<Rightarrow> bytes" where
  "be_bytes 0 n = []"
| "be_bytes (Suc k) n = of_nat (n div 256 ^ k) # be_bytes k n"

primrec be_value :: "bytes \<Rightarrow> nat" where
  "be_value [] = 0"
| "be_value (b # bs) = unat b * 256 ^ length bs + be_value bs"

definition u16_to_be :: "u16 \<Rightarrow> bytes" where
  "u16_to_be w = be_bytes 2 (unat w)"

definition u16_from_be :: "bytes \<Rightarrow> u16" where
  "u16_from_be bs = of_nat (be_value bs)"

definition u32_to_be :: "u32 \<Rightarrow> bytes" where
  "u32_to_be w = be_bytes 4 (unat w)"

definition u32_from_be :: "bytes \<Rightarrow> u32" where
  "u32_from_be bs = of_nat (be_value bs)"

definition u64_to_be :: "u64 \<Rightarrow> bytes" where
  "u64_to_be w = be_bytes 8 (unat w)"

definition u64_from_be :: "bytes \<Rightarrow> u64" where
  "u64_from_be bs = of_nat (be_value bs)"

lemma length_be_bytes [simp]: "length (be_bytes k n) = k"
  by (induction k) auto

lemma be_value_less: "be_value bs < 256 ^ length bs"
proof (induction bs)
  case (Cons b bs)
  have "unat b * 256 ^ length bs + be_value bs < unat b * 256 ^ length bs + 256 ^ length bs"
    using Cons.IH by simp
  also have "\<dots> = (unat b + 1) * 256 ^ length bs"
    by simp
  also have "\<dots> \<le> 256 * 256 ^ length bs"
    using unat_byte_less [of b] by (intro mult_right_mono) (linarith, simp)
  finally show ?case by simp
qed simp

lemma be_value_be_bytes: "be_value (be_bytes k n) = n mod 256 ^ k"
proof (induction k)
  case (Suc k)
  have "n mod 256 ^ Suc k = 256 ^ k * (n div 256 ^ k mod 256) + n mod 256 ^ k"
    using mod_mult2_eq [of n "256 ^ k" 256] by (simp only: power_Suc2)
  with Suc show ?case
    by (simp add: unat_of_nat mult.commute)
qed simp

lemma be_bytes_mod: "k \<le> j \<Longrightarrow> be_bytes k (n mod 256 ^ j) = be_bytes k n"
proof (induction k)
  case (Suc k)
  have eq: "(256 :: nat) ^ j = 256 ^ k * 256 ^ (j - k)"
    using Suc.prems by (simp flip: power_add)
  have "n mod 256 ^ j div 256 ^ k = n div 256 ^ k mod 256 ^ (j - k)"
    by (simp add: eq mod_mult2_eq)
  moreover have "(n div 256 ^ k mod 256 ^ (j - k)) mod 256 = n div 256 ^ k mod 256"
    using Suc.prems by (intro mod_mod_cancel dvd_power) auto
  ultimately have "(of_nat (n mod 256 ^ j div 256 ^ k) :: byte) = of_nat (n div 256 ^ k)"
    by (simp add: word_unat_eq_iff unat_of_nat)
  with Suc show ?case by simp
qed simp

lemma be_bytes_be_value: "be_bytes (length bs) (be_value bs) = bs"
proof (induction bs)
  case (Cons b bs)
  have "be_bytes (length bs) (unat b * 256 ^ length bs + be_value bs)
      = be_bytes (length bs) ((unat b * 256 ^ length bs + be_value bs) mod 256 ^ length bs)"
    by (simp only: be_bytes_mod order_refl)
  also have "\<dots> = bs"
    using Cons.IH be_value_less [of bs] by simp
  finally show ?case
    using be_value_less [of bs] by simp
qed simp

lemma length_u16_to_be [simp]: "length (u16_to_be w) = 2"
  by (simp add: u16_to_be_def)

lemma length_u32_to_be [simp]: "length (u32_to_be w) = 4"
  by (simp add: u32_to_be_def)

lemma length_u64_to_be [simp]: "length (u64_to_be w) = 8"
  by (simp add: u64_to_be_def)

lemma u16_from_to_be [simp]: "u16_from_be (u16_to_be w) = w"
  by (simp add: u16_to_be_def u16_from_be_def be_value_be_bytes)

lemma u32_from_to_be [simp]: "u32_from_be (u32_to_be w) = w"
  by (simp add: u32_to_be_def u32_from_be_def be_value_be_bytes)

lemma u64_from_to_be [simp]: "u64_from_be (u64_to_be w) = w"
  by (simp add: u64_to_be_def u64_from_be_def be_value_be_bytes)

lemma u16_to_from_be: "length bs = 2 \<Longrightarrow> u16_to_be (u16_from_be bs) = bs"
  using be_bytes_be_value [of bs] be_value_less [of bs]
  by (simp add: u16_to_be_def u16_from_be_def unat_of_nat)

lemma u32_to_from_be: "length bs = 4 \<Longrightarrow> u32_to_be (u32_from_be bs) = bs"
  using be_bytes_be_value [of bs] be_value_less [of bs]
  by (simp add: u32_to_be_def u32_from_be_def unat_of_nat)

lemma u64_to_from_be: "length bs = 8 \<Longrightarrow> u64_to_be (u64_from_be bs) = bs"
  using be_bytes_be_value [of bs] be_value_less [of bs]
  by (simp add: u64_to_be_def u64_from_be_def unat_of_nat)

lemma u16_to_be_inject [simp]: "u16_to_be v = u16_to_be w \<longleftrightarrow> v = w"
  by (metis u16_from_to_be)

lemma u32_to_be_inject [simp]: "u32_to_be v = u32_to_be w \<longleftrightarrow> v = w"
  by (metis u32_from_to_be)

lemma u64_to_be_inject [simp]: "u64_to_be v = u64_to_be w \<longleftrightarrow> v = w"
  by (metis u64_from_to_be)

text \<open>Byte by byte, as shifts of the word: the equations evaluation uses.\<close>

lemma be_bytes_numeral:
  "be_bytes (numeral k) n = of_nat (n div 256 ^ pred_numeral k) # be_bytes (pred_numeral k) n"
  by (simp only: numeral_eq_Suc be_bytes.simps)

lemma be_bytes_eval:
  "be_bytes 2 n = [of_nat (n div 256), of_nat n]"
  "be_bytes 4 n = [of_nat (n div 16777216), of_nat (n div 65536), of_nat (n div 256), of_nat n]"
  "be_bytes 8 n = [of_nat (n div 72057594037927936), of_nat (n div 281474976710656),
     of_nat (n div 1099511627776), of_nat (n div 4294967296),
     of_nat (n div 16777216), of_nat (n div 65536), of_nat (n div 256), of_nat n]"
  by (simp_all add: be_bytes_numeral)

lemma byte_of_drop_bit: "(of_nat (unat w div 2 ^ k) :: byte) = ucast (drop_bit k w)"
  by (simp add: word_unat_eq_iff unat_of_nat unsigned_ucast_eq unat_drop_bit_eq take_bit_eq_mod
      drop_bit_eq_div [where 'a = nat])
lemma byte_of_word: "(of_nat (unat w) :: byte) = ucast w"
  by (simp add: word_unat_eq_iff unat_of_nat unsigned_ucast_eq unat_drop_bit_eq drop_bit_eq_div take_bit_eq_mod)

lemma u16_to_be_code [code]: "u16_to_be w = [ucast (drop_bit 8 w), ucast w]"
  using byte_of_drop_bit [of w 8] by (simp add: u16_to_be_def be_bytes_eval byte_of_word)

lemma u32_to_be_code [code]:
  "u32_to_be w = [ucast (drop_bit 24 w), ucast (drop_bit 16 w), ucast (drop_bit 8 w), ucast w]"
  using byte_of_drop_bit [of w 24] byte_of_drop_bit [of w 16] byte_of_drop_bit [of w 8]
  by (simp add: u32_to_be_def be_bytes_eval byte_of_word)

lemma u64_to_be_code [code]:
  "u64_to_be w = [ucast (drop_bit 56 w), ucast (drop_bit 48 w), ucast (drop_bit 40 w),
     ucast (drop_bit 32 w), ucast (drop_bit 24 w), ucast (drop_bit 16 w), ucast (drop_bit 8 w),
     ucast w]"
  using byte_of_drop_bit [of w 56] byte_of_drop_bit [of w 48] byte_of_drop_bit [of w 40]
    byte_of_drop_bit [of w 32] byte_of_drop_bit [of w 24] byte_of_drop_bit [of w 16]
    byte_of_drop_bit [of w 8]
  by (simp add: u64_to_be_def be_bytes_eval byte_of_word)

lemma be_value_foldl:
  "8 \<le> LENGTH('a) \<Longrightarrow>
   foldl (\<lambda>acc b. acc * 256 + ucast b) (a :: 'a::len word) bs
   = a * 256 ^ length bs + of_nat (be_value bs)"
proof (induction bs arbitrary: a)
  case (Cons b bs)
  have "(ucast b :: 'a word) = of_nat (unat b)" by simp
  then show ?case using Cons.IH Cons.prems by (simp add: algebra_simps)
qed simp

lemma be_from_code [code]:
  "u16_from_be bs = foldl (\<lambda>acc b. acc * 256 + ucast b) 0 bs"
  "u32_from_be bs = foldl (\<lambda>acc b. acc * 256 + ucast b) 0 bs"
  "u64_from_be bs = foldl (\<lambda>acc b. acc * 256 + ucast b) 0 bs"
  by (simp_all add: u16_from_be_def u32_from_be_def u64_from_be_def be_value_foldl)
subsection \<open>Slices, strings and results\<close>

text \<open>\<open>slice::split_at_checked\<close>, \<open>slice::split_first\<close>, \<open>slice::starts_with\<close>.\<close>

definition split_at_checked :: "nat \<Rightarrow> 'a list \<Rightarrow> ('a list \<times> 'a list) option" where
  "split_at_checked n xs = (if n \<le> length xs then Some (take n xs, drop n xs) else None)"

definition split_first :: "'a list \<Rightarrow> ('a \<times> 'a list) option" where
  "split_first xs = (case xs of [] \<Rightarrow> None | x # rest \<Rightarrow> Some (x, rest))"

definition slice_get :: "nat \<Rightarrow> nat \<Rightarrow> 'a list \<Rightarrow> 'a list option" where
  "slice_get i j xs = (if i \<le> j \<and> j \<le> length xs then Some (take (j - i) (drop i xs)) else None)"

definition slice_from :: "nat \<Rightarrow> 'a list \<Rightarrow> 'a list option" where
  "slice_from i xs = (if i \<le> length xs then Some (drop i xs) else None)"

definition index_get :: "nat \<Rightarrow> 'a list \<Rightarrow> 'a option" where
  "index_get i xs = (if i < length xs then Some (xs ! i) else None)"

definition starts_with :: "'a list \<Rightarrow> 'a list \<Rightarrow> bool" where
  "starts_with xs prefix = (take (length prefix) xs = prefix)"

text \<open>\<open>u32::try_from\<close> and \<open>u16::try_from\<close> on a length.\<close>

definition u32_try_from :: "nat \<Rightarrow> u32 option" where
  "u32_try_from n = (if n < 2 ^ 32 then Some (of_nat n) else None)"

definition u16_try_from :: "nat \<Rightarrow> u16 option" where
  "u16_try_from n = (if n < 2 ^ 16 then Some (of_nat n) else None)"

definition u8_try_from :: "nat \<Rightarrow> byte option" where
  "u8_try_from n = (if n < 2 ^ 8 then Some (of_nat n) else None)"

text \<open>
  The bytes \<open>String::from_utf8\<close> accepts: well-formed UTF-8, that is no overlong form, no
  surrogate and nothing above \<open>U+10FFFF\<close>.
\<close>

definition utf8_cont :: "byte \<Rightarrow> bool" where
  "utf8_cont b = (0x80 \<le> b \<and> b \<le> 0xBF)"

fun utf8_valid :: "bytes \<Rightarrow> bool" where
  "utf8_valid [] = True"
| "utf8_valid (b # bs) =
    (if b < 0x80 then utf8_valid bs
     else if 0xC2 \<le> b \<and> b \<le> 0xDF then
       (case bs of c1 # r \<Rightarrow> utf8_cont c1 \<and> utf8_valid r | _ \<Rightarrow> False)
     else if 0xE0 \<le> b \<and> b \<le> 0xEF then
       (case bs of
          c1 # c2 # r \<Rightarrow>
            (if b = 0xE0 then 0xA0 \<le> c1 \<and> c1 \<le> 0xBF
             else if b = 0xED then 0x80 \<le> c1 \<and> c1 \<le> 0x9F
             else utf8_cont c1) \<and> utf8_cont c2 \<and> utf8_valid r
        | _ \<Rightarrow> False)
     else if 0xF0 \<le> b \<and> b \<le> 0xF4 then
       (case bs of
          c1 # c2 # c3 # r \<Rightarrow>
            (if b = 0xF0 then 0x90 \<le> c1 \<and> c1 \<le> 0xBF
             else if b = 0xF4 then 0x80 \<le> c1 \<and> c1 \<le> 0x8F
             else utf8_cont c1) \<and> utf8_cont c2 \<and> utf8_cont c3 \<and> utf8_valid r
        | _ \<Rightarrow> False)
     else False)"

text \<open>An ASCII literal of the source (\<open>b"..."\<close>) as its bytes.\<close>

definition ascii :: "string \<Rightarrow> bytes" where
  "ascii cs = map of_char cs"

text \<open>The \<open>?\<close> operator on a \<open>Result\<close>, and \<open>Option::ok_or\<close>, \<open>Result::ok\<close>.\<close>

definition rbind :: "'e + 'a \<Rightarrow> ('a \<Rightarrow> 'e + 'b) \<Rightarrow> 'e + 'b" where
  "rbind r f = (case r of Inl e \<Rightarrow> Inl e | Inr x \<Rightarrow> f x)"

definition ok_or :: "'e \<Rightarrow> 'a option \<Rightarrow> 'e + 'a" where
  "ok_or e x = (case x of None \<Rightarrow> Inl e | Some a \<Rightarrow> Inr a)"

definition result_ok :: "'e + 'a \<Rightarrow> 'a option" where
  "result_ok r = (case r of Inl _ \<Rightarrow> None | Inr x \<Rightarrow> Some x)"

text \<open>\<open>if cond { return Err(e) }\<close>.\<close>

definition refuse_if :: "bool \<Rightarrow> 'e \<Rightarrow> 'e + unit" where
  "refuse_if c e = (if c then Inl e else Inr ())"

lemma try_from_code [code]:
  "u32_try_from n = (if int n < 4294967296 then Some (of_nat n) else None)"
  "u16_try_from n = (if int n < 65536 then Some (of_nat n) else None)"
  "u8_try_from n = (if int n < 256 then Some (of_nat n) else None)"
  by (simp_all add: u32_try_from_def u16_try_from_def u8_try_from_def)

lemma split_at_checked_Some:
  "split_at_checked n xs = Some (ys, zs) \<longleftrightarrow> length ys = n \<and> xs = ys @ zs"
  by (auto simp: split_at_checked_def)

lemma split_at_checked_append [simp]:
  "length ys = n \<Longrightarrow> split_at_checked n (ys @ zs) = Some (ys, zs)"
  by (simp add: split_at_checked_Some)

lemma split_be_Some:
  "split_at_checked 8 xs = Some (front, rest) \<longleftrightarrow> xs = u64_to_be (u64_from_be front) @ rest \<and> length front = 8"
  "split_at_checked 4 xs = Some (front, rest) \<longleftrightarrow> xs = u32_to_be (u32_from_be front) @ rest \<and> length front = 4"
  "split_at_checked 2 xs = Some (front, rest) \<longleftrightarrow> xs = u16_to_be (u16_from_be front) @ rest \<and> length front = 2"
  by (auto simp: split_at_checked_Some u64_to_from_be u32_to_from_be u16_to_from_be)

lemma split_be_ex:
  "(\<exists>front. split_at_checked 8 xs = Some (front, rest) \<and> P (u64_from_be front)) \<longleftrightarrow>
   (\<exists>w. xs = u64_to_be w @ rest \<and> P w)"
  "(\<exists>front. split_at_checked 4 xs = Some (front, rest) \<and> P' (u32_from_be front)) \<longleftrightarrow>
   (\<exists>w. xs = u32_to_be w @ rest \<and> P' w)"
  by (auto simp: split_at_checked_Some) (metis length_u64_to_be u64_from_to_be u64_to_from_be
      length_u32_to_be u32_from_to_be u32_to_from_be)+

lemma split_first_Some: "split_first xs = Some (y, zs) \<longleftrightarrow> xs = y # zs"
  by (auto simp: split_first_def split: list.splits)

lemma split_first_simps [simp]:
  "split_first [] = None" "split_first (x # xs) = Some (x, xs)"
  by (simp_all add: split_first_def)

lemma starts_with_append [simp]: "starts_with (p @ xs) p"
  by (simp add: starts_with_def)

lemma starts_with_iff: "starts_with xs p \<longleftrightarrow> (\<exists>ys. xs = p @ ys)"
  unfolding starts_with_def by (metis append_eq_conv_conj append_take_drop_id)

lemma u32_try_from_Some: "u32_try_from n = Some w \<longleftrightarrow> unat w = n"
  using unat_u32_less [of w] by (auto simp: u32_try_from_def word_unat_eq_iff unat_of_nat_u32)

lemma u16_try_from_Some: "u16_try_from n = Some w \<longleftrightarrow> unat w = n"
  using unat_u16_less [of w] by (auto simp: u16_try_from_def word_unat_eq_iff unat_of_nat_u16)

lemma u8_try_from_Some: "u8_try_from n = Some w \<longleftrightarrow> unat w = n"
  using unat_byte_less [of w]
  by (auto simp: u8_try_from_def word_unat_eq_iff unat_of_nat)

lemma length_ascii [simp]: "length (ascii cs) = length cs"
  by (simp add: ascii_def)

lemma rbind_Inr [simp]: "rbind (Inr x) f = f x"
  and rbind_Inl [simp]: "rbind (Inl e) f = Inl e"
  by (simp_all add: rbind_def)

lemma rbind_eq_Inr: "rbind r f = Inr y \<longleftrightarrow> (\<exists>x. r = Inr x \<and> f x = Inr y)"
  by (cases r) auto

lemma rbind_eq_Inl:
  "rbind r f = Inl e \<longleftrightarrow> r = Inl e \<or> (\<exists>x. r = Inr x \<and> f x = Inl e)"
  by (cases r) auto

lemma rbind_cong [fundef_cong]:
  "r = r' \<Longrightarrow> (\<And>x. r' = Inr x \<Longrightarrow> f x = g x) \<Longrightarrow> rbind r f = rbind r' g"
  by (cases r') auto

lemma ok_or_simps [simp]: "ok_or e None = Inl e" "ok_or e (Some x) = Inr x"
  by (simp_all add: ok_or_def)

lemma ok_or_eq_Inr: "ok_or e x = Inr y \<longleftrightarrow> x = Some y"
  by (cases x) auto

lemma result_ok_simps [simp]: "result_ok (Inl e) = None" "result_ok (Inr x) = Some x"
  by (simp_all add: result_ok_def)

lemma result_ok_Some: "result_ok r = Some x \<longleftrightarrow> r = Inr x"
  by (cases r) auto

lemma refuse_if_Inr [simp]: "refuse_if c e = Inr u \<longleftrightarrow> \<not> c"
  by (simp add: refuse_if_def)

lemma refuse_if_Inl [simp]: "refuse_if c e = Inl e' \<longleftrightarrow> c \<and> e' = e"
  by (auto simp: refuse_if_def)

lemma refuse_if_simps [simp]: "refuse_if False e = Inr ()" "refuse_if True e = Inl e"
  by (simp_all add: refuse_if_def)

lemmas option_bind_simps = Option.bind_eq_Some_conv Option.bind_eq_None_conv

subsection \<open>Counted loops\<close>

text \<open>
  \<open>for _ in 0..count { let (x, r) = take(rest)?; xs.push(x); rest = r; }\<close> and the loop that
  writes such a sequence, for both kinds of fallible step.
\<close>

fun take_many :: "(bytes \<Rightarrow> ('a \<times> bytes) option) \<Rightarrow> nat \<Rightarrow> bytes \<Rightarrow> ('a list \<times> bytes) option" where
  "take_many f 0 bs = Some ([], bs)"
| "take_many f (Suc n) bs =
    do { (x, bs1) \<leftarrow> f bs; (xs, bs2) \<leftarrow> take_many f n bs1; Some (x # xs, bs2) }"

fun put_many :: "('a \<Rightarrow> bytes option) \<Rightarrow> 'a list \<Rightarrow> bytes option" where
  "put_many f [] = Some []"
| "put_many f (x # xs) = do { h \<leftarrow> f x; t \<leftarrow> put_many f xs; Some (h @ t) }"

fun rtake_many :: "(bytes \<Rightarrow> 'e + ('a \<times> bytes)) \<Rightarrow> nat \<Rightarrow> bytes \<Rightarrow> 'e + ('a list \<times> bytes)" where
  "rtake_many f 0 bs = Inr ([], bs)"
| "rtake_many f (Suc n) bs =
    rbind (f bs) (\<lambda>(x, bs1). rbind (rtake_many f n bs1) (\<lambda>(xs, bs2). Inr (x # xs, bs2)))"

fun rput_many :: "('a \<Rightarrow> 'e + bytes) \<Rightarrow> 'a list \<Rightarrow> 'e + bytes" where
  "rput_many f [] = Inr []"
| "rput_many f (x # xs) = rbind (f x) (\<lambda>h. rbind (rput_many f xs) (\<lambda>t. Inr (h @ t)))"

lemma rput_many_bytes:
  "(\<And>x. x \<in> set xs \<Longrightarrow> f x = Inr (b x)) \<Longrightarrow> rput_many f xs = Inr (concat (map b xs))"
  by (induction xs) auto

lemma result_ok_rtake_many:
  "result_ok (rtake_many f n bs) = take_many (\<lambda>b. result_ok (f b)) n bs"
proof (induction n arbitrary: bs)
  case (Suc n)
  show ?case
  proof (cases "f bs")
    case (Inr p)
    obtain x bs1 where p: "p = (x, bs1)" by (cases p)
    show ?thesis
      using Suc.IH [of bs1, symmetric] Inr p
      by (cases "rtake_many f n bs1") (auto split: prod.splits)
  qed simp
qed simp

lemma result_ok_rput_many: "result_ok (rput_many f xs) = put_many (\<lambda>x. result_ok (f x)) xs"
proof (induction xs)
  case (Cons x xs)
  then show ?case
    by (cases "f x"; cases "rput_many f xs") (simp_all add: Cons.IH [symmetric])
qed simp

subsection \<open>Prefix codecs\<close>

text \<open>
  The contract between a codec and the codecs built on it: the decoder reads exactly what the
  encoder writes, from the front of a buffer, and returns what follows. \<open>wf\<close> is the type
  invariant of the encoded value (a string's bytes are UTF-8, an array has its length). The law
  is an equivalence, so a codec is both lossless and canonical: no other bytes decode to the
  value.
\<close>

locale prefix_codec =
  fixes enc :: "'a \<Rightarrow> bytes option"
    and dec :: "bytes \<Rightarrow> ('a \<times> bytes) option"
    and wf :: "'a \<Rightarrow> bool"
  assumes dec_iff: "dec bs = Some (a, rest) \<longleftrightarrow> wf a \<and> (\<exists>out. enc a = Some out \<and> bs = out @ rest)"
begin

lemma dec_enc: "wf a \<Longrightarrow> enc a = Some out \<Longrightarrow> dec (out @ rest) = Some (a, rest)"
  by (simp add: dec_iff)

lemma take_many_iff:
  "take_many dec n bs = Some (xs, rest) \<longleftrightarrow>
     length xs = n \<and> list_all wf xs \<and> (\<exists>out. put_many enc xs = Some out \<and> bs = out @ rest)"
proof (induction n arbitrary: bs xs)
  case 0
  show ?case by (auto simp: list_all_iff)
next
  case (Suc n)
  show ?case
  proof (cases xs)
    case Nil
    then show ?thesis by (auto simp: option_bind_simps)
  next
    case (Cons y ys)
    then show ?thesis
      by (auto simp: option_bind_simps Suc.IH dec_iff)
  qed
qed

text \<open>A \<open>u32\<close> count followed by that many items.\<close>

lemma counted_iff:
  "(\<exists>count tail. bs = u32_to_be count @ tail \<and> take_many dec (unat count) tail = Some (xs, rest)) \<longleftrightarrow>
   list_all wf xs \<and> (\<exists>count out. u32_try_from (length xs) = Some count \<and>
      put_many enc xs = Some out \<and> bs = u32_to_be count @ out @ rest)"
  by (auto simp: take_many_iff u32_try_from_Some)

end

text \<open>The same contract for codecs that report why they refuse.\<close>

locale result_codec =
  fixes enc :: "'a \<Rightarrow> 'e + bytes"
    and dec :: "bytes \<Rightarrow> 'e + ('a \<times> bytes)"
    and wf :: "'a \<Rightarrow> bool"
  assumes rdec_iff: "dec bs = Inr (a, rest) \<longleftrightarrow> wf a \<and> (\<exists>out. enc a = Inr out \<and> bs = out @ rest)"

sublocale result_codec \<subseteq> plain: prefix_codec
  "\<lambda>a. result_ok (enc a)" "\<lambda>bs. result_ok (dec bs)" wf
  by unfold_locales (simp add: result_ok_Some rdec_iff)

context result_codec
begin

lemma rtake_many_iff:
  "rtake_many dec n bs = Inr (xs, rest) \<longleftrightarrow>
     length xs = n \<and> list_all wf xs \<and> (\<exists>out. rput_many enc xs = Inr out \<and> bs = out @ rest)"
  using plain.take_many_iff [of n bs xs rest]
  by (simp add: result_ok_Some flip: result_ok_rtake_many result_ok_rput_many)

end

subsection \<open>Hash maps\<close>

text \<open>\<open>map.get(k).unwrap_or(d)\<close>, and the value \<open>map.entry(k).or_insert(d)\<close> yields.\<close>

definition fmget :: "'v \<Rightarrow> ('k, 'v) fmap \<Rightarrow> 'k \<Rightarrow> 'v" where
  "fmget d m k = (case fmlookup m k of None \<Rightarrow> d | Some v \<Rightarrow> v)"

lemma fmget_simps [simp]:
  "fmget d fmempty k = d" "fmget d (fmupd j v m) k = (if j = k then v else fmget d m k)"
  by (simp_all add: fmget_def)

lemma fmget_lookup: "fmlookup m k = Some v \<Longrightarrow> fmget d m k = v"
  by (simp add: fmget_def)

text \<open>Inserting the entries of a map one by one into an empty map gives the map back.\<close>

lemma fmlookup_fold_fmupd:
  "fmlookup (fold (\<lambda>(k, v). fmupd k v) xs m) j =
   (case map_of (rev xs) j of None \<Rightarrow> fmlookup m j | Some v \<Rightarrow> Some v)"
proof (induction xs arbitrary: m)
  case (Cons x xs)
  then show ?case by (cases x) (auto simp: map_add_def split: option.splits)
qed simp

lemma distinct_sorted_list_of_fmap: "distinct (map fst (sorted_list_of_fmap m))"
  by (simp add: sorted_list_of_fmap_def o_def sorted_list_of_fset.rep_eq)

lemma fold_fmupd_sorted_list:
  "fold (\<lambda>(k, v). fmupd k v) (sorted_list_of_fmap m) fmempty = m"
proof (rule fmap_ext)
  fix k
  have "map_of (rev (sorted_list_of_fmap m)) = map_of (sorted_list_of_fmap m)"
    using distinct_sorted_list_of_fmap [of m]
    by (intro map_of_inject_set [THEN iffD2]) (auto simp: rev_map [symmetric])
  then show "fmlookup (fold (\<lambda>(k, v). fmupd k v) (sorted_list_of_fmap m) fmempty) k = fmlookup m k"
    by (simp add: fmlookup_fold_fmupd split: option.splits)
qed

lemma in_sorted_list_of_fmap: "(k, v) \<in> set (sorted_list_of_fmap m) \<longleftrightarrow> fmlookup m k = Some v"
  using distinct_sorted_list_of_fmap [of m] by (simp flip: map_of_eq_Some_iff)

text \<open>
  A sum over the entries of a map, computed in key order (the order does not matter), and how an
  insertion changes it.
\<close>

definition fmsum :: "('k::linorder \<Rightarrow> 'v \<Rightarrow> nat) \<Rightarrow> ('k, 'v) fmap \<Rightarrow> nat" where
  "fmsum f m = sum_list (map (\<lambda>(k, v). f k v) (sorted_list_of_fmap m))"

lemma fmsum_sum: "fmsum f m = (\<Sum>k \<in> fset (fmdom m). f k (the (fmlookup m k)))"
  by (simp add: fmsum_def sorted_list_of_fmap_def o_def sum_list_distinct_conv_sum_set
      sorted_list_of_fset.rep_eq)

lemma fmsum_empty [simp]: "fmsum f fmempty = 0"
  by (simp add: fmsum_sum)

lemma fmsum_fmupd:
  "f k d = 0 \<Longrightarrow> fmsum f (fmupd k v m) + f k (fmget d m k) = fmsum f m + f k v"
proof -
  let ?g = "\<lambda>j. f j (the (fmlookup m j))"
  have d: "fset (fmdom (fmupd k v m)) = insert k (fset (fmdom m) - {k})" by auto
  have "fmsum f (fmupd k v m) = f k v + sum ?g (fset (fmdom m) - {k})"
    unfolding fmsum_sum d by (subst sum.insert) (auto intro!: sum.cong split: if_splits)
  moreover have "fmsum f m = sum ?g (fset (fmdom m) - {k})
      + (case fmlookup m k of None \<Rightarrow> 0 | Some w \<Rightarrow> f k w)"
    by (cases "fmlookup m k")
      (auto simp: fmsum_sum fmlookup_dom_iff fmdom_notI intro!: sum.remove [THEN trans] sum.cong)
  moreover assume "f k d = 0"
  ultimately show ?thesis by (simp add: fmget_def split: option.splits)
qed

lemma fmsum_ge: "f k d = 0 \<Longrightarrow> f k (fmget d m k) \<le> fmsum f m"
  unfolding fmget_def fmsum_sum
  by (cases "fmlookup m k") (auto intro: fmdomI order_trans [OF _ member_le_sum [of k]])

subsection \<open>Changing the first match in a list\<close>

text \<open>
  \<open>iter_mut().find(P)\<close>, and then an operation on the item found, which answers and changes it.
\<close>

fun with_first :: "('a \<Rightarrow> bool) \<Rightarrow> ('a \<Rightarrow> 'r \<times> 'a) \<Rightarrow> 'a list \<Rightarrow> ('r \<times> 'a list) option" where
  "with_first P f [] = None"
| "with_first P f (x # xs) =
    (if P x then (case f x of (r, y) \<Rightarrow> Some (r, y # xs))
     else map_option (\<lambda>(r, ys). (r, x # ys)) (with_first P f xs))"

lemma with_first_at:
  "\<forall>a \<in> set as. \<not> P a \<Longrightarrow> P x \<Longrightarrow> with_first P f (as @ x # bs) = Some (fst (f x), as @ snd (f x) # bs)"
  by (induction as) (simp_all split: prod.split)

lemma with_first_cases:
  obtains (none) "with_first P f xs = None" "\<forall>x \<in> set xs. \<not> P x"
  | (found) as x bs where "xs = as @ x # bs" "P x" "\<forall>a \<in> set as. \<not> P a"
      "with_first P f xs = Some (fst (f x), as @ snd (f x) # bs)"
proof (cases "\<exists>x \<in> set xs. P x")
  case True
  then obtain as x bs where x: "xs = as @ x # bs" "P x" "\<forall>a \<in> set as. \<not> P a"
    by (metis split_list_first_prop)
  then show thesis using found [OF x] with_first_at [of as P x f bs] by simp
next
  case False
  then have "with_first P f xs = None" by (induction xs) auto
  then show thesis using none False by blast
qed

subsection \<open>Lists of records that develop in place\<close>

text \<open>
  A list whose items keep their places and develop by \<open>le\<close>, with new items added at the end.
\<close>

definition extends :: "('a \<Rightarrow> 'a \<Rightarrow> bool) \<Rightarrow> 'a list \<Rightarrow> 'a list \<Rightarrow> bool" where
  "extends le xs ys \<longleftrightarrow> length xs \<le> length ys \<and> list_all2 le xs (take (length xs) ys)"

lemma extends_append: "(\<And>x. le x x) \<Longrightarrow> extends le xs (xs @ ys)"
  by (simp add: extends_def list_all2_refl)

lemma extends_refl: "(\<And>x. le x x) \<Longrightarrow> extends le xs xs"
  using extends_append [of le xs "[]"] by simp

lemma extends_update: "(\<And>x. le x x) \<Longrightarrow> le x y \<Longrightarrow> extends le (as @ x # bs) (as @ y # bs)"
  by (simp add: extends_def list_all2_refl list_all2_appendI)

lemma extends_map: "(\<And>x. x \<in> set xs \<Longrightarrow> le x (f x)) \<Longrightarrow> extends le xs (map f xs)"
  by (simp add: extends_def list_all2_map2 list_all2_same)

lemma extends_mono:
  "extends le xs ys \<Longrightarrow> (\<And>x y. x \<in> set xs \<Longrightarrow> le x y \<Longrightarrow> le' x y) \<Longrightarrow> extends le' xs ys"
  unfolding extends_def by (blast intro: list.rel_mono_strong)

lemma extends_trans:
  assumes "\<And>x y z. le x y \<Longrightarrow> le y z \<Longrightarrow> le x z" "extends le xs ys" "extends le ys zs"
  shows "extends le xs zs"
proof -
  have "list_all2 le (take (length xs) ys) (take (length xs) (take (length ys) zs))"
    using assms(3) unfolding extends_def by (blast intro: list_all2_takeI)
  then have "list_all2 le xs (take (length xs) zs)"
    using assms(2,3) by (auto simp: extends_def min_absorb1 intro: list_all2_trans [rotated] assms(1))
  then show ?thesis using assms(2,3) by (simp add: extends_def)
qed

subsection \<open>State machines\<close>

text \<open>
  Every stateful component is driven by a sequence of operations. A step function takes an
  operation and the state to the answer and the next state; \<open>run\<close> gives the answers of a whole
  sequence in order and the final state.
\<close>

fun run :: "('op \<Rightarrow> 's \<Rightarrow> 'r \<times> 's) \<Rightarrow> 'op list \<Rightarrow> 's \<Rightarrow> 'r list \<times> 's" where
  "run step [] s = ([], s)"
| "run step (x # xs) s =
    (let (r, s1) = step x s; (rs, s2) = run step xs s1 in (r # rs, s2))"

abbreviation final :: "('op \<Rightarrow> 's \<Rightarrow> 'r \<times> 's) \<Rightarrow> 'op list \<Rightarrow> 's \<Rightarrow> 's" where
  "final step xs s \<equiv> snd (run step xs s)"

abbreviation answers :: "('op \<Rightarrow> 's \<Rightarrow> 'r \<times> 's) \<Rightarrow> 'op list \<Rightarrow> 's \<Rightarrow> 'r list" where
  "answers step xs s \<equiv> fst (run step xs s)"

lemma final_Nil [simp]: "final step [] s = s"
  by simp

lemma final_Cons [simp]: "final step (x # xs) s = final step xs (snd (step x s))"
  by (simp add: Let_def split: prod.splits)

lemma answers_Cons [simp]:
  "answers step (x # xs) s = fst (step x s) # answers step xs (snd (step x s))"
  by (simp add: Let_def split: prod.splits)

lemma final_append: "final step (xs @ ys) s = final step ys (final step xs s)"
  by (induction xs arbitrary: s) (simp_all del: run.simps(2))

lemma length_answers [simp]: "length (answers step xs s) = length xs"
  by (induction xs arbitrary: s) (simp_all del: run.simps(2))

declare run.simps(2) [simp del]

text \<open>An invariant that every step keeps holds after every run.\<close>

locale invariant_machine =
  fixes step :: "'op \<Rightarrow> 's \<Rightarrow> 'r \<times> 's"
    and inv :: "'s \<Rightarrow> bool"
  assumes step_inv: "inv s \<Longrightarrow> inv (snd (step x s))"
begin

lemma run_inv: "inv s \<Longrightarrow> inv (final step xs s)"
  by (induction xs arbitrary: s) (simp_all add: step_inv)

end

text \<open>
  A machine whose steps only move its state up in a preorder (under its invariant): a cursor
  that never rewinds, a binding that never changes.
\<close>

locale monotone_machine = invariant_machine +
  fixes le :: "'b \<Rightarrow> 'b \<Rightarrow> bool"
  assumes le_refl: "le s s"
    and le_trans: "le s t \<Longrightarrow> le t u \<Longrightarrow> le s u"
    and step_le: "inv s \<Longrightarrow> le s (snd (step x s))"
begin

lemma run_le: "inv s \<Longrightarrow> le s (final step xs s)"
  by (induction xs arbitrary: s) (auto intro: le_refl le_trans step_le step_inv)

lemma run_le_between: "inv s \<Longrightarrow> le (final step xs s) (final step (xs @ ys) s)"
  by (simp add: final_append run_le run_inv)

end

text \<open>
  A detailed machine refines an abstract one when related states give the same answers and step
  to related states.
\<close>

locale simulation =
  fixes cstep :: "'op \<Rightarrow> 'c \<Rightarrow> 'r \<times> 'c"
    and astep :: "'op \<Rightarrow> 'a \<Rightarrow> 'r \<times> 'a"
    and rel :: "'c \<Rightarrow> 'a \<Rightarrow> bool"
  assumes step_answer: "rel c a \<Longrightarrow> fst (cstep x c) = fst (astep x a)"
    and step_rel: "rel c a \<Longrightarrow> rel (snd (cstep x c)) (snd (astep x a))"
begin

lemma run_sim:
  "rel c a \<Longrightarrow>
     answers cstep xs c = answers astep xs a \<and> rel (final cstep xs c) (final astep xs a)"
  by (induction xs arbitrary: c a) (auto simp: step_answer step_rel)

end

end
