(* ===== verification/Wire.thy ===== *)
theory Wire
  imports Tacenta_Prelude
begin

text \<open>
  The envelope format of crate \<^verbatim>\<open>tacenta-wire\<close>: the envelope kinds, the strict codec of
  one envelope, and the streaming codec of a buffer of envelopes.  The two
  claims say that each decoder is exactly the inverse of its encoder: it
  accepts the bytes the encoder emits and no others.
\<close>

section \<open>Definitions\<close>

definition WIRE_VERSION :: u16 where "WIRE_VERSION = 1"

definition HEADER_LEN :: nat where "HEADER_LEN = 7"

datatype kind = Dm | Group | Receipt

primrec kind_to_byte :: "kind \<Rightarrow> byte" where
  "kind_to_byte Dm = 1"
| "kind_to_byte Group = 2"
| "kind_to_byte Receipt = 3"

definition kind_from_byte :: "byte \<Rightarrow> kind option" where
  "kind_from_byte b =
     (if b = 1 then Some Dm else if b = 2 then Some Group
      else if b = 3 then Some Receipt else None)"

record envelope =
  env_kind :: kind
  env_payload :: bytes

definition encode :: "envelope \<Rightarrow> bytes option" where
  "encode e =
     (case u32_try_from (length (env_payload e)) of
        None \<Rightarrow> None
      | Some len \<Rightarrow>
          Some (u16_to_be WIRE_VERSION @ [kind_to_byte (env_kind e)] @ u32_to_be len
                @ env_payload e))"

definition decode :: "bytes \<Rightarrow> envelope option" where
  "decode bytes = do {
     version \<leftarrow> slice_get 0 2 bytes;
     if u16_from_be version \<noteq> WIRE_VERSION then None else do {
       kind_byte \<leftarrow> index_get 2 bytes;
       kind \<leftarrow> kind_from_byte kind_byte;
       len_field \<leftarrow> slice_get 3 HEADER_LEN bytes;
       payload \<leftarrow> slice_from HEADER_LEN bytes;
       if length payload \<noteq> unat (u32_from_be len_field) then None
       else Some \<lparr>env_kind = kind, env_payload = payload\<rparr>
     }
   }"

definition decode_one :: "bytes \<Rightarrow> (envelope \<times> bytes) option" where
  "decode_one bytes = do {
     version \<leftarrow> slice_get 0 2 bytes;
     if u16_from_be version \<noteq> WIRE_VERSION then None else do {
       kind_byte \<leftarrow> index_get 2 bytes;
       kind \<leftarrow> kind_from_byte kind_byte;
       len_field \<leftarrow> slice_get 3 HEADER_LEN bytes;
       let len = unat (u32_from_be len_field);
       after_header \<leftarrow> slice_from HEADER_LEN bytes;
       payload \<leftarrow> slice_get 0 len after_header;
       rest \<leftarrow> slice_from len after_header;
       Some (\<lparr>env_kind = kind, env_payload = payload\<rparr>, rest)
     }
   }"

fun encode_stream_loop :: "bytes \<Rightarrow> envelope list \<Rightarrow> bytes option" where
  "encode_stream_loop out [] = Some out"
| "encode_stream_loop out (e # es) =
     (case encode e of None \<Rightarrow> None | Some b \<Rightarrow> encode_stream_loop (out @ b) es)"

definition encode_stream :: "envelope list \<Rightarrow> bytes option" where
  "encode_stream envelopes = encode_stream_loop [] envelopes"

section \<open>One envelope\<close>

lemma kind_from_to_byte [simp]: "kind_from_byte (kind_to_byte k) = Some k"
  by (cases k) (simp_all add: kind_from_byte_def)

lemma kind_from_byte_Some: "kind_from_byte b = Some k \<longleftrightarrow> b = kind_to_byte k"
  by (cases k) (auto simp: kind_from_byte_def)

lemma encode_Some:
  "encode e = Some out \<longleftrightarrow>
   length (env_payload e) < 2 ^ 32 \<and>
   out = u16_to_be WIRE_VERSION @ [kind_to_byte (env_kind e)]
         @ u32_to_be (of_nat (length (env_payload e))) @ env_payload e"
  by (auto simp: encode_def u32_try_from_def)

text \<open>The buffer a decoder accepts, split into the fields of the header and the rest.\<close>

lemma seven_bytes:
  assumes "7 \<le> length bytes"
  obtains v0 v1 k l0 l1 l2 l3 rest where "bytes = [v0, v1, k, l0, l1, l2, l3] @ rest"
  using assms that by (auto simp: numeral_eq_Suc Suc_le_length_iff)

lemmas get_defs = slice_get_def slice_from_def index_get_def

lemma decode_one_fields:
  "decode_one ([v0, v1, k, l0, l1, l2, l3] @ rest) = Some (e, left) \<longleftrightarrow>
   u16_from_be [v0, v1] = WIRE_VERSION \<and> kind_from_byte k = Some (env_kind e) \<and>
   length (env_payload e) = unat (u32_from_be [l0, l1, l2, l3]) \<and> rest = env_payload e @ left"
  by (cases e) (auto simp: decode_one_def get_defs HEADER_LEN_def option_bind_simps Let_def
      numeral_eq_Suc)

lemma decode_one_short: "length bytes < 7 \<Longrightarrow> decode_one bytes = None"
  by (auto simp: decode_one_def get_defs HEADER_LEN_def option_bind_simps)

lemma encode_fields:
  "encode e = Some ([v0, v1, k, l0, l1, l2, l3] @ payload) \<longleftrightarrow>
   u16_from_be [v0, v1] = WIRE_VERSION \<and> kind_from_byte k = Some (env_kind e) \<and>
   length (env_payload e) = unat (u32_from_be [l0, l1, l2, l3]) \<and> payload = env_payload e"
    (is "?enc \<longleftrightarrow> ?fields")
proof
  assume ?enc
  then have len: "length (env_payload e) < 2 ^ 32"
    and "([v0, v1] @ [k] @ [l0, l1, l2, l3]) @ payload =
         (u16_to_be WIRE_VERSION @ [kind_to_byte (env_kind e)]
          @ u32_to_be (of_nat (length (env_payload e)))) @ env_payload e"
    by (simp_all add: encode_Some)
  then have "[v0, v1] = u16_to_be WIRE_VERSION \<and> k = kind_to_byte (env_kind e) \<and>
      [l0, l1, l2, l3] = u32_to_be (of_nat (length (env_payload e))) \<and> payload = env_payload e"
    by (simp add: u16_to_be_code u32_to_be_code)
  with len show ?fields by (simp add: unat_of_nat_u32)
next
  assume f: ?fields
  have "u16_to_be WIRE_VERSION = [v0, v1]" using f u16_to_from_be [of "[v0, v1]"] by simp
  moreover have "u32_to_be (of_nat (length (env_payload e))) = [l0, l1, l2, l3]"
    using f u32_to_from_be [of "[l0, l1, l2, l3]"] by simp
  moreover have "length (env_payload e) < 2 ^ 32" using f by simp
  ultimately show ?enc using f by (simp add: encode_Some kind_from_byte_Some)
qed

lemma encode_length: "encode e = Some out \<Longrightarrow> 7 \<le> length out"
  by (auto simp: encode_Some)

lemma decode_one_iff:
  "decode_one bytes = Some (e, left) \<longleftrightarrow> (\<exists>out. encode e = Some out \<and> bytes = out @ left)"
    (is "?dec bytes \<longleftrightarrow> ?enc bytes")
proof (cases "7 \<le> length bytes")
  case True
  then obtain v0 v1 k l0 l1 l2 l3 rest where b: "bytes = [v0, v1, k, l0, l1, l2, l3] @ rest"
    by (rule seven_bytes)
  show ?thesis
  proof
    assume "?dec bytes"
    then have "encode e = Some ([v0, v1, k, l0, l1, l2, l3] @ env_payload e)"
      and "rest = env_payload e @ left"
      unfolding b decode_one_fields encode_fields by simp_all
    then show "?enc bytes" using b by simp
  next
    assume "?enc bytes"
    then obtain out where out: "encode e = Some out" "bytes = out @ left" by blast
    obtain payload where "out = [v0, v1, k, l0, l1, l2, l3] @ payload"
      using out encode_length [OF out(1)] b
      by (elim seven_bytes) simp
    with out b show "?dec bytes"
      unfolding b decode_one_fields by (simp add: encode_fields [simplified])
  qed
next
  case False
  then show ?thesis using encode_length decode_one_short by fastforce
qed

interpretation envelope_codec: prefix_codec encode decode_one "\<lambda>_. True"
  by unfold_locales (simp add: decode_one_iff)

text \<open>The strict decoder is the streaming one with nothing left over.\<close>

lemma decode_decode_one: "decode bytes = Some e \<longleftrightarrow> decode_one bytes = Some (e, [])"
proof (cases "7 \<le> length bytes")
  case True
  then obtain v0 v1 k l0 l1 l2 l3 rest where b: "bytes = [v0, v1, k, l0, l1, l2, l3] @ rest"
    by (rule seven_bytes)
  show ?thesis
    unfolding b decode_one_fields
    by (cases e) (auto simp: decode_def get_defs HEADER_LEN_def option_bind_simps numeral_eq_Suc)
next
  case False
  then show ?thesis
    by (auto simp: decode_one_short decode_def get_defs HEADER_LEN_def option_bind_simps)
qed

text \<open>
  Strictness of the envelope codec: \<^const>\<open>decode\<close> accepts a buffer as an envelope exactly
  when \<^const>\<open>encode\<close> emits that buffer for that envelope.  Hence decoding an encoded envelope
  gives it back, and a wrong version, an unknown kind, a length field that disagrees with the
  payload or trailing bytes are all refused.
\<close>

theorem decode_iff_encode: "decode bytes = Some e \<longleftrightarrow> encode e = Some bytes"
  by (simp add: decode_decode_one decode_one_iff)

section \<open>Streams\<close>

lemma decode_one_shorter: "decode_one buf = Some (e, rest) \<Longrightarrow> length rest < length buf"
  using encode_length by (fastforce simp: decode_one_iff)

function decode_stream_loop :: "envelope list \<Rightarrow> bytes \<Rightarrow> envelope list option" where
  "decode_stream_loop out buf =
     (if buf = [] then Some out
      else case decode_one buf of
             None \<Rightarrow> None
           | Some (e, rest) \<Rightarrow> decode_stream_loop (out @ [e]) rest)"
  by pat_completeness auto

termination
  by (relation "measure (\<lambda>(out, buf). length buf)") (auto dest: decode_one_shorter)

declare decode_stream_loop.simps [simp del]

definition decode_stream :: "bytes \<Rightarrow> envelope list option" where
  "decode_stream bytes = decode_stream_loop [] bytes"

lemma encode_stream_loop_put_many:
  "encode_stream_loop out es = map_option (\<lambda>b. out @ b) (put_many encode es)"
  by (induction es arbitrary: out)
    (auto simp: map_option_bind o_def Option.bind_map_option split: option.splits bind_split)

lemma put_many_Nil: "put_many encode es = Some [] \<longleftrightarrow> es = []"
  by (cases es) (auto simp: option_bind_simps dest: encode_length split: option.splits)

lemma put_many_Cons_iff:
  "bytes \<noteq> [] \<Longrightarrow> put_many encode es = Some bytes \<longleftrightarrow>
   (\<exists>e rest es'. decode_one bytes = Some (e, rest) \<and> es = e # es' \<and>
      put_many encode es' = Some rest)"
  by (cases es) (auto simp: option_bind_simps decode_one_iff)

lemma decode_stream_loop_iff:
  "decode_stream_loop out bytes = Some es \<longleftrightarrow>
   (\<exists>es'. es = out @ es' \<and> put_many encode es' = Some bytes)"
proof (induction out bytes arbitrary: es rule: decode_stream_loop.induct)
  case (1 out buf)
  show ?case
  proof (cases "decode_one buf")
    case None
    then show ?thesis
      using put_many_Cons_iff [of buf] by (auto simp: decode_stream_loop.simps [of out buf] put_many_Nil)
  next
    case (Some p)
    obtain e rest where p: "p = (e, rest)" by (cases p)
    then have buf: "buf \<noteq> []" "\<exists>b. encode e = Some b \<and> buf = b @ rest"
      using Some encode_length [of e "[]"] by (auto simp: decode_one_iff)
    have "put_many encode es' = Some buf \<longleftrightarrow>
        (\<exists>es''. es' = e # es'' \<and> put_many encode es'' = Some rest)" for es'
      using put_many_Cons_iff [of buf es'] Some p buf by auto
    then show ?thesis
      using 1 [OF buf(1) Some p [symmetric]] Some p buf(1)
      by (auto simp: decode_stream_loop.simps [of out buf])
  qed
qed

text \<open>
  Unambiguous framing: a buffer decodes to a list of envelopes exactly when it is the
  encoding of that list, so concatenated envelopes are recovered one by one, in order, and the
  loop of \<^const>\<open>decode_stream\<close> ends on every input.
\<close>

theorem decode_stream_iff_encode_stream:
  "decode_stream bytes = Some es \<longleftrightarrow> encode_stream es = Some bytes"
  by (auto simp: decode_stream_def encode_stream_def decode_stream_loop_iff
      encode_stream_loop_put_many)

end
