(* ===== verification/Delivery.thy ===== *)
theory Delivery
  imports Tacenta_Prelude
begin

text \<open>
  Crate \<^verbatim>\<open>tacenta-state\<close>: the session of one device (an append-only log and a cursor of
  acknowledged messages) and the user with several devices (one log, one cursor per device).

  The locale \<open>delivery\<close> states the contract both keep, and that the relay's queues keep as well:
  whatever was accepted is handed out in order until it is acknowledged, nothing else is, and the
  cursor never moves back.  Its interpretations give the claims.
\<close>

section \<open>Session: the state of one device\<close>

record 'a session =
  session_log :: "'a list"
  session_cursor :: nat

definition session_new :: "'a session" where
  "session_new = \<lparr>session_log = [], session_cursor = 0\<rparr>"

text \<open>Slicing past the end panics: the panic is \<^const>\<open>None\<close>.\<close>

definition session_pending :: "'a session \<Rightarrow> 'a list option" where
  "session_pending s = slice_from (session_cursor s) (session_log s)"

definition session_retained :: "'a session \<Rightarrow> nat" where
  "session_retained s = length (session_log s)"

definition session_append :: "'a \<Rightarrow> 'a session \<Rightarrow> 'a session" where
  "session_append e s = s\<lparr>session_log := session_log s @ [e]\<rparr>"

definition session_ack :: "nat \<Rightarrow> 'a session \<Rightarrow> bool \<times> 'a session" where
  "session_ack n s =
     (if session_cursor s < n \<and> n \<le> length (session_log s)
      then (True, s\<lparr>session_cursor := n\<rparr>) else (False, s))"

datatype 'a session_op = Append 'a | Ack nat

primrec session_step :: "'a session_op \<Rightarrow> 'a session \<Rightarrow> bool \<times> 'a session" where
  "session_step (Append e) s = (True, session_append e s)"
| "session_step (Ack n) s = session_ack n s"

primrec session_accepted :: "'a session_op \<Rightarrow> bool \<Rightarrow> 'a list" where
  "session_accepted (Append e) r = [e]"
| "session_accepted (Ack n) r = []"

definition session_valid :: "'a session \<Rightarrow> bool" where
  "session_valid s = (session_cursor s \<le> length (session_log s))"

section \<open>User: several devices over one log\<close>

record 'a user =
  user_log :: "'a list"
  user_cursors :: "nat list"

definition user_new :: "'a user" where
  "user_new = \<lparr>user_log = [], user_cursors = []\<rparr>"

definition device_cursor :: "'a user \<Rightarrow> nat \<Rightarrow> nat" where
  "device_cursor u d =
     (if d < length (user_cursors u) then user_cursors u ! d else length (user_log u))"

definition device_pending :: "'a user \<Rightarrow> nat \<Rightarrow> 'a list option" where
  "device_pending u d = slice_from (device_cursor u d) (user_log u)"

fun delivered_loop :: "nat \<Rightarrow> nat list \<Rightarrow> nat" where
  "delivered_loop m [] = m"
| "delivered_loop m (c # cs) = delivered_loop (if c < m then c else m) cs"

definition delivered :: "'a user \<Rightarrow> nat" where
  "delivered u = delivered_loop (length (user_log u)) (user_cursors u)"

definition user_append :: "'a \<Rightarrow> 'a user \<Rightarrow> 'a user" where
  "user_append e u = u\<lparr>user_log := user_log u @ [e]\<rparr>"

definition link_device :: "'a user \<Rightarrow> nat \<times> 'a user" where
  "link_device u =
     (let u' = u\<lparr>user_cursors := user_cursors u @ [length (user_log u)]\<rparr>
      in (length (user_cursors u') - 1, u'))"

definition user_ack :: "nat \<Rightarrow> nat \<Rightarrow> 'a user \<Rightarrow> bool \<times> 'a user" where
  "user_ack d n u =
     (if d < length (user_cursors u) \<and> user_cursors u ! d < n \<and> n \<le> length (user_log u)
      then (True, u\<lparr>user_cursors := (user_cursors u)[d := n]\<rparr>) else (False, u))"

datatype 'a user_op = UAppend 'a | ULink | UAck nat nat

text \<open>The answer of a step: whether an ack was accepted, or the id of a linked device.\<close>

datatype user_answer = Done | Linked nat | Acked bool

primrec user_step :: "'a user_op \<Rightarrow> 'a user \<Rightarrow> user_answer \<times> 'a user" where
  "user_step (UAppend e) u = (Done, user_append e u)"
| "user_step ULink u = (let (d, u') = link_device u in (Linked d, u'))"
| "user_step (UAck d n) u = (let (ok, u') = user_ack d n u in (Acked ok, u'))"

primrec user_accepted :: "'a user_op \<Rightarrow> user_answer \<Rightarrow> 'a list" where
  "user_accepted (UAppend e) r = [e]"
| "user_accepted ULink r = []"
| "user_accepted (UAck d n) r = []"

definition user_valid :: "'a user \<Rightarrow> bool" where
  "user_valid u = (\<forall>c \<in> set (user_cursors u). c \<le> length (user_log u))"

section \<open>The delivery contract\<close>

text \<open>Everything a run accepted, in order.\<close>

primrec history ::
  "('op \<Rightarrow> 's \<Rightarrow> 'r \<times> 's) \<Rightarrow> ('op \<Rightarrow> 'r \<Rightarrow> 'a list) \<Rightarrow> 'op list \<Rightarrow> 's \<Rightarrow> 'a list" where
  "history step accepted [] s = []"
| "history step accepted (x # xs) s =
     (case step x s of (r, s') \<Rightarrow> accepted x r @ history step accepted xs s')"

lemma drop_drop_append: "i \<le> length xs \<Longrightarrow> drop j (drop i xs @ ys) = drop (j + i) (xs @ ys)"
  by (simp flip: drop_drop)

locale delivery = invariant_machine step inv
  for step :: "'op \<Rightarrow> 's \<Rightarrow> 'r \<times> 's" and inv :: "'s \<Rightarrow> bool" +
  fixes pending :: "'s \<Rightarrow> 'a list"
    and cursor :: "'s \<Rightarrow> nat"
    and accepted :: "'op \<Rightarrow> 'r \<Rightarrow> 'a list"
  assumes step_cursor: "inv s \<Longrightarrow> step x s = (r, s') \<Longrightarrow>
      cursor s \<le> cursor s' \<and> cursor s' \<le> cursor s + length (pending s @ accepted x r)"
    and step_pending: "inv s \<Longrightarrow> step x s = (r, s') \<Longrightarrow>
      pending s' = drop (cursor s' - cursor s) (pending s @ accepted x r)"
begin

lemma run_delivery:
  "inv s \<Longrightarrow>
   cursor s \<le> cursor (final step xs s) \<and>
   cursor (final step xs s) \<le> cursor s + length (pending s @ history step accepted xs s) \<and>
   pending (final step xs s) =
     drop (cursor (final step xs s) - cursor s) (pending s @ history step accepted xs s)"
proof (induction xs arbitrary: s)
  case (Cons x xs)
  obtain r s' where s': "step x s = (r, s')" by (cases "step x s")
  note c = step_cursor [OF Cons.prems s'] and p = step_pending [OF Cons.prems s']
  have "inv s'" using step_inv [OF Cons.prems, of x] s' by simp
  then have ih: "cursor s' \<le> cursor (final step xs s')"
    "cursor (final step xs s') \<le> cursor s' + length (pending s' @ history step accepted xs s')"
    "pending (final step xs s') = drop (cursor (final step xs s') - cursor s')
       (pending s' @ history step accepted xs s')"
    using Cons.IH [of s'] by auto
  have "pending (final step xs s') = drop (cursor (final step xs s') - cursor s)
      ((pending s @ accepted x r) @ history step accepted xs s')"
    using c ih unfolding p by (subst ih(3), subst p, subst drop_drop_append) auto
  then show ?case using c ih s' p by auto
qed simp

end

section \<open>Sessions keep the contract\<close>

lemmas session_defs = session_append_def session_ack_def session_valid_def session_new_def
  session_pending_def session_retained_def

lemma session_step_valid: "session_valid s \<Longrightarrow> session_valid (snd (session_step x s))"
  by (cases x) (auto simp: session_defs)

interpretation session: delivery session_step session_valid
  "\<lambda>s. drop (session_cursor s) (session_log s)" session_cursor session_accepted
proof (unfold_locales, rule session_step_valid)
  fix s s' :: "'a session" and x r
  assume s: "session_valid s" and s': "session_step x s = (r, s')"
  show "session_cursor s \<le> session_cursor s' \<and>
      session_cursor s' \<le> session_cursor s
        + length (drop (session_cursor s) (session_log s) @ session_accepted x r)"
    using s s' by (cases x) (auto simp: session_defs split: if_splits)
  show "drop (session_cursor s') (session_log s') =
      drop (session_cursor s' - session_cursor s)
        (drop (session_cursor s) (session_log s) @ session_accepted x r)"
    using s s' by (cases x) (auto simp: session_defs split: if_splits)
qed

lemma session_valid_new: "session_valid session_new"
  by (simp add: session_defs)

lemma session_log_run:
  "session_log (final session_step xs s) =
   session_log s @ history session_step session_accepted xs s"
proof (induction xs arbitrary: s)
  case (Cons x xs)
  then show ?case by (cases x) (auto simp: session_defs)
qed simp

text \<open>The positions a run acknowledged: those of the acks that were accepted.\<close>

primrec session_acked :: "'a session_op \<Rightarrow> bool \<Rightarrow> nat list" where
  "session_acked (Append e) r = []"
| "session_acked (Ack n) r = (if r then [n] else [])"

lemma session_cursor_run:
  "session_cursor (final session_step xs s) = last (session_cursor s # history session_step session_acked xs s)"
proof (induction xs arbitrary: s)
  case (Cons x xs)
  then show ?case by (cases x) (auto simp: session_defs)
qed simp

text \<open>
  C11.  No loss, no replay, no panic.  After any sequence of appends and acks on a fresh session,
  \<^const>\<open>session_pending\<close> returns exactly what was appended, in order, behind the position of the last
  accepted ack (everything, when there was none).  An ack is accepted when its position lies behind
  the one before and not past what was appended, and it is then the position; refused, it changes
  nothing.  Later operations never move the position back nor change the log already there.
\<close>

theorem session_exactly_once:
  "let s = final session_step xs session_new; s' = final session_step ys s;
       sent = history session_step session_accepted xs session_new;
       position = last (0 # history session_step session_acked xs session_new)
   in session_pending s = Some (drop position sent) \<and> session_cursor s = position \<and> position \<le> length sent \<and>
      session_ack n s = (if position < n \<and> n \<le> length sent then (True, s\<lparr>session_cursor := n\<rparr>) else (False, s)) \<and>
      position \<le> session_cursor s' \<and> take (length sent) (session_log s') = sent"
proof -
  let ?s = "final session_step xs session_new"
  have v: "session_valid ?s" using session.run_inv session_valid_new by blast
  have l: "session_log ?s = history session_step session_accepted xs session_new"
    using session_log_run [of xs session_new] by (simp add: session_new_def)
  have p: "session_cursor ?s = last (0 # history session_step session_acked xs session_new)"
    using session_cursor_run [of xs session_new] by (simp add: session_new_def)
  show ?thesis
    using v session.run_delivery [OF v, of ys] session_log_run [of ys ?s] l unfolding p [symmetric] Let_def
    by (simp add: session_pending_def slice_from_def session_valid_def session_ack_def)
qed

section \<open>Users\<close>

lemmas user_defs = user_append_def link_device_def user_ack_def user_valid_def user_new_def
  device_cursor_def Let_def

lemma user_step_valid: "user_valid u \<Longrightarrow> user_valid (snd (user_step x u))"
  by (cases x) (auto simp: user_defs dest: set_update_subset_insert [THEN subsetD])

lemma device_cursor_le: "user_valid u \<Longrightarrow> device_cursor u d \<le> length (user_log u)"
  by (auto simp: user_defs)

lemma user_log_step: "user_step x u = (r, u') \<Longrightarrow> user_log u' = user_log u @ user_accepted x r"
  by (cases x) (auto simp: user_defs split: if_splits)

lemma device_cursor_step:
  assumes "d < length (user_cursors u)" "user_step x u = (r, u')"
  shows "device_cursor u' d = (case x of UAck d' n \<Rightarrow>
      if d' = d \<and> device_cursor u d < n \<and> n \<le> length (user_log u) then n else device_cursor u d
    | _ \<Rightarrow> device_cursor u d) \<and> d < length (user_cursors u')"
  using assms by (cases x) (auto simp: user_defs nth_append nth_list_update split: if_splits)

lemma device_step:
  assumes "user_valid u" "d < length (user_cursors u)" "user_step x u = (r, u')"
  shows "device_cursor u d \<le> device_cursor u' d \<and> device_cursor u' d \<le> length (user_log u)"
  using device_cursor_le [OF assms(1), of d] device_cursor_step [OF assms(2,3)]
  by (auto split: user_op.splits)

primrec is_ack_of :: "nat \<Rightarrow> 'a user_op \<Rightarrow> bool" where
  "is_ack_of d (UAppend e) = False"
| "is_ack_of d ULink = False"
| "is_ack_of d (UAck d' n) = (d' = d)"

lemma device_cursor_run:
  "d < length (user_cursors u) \<Longrightarrow> \<not> list_ex (is_ack_of d) ys \<Longrightarrow>
   device_cursor (final user_step ys u) d = device_cursor u d"
proof (induction ys arbitrary: u)
  case (Cons y ys)
  obtain r u' where u': "user_step y u = (r, u')" by (cases "user_step y u")
  then show ?case
    using Cons device_cursor_step [OF Cons.prems(1) u'] by (cases y) auto
qed simp

text \<open>Each linked device keeps the delivery contract, whatever the other devices do.\<close>

interpretation device: delivery user_step "\<lambda>u. user_valid u \<and> d < length (user_cursors u)"
 
  "\<lambda>u. drop (device_cursor u d) (user_log u)" "\<lambda>u. device_cursor u d" user_accepted
  for d
proof unfold_locales
  fix u :: "'a user" and x
  assume "user_valid u \<and> d < length (user_cursors u)"
  then show "user_valid (snd (user_step x u)) \<and> d < length (user_cursors (snd (user_step x u)))"
    using user_step_valid device_cursor_step by (metis prod.collapse)
next
  fix u u' :: "'a user" and x r
  assume u: "user_valid u \<and> d < length (user_cursors u)" and u': "user_step x u = (r, u')"
  have c: "device_cursor u d \<le> length (user_log u)" using u device_cursor_le by blast
  note step = device_step [OF conjunct1 [OF u] conjunct2 [OF u] u']
  show "device_cursor u d \<le> device_cursor u' d \<and> device_cursor u' d \<le> device_cursor u d
      + length (drop (device_cursor u d) (user_log u) @ user_accepted x r)"
    using step c user_log_step [OF u'] by auto
  show "drop (device_cursor u' d) (user_log u') = drop (device_cursor u' d - device_cursor u d)
      (drop (device_cursor u d) (user_log u) @ user_accepted x r)"
    using step c user_log_step [OF u'] by (subst drop_drop_append) auto
qed

lemma less_delivered_loop: "k < delivered_loop m cs \<longleftrightarrow> k < m \<and> (\<forall>c \<in> set cs. k < c)"
  by (induction m cs rule: delivered_loop.induct) auto

lemma less_delivered:
  "k < delivered u \<longleftrightarrow> k < length (user_log u) \<and> (\<forall>c \<in> set (user_cursors u). k < c)"
  by (simp add: delivered_def less_delivered_loop)

lemma less_all_update: "k < c' \<Longrightarrow> \<forall>c \<in> set cs. k < c \<Longrightarrow> \<forall>c \<in> set (cs[d := c']). k < c"
  using set_update_subset_insert by fastforce

lemma delivered_step:
  assumes "user_valid u"
  shows "delivered u \<le> delivered (snd (user_step x u))"
proof -
  have "k < delivered (snd (user_step x u))" if k: "k < delivered u" for k
  proof (cases x)
    case (UAck d n)
    have "user_cursors u ! d \<in> set (user_cursors u)" if "d < length (user_cursors u)"
      using that by simp
    then show ?thesis
      using k UAck less_all_update [of k n "user_cursors u" d]
      by (fastforce simp: less_delivered user_defs split: if_splits)
  qed (use k in \<open>auto simp: less_delivered user_defs\<close>)
  then show ?thesis using not_less by blast
qed

interpretation user: monotone_machine user_step user_valid "\<lambda>u u'. delivered u \<le> delivered u'"
  by unfold_locales (auto intro: user_step_valid delivered_step)

lemma user_valid_new: "user_valid user_new"
  by (simp add: user_defs)

text \<open>
  C35.  Delivery to a user.  On every state reached from a fresh user: \<^const>\<open>delivered\<close> counts the
  messages every device has acknowledged; whatever happens next (a device linked or lagging, more
  messages), that count never goes down; and \<^const>\<open>device_pending\<close> never panics.
\<close>

theorem user_delivered:
  "let u = final user_step xs user_new; u' = final user_step ys u
   in (k < delivered u \<longleftrightarrow> k < length (user_log u) \<and>
        list_all (\<lambda>d. k < device_cursor u d) [0 ..< length (user_cursors u)]) \<and>
      delivered u \<le> delivered u' \<and> device_pending u d \<noteq> None"
proof -
  let ?u = "final user_step xs user_new"
  have v: "user_valid ?u" using user.run_inv user_valid_new by blast
  show ?thesis
    using user.run_le [OF v, of ys] device_cursor_le [OF v, of d]
    by (auto simp: Let_def less_delivered device_pending_def slice_from_def list_all_iff
        device_cursor_def all_set_conv_all_nth)
qed

text \<open>
  C36.  Device isolation.  Take any reachable user and a device \<open>d\<close> linked to it.  Whatever the
  following operations are, \<open>d\<close> is handed exactly what was pending for it followed by the messages
  appended since, in order, from its own cursor on; and if none of them is an ack of \<open>d\<close> itself,
  its cursor has not moved.
\<close>

theorem device_isolation:
  assumes "u = final user_step xs user_new" and "d < length (user_cursors u)"
    and "u' = final user_step ys u"
  shows "device_pending u' d = Some (drop (device_cursor u' d - device_cursor u d)
           (drop (device_cursor u d) (user_log u) @ history user_step user_accepted ys u)) \<and>
         (\<not> list_ex (is_ack_of d) ys \<longrightarrow> device_cursor u' d = device_cursor u d)"
proof -
  have v: "user_valid u \<and> d < length (user_cursors u)"
    using assms(1,2) user.run_inv user_valid_new by blast
  then have v': "user_valid u'" using assms(3) user.run_inv by blast
  show ?thesis
    using device.run_delivery [OF v, of ys] device_cursor_run [OF assms(2), of ys]
      device_cursor_le [OF v', of d] assms(3)
    by (simp add: device_pending_def slice_from_def)
qed

theorem device_isolation_witness:
  "device_pending (final user_step [UAck 1 1, UAppend (7 :: byte)]
       (final user_step [ULink, ULink, UAppend 5] user_new)) 0 = Some [5, 7]"
  using device_isolation [OF refl _ refl, of 0 "[ULink, ULink, UAppend (5 :: byte)]"
      "[UAck 1 1, UAppend 7]"]
  by (simp add: user_defs)

end
