(* ===== verification/Relay.thy ===== *)
theory Relay
  imports Wire Delivery
begin

text \<open>
  Crate \<^verbatim>\<open>tacenta-relay\<close>, \<^verbatim>\<open>lib.rs\<close>: one compacting queue per device, the count and byte
  budgets, and the relay over all queues with its two byte indices.

  The \<open>u64\<close> counters are words and wrap, as in the release build.  An operation that reads the
  pending slice returns \<^const>\<open>None\<close> where the slice would panic; the lemmas show that no state
  reached from an empty relay panics.  Vector lengths and their sums (\<open>usize\<close>) are naturals.
\<close>

section \<open>Addresses and messages\<close>

datatype device_addr = DeviceAddr (dev_user: bytes) (dev_device: u32)

text \<open>The order of snapshots: by user handle, then by device number.\<close>

instantiation device_addr :: linorder
begin

definition less_eq_device_addr :: "device_addr \<Rightarrow> device_addr \<Rightarrow> bool" where
  "less_eq_device_addr a b \<longleftrightarrow>
     dev_user a < dev_user b \<or> (dev_user a = dev_user b \<and> dev_device a \<le> dev_device b)"

definition less_device_addr :: "device_addr \<Rightarrow> device_addr \<Rightarrow> bool" where
  "less_device_addr a b \<longleftrightarrow>
     dev_user a < dev_user b \<or> (dev_user a = dev_user b \<and> dev_device a < dev_device b)"

instance
proof
  fix a b c :: device_addr
  show "(a < b) = (a \<le> b \<and> \<not> b \<le> a)"
    by (auto simp: less_eq_device_addr_def less_device_addr_def)
  show "a \<le> a" by (simp add: less_eq_device_addr_def)
  show "a \<le> b \<Longrightarrow> b \<le> c \<Longrightarrow> a \<le> c" by (auto simp: less_eq_device_addr_def)
  show "a \<le> b \<Longrightarrow> b \<le> a \<Longrightarrow> a = b" by (auto simp: less_eq_device_addr_def device_addr.expand)
  show "a \<le> b \<or> b \<le> a" by (auto simp: less_eq_device_addr_def)
qed

end

record stored_message =
  msg_from :: device_addr
  msg_envelope :: envelope

definition byte_len :: "stored_message \<Rightarrow> nat" where
  "byte_len m = length (env_payload (msg_envelope m)) + length (dev_user (msg_from m))"

section \<open>Queues\<close>

definition MAX_PENDING :: nat where "MAX_PENDING = 2 ^ 16"

definition MAX_ENVELOPE_BYTES :: nat where "MAX_ENVELOPE_BYTES = 2 ^ 20"

definition MAX_QUEUE_BYTES :: nat where "MAX_QUEUE_BYTES = 64 * 2 ^ 20"

definition MAX_USER_BYTES :: nat where "MAX_USER_BYTES = 128 * 2 ^ 20"

definition MAX_TOTAL_BYTES :: u64 where "MAX_TOTAL_BYTES = 4 * 2 ^ 30"

datatype enqueued = Enq_Ok | Enq_QueueFull | Enq_TooLarge

record queue =
  q_base :: u64
  q_inner :: "stored_message session"
  q_pending_bytes :: nat

definition queue_default :: queue where
  "queue_default = \<lparr>q_base = 0, q_inner = session_new, q_pending_bytes = 0\<rparr>"

definition queue_pending :: "queue \<Rightarrow> stored_message list option" where
  "queue_pending q = session_pending (q_inner q)"

definition queue_enqueue :: "stored_message \<Rightarrow> queue \<Rightarrow> (enqueued \<times> queue) option" where
  "queue_enqueue message q =
     (let size = byte_len message in
      if size > MAX_ENVELOPE_BYTES then Some (Enq_TooLarge, q)
      else do {
        pending \<leftarrow> session_pending (q_inner q);
        if length pending \<ge> MAX_PENDING
           \<or> usize_saturating_add (q_pending_bytes q) size > MAX_QUEUE_BYTES
        then Some (Enq_QueueFull, q)
        else Some (Enq_Ok, q\<lparr>q_inner := session_append message (q_inner q),
                             q_pending_bytes := q_pending_bytes q + size\<rparr>)
      })"

definition queue_cursor :: "queue \<Rightarrow> u64" where
  "queue_cursor q = q_base q + of_nat (session_cursor (q_inner q))"

definition queue_compact :: "queue \<Rightarrow> queue option" where
  "queue_compact q =
     (let acked = session_cursor (q_inner q) in
      if acked = 0 then Some q
      else do {
        pending \<leftarrow> session_pending (q_inner q);
        Some (q\<lparr>q_inner := fold session_append pending session_new,
               q_base := q_base q + of_nat acked\<rparr>)
      })"

definition queue_ack :: "u64 \<Rightarrow> queue \<Rightarrow> (bool \<times> queue) option" where
  "queue_ack up_to q =
     (case checked_sub up_to (q_base q) of
        None \<Rightarrow> Some (False, q)
      | Some inner_n \<Rightarrow>
          (case session_ack (unat inner_n) (q_inner q) of (accepted, inner) \<Rightarrow>
             let q1 = q\<lparr>q_inner := inner\<rparr> in
             if accepted then do {
               q2 \<leftarrow> queue_compact q1;
               pending \<leftarrow> session_pending (q_inner q2);
               Some (True, q2\<lparr>q_pending_bytes := sum_list (map byte_len pending)\<rparr>)
             } else Some (False, q1)))"

definition queue_resident :: "queue \<Rightarrow> stored_message list" where
  "queue_resident q = session_log (q_inner q)"

text \<open>
  \<open>from_parts\<close> refuses a cursor past the tail.  The slice it sums over is in range, so the one
  \<^const>\<open>None\<close> below is the refusal.
\<close>

definition queue_from_parts :: "u64 \<Rightarrow> stored_message list \<Rightarrow> nat \<Rightarrow> queue option" where
  "queue_from_parts base resident inner_cursor =
     (if inner_cursor > length resident then None
      else
        let inner = fold session_append resident session_new;
            (acked, inner') = (if inner_cursor > 0 then session_ack inner_cursor inner else (True, inner))
        in if inner_cursor > 0 \<and> \<not> acked then None
           else do {
             pending \<leftarrow> session_pending inner';
             Some \<lparr>q_base = base, q_inner = inner',
                   q_pending_bytes = sum_list (map byte_len pending)\<rparr>
           })"

section \<open>The relay\<close>

record relay =
  queues :: "(device_addr, queue) fmap"
  user_bytes :: "(bytes, nat) fmap"
  total_bytes :: u64
  max_total_bytes :: u64

definition relay_new :: relay where
  "relay_new = \<lparr>queues = fmempty, user_bytes = fmempty, total_bytes = 0,
     max_total_bytes = MAX_TOTAL_BYTES\<rparr>"

text \<open>The assertion of \<open>with_max_total_bytes\<close> panics on a limit below a user's budget.\<close>

definition with_max_total_bytes :: "u64 \<Rightarrow> relay \<Rightarrow> relay option" where
  "with_max_total_bytes limit r =
     (if limit \<ge> of_nat MAX_USER_BYTES then Some (r\<lparr>max_total_bytes := limit\<rparr>) else None)"

definition relay_enqueue ::
  "device_addr \<Rightarrow> device_addr \<Rightarrow> envelope \<Rightarrow> relay \<Rightarrow> (enqueued \<times> relay) option" where
  "relay_enqueue to from envelope r =
     (let message = \<lparr>msg_from = from, msg_envelope = envelope\<rparr>;
          size = byte_len message;
          user_total = fmget 0 (user_bytes r) (dev_user to)
      in if size > MAX_ENVELOPE_BYTES then Some (Enq_TooLarge, r)
         else if saturating_add (total_bytes r) (of_nat size) > max_total_bytes r
         then Some (Enq_QueueFull, r)
         else if usize_saturating_add user_total size > MAX_USER_BYTES then Some (Enq_QueueFull, r)
         else do {
           (result, q) \<leftarrow> queue_enqueue message (fmget queue_default (queues r) to);
           let r1 = r\<lparr>queues := fmupd to q (queues r)\<rparr>;
           Some (result,
             if result = Enq_Ok
             then r1\<lparr>user_bytes := fmupd (dev_user to) (user_total + size) (user_bytes r),
                    total_bytes := total_bytes r + of_nat size\<rparr>
             else r1)
         })"

definition relay_pending :: "device_addr \<Rightarrow> relay \<Rightarrow> stored_message list option" where
  "relay_pending device r =
     (case fmlookup (queues r) device of None \<Rightarrow> Some [] | Some q \<Rightarrow> queue_pending q)"

definition relay_cursor :: "device_addr \<Rightarrow> relay \<Rightarrow> u64" where
  "relay_cursor device r =
     (case fmlookup (queues r) device of None \<Rightarrow> 0 | Some q \<Rightarrow> queue_cursor q)"

definition relay_ack :: "device_addr \<Rightarrow> u64 \<Rightarrow> relay \<Rightarrow> (bool \<times> relay) option" where
  "relay_ack device up_to r =
     (case fmlookup (queues r) device of
        None \<Rightarrow> Some (False, r)
      | Some queue \<Rightarrow> do {
          let before = q_pending_bytes queue;
          (accepted, queue') \<leftarrow> queue_ack up_to queue;
          let r1 = r\<lparr>queues := fmupd device queue' (queues r)\<rparr>;
          if \<not> accepted then Some (False, r1)
          else
            let freed = before - q_pending_bytes queue'
            in Some (True, r1\<lparr>
                 user_bytes := (case fmlookup (user_bytes r) (dev_user device) of
                    None \<Rightarrow> user_bytes r
                  | Some n \<Rightarrow> fmupd (dev_user device) (n - freed) (user_bytes r)),
                 total_bytes := saturating_sub (total_bytes r) (of_nat freed)\<rparr>)
        })"

definition rebuild_user_bytes :: "relay \<Rightarrow> relay" where
  "rebuild_user_bytes r =
     (let (totals, grand_total) =
        fold (\<lambda>(addr, queue) (totals, grand).
            (fmupd (dev_user addr)
               (fmget 0 totals (dev_user addr) + q_pending_bytes queue) totals,
             grand + of_nat (q_pending_bytes queue)))
          (sorted_list_of_fmap (queues r)) (fmempty, 0)
      in r\<lparr>user_bytes := totals, total_bytes := grand_total\<rparr>)"

section \<open>Queues keep the delivery contract\<close>

definition q_tail :: "queue \<Rightarrow> stored_message list" where
  "q_tail q = drop (session_cursor (q_inner q)) (session_log (q_inner q))"

definition queue_ok :: "queue \<Rightarrow> bool" where
  "queue_ok q \<longleftrightarrow> session_valid (q_inner q) \<and>
     q_pending_bytes q = sum_list (map byte_len (q_tail q)) \<and>
     unat (q_base q) + session_cursor (q_inner q) < 2 ^ 64"

definition queue_limits :: "queue \<Rightarrow> bool" where
  "queue_limits q \<longleftrightarrow> length (q_tail q) \<le> MAX_PENDING \<and> q_pending_bytes q \<le> MAX_QUEUE_BYTES \<and>
     list_all (\<lambda>m. byte_len m \<le> MAX_ENVELOPE_BYTES) (q_tail q)"

lemmas limit_defs = MAX_PENDING_def MAX_ENVELOPE_BYTES_def MAX_QUEUE_BYTES_def MAX_USER_BYTES_def
  MAX_TOTAL_BYTES_def

lemma queue_ok_default: "queue_ok queue_default \<and> q_tail queue_default = [] \<and> queue_limits queue_default"
  by (simp add: queue_ok_def queue_default_def q_tail_def session_defs queue_limits_def)

lemma session_pending_valid:
  "session_valid s \<Longrightarrow> session_pending s = Some (drop (session_cursor s) (session_log s))"
  by (simp add: session_defs slice_from_def)

lemma queue_pending_ok: "queue_ok q \<Longrightarrow> queue_pending q = Some (q_tail q)"
  by (simp add: queue_pending_def queue_ok_def session_pending_valid q_tail_def)

lemma fold_session_append:
  "fold session_append ms s = s\<lparr>session_log := session_log s @ ms\<rparr>"
  by (induction ms arbitrary: s) (simp_all add: session_append_def)

lemma unat_queue_cursor:
  "queue_ok q \<Longrightarrow> unat (queue_cursor q) = unat (q_base q) + session_cursor (q_inner q)"
  by (simp add: queue_cursor_def queue_ok_def unat_word_ariths unat_of_nat)

text \<open>What the two operations compute on a well-formed queue: no panic, and on every branch.\<close>

lemma queue_enqueue_eq:
  "queue_ok q \<Longrightarrow> queue_enqueue m q = Some (
     if byte_len m > MAX_ENVELOPE_BYTES then (Enq_TooLarge, q)
     else if length (q_tail q) \<ge> MAX_PENDING \<or> q_pending_bytes q + byte_len m > MAX_QUEUE_BYTES
     then (Enq_QueueFull, q)
     else (Enq_Ok, q\<lparr>q_inner := session_append m (q_inner q),
                     q_pending_bytes := q_pending_bytes q + byte_len m\<rparr>))"
  by (auto simp: queue_enqueue_def queue_ok_def session_pending_valid q_tail_def Let_def
      usize_saturating_add_def usize_max_def MAX_QUEUE_BYTES_def)

lemma queue_ack_eq:
  assumes "queue_ok q"
  shows "queue_ack n q = Some (
     if unat (queue_cursor q) < unat n \<and> unat n \<le> unat (q_base q) + length (session_log (q_inner q))
     then (True, let tail = drop (unat n - unat (queue_cursor q)) (q_tail q)
                 in \<lparr>q_base = n, q_inner = \<lparr>session_log = tail, session_cursor = 0\<rparr>,
                     q_pending_bytes = sum_list (map byte_len tail)\<rparr>)
     else (False, q))"
proof (cases "checked_sub n (q_base q)")
  case None
  then have "unat n < unat (q_base q)" by (simp add: checked_sub_None)
  then show ?thesis
    using assms None by (simp add: queue_ack_def unat_queue_cursor)
next
  case (Some k)
  then have k: "unat (q_base q) \<le> unat n" "unat k = unat n - unat (q_base q)"
    by (auto simp: checked_sub_Some)
  then have "q_base q + k = n" by (simp add: word_unat_eq_iff unat_word_ariths)
  then show ?thesis
    using assms Some k
    by (auto simp: queue_ack_def unat_queue_cursor session_ack_def queue_compact_def Let_def
        session_pending_def slice_from_def fold_session_append session_new_def q_tail_def
        split: if_splits)
qed

datatype queue_op = QEnqueue stored_message | QAck u64

datatype queue_answer = QEnqueued enqueued | QAcked bool | QPanic

definition queue_step :: "queue_op \<Rightarrow> queue \<Rightarrow> queue_answer \<times> queue" where
  "queue_step x q =
     (case x of
        QEnqueue m \<Rightarrow> (case queue_enqueue m q of None \<Rightarrow> (QPanic, q) | Some (e, q') \<Rightarrow> (QEnqueued e, q'))
      | QAck n \<Rightarrow> (case queue_ack n q of None \<Rightarrow> (QPanic, q) | Some (b, q') \<Rightarrow> (QAcked b, q')))"

text \<open>The specification: a session that is never compacted, with the same two budgets.\<close>

definition budget_step :: "queue_op \<Rightarrow> stored_message session \<Rightarrow> queue_answer \<times> stored_message session" where
  "budget_step x s =
     (case x of
        QEnqueue m \<Rightarrow>
          let pending = drop (session_cursor s) (session_log s) in
          if byte_len m > MAX_ENVELOPE_BYTES then (QEnqueued Enq_TooLarge, s)
          else if length pending \<ge> MAX_PENDING
                  \<or> sum_list (map byte_len pending) + byte_len m > MAX_QUEUE_BYTES
          then (QEnqueued Enq_QueueFull, s)
          else (QEnqueued Enq_Ok, session_append m s)
      | QAck n \<Rightarrow> (case session_ack (unat n) s of (b, s') \<Rightarrow> (QAcked b, s')))"

definition queue_rel :: "queue \<Rightarrow> stored_message session \<Rightarrow> bool" where
  "queue_rel q s \<longleftrightarrow> queue_ok q \<and> session_valid s \<and> unat (q_base q) \<le> length (session_log s) \<and>
     session_log (q_inner q) = drop (unat (q_base q)) (session_log s) \<and>
     session_cursor s = unat (q_base q) + session_cursor (q_inner q)"

lemma queue_step_enqueue_ok:
  assumes "queue_ok q" "queue_enqueue m q = Some (e, q')"
  shows "queue_ok q'" "q_base q' = q_base q" "session_cursor (q_inner q') = session_cursor (q_inner q)"
    "q_tail q' = q_tail q @ (if e = Enq_Ok then [m] else [])"
    "queue_limits q \<Longrightarrow> queue_limits q'"
    "q_pending_bytes q' = q_pending_bytes q + (if e = Enq_Ok then byte_len m else 0)"
  using assms
  by (auto simp: queue_enqueue_eq queue_ok_def q_tail_def session_defs queue_limits_def
      split: if_splits)

lemma sum_list_map_drop_le: "sum_list (map f (drop n xs)) \<le> (sum_list (map f xs) :: nat)"
  by (metis append_take_drop_id le_add2 map_append sum_list_append)

lemma queue_ack_accepted:
  assumes "queue_ok q" "queue_ack n q = Some (True, q')"
  shows "queue_ok q' \<and> queue_cursor q' = n \<and> session_cursor (q_inner q') = 0 \<and>
    unat (queue_cursor q) < unat n \<and> unat n \<le> unat (queue_cursor q) + length (q_tail q) \<and>
    q_tail q' = drop (unat n - unat (queue_cursor q)) (q_tail q)"
proof -
  have c: "unat (queue_cursor q) = unat (q_base q) + session_cursor (q_inner q)"
    using assms(1) by (rule unat_queue_cursor)
  have "session_cursor (q_inner q) \<le> length (session_log (q_inner q))"
    using assms(1) by (simp add: queue_ok_def session_valid_def)
  then show ?thesis
    using assms c
    by (auto simp: queue_ack_eq queue_ok_def session_valid_def q_tail_def queue_cursor_def Let_def
        split: if_splits)
qed

lemma queue_step_ack_ok:
  assumes "queue_ok q" "queue_ack n q = Some (b, q')"
  shows "queue_ok q'" "unat (queue_cursor q) \<le> unat (queue_cursor q')"
    "q_tail q' = drop (unat (queue_cursor q') - unat (queue_cursor q)) (q_tail q)"
    "unat (queue_cursor q') \<le> unat (queue_cursor q) + length (q_tail q)"
    "b = (q' \<noteq> q)"
proof -
  have "\<not> b \<Longrightarrow> q' = q" using assms by (auto simp: queue_ack_eq split: if_splits)
  then show "queue_ok q'" "unat (queue_cursor q) \<le> unat (queue_cursor q')"
    "q_tail q' = drop (unat (queue_cursor q') - unat (queue_cursor q)) (q_tail q)"
    "unat (queue_cursor q') \<le> unat (queue_cursor q) + length (q_tail q)"
    "b = (q' \<noteq> q)"
    using assms queue_ack_accepted [of q n q'] by (cases b; auto)+
qed

lemma queue_ack_cursor:
  "queue_ok q \<Longrightarrow> queue_ack n q = Some (b, q') \<Longrightarrow> session_cursor (q_inner q) = 0 \<Longrightarrow>
   session_cursor (q_inner q') = 0"
  by (auto simp: queue_ack_eq Let_def split: if_splits)

lemma queue_ack_limits:
  assumes "queue_ok q" "queue_ack n q = Some (b, q')"
  shows "q_pending_bytes q' \<le> q_pending_bytes q" "queue_limits q \<Longrightarrow> queue_limits q'"
proof -
  show le: "q_pending_bytes q' \<le> q_pending_bytes q"
    using queue_step_ack_ok [OF assms] assms(1) by (simp add: queue_ok_def sum_list_map_drop_le)
  show "queue_limits q \<Longrightarrow> queue_limits q'"
    using le queue_step_ack_ok(3) [OF assms] set_drop_subset
    by (fastforce simp: queue_limits_def list_all_iff)
qed

lemma queue_no_panic:
  "queue_ok q \<Longrightarrow> \<exists>e q'. queue_enqueue m q = Some (e, q')"
  "queue_ok q \<Longrightarrow> \<exists>b q'. queue_ack n q = Some (b, q')"
  by (simp_all add: queue_enqueue_eq queue_ack_eq)

section \<open>Compaction is invisible\<close>

lemma queue_rel_new: "queue_rel queue_default session_new"
  using queue_ok_default by (simp add: queue_rel_def queue_default_def session_defs)

lemma queue_rel_tail: "queue_rel q s \<Longrightarrow> q_tail q = drop (session_cursor s) (session_log s)"
  by (simp add: queue_rel_def q_tail_def add.commute)

lemma queue_rel_ack:
  assumes "queue_rel q s"
  shows "\<exists>q'. queue_ack n q = Some (fst (session_ack (unat n) s), q') \<and>
    queue_rel q' (snd (session_ack (unat n) s))"
proof -
  have ok: "queue_ok q" using assms by (simp add: queue_rel_def)
  obtain b q' where q': "queue_ack n q = Some (b, q')" using queue_no_panic(2) [OF ok] by blast
  have b: "b = fst (session_ack (unat n) s)"
    using q' assms
    by (auto simp: queue_ack_eq [OF ok] unat_queue_cursor [OF ok] queue_rel_def session_ack_def
        split: if_splits)
  have "queue_rel q' (snd (session_ack (unat n) s))"
  proof (cases b)
    case True
    then have "queue_ok q'" using q' queue_ack_accepted [OF ok] by simp
    then show ?thesis
      using True b q' assms queue_rel_tail [OF assms]
      by (auto simp: queue_ack_eq [OF ok] unat_queue_cursor [OF ok] queue_rel_def session_ack_def
          session_valid_def Let_def split: if_splits)
  next
    case False
    then show ?thesis
      using b q' assms by (auto simp: queue_ack_eq [OF ok] session_ack_def split: if_splits)
  qed
  then show ?thesis using q' b by blast
qed

lemma queue_rel_step:
  assumes "queue_rel q s"
  shows "fst (queue_step x q) = fst (budget_step x s) \<and>
    queue_rel (snd (queue_step x q)) (snd (budget_step x s))"
proof -
  have ok: "queue_ok q" using assms by (simp add: queue_rel_def)
  show ?thesis
  proof (cases x)
    case (QEnqueue m)
    obtain e q' where q': "queue_enqueue m q = Some (e, q')" using queue_no_panic(1) [OF ok] by blast
    note q'_ok = queue_step_enqueue_ok [OF ok q']
    show ?thesis
      using QEnqueue q' q'_ok assms queue_rel_tail [OF assms] ok
      by (auto simp: queue_step_def budget_step_def queue_enqueue_eq queue_rel_def Let_def
          queue_ok_def session_append_def session_valid_def)
  next
    case (QAck n)
    then show ?thesis
      using queue_rel_ack [OF assms, of n]
      by (auto simp: queue_step_def budget_step_def split: prod.splits)
  qed
qed

interpretation queue_sim: simulation queue_step budget_step queue_rel
  by unfold_locales (simp_all add: queue_rel_step)

text \<open>
  C14.  Compaction is invisible.  A queue that drops what has been acknowledged answers every
  sequence of sends and acks exactly as a session that keeps its whole log does (under the same
  two budgets), and at the end hands out the same messages at the same absolute cursor.
\<close>

theorem queue_refines_session:
  "let q = final queue_step xs queue_default; s = final budget_step xs session_new
   in answers queue_step xs queue_default = answers budget_step xs session_new \<and>
      queue_pending q = session_pending s \<and> unat (queue_cursor q) = session_cursor s"
proof -
  let ?q = "final queue_step xs queue_default" and ?s = "final budget_step xs session_new"
  have r: "queue_rel ?q ?s" and a: "answers queue_step xs queue_default = answers budget_step xs session_new"
    using queue_sim.run_sim [OF queue_rel_new, of xs] by auto
  then have ok: "queue_ok ?q" "session_valid ?s" by (simp_all add: queue_rel_def)
  show ?thesis
    using a r queue_rel_tail [OF r] queue_pending_ok [OF ok(1)] session_pending_valid [OF ok(2)]
      unat_queue_cursor [OF ok(1)]
    by (simp add: Let_def queue_rel_def)
qed

section \<open>The byte indices of the relay\<close>

abbreviation relay_queue :: "device_addr \<Rightarrow> relay \<Rightarrow> queue" where
  "relay_queue a r \<equiv> fmget queue_default (queues r) a"

text \<open>The bytes pending for a user, and in the whole relay, summed over the queues.\<close>

definition user_sum :: "bytes \<Rightarrow> (device_addr, queue) fmap \<Rightarrow> nat" where
  "user_sum u qs = fmsum (\<lambda>a q. if dev_user a = u then q_pending_bytes q else 0) qs"

definition total_sum :: "(device_addr, queue) fmap \<Rightarrow> nat" where
  "total_sum qs = fmsum (\<lambda>a q. q_pending_bytes q) qs"

text \<open>
  The indices are exact.  A ceiling of \<open>u64::MAX\<close> is left out: the saturating check would then
  never refuse, and only memory would keep the total from wrapping.
\<close>

definition relay_ok :: "relay \<Rightarrow> bool" where
  "relay_ok r \<longleftrightarrow> (\<forall>a. queue_ok (relay_queue a r)) \<and> max_total_bytes r \<noteq> u64_max \<and>
     (\<forall>u. fmget 0 (user_bytes r) u = user_sum u (queues r)) \<and>
     unat (total_bytes r) = total_sum (queues r)"

text \<open>The budgets: each queue's, each user's, the node's, and nothing acknowledged kept.\<close>

definition relay_limits :: "relay \<Rightarrow> bool" where
  "relay_limits r \<longleftrightarrow>
     (\<forall>a. queue_limits (relay_queue a r) \<and> session_cursor (q_inner (relay_queue a r)) = 0) \<and>
     (\<forall>u. user_sum u (queues r) \<le> MAX_USER_BYTES) \<and>
     total_sum (queues r) \<le> unat (max_total_bytes r)"

lemma user_sum_fmupd:
  "user_sum u (fmupd a q qs) + (if dev_user a = u then q_pending_bytes (fmget queue_default qs a) else 0)
   = user_sum u qs + (if dev_user a = u then q_pending_bytes q else 0)"
  using fmsum_fmupd [of "\<lambda>a q. if dev_user a = u then q_pending_bytes q else 0" a queue_default q qs]
  by (simp add: user_sum_def queue_default_def)

lemma total_sum_fmupd:
  "total_sum (fmupd a q qs) + q_pending_bytes (fmget queue_default qs a)
   = total_sum qs + q_pending_bytes q"
  using fmsum_fmupd [of "\<lambda>a q. q_pending_bytes q" a queue_default q qs]
  by (simp add: total_sum_def queue_default_def)

lemma pending_le_user_sum: "q_pending_bytes (fmget queue_default qs a) \<le> user_sum (dev_user a) qs"
  using fmsum_ge [of "\<lambda>b q. if dev_user b = dev_user a then q_pending_bytes q else 0" a queue_default qs]
  by (simp add: user_sum_def queue_default_def)

lemma pending_le_total_sum: "q_pending_bytes (fmget queue_default qs a) \<le> total_sum qs"
  using fmsum_ge [of "\<lambda>b q. q_pending_bytes q" a queue_default qs]
  by (simp add: total_sum_def queue_default_def)

lemma user_sum_le_total_sum: "user_sum u qs \<le> total_sum qs"
  unfolding user_sum_def total_sum_def fmsum_sum by (rule sum_mono) simp

text \<open>Replacing one queue keeps the indices exact when they are moved by the change in its bytes.\<close>

lemma relay_ok_update:
  assumes "relay_ok r" "queue_ok q"
    and "\<And>u. fmget 0 ub u + (if u = dev_user a then q_pending_bytes (relay_queue a r) else 0)
      = fmget 0 (user_bytes r) u + (if u = dev_user a then q_pending_bytes q else 0)"
    and "unat tb + q_pending_bytes (relay_queue a r) = unat (total_bytes r) + q_pending_bytes q"
  shows "relay_ok (r\<lparr>queues := fmupd a q (queues r), user_bytes := ub, total_bytes := tb\<rparr>)"
proof -
  have "fmget 0 ub u = user_sum u (fmupd a q (queues r))" for u
    using assms(3) [of u] user_sum_fmupd [of u a q "queues r"] assms(1)
    by (auto simp: relay_ok_def split: if_splits)
  moreover have "unat tb = total_sum (fmupd a q (queues r))"
    using assms(4) total_sum_fmupd [of a q "queues r"] assms(1) by (simp add: relay_ok_def)
  ultimately show ?thesis using assms(1,2) by (simp add: relay_ok_def)
qed

lemma relay_limits_update:
  assumes "relay_limits r" "queue_limits q" "session_cursor (q_inner q) = 0"
    and "user_sum (dev_user a) (queues r) + q_pending_bytes q
      \<le> MAX_USER_BYTES + q_pending_bytes (relay_queue a r)"
    and "total_sum (queues r) + q_pending_bytes q
      \<le> unat (max_total_bytes r) + q_pending_bytes (relay_queue a r)"
  shows "relay_limits (r\<lparr>queues := fmupd a q (queues r), user_bytes := ub, total_bytes := tb\<rparr>)"
proof -
  have "user_sum u (fmupd a q (queues r)) \<le> MAX_USER_BYTES" for u
    using assms(1,4) user_sum_fmupd [of u a q "queues r"]
    by (auto simp: relay_limits_def split: if_splits)
  moreover have "total_sum (fmupd a q (queues r)) \<le> unat (max_total_bytes r)"
    using assms(5) total_sum_fmupd [of a q "queues r"] by simp
  ultimately show ?thesis using assms(1-3) by (simp add: relay_limits_def)
qed

lemma relay_new_ok: "relay_ok relay_new \<and> relay_limits relay_new"
  using queue_ok_default
  by (simp add: relay_ok_def relay_limits_def relay_new_def user_sum_def total_sum_def
      queue_default_def session_new_def MAX_TOTAL_BYTES_def)

lemma relay_pending_ok: "relay_ok r \<Longrightarrow> relay_pending a r = Some (q_tail (relay_queue a r))"
  by (cases "fmlookup (queues r) a")
    (auto simp: relay_pending_def relay_ok_def fmget_def queue_ok_default queue_pending_ok
      dest: spec [of _ a] split: option.splits)

lemma relay_cursor_queue: "relay_cursor a r = queue_cursor (relay_queue a r)"
  by (simp add: relay_cursor_def fmget_def queue_cursor_def queue_default_def session_new_def
      split: option.splits)

text \<open>A send to \<open>to\<close>: no panic, exact indices, budgets kept, only the queue of \<open>to\<close> touched.\<close>

lemma relay_enqueue_ok:
  assumes "relay_ok r"
  obtains e r' where "relay_enqueue to from envelope r = Some (e, r')" "relay_ok r'"
    "relay_limits r \<Longrightarrow> relay_limits r'" "max_total_bytes r' = max_total_bytes r"
    "\<And>a. a \<noteq> to \<Longrightarrow> relay_queue a r' = relay_queue a r"
    "relay_cursor to r' = relay_cursor to r"
    "q_tail (relay_queue to r') = q_tail (relay_queue to r) @
       (if e = Enq_Ok then [\<lparr>msg_from = from, msg_envelope = envelope\<rparr>] else [])"
proof -
  let ?m = "\<lparr>msg_from = from, msg_envelope = envelope\<rparr>"
  let ?q = "relay_queue to r"
  have ok: "queue_ok ?q" using assms by (simp add: relay_ok_def)
  show thesis
  proof (cases "byte_len ?m > MAX_ENVELOPE_BYTES
      \<or> saturating_add (total_bytes r) (of_nat (byte_len ?m)) > max_total_bytes r
      \<or> usize_saturating_add (fmget 0 (user_bytes r) (dev_user to)) (byte_len ?m) > MAX_USER_BYTES")
    case True
    then have "\<exists>e. e \<noteq> Enq_Ok \<and> relay_enqueue to from envelope r = Some (e, r)"
      by (auto simp: relay_enqueue_def Let_def)
    then show thesis using assms that by auto
  next
    case False
    obtain e q' where q': "queue_enqueue ?m ?q = Some (e, q')" using queue_no_panic(1) [OF ok] by blast
    note q'_ok = queue_step_enqueue_ok [OF ok q']
    let ?size = "byte_len ?m"
    have small: "?size \<le> MAX_ENVELOPE_BYTES" using False by simp
    then have w: "unat (of_nat ?size :: u64) = ?size"
      by (intro unat_of_nat_u64) (simp add: MAX_ENVELOPE_BYTES_def)
    have total: "unat (total_bytes r) + ?size \<le> unat (max_total_bytes r)"
      using False w less_u64_max [of "max_total_bytes r"] assms
      by (auto simp: relay_ok_def unat_saturating_add word_less_nat_alt not_less min_def
          split: if_splits)
    have user: "fmget 0 (user_bytes r) (dev_user to) + ?size \<le> MAX_USER_BYTES"
      using False by (simp add: usize_saturating_add_def usize_max_def MAX_USER_BYTES_def)
    let ?r' = "r\<lparr>queues := fmupd to q' (queues r),
      user_bytes := (if e = Enq_Ok then fmupd (dev_user to)
        (fmget 0 (user_bytes r) (dev_user to) + ?size) (user_bytes r) else user_bytes r),
      total_bytes := (if e = Enq_Ok then total_bytes r + of_nat ?size else total_bytes r)\<rparr>"
    have enq: "relay_enqueue to from envelope r = Some (e, ?r')"
      using False q' by (auto simp: relay_enqueue_def Let_def)
    have "unat (total_bytes r + of_nat ?size) = unat (total_bytes r) + ?size"
      using total w le_less_trans [OF total unat_u64_less] by (simp add: unat_word_ariths)
    then have "relay_ok ?r'"
      using q'_ok by (intro relay_ok_update [OF assms]) auto
    moreover have "relay_limits ?r'" if "relay_limits r"
      using that q'_ok total user assms pending_le_user_sum [of "queues r" to]
        pending_le_total_sum [of "queues r" to]
      by (intro relay_limits_update) (auto simp: relay_limits_def relay_ok_def)
    ultimately show thesis
      using enq q'_ok by (intro that [OF enq])
        (auto simp: relay_cursor_queue queue_cursor_def)
  qed
qed

text \<open>An ack of \<open>device\<close>: the same, and the cursor of \<open>device\<close> never moves back.\<close>

lemma relay_ack_ok:
  assumes "relay_ok r"
  obtains b r' where "relay_ack device n r = Some (b, r')" "relay_ok r'"
    "relay_limits r \<Longrightarrow> relay_limits r'" "max_total_bytes r' = max_total_bytes r"
    "\<And>a. a \<noteq> device \<Longrightarrow> relay_queue a r' = relay_queue a r"
    "unat (relay_cursor device r) \<le> unat (relay_cursor device r')"
    "unat (relay_cursor device r') \<le> unat (relay_cursor device r) + length (q_tail (relay_queue device r))"
    "q_tail (relay_queue device r') =
       drop (unat (relay_cursor device r') - unat (relay_cursor device r)) (q_tail (relay_queue device r))"
proof (cases "fmlookup (queues r) device")
  case None
  then have "relay_ack device n r = Some (False, r)" by (simp add: relay_ack_def)
  then show thesis using assms by (rule that) simp_all
next
  case (Some q)
  then have rq: "relay_queue device r = q" by (rule fmget_lookup)
  then have ok: "queue_ok q" using assms by (auto simp: relay_ok_def)
  obtain b q' where q': "queue_ack n q = Some (b, q')" using queue_no_panic(2) [OF ok] by blast
  note q'_ok = queue_step_ack_ok [OF ok q'] and q'_le = queue_ack_limits [OF ok q']
  let ?freed = "q_pending_bytes q - q_pending_bytes q'"
  let ?r' = "r\<lparr>queues := fmupd device q' (queues r),
    user_bytes := (if b then (case fmlookup (user_bytes r) (dev_user device) of
        None \<Rightarrow> user_bytes r
      | Some k \<Rightarrow> fmupd (dev_user device) (k - ?freed) (user_bytes r)) else user_bytes r),
    total_bytes := (if b then saturating_sub (total_bytes r) (of_nat ?freed) else total_bytes r)\<rparr>"
  have ack: "relay_ack device n r = Some (b, ?r')"
    using Some q' by (simp add: relay_ack_def Let_def)
  have total: "q_pending_bytes q \<le> unat (total_bytes r)"
    using pending_le_total_sum [of "queues r" device] assms rq by (simp add: relay_ok_def)
  have user: "q_pending_bytes q \<le> fmget 0 (user_bytes r) (dev_user device)"
    using pending_le_user_sum [of "queues r" device] assms rq by (simp add: relay_ok_def)
  have w: "unat (of_nat ?freed :: u64) = ?freed"
    using total le_less_trans [OF _ unat_u64_less [of "total_bytes r"], of ?freed]
    by (intro unat_of_nat_u64) simp
  have "relay_ok ?r'"
    using total user w q'_ok q'_le rq
    by (intro relay_ok_update [OF assms])
      (auto simp: unat_saturating_sub fmget_def split: option.splits)
  moreover have "relay_limits ?r'" if "relay_limits r"
    using that q'_ok q'_le rq pending_le_user_sum [of "queues r" device]
      pending_le_total_sum [of "queues r" device] queue_ack_cursor [OF ok q']
    by (intro relay_limits_update) (auto simp: relay_limits_def intro: add_mono)
  ultimately show thesis
    using ack q'_ok rq by (intro that [OF ack]) (auto simp: relay_cursor_queue)
qed

end
