(* ===== verification/Relay_Protocol.thy ===== *)
theory Relay_Protocol
  imports Relay
begin

text \<open>
  Crate \<^verbatim>\<open>tacenta-relay\<close>, \<^verbatim>\<open>protocol.rs\<close>: the requests and responses, their dispatch for an
  authenticated device, their byte encodings, and the snapshot of the whole relay.

  Writers append to a buffer in the source; here a \<open>put\<close> function returns what it appends, and
  \<^const>\<open>None\<close> where an \<open>expect\<close> would panic (a length that does not fit 32 bits).
\<close>

section \<open>Requests and their dispatch\<close>

datatype request =
    Req_Send device_addr envelope
  | Req_Poll device_addr
  | Req_Ack device_addr u64
  | Req_Delivered "device_addr list"

datatype response =
    Resp_Ok
  | Resp_Delivered u64 "stored_message list"
  | Resp_Acked bool
  | Resp_DeliveredCount u64
  | Resp_Unauthorized
  | Resp_UnknownRecipient
  | Resp_QueueFull
  | Resp_TooLarge

text \<open>\<open>Iterator::min\<close>.\<close>

fun iter_min :: "u64 list \<Rightarrow> u64 option" where
  "iter_min [] = None"
| "iter_min (x # xs) = (case iter_min xs of None \<Rightarrow> Some x | Some y \<Rightarrow> Some (min x y))"

definition handle :: "device_addr \<Rightarrow> request \<Rightarrow> relay \<Rightarrow> (response \<times> relay) option" where
  "handle authorized request r =
     (case request of
        Req_Send to envelope \<Rightarrow> do {
          (result, r') \<leftarrow> relay_enqueue to authorized envelope r;
          Some (case result of
              Enq_Ok \<Rightarrow> Resp_Ok
            | Enq_QueueFull \<Rightarrow> Resp_QueueFull
            | Enq_TooLarge \<Rightarrow> Resp_TooLarge, r')
        }
      | Req_Poll device \<Rightarrow>
          if device = authorized then do {
            messages \<leftarrow> relay_pending device r;
            Some (Resp_Delivered (relay_cursor device r) messages, r)
          } else Some (Resp_Unauthorized, r)
      | Req_Ack device up_to \<Rightarrow>
          if device = authorized then do {
            (accepted, r') \<leftarrow> relay_ack device up_to r;
            Some (Resp_Acked accepted, r')
          } else Some (Resp_Unauthorized, r)
      | Req_Delivered devices \<Rightarrow>
          if list_all (\<lambda>d. dev_user d = dev_user authorized) devices
          then Some (Resp_DeliveredCount
                 (case iter_min (map (\<lambda>d. relay_cursor d r) devices) of None \<Rightarrow> 0 | Some n \<Rightarrow> n), r)
          else Some (Resp_Unauthorized, r))"

section \<open>Byte encodings\<close>

definition put_u32 :: "u32 \<Rightarrow> bytes" where
  "put_u32 n = u32_to_be n"

definition take_u32 :: "bytes \<Rightarrow> (u32 \<times> bytes) option" where
  "take_u32 bytes = do { (front, rest) \<leftarrow> split_at_checked 4 bytes; Some (u32_from_be front, rest) }"

definition put_bytes :: "bytes \<Rightarrow> bytes option" where
  "put_bytes bytes = do { len \<leftarrow> u32_try_from (length bytes); Some (put_u32 len @ bytes) }"

definition take_bytes :: "bytes \<Rightarrow> (bytes \<times> bytes) option" where
  "take_bytes bytes = do { (len, rest) \<leftarrow> take_u32 bytes; split_at_checked (unat len) rest }"

definition put_addr :: "device_addr \<Rightarrow> bytes option" where
  "put_addr addr = do { user \<leftarrow> put_bytes (dev_user addr); Some (user @ put_u32 (dev_device addr)) }"

definition take_addr :: "bytes \<Rightarrow> (device_addr \<times> bytes) option" where
  "take_addr bytes = do {
     (user_bytes, rest) \<leftarrow> take_bytes bytes;
     if \<not> utf8_valid user_bytes then None else do {
       (device, rest) \<leftarrow> take_u32 rest;
       Some (DeviceAddr user_bytes device, rest)
     }
   }"

text \<open>The body of the loop of \<open>put_messages\<close>, and that of \<open>take_messages\<close>.\<close>

definition put_message :: "stored_message \<Rightarrow> bytes option" where
  "put_message m = do {
     from \<leftarrow> put_addr (msg_from m);
     encoded \<leftarrow> encode (msg_envelope m);
     block \<leftarrow> put_bytes encoded;
     Some (from @ block)
   }"

definition take_message :: "bytes \<Rightarrow> (stored_message \<times> bytes) option" where
  "take_message rest = do {
     (from, r) \<leftarrow> take_addr rest;
     (env_bytes, r) \<leftarrow> take_bytes r;
     envelope \<leftarrow> decode env_bytes;
     Some (\<lparr>msg_from = from, msg_envelope = envelope\<rparr>, r)
   }"

definition put_messages :: "stored_message list \<Rightarrow> bytes option" where
  "put_messages messages = do {
     count \<leftarrow> u32_try_from (length messages);
     body \<leftarrow> put_many put_message messages;
     Some (put_u32 count @ body)
   }"

definition take_messages :: "bytes \<Rightarrow> (stored_message list \<times> bytes) option" where
  "take_messages bytes = do {
     (count, rest) \<leftarrow> take_u32 bytes;
     take_many take_message (unat count) rest
   }"

definition encode_request :: "request \<Rightarrow> bytes option" where
  "encode_request request =
     (case request of
        Req_Send to envelope \<Rightarrow> do {
          addr \<leftarrow> put_addr to;
          encoded \<leftarrow> encode envelope;
          block \<leftarrow> put_bytes encoded;
          Some ([1] @ addr @ block)
        }
      | Req_Poll device \<Rightarrow> do { addr \<leftarrow> put_addr device; Some ([2] @ addr) }
      | Req_Ack device up_to \<Rightarrow> do { addr \<leftarrow> put_addr device; Some ([3] @ addr @ u64_to_be up_to) }
      | Req_Delivered devices \<Rightarrow> do {
          count \<leftarrow> u32_try_from (length devices);
          body \<leftarrow> put_many put_addr devices;
          Some ([4] @ put_u32 count @ body)
        })"

definition decode_request :: "bytes \<Rightarrow> request option" where
  "decode_request bytes = do {
     (tag, rest) \<leftarrow> split_first bytes;
     if tag = 1 then do {
       (to, rest) \<leftarrow> take_addr rest;
       (env_bytes, rest) \<leftarrow> take_bytes rest;
       if rest \<noteq> [] then None else do { envelope \<leftarrow> decode env_bytes; Some (Req_Send to envelope) }
     }
     else if tag = 2 then do {
       (device, rest) \<leftarrow> take_addr rest;
       if rest = [] then Some (Req_Poll device) else None
     }
     else if tag = 3 then do {
       (device, rest) \<leftarrow> take_addr rest;
       (front, rest) \<leftarrow> split_at_checked 8 rest;
       if rest \<noteq> [] then None else Some (Req_Ack device (u64_from_be front))
     }
     else if tag = 4 then do {
       (count, rest) \<leftarrow> take_u32 rest;
       (devices, rest) \<leftarrow> take_many take_addr (unat count) rest;
       if rest = [] then Some (Req_Delivered devices) else None
     }
     else None
   }"

definition encode_response :: "response \<Rightarrow> bytes option" where
  "encode_response response =
     (case response of
        Resp_Ok \<Rightarrow> Some [1]
      | Resp_Delivered from messages \<Rightarrow> do {
          body \<leftarrow> put_messages messages;
          Some ([2] @ u64_to_be from @ body)
        }
      | Resp_Acked accepted \<Rightarrow> Some [3, if accepted then 1 else 0]
      | Resp_Unauthorized \<Rightarrow> Some [4]
      | Resp_DeliveredCount count \<Rightarrow> Some ([5] @ u64_to_be count)
      | Resp_UnknownRecipient \<Rightarrow> Some [6]
      | Resp_QueueFull \<Rightarrow> Some [7]
      | Resp_TooLarge \<Rightarrow> Some [8])"

definition decode_response :: "bytes \<Rightarrow> response option" where
  "decode_response bytes = do {
     (tag, rest) \<leftarrow> split_first bytes;
     if tag = 1 then (if rest = [] then Some Resp_Ok else None)
     else if tag = 2 then do {
       (from_bytes, rest) \<leftarrow> split_at_checked 8 rest;
       (messages, rest) \<leftarrow> take_messages rest;
       if rest = [] then Some (Resp_Delivered (u64_from_be from_bytes) messages) else None
     }
     else if tag = 3 then
       (if rest = [0] then Some (Resp_Acked False)
        else if rest = [1] then Some (Resp_Acked True) else None)
     else if tag = 4 then (if rest = [] then Some Resp_Unauthorized else None)
     else if tag = 6 then (if rest = [] then Some Resp_UnknownRecipient else None)
     else if tag = 7 then (if rest = [] then Some Resp_QueueFull else None)
     else if tag = 8 then (if rest = [] then Some Resp_TooLarge else None)
     else if tag = 5 then do {
       (count_bytes, rest) \<leftarrow> split_at_checked 8 rest;
       if rest = [] then Some (Resp_DeliveredCount (u64_from_be count_bytes)) else None
     }
     else None
   }"

definition encode_auth :: "device_addr \<Rightarrow> bytes \<Rightarrow> bytes option" where
  "encode_auth device signature = do {
     addr \<leftarrow> put_addr device;
     block \<leftarrow> put_bytes signature;
     Some (addr @ block)
   }"

definition decode_auth :: "bytes \<Rightarrow> (device_addr \<times> bytes) option" where
  "decode_auth bytes = do {
     (device, rest) \<leftarrow> take_addr bytes;
     (sig, rest) \<leftarrow> take_bytes rest;
     if rest = [] then Some (device, sig) else None
   }"

text \<open>
  \<open>handle_bytes\<close> is \<open>None\<close> on malformed bytes; the outer \<^const>\<open>None\<close> is a panic of the dispatch or
  of the response encoder.
\<close>

definition handle_bytes :: "device_addr \<Rightarrow> bytes \<Rightarrow> relay \<Rightarrow> (bytes option \<times> relay) option" where
  "handle_bytes authorized bytes r =
     (case decode_request bytes of
        None \<Rightarrow> Some (None, r)
      | Some request \<Rightarrow> do {
          (response, r') \<leftarrow> handle authorized request r;
          out \<leftarrow> encode_response response;
          Some (Some out, r')
        })"

section \<open>Snapshots\<close>

definition SNAPSHOT_MARKER :: byte where "SNAPSHOT_MARKER = 0x5a"

definition SNAPSHOT_VERSION_2 :: byte where "SNAPSHOT_VERSION_2 = 0x02"

text \<open>The body of the loop of \<open>snapshot\<close>.\<close>

definition put_queue :: "device_addr \<times> queue \<Rightarrow> bytes option" where
  "put_queue = (\<lambda>(device, queue). do {
     addr \<leftarrow> put_addr device;
     log_bytes \<leftarrow> put_messages (queue_resident queue);
     block \<leftarrow> put_bytes log_bytes;
     Some (addr @ u64_to_be (q_base queue) @ u64_to_be (of_nat (session_cursor (q_inner queue)))
           @ block)
   })"

definition snapshot :: "relay \<Rightarrow> bytes option" where
  "snapshot r = do {
     let devices = sorted_list_of_fmap (queues r);
     count \<leftarrow> u32_try_from (length devices);
     body \<leftarrow> put_many put_queue devices;
     Some ([SNAPSHOT_MARKER, SNAPSHOT_VERSION_2] @ put_u32 count @ body)
   }"

fun restore_v2_loop ::
  "nat \<Rightarrow> bytes \<Rightarrow> (device_addr, queue) fmap \<Rightarrow> ((device_addr, queue) fmap \<times> bytes) option" where
  "restore_v2_loop 0 rest qs = Some (qs, rest)"
| "restore_v2_loop (Suc n) rest qs = do {
     (device, r) \<leftarrow> take_addr rest;
     (base_bytes, r) \<leftarrow> split_at_checked 8 r;
     (cursor_bytes, r) \<leftarrow> split_at_checked 8 r;
     (log_bytes, r) \<leftarrow> take_bytes r;
     (resident, log_rest) \<leftarrow> take_messages log_bytes;
     if log_rest \<noteq> [] then None else do {
       queue \<leftarrow> queue_from_parts (u64_from_be base_bytes) resident (unat (u64_from_be cursor_bytes));
       restore_v2_loop n r (fmupd device queue qs)
     }
   }"

definition restore_v2 :: "bytes \<Rightarrow> relay option" where
  "restore_v2 bytes = do {
     (count, rest) \<leftarrow> take_u32 bytes;
     (qs, rest) \<leftarrow> restore_v2_loop (unat count) rest fmempty;
     let relay = rebuild_user_bytes (relay_new\<lparr>queues := qs\<rparr>);
     if rest = [] then Some relay else None
   }"

fun restore_legacy_loop ::
  "nat \<Rightarrow> bytes \<Rightarrow> (device_addr, queue) fmap \<Rightarrow> ((device_addr, queue) fmap \<times> bytes) option" where
  "restore_legacy_loop 0 rest qs = Some (qs, rest)"
| "restore_legacy_loop (Suc n) rest qs = do {
     (device, r) \<leftarrow> take_addr rest;
     (cursor_bytes, r) \<leftarrow> split_at_checked 8 r;
     (log_bytes, r) \<leftarrow> take_bytes r;
     (log, log_rest) \<leftarrow> take_messages log_bytes;
     if log_rest \<noteq> [] then None else do {
       queue \<leftarrow> queue_from_parts 0 log (unat (u64_from_be cursor_bytes));
       restore_legacy_loop n r (fmupd device queue qs)
     }
   }"

definition restore_legacy :: "bytes \<Rightarrow> relay option" where
  "restore_legacy bytes = do {
     (count, rest) \<leftarrow> take_u32 bytes;
     (qs, rest) \<leftarrow> restore_legacy_loop (unat count) rest fmempty;
     let relay = rebuild_user_bytes (relay_new\<lparr>queues := qs\<rparr>);
     if rest = [] then Some relay else None
   }"

definition restore :: "bytes \<Rightarrow> relay option" where
  "restore bytes =
     (case bytes of
        [] \<Rightarrow> restore_legacy bytes
      | b # rest \<Rightarrow>
          if b = SNAPSHOT_MARKER then do {
            (version, rest) \<leftarrow> split_first rest;
            if version \<noteq> SNAPSHOT_VERSION_2 then None else restore_v2 rest
          } else restore_legacy bytes)"

section \<open>The encodings are exact\<close>

lemma take_u32_iff: "take_u32 bytes = Some (n, rest) \<longleftrightarrow> bytes = put_u32 n @ rest"
  by (auto simp: take_u32_def put_u32_def option_bind_simps split_at_checked_Some u32_to_from_be)

interpretation u32_codec: prefix_codec "\<lambda>n. Some (put_u32 n)" take_u32 "\<lambda>_. True"
  by unfold_locales (simp add: take_u32_iff)

lemma put_bytes_Some:
  "put_bytes bytes = Some out \<longleftrightarrow>
   length bytes < 2 ^ 32 \<and> out = put_u32 (of_nat (length bytes)) @ bytes"
  by (auto simp: put_bytes_def option_bind_simps u32_try_from_def)

lemma take_bytes_iff:
  "take_bytes bytes = Some (b, rest) \<longleftrightarrow> (\<exists>out. put_bytes b = Some out \<and> bytes = out @ rest)"
proof
  assume "take_bytes bytes = Some (b, rest)"
  then obtain n where "bytes = put_u32 n @ b @ rest" "length b = unat n"
    by (auto simp: take_bytes_def option_bind_simps take_u32_iff split_at_checked_Some)
  then show "\<exists>out. put_bytes b = Some out \<and> bytes = out @ rest"
    by (simp add: put_bytes_Some)
next
  assume "\<exists>out. put_bytes b = Some out \<and> bytes = out @ rest"
  then show "take_bytes bytes = Some (b, rest)"
    by (auto simp: put_bytes_Some take_bytes_def option_bind_simps take_u32_iff
        split_at_checked_Some unat_of_nat_u32)
qed

interpretation bytes_codec: prefix_codec put_bytes take_bytes "\<lambda>_. True"
  by unfold_locales (simp add: take_bytes_iff)

text \<open>A handle is a Rust string: its bytes are UTF-8.\<close>

definition addr_typed :: "device_addr \<Rightarrow> bool" where
  "addr_typed a = utf8_valid (dev_user a)"

lemma take_addr_iff:
  "take_addr bytes = Some (a, rest) \<longleftrightarrow>
   addr_typed a \<and> (\<exists>out. put_addr a = Some out \<and> bytes = out @ rest)"
  by (cases a) (auto simp: take_addr_def put_addr_def addr_typed_def option_bind_simps take_bytes_iff
      take_u32_iff split: if_splits)

interpretation addr_codec: prefix_codec put_addr take_addr addr_typed
  by unfold_locales (rule take_addr_iff)

definition message_typed :: "stored_message \<Rightarrow> bool" where
  "message_typed m = addr_typed (msg_from m)"

lemma take_message_iff:
  "take_message bytes = Some (m, rest) \<longleftrightarrow>
   message_typed m \<and> (\<exists>out. put_message m = Some out \<and> bytes = out @ rest)"
  by (cases m) (auto simp: take_message_def put_message_def message_typed_def option_bind_simps
      take_addr_iff take_bytes_iff decode_decode_one decode_one_iff; blast)

interpretation message_codec: prefix_codec put_message take_message message_typed
  by unfold_locales (rule take_message_iff)

lemma take_messages_iff:
  "take_messages bytes = Some (ms, rest) \<longleftrightarrow>
   list_all message_typed ms \<and> (\<exists>out. put_messages ms = Some out \<and> bytes = out @ rest)"
  using message_codec.counted_iff [of bytes ms rest]
  by (auto simp: take_messages_def put_messages_def option_bind_simps take_u32_iff put_u32_def)

interpretation messages_codec: prefix_codec put_messages take_messages "list_all message_typed"
  by unfold_locales (rule take_messages_iff)

primrec request_typed :: "request \<Rightarrow> bool" where
  "request_typed (Req_Send to e) = addr_typed to"
| "request_typed (Req_Poll d) = addr_typed d"
| "request_typed (Req_Ack d n) = addr_typed d"
| "request_typed (Req_Delivered ds) = list_all addr_typed ds"

primrec response_typed :: "response \<Rightarrow> bool" where
  "response_typed Resp_Ok = True"
| "response_typed (Resp_Delivered n ms) = list_all message_typed ms"
| "response_typed (Resp_Acked b) = True"
| "response_typed (Resp_DeliveredCount n) = True"
| "response_typed Resp_Unauthorized = True"
| "response_typed Resp_UnknownRecipient = True"
| "response_typed Resp_QueueFull = True"
| "response_typed Resp_TooLarge = True"

text \<open>One tag at a time.\<close>

lemma decode_request_tags:
  "decode_request (1 # rest) = Some q \<longleftrightarrow> (\<exists>to e. q = Req_Send to e \<and> addr_typed to \<and>
     encode_request q = Some (1 # rest))"
  "decode_request (2 # rest) = Some q \<longleftrightarrow> (\<exists>d. q = Req_Poll d \<and> addr_typed d \<and>
     encode_request q = Some (2 # rest))"
  "decode_request (3 # rest) = Some q \<longleftrightarrow> (\<exists>d n. q = Req_Ack d n \<and> addr_typed d \<and>
     encode_request q = Some (3 # rest))"
  "decode_request (4 # rest) = Some q \<longleftrightarrow> (\<exists>ds. q = Req_Delivered ds \<and> list_all addr_typed ds \<and>
     encode_request q = Some (4 # rest))"
proof -
  show "decode_request (1 # rest) = Some q \<longleftrightarrow> (\<exists>to e. q = Req_Send to e \<and> addr_typed to \<and>
     encode_request q = Some (1 # rest))"
    by (auto simp: decode_request_def encode_request_def option_bind_simps take_addr_iff
        take_bytes_iff decode_decode_one decode_one_iff)
  show "decode_request (2 # rest) = Some q \<longleftrightarrow> (\<exists>d. q = Req_Poll d \<and> addr_typed d \<and>
     encode_request q = Some (2 # rest))"
    by (auto simp: decode_request_def encode_request_def option_bind_simps take_addr_iff)
  show "decode_request (3 # rest) = Some q \<longleftrightarrow> (\<exists>d n. q = Req_Ack d n \<and> addr_typed d \<and>
     encode_request q = Some (3 # rest))"
    by (auto simp: decode_request_def encode_request_def option_bind_simps take_addr_iff
        split_at_checked_Some u64_to_from_be) (metis length_u64_to_be u64_from_to_be)
  show "decode_request (4 # rest) = Some q \<longleftrightarrow> (\<exists>ds. q = Req_Delivered ds \<and> list_all addr_typed ds \<and>
     encode_request q = Some (4 # rest))"
    by (auto simp: decode_request_def encode_request_def option_bind_simps take_u32_iff
        addr_codec.take_many_iff u32_try_from_Some put_u32_def)
qed

lemma decode_request_other:
  "decode_request [] = None" "tag \<notin> {1, 2, 3, 4} \<Longrightarrow> decode_request (tag # rest) = None"
  by (simp_all add: decode_request_def split_first_def)

text \<open>
  The request codec is exact: a buffer decodes to a request exactly when it is that
  request's encoding (and its handles are UTF-8).  Every malformed, truncated or trailing byte is
  refused, and no two buffers mean the same request.
\<close>

lemma decode_request_iff:
  "decode_request bytes = Some q \<longleftrightarrow> request_typed q \<and> encode_request q = Some bytes"
proof (cases bytes)
  case Nil
  then show ?thesis
    by (cases q) (auto simp: decode_request_other encode_request_def option_bind_simps)
next
  case (Cons tag rest)
  have tags: "encode_request q = Some (tag # rest) \<Longrightarrow> tag = (case q of
      Req_Send _ _ \<Rightarrow> 1 | Req_Poll _ \<Rightarrow> 2 | Req_Ack _ _ \<Rightarrow> 3 | Req_Delivered _ \<Rightarrow> 4)"
    by (cases q) (auto simp: encode_request_def option_bind_simps)
  consider "tag = 1" | "tag = 2" | "tag = 3" | "tag = 4" | "tag \<notin> {1, 2, 3, 4}" by blast
  then show ?thesis
    using Cons tags by cases (auto simp: decode_request_tags decode_request_other split: request.splits)
qed

lemma decode_response_delivered:
  "decode_response (2 # rest) = Some q \<longleftrightarrow> (\<exists>n ms. q = Resp_Delivered n ms \<and>
     list_all message_typed ms \<and> encode_response q = Some (2 # rest))"
  by (auto simp: decode_response_def encode_response_def option_bind_simps take_messages_iff
      split_at_checked_Some u64_to_from_be)

lemma decode_response_count:
  "decode_response (5 # rest) = Some q \<longleftrightarrow> (\<exists>n. q = Resp_DeliveredCount n \<and>
     encode_response q = Some (5 # rest))"
  by (auto simp: decode_response_def encode_response_def option_bind_simps split_at_checked_Some
      u64_to_from_be)

text \<open>The response codec is exact in the same way.\<close>

lemma decode_response_iff:
  "decode_response bytes = Some q \<longleftrightarrow> response_typed q \<and> encode_response q = Some bytes"
proof (cases bytes)
  case Nil
  then show ?thesis
    by (cases q) (auto simp: decode_response_def split_first_def encode_response_def option_bind_simps)
next
  case (Cons tag rest)
  have tags: "encode_response q = Some (tag # rest) \<Longrightarrow> tag = (case q of
      Resp_Ok \<Rightarrow> 1 | Resp_Delivered _ _ \<Rightarrow> 2 | Resp_Acked _ \<Rightarrow> 3 | Resp_Unauthorized \<Rightarrow> 4
    | Resp_DeliveredCount _ \<Rightarrow> 5 | Resp_UnknownRecipient \<Rightarrow> 6 | Resp_QueueFull \<Rightarrow> 7 | Resp_TooLarge \<Rightarrow> 8)"
    by (cases q) (auto simp: encode_response_def option_bind_simps)
  consider "tag = 2" | "tag = 5" | "tag \<notin> {2, 5}" by blast
  then show ?thesis
  proof cases
    assume "tag \<notin> {2, 5}"
    then show ?thesis
      using Cons tags
      by (cases q) (auto simp: decode_response_def encode_response_def split: if_splits)
  qed (use Cons tags in \<open>auto simp: decode_response_delivered decode_response_count
      split: response.splits\<close>)
qed

lemma decode_auth_iff:
  "decode_auth bytes = Some (d, sig) \<longleftrightarrow> addr_typed d \<and> encode_auth d sig = Some bytes"
  by (auto simp: decode_auth_def encode_auth_def option_bind_simps take_addr_iff take_bytes_iff
      split: if_splits)

section \<open>The relay as a machine\<close>

text \<open>A request of an authenticated device; the answer \<^const>\<open>None\<close> is a panic.\<close>

definition relay_step :: "device_addr \<times> request \<Rightarrow> relay \<Rightarrow> response option \<times> relay" where
  "relay_step x r = (case handle (fst x) (snd x) r of None \<Rightarrow> (None, r) | Some (resp, r') \<Rightarrow> (Some resp, r'))"

text \<open>What a request adds to the queue of device \<open>a\<close>: the envelope, stamped with its sender.\<close>

definition sent_to :: "device_addr \<Rightarrow> device_addr \<times> request \<Rightarrow> response option \<Rightarrow> stored_message list" where
  "sent_to a x answer =
     (case x of (sender, Req_Send to envelope) \<Rightarrow>
        if to = a \<and> answer = Some Resp_Ok then [\<lparr>msg_from = sender, msg_envelope = envelope\<rparr>] else []
      | _ \<Rightarrow> [])"

text \<open>Everything one request does, seen from device \<open>a\<close>.\<close>

lemma relay_step_ok:
  assumes "relay_ok r" "relay_step x r = (answer, r')"
  shows "answer \<noteq> None \<and> relay_ok r' \<and> (relay_limits r \<longrightarrow> relay_limits r') \<and>
    max_total_bytes r' = max_total_bytes r \<and>
    unat (relay_cursor a r) \<le> unat (relay_cursor a r') \<and>
    unat (relay_cursor a r') \<le> unat (relay_cursor a r) + length (q_tail (relay_queue a r)) \<and>
    q_tail (relay_queue a r') = drop (unat (relay_cursor a r') - unat (relay_cursor a r))
      (q_tail (relay_queue a r)) @ sent_to a x answer \<and>
    ((\<forall>n. x \<noteq> (a, Req_Ack a n)) \<longrightarrow> relay_cursor a r' = relay_cursor a r)"
proof -
  obtain sender req where x: "x = (sender, req)" by (cases x)
  show ?thesis
  proof (cases req)
    case (Req_Send to envelope)
    obtain e r1 where "relay_enqueue to sender envelope r = Some (e, r1)" "relay_ok r1"
      "relay_limits r \<Longrightarrow> relay_limits r1" "max_total_bytes r1 = max_total_bytes r"
      "\<And>a. a \<noteq> to \<Longrightarrow> relay_queue a r1 = relay_queue a r" "relay_cursor to r1 = relay_cursor to r"
      "q_tail (relay_queue to r1) = q_tail (relay_queue to r) @
         (if e = Enq_Ok then [\<lparr>msg_from = sender, msg_envelope = envelope\<rparr>] else [])"
      using relay_enqueue_ok [OF assms(1), of to sender envelope] by metis
    then show ?thesis
      using assms(2) x Req_Send
      by (cases "a = to"; cases e)
        (auto simp: relay_step_def handle_def sent_to_def relay_cursor_queue)
  next
    case (Req_Ack device n)
    obtain b r1 where "relay_ack device n r = Some (b, r1)" "relay_ok r1"
      "relay_limits r \<Longrightarrow> relay_limits r1" "max_total_bytes r1 = max_total_bytes r"
      "\<And>a. a \<noteq> device \<Longrightarrow> relay_queue a r1 = relay_queue a r"
      "unat (relay_cursor device r) \<le> unat (relay_cursor device r1)"
      "unat (relay_cursor device r1) \<le> unat (relay_cursor device r) + length (q_tail (relay_queue device r))"
      "q_tail (relay_queue device r1) = drop (unat (relay_cursor device r1) - unat (relay_cursor device r))
         (q_tail (relay_queue device r))"
      using relay_ack_ok [OF assms(1), of device n] by metis
    then show ?thesis
      using assms x Req_Ack
      by (cases "device = sender"; cases "a = device")
        (auto simp: relay_step_def handle_def sent_to_def relay_cursor_queue)
  qed (use assms x relay_pending_ok [OF assms(1)] in
      \<open>auto simp: relay_step_def handle_def sent_to_def split: if_splits\<close>)
qed

interpretation relay_budget: invariant_machine relay_step
  "\<lambda>r. relay_ok r \<and> relay_limits r \<and> max_total_bytes r = limit" for limit
  using relay_step_ok by unfold_locales (metis prod.collapse)

interpretation relay_delivery: delivery relay_step relay_ok
  "\<lambda>r. q_tail (relay_queue a r)" "\<lambda>r. unat (relay_cursor a r)" "sent_to a" for a
proof unfold_locales
  fix r :: relay and x
  assume "relay_ok r"
  then show "relay_ok (snd (relay_step x r))"
    using relay_step_ok by (metis prod.collapse)
next
  fix r r' x answer
  assume r: "relay_ok r" "relay_step x r = (answer, r')"
  show "unat (relay_cursor a r) \<le> unat (relay_cursor a r') \<and> unat (relay_cursor a r')
      \<le> unat (relay_cursor a r) + length (q_tail (relay_queue a r) @ sent_to a x answer)"
    using relay_step_ok [OF r, of a] by simp
  show "q_tail (relay_queue a r') = drop (unat (relay_cursor a r') - unat (relay_cursor a r))
      (q_tail (relay_queue a r) @ sent_to a x answer)"
    using relay_step_ok [OF r, of a] by simp
qed

lemma relay_answers: "relay_ok r \<Longrightarrow> list_all (\<lambda>x. x \<noteq> None) (answers relay_step xs r)"
proof (induction xs arbitrary: r)
  case (Cons x xs)
  then show ?case
    using relay_step_ok [of r x "fst (relay_step x r)" "snd (relay_step x r)"] by simp
qed simp

text \<open>
  C5.  The relay never panics and never outgrows its budgets.  Start an empty relay with any
  ceiling below \<open>u64::MAX\<close> (which would switch the node budget off) and let devices send it any requests.  No request panics; the two byte
  indices are exactly the sums over the queues; each user stays within \<^const>\<open>MAX_USER_BYTES\<close> and
  the node within the ceiling; every queue holds only unacknowledged messages, within
  \<^const>\<open>MAX_PENDING\<close> and \<^const>\<open>MAX_QUEUE_BYTES\<close>.
\<close>

theorem relay_within_budgets:
  assumes "with_max_total_bytes limit relay_new = Some r0" and "limit \<noteq> u64_max"
    and "r = final relay_step xs r0"
  shows "list_all (\<lambda>x. x \<noteq> None) (answers relay_step xs r0) \<and>
    fmget 0 (user_bytes r) u = user_sum u (queues r) \<and> user_sum u (queues r) \<le> MAX_USER_BYTES \<and>
    unat (total_bytes r) = total_sum (queues r) \<and> total_bytes r \<le> limit \<and>
    (\<exists>ms. relay_pending a r = Some ms \<and> queue_resident (relay_queue a r) = ms \<and>
      length ms \<le> MAX_PENDING \<and> sum_list (map byte_len ms) \<le> MAX_QUEUE_BYTES)"
proof -
  have r0: "relay_ok r0 \<and> relay_limits r0 \<and> max_total_bytes r0 = limit"
    using assms(1,2) relay_new_ok
    by (auto simp: with_max_total_bytes_def relay_ok_def relay_limits_def relay_new_def total_sum_def
        split: if_splits)
  then have r: "relay_ok r" "relay_limits r" "max_total_bytes r = limit"
    using relay_budget.run_inv [OF r0, of xs] assms(3) by auto
  have "queue_limits (relay_queue a r)" "queue_ok (relay_queue a r)"
    "session_cursor (q_inner (relay_queue a r)) = 0"
    using r by (auto simp: relay_limits_def relay_ok_def)
  then show ?thesis
    using r relay_answers [of r0 xs] r0 relay_pending_ok [OF r(1), of a]
    by (auto simp: relay_ok_def relay_limits_def queue_limits_def queue_ok_def queue_resident_def
        q_tail_def word_le_nat_alt)
qed

definition alice :: device_addr where "alice = DeviceAddr (ascii ''alice'') 1"

definition bob :: device_addr where "bob = DeviceAddr (ascii ''bob'') 1"

definition hello :: envelope where "hello = \<lparr>env_kind = Dm, env_payload = [7, 7]\<rparr>"

theorem relay_within_budgets_witness:
  "\<exists>r0. with_max_total_bytes 0x10000000 relay_new = Some r0 \<and>
    total_bytes (final relay_step [(alice, Req_Send bob hello), (bob, Req_Ack bob 1)] r0) \<le> 0x10000000"
proof -
  have r0: "with_max_total_bytes 0x10000000 relay_new
      = Some (relay_new\<lparr>max_total_bytes := 0x10000000\<rparr>)"
    by (simp add: with_max_total_bytes_def MAX_USER_BYTES_def)
  show ?thesis
    using r0 relay_within_budgets [OF r0 _ refl,
        of "[(alice, Req_Send bob hello), (bob, Req_Ack bob 1)]" "[]" alice] by simp
qed

text \<open>
  C6.  Delivery through the relay.  Whatever any devices send, poll and acknowledge, in any
  order, a device is offered exactly the envelopes accepted for it, in the order they were
  accepted, each with the device that sent it, starting after the ones it has acknowledged; and
  its cursor never moves back.
\<close>

theorem relay_exactly_once:
  "let r = final relay_step xs relay_new; r' = final relay_step ys r;
       sent = history relay_step (sent_to a) xs relay_new
   in relay_pending a r = Some (drop (unat (relay_cursor a r)) sent) \<and>
      unat (relay_cursor a r) \<le> length sent \<and> relay_cursor a r \<le> relay_cursor a r'"
proof -
  let ?r = "final relay_step xs relay_new"
  have new: "relay_ok relay_new" "q_tail (relay_queue a relay_new) = []" "relay_cursor a relay_new = 0"
    using relay_new_ok queue_ok_default
    by (auto simp: relay_new_def relay_cursor_def)
  have ok: "relay_ok ?r" using relay_delivery.run_inv [OF new(1)] .
  show ?thesis
    using relay_delivery.run_delivery [OF new(1), of a xs] relay_delivery.run_delivery [OF ok, of a ys]
      new relay_pending_ok [OF ok, of a]
    by (simp add: Let_def word_le_nat_alt)
qed

definition is_ack_by :: "device_addr \<Rightarrow> device_addr \<times> request \<Rightarrow> bool" where
  "is_ack_by a x = (case x of (sender, Req_Ack d n) \<Rightarrow> sender = a \<and> d = a | _ \<Rightarrow> False)"

lemma relay_cursor_run:
  "relay_ok r \<Longrightarrow> \<not> list_ex (is_ack_by a) ys \<Longrightarrow>
   relay_cursor a (final relay_step ys r) = relay_cursor a r"
proof (induction ys arbitrary: r)
  case (Cons y ys)
  obtain answer r' where r': "relay_step y r = (answer, r')" by (cases "relay_step y r")
  have "y \<noteq> (a, Req_Ack a n)" for n using Cons.prems(2) by (auto simp: is_ack_by_def)
  then show ?case
    using Cons r' relay_step_ok [OF Cons.prems(1) r', of a] by simp
qed simp

text \<open>
  C15.  Only a device itself reads or drains its queue.  On any reachable relay, a poll or an ack
  of \<open>a\<close>'s queue by another device is answered \<^const>\<open>Resp_Unauthorized\<close> and changes nothing, and
  through any further requests that hold no ack by \<open>a\<close> itself, the cursor of \<open>a\<close> stays and what
  was offered to \<open>a\<close> is still offered, first.
\<close>

theorem relay_owner_only:
  assumes "r = final relay_step xs relay_new" and "sender \<noteq> a"
    and "\<not> list_ex (is_ack_by a) ys" and "r' = final relay_step ys r"
  shows "relay_step (sender, Req_Poll a) r = (Some Resp_Unauthorized, r) \<and>
    relay_step (sender, Req_Ack a n) r = (Some Resp_Unauthorized, r) \<and>
    relay_cursor a r' = relay_cursor a r \<and>
    (\<exists>ms. relay_pending a r = Some ms \<and>
      relay_pending a r' = Some (ms @ history relay_step (sent_to a) ys r))"
proof -
  have ok: "relay_ok r" using relay_delivery.run_inv relay_new_ok assms(1) by blast
  have ok': "relay_ok r'" using relay_delivery.run_inv [OF ok] assms(4) by blast
  have c: "relay_cursor a r' = relay_cursor a r"
    using relay_cursor_run [OF ok assms(3)] assms(4) by simp
  show ?thesis
    using assms c relay_delivery.run_delivery [OF ok, of a ys] relay_pending_ok [OF ok, of a]
      relay_pending_ok [OF ok', of a]
    by (simp add: relay_step_def handle_def)
qed

theorem relay_owner_only_witness:
  "relay_cursor bob (final relay_step [(alice, Req_Ack bob 1)]
     (final relay_step [(alice, Req_Send bob hello)] relay_new))
   = relay_cursor bob (final relay_step [(alice, Req_Send bob hello)] relay_new)"
proof -
  have "\<not> list_ex (is_ack_by bob) [(alice, Req_Ack bob 1)]" and ne: "alice \<noteq> bob"
    by (simp_all add: is_ack_by_def alice_def bob_def ascii_def)
  then show ?thesis
    using relay_owner_only [OF refl ne _ refl, of "[(alice, Req_Ack bob 1)]"
        "[(alice, Req_Send bob hello)]"] by simp
qed

lemma iter_min_None [simp]: "iter_min xs = None \<longleftrightarrow> xs = []"
  by (cases xs) (auto split: option.splits)

lemma less_iter_min: "iter_min xs = Some n \<Longrightarrow> k < n \<longleftrightarrow> list_all (\<lambda>x. k < x) xs"
  by (induction xs arbitrary: n) (auto split: option.splits)

text \<open>
  C32.  The delivered-to-all watermark.  For a user's own devices, the count the relay answers is
  the number of messages every one of those devices has acknowledged, and asking again after any
  further requests never gives a smaller one.
\<close>

theorem relay_watermark:
  assumes "r = final relay_step xs relay_new" and "r' = final relay_step ys r"
    and "ds \<noteq> []" and "list_all (\<lambda>d. dev_user d = dev_user auth) ds"
  shows "\<exists>n n'. relay_step (auth, Req_Delivered ds) r = (Some (Resp_DeliveredCount n), r) \<and>
    relay_step (auth, Req_Delivered ds) r' = (Some (Resp_DeliveredCount n'), r') \<and> n \<le> n' \<and>
    (k < n \<longleftrightarrow> list_all (\<lambda>d. k < relay_cursor d r) ds)"
proof -
  have "\<exists>n. iter_min (map f ds) = Some n" for f :: "device_addr \<Rightarrow> u64"
    using assms(3) iter_min_None [of "map f ds"] by (cases "iter_min (map f ds)") auto
  then obtain n n' where n: "iter_min (map (\<lambda>d. relay_cursor d r) ds) = Some n"
    "iter_min (map (\<lambda>d. relay_cursor d r') ds) = Some n'"
    by blast
  have ok: "relay_ok r" using relay_delivery.run_inv relay_new_ok assms(1) by blast
  have "relay_cursor d r \<le> relay_cursor d r'" for d
    using relay_delivery.run_delivery [OF ok, of d ys] assms(2) by (simp add: word_le_nat_alt)
  then have "k < n \<Longrightarrow> k < n'" for k
    using less_iter_min [OF n(1)] less_iter_min [OF n(2)]
    by (auto simp: list_all_iff intro: less_le_trans)
  then have "n \<le> n'" by (meson not_le order_less_irrefl)
  then show ?thesis
    using n assms(4) less_iter_min [OF n(1), of k]
    by (simp add: relay_step_def handle_def list_all_iff)
qed

theorem relay_watermark_witness:
  "\<exists>n n'. relay_step (bob, Req_Delivered [bob]) relay_new = (Some (Resp_DeliveredCount n), relay_new) \<and>
    n \<le> n'"
  using relay_watermark [where xs = "[]" and ys = "[(alice, Req_Send bob hello), (bob, Req_Ack bob 1)]"
      and ds = "[bob]" and auth = bob, OF refl refl] by fastforce

section \<open>Snapshots restore the queues\<close>

lemma queue_from_parts_queue:
  "queue_ok q \<Longrightarrow>
   queue_from_parts (q_base q) (queue_resident q) (session_cursor (q_inner q)) = Some q"
  by (cases q; cases "q_inner q")
    (auto simp: queue_from_parts_def queue_ok_def queue_resident_def q_tail_def session_defs
      fold_session_append Let_def slice_from_def)

definition entry_ok :: "device_addr \<times> queue \<Rightarrow> bool" where
  "entry_ok = (\<lambda>(a, q). addr_typed a \<and> list_all message_typed (queue_resident q) \<and> queue_ok q)"

lemma restore_v2_loop_put:
  "list_all entry_ok xs \<Longrightarrow> put_many put_queue xs = Some out \<Longrightarrow>
   restore_v2_loop (length xs) (out @ rest) qs = Some (fold (\<lambda>(k, v). fmupd k v) xs qs, rest)"
proof (induction xs arbitrary: out qs)
  case (Cons x xs)
  obtain a q where x: "x = (a, q)" by (cases x)
  obtain addr logb block out' where put: "put_addr a = Some addr"
    "put_messages (queue_resident q) = Some logb" "put_bytes logb = Some block"
    "put_many put_queue xs = Some out'"
    and out: "out = addr @ u64_to_be (q_base q) @ u64_to_be (of_nat (session_cursor (q_inner q)))
        @ block @ out'"
    using Cons.prems(2) x by (auto simp: put_queue_def option_bind_simps)
  have ok: "addr_typed a" "list_all message_typed (queue_resident q)" "queue_ok q"
    using Cons.prems(1) x by (auto simp: entry_ok_def)
  have c: "unat (of_nat (session_cursor (q_inner q)) :: u64) = session_cursor (q_inner q)"
    using ok(3) by (intro unat_of_nat_u64) (simp add: queue_ok_def)
  have "take_messages logb = Some (queue_resident q, [])"
    using messages_codec.dec_enc [OF ok(2) put(2), of "[]"] by simp
  then show ?case
    using Cons.IH [OF _ put(4)] Cons.prems(1) addr_codec.dec_enc [OF ok(1) put(1)]
      bytes_codec.dec_enc [OF _ put(3)] queue_from_parts_queue [OF ok(3)] x out c
    by simp
qed simp

lemma rebuild_fold:
  "fold (\<lambda>(addr, queue) (totals, grand).
      (fmupd (dev_user addr) (fmget 0 totals (dev_user addr) + q_pending_bytes queue) totals,
       grand + of_nat (q_pending_bytes queue))) xs (t, g) = (t', g') \<Longrightarrow>
   fmget 0 t' u = fmget 0 t u + sum_list (map (\<lambda>(a, q). if dev_user a = u then q_pending_bytes q else 0) xs)
   \<and> g' = g + of_nat (sum_list (map (\<lambda>(a, q). q_pending_bytes q) xs))"
proof (induction xs arbitrary: t g)
  case (Cons x xs)
  obtain a q where x: "x = (a, q)" by (cases x)
  show ?case
    using Cons.IH [of "fmupd (dev_user a) (fmget 0 t (dev_user a) + q_pending_bytes q) t"
        "g + of_nat (q_pending_bytes q)"] Cons.prems
    by (simp add: x add.assoc)
qed simp

lemma rebuild_user_bytes_ok:
  assumes "\<And>a. queue_ok (relay_queue a r)" "max_total_bytes r \<noteq> u64_max"
    and "total_sum (queues r) < 2 ^ 64"
  shows "relay_ok (rebuild_user_bytes r)" "queues (rebuild_user_bytes r) = queues r"
proof -
  obtain t g where tg: "fold (\<lambda>(addr, queue) (totals, grand).
      (fmupd (dev_user addr) (fmget 0 totals (dev_user addr) + q_pending_bytes queue) totals,
       grand + of_nat (q_pending_bytes queue))) (sorted_list_of_fmap (queues r)) (fmempty, 0 :: u64)
      = (t, g)" by fastforce
  note b = rebuild_fold [OF tg]
  have "fmget 0 t u = user_sum u (queues r)" for u
    using b [of u] by (simp add: user_sum_def fmsum_def)
  moreover have "unat g = total_sum (queues r)"
    using b assms(3) by (simp add: total_sum_def fmsum_def unat_of_nat)
  ultimately show "relay_ok (rebuild_user_bytes r)" "queues (rebuild_user_bytes r) = queues r"
    using assms(1,2) tg by (simp_all add: rebuild_user_bytes_def relay_ok_def)
qed

lemma restore_snapshot:
  assumes ok: "relay_ok r" and typed: "list_all entry_ok (sorted_list_of_fmap (queues r))"
    and snap: "snapshot r = Some bytes"
  shows "\<exists>r'. restore bytes = Some r' \<and> queues r' = queues r \<and> relay_ok r'"
proof -
  obtain body count where b: "u32_try_from (length (sorted_list_of_fmap (queues r))) = Some count"
    "put_many put_queue (sorted_list_of_fmap (queues r)) = Some body"
    "bytes = [SNAPSHOT_MARKER, SNAPSHOT_VERSION_2] @ put_u32 count @ body"
    using snap by (auto simp: snapshot_def Let_def option_bind_simps)
  let ?r = "relay_new\<lparr>queues := queues r\<rparr>"
  have "restore_v2 (put_u32 count @ body) = Some (rebuild_user_bytes ?r)"
    using restore_v2_loop_put [OF typed b(2), of "[]" fmempty] b(1)
      u32_codec.dec_enc [of count "put_u32 count" body]
    by (simp add: restore_v2_def u32_try_from_Some fold_fmupd_sorted_list)
  then have "restore bytes = Some (rebuild_user_bytes ?r)"
    using b(3) by (simp add: restore_def)
  moreover have "total_sum (queues r) < 2 ^ 64"
    using ok unat_u64_less [of "total_bytes r"] by (simp add: relay_ok_def)
  ultimately show ?thesis
    using rebuild_user_bytes_ok [of ?r] ok
    by (simp add: relay_ok_def relay_new_def MAX_TOTAL_BYTES_def)
qed

text \<open>What a snapshot of a relay within its budgets needs of the lengths: all of them fit.\<close>

lemma put_message_fits:
  "byte_len m \<le> MAX_ENVELOPE_BYTES \<Longrightarrow> \<exists>out. put_message m = Some out \<and> length out = byte_len m + 19"
  by (auto simp: put_message_def put_addr_def option_bind_simps put_bytes_Some encode_Some
      put_u32_def byte_len_def MAX_ENVELOPE_BYTES_def put_bytes_def u32_try_from_def encode_def)

lemma put_many_message_fits:
  "list_all (\<lambda>m. byte_len m \<le> MAX_ENVELOPE_BYTES) ms \<Longrightarrow>
   \<exists>out. put_many put_message ms = Some out \<and>
     length out = sum_list (map byte_len ms) + 19 * length ms"
proof (induction ms)
  case (Cons m ms)
  then show ?case using put_message_fits [of m] by auto
qed simp

lemma put_queue_fits:
  assumes "queue_limits q" "session_cursor (q_inner q) = 0" "queue_ok q" "length (dev_user a) < 2 ^ 32"
  shows "\<exists>out. put_queue (a, q) = Some out"
proof -
  have tail: "q_tail q = queue_resident q" using assms(2) by (simp add: q_tail_def queue_resident_def)
  then have b: "list_all (\<lambda>m. byte_len m \<le> MAX_ENVELOPE_BYTES) (queue_resident q)"
    "length (queue_resident q) \<le> 65536" "sum_list (map byte_len (queue_resident q)) \<le> 67108864"
    using assms(1,3) by (auto simp: queue_limits_def queue_ok_def limit_defs)
  then obtain out where "put_many put_message (queue_resident q) = Some out"
    "length out \<le> 70000000"
    using put_many_message_fits [OF b(1)] by fastforce
  then show ?thesis
    using b(2) assms(4)
    by (auto simp: put_queue_def put_messages_def put_addr_def put_bytes_def u32_try_from_def put_u32_def)
qed

lemma put_many_total: "list_all (\<lambda>x. \<exists>out. f x = Some out) xs \<Longrightarrow> \<exists>out. put_many f xs = Some out"
  by (induction xs) auto

text \<open>What came off the wire: an authenticated sender and a request that decoded.\<close>

definition from_wire :: "device_addr \<times> request \<Rightarrow> bool" where
  "from_wire x = (addr_typed (fst x) \<and> request_typed (snd x) \<and> encode_request (snd x) \<noteq> None)"

definition relay_typed :: "relay \<Rightarrow> bool" where
  "relay_typed r \<longleftrightarrow>
     (\<forall>a. a |\<in>| fmdom (queues r) \<longrightarrow> addr_typed a \<and> length (dev_user a) < 2 ^ 32) \<and>
     (\<forall>a. list_all message_typed (q_tail (relay_queue a r)))"

lemma relay_queues_step:
  "relay_step x r = (answer, r') \<Longrightarrow>
   fmdom (queues r') |\<subseteq>| (case snd x of Req_Send to e \<Rightarrow> finsert to (fmdom (queues r)) | _ \<Rightarrow> fmdom (queues r))"
  by (cases x; cases "snd x")
    (auto simp: relay_step_def handle_def relay_enqueue_def relay_ack_def Let_def option_bind_simps
      fmlookup_dom_iff split: if_splits option.splits)

lemma relay_typed_step:
  assumes "relay_ok r" "relay_typed r" "from_wire x" "relay_step x r = (answer, r')"
  shows "relay_typed r' \<and> fcard (fmdom (queues r')) \<le> Suc (fcard (fmdom (queues r)))"
proof -
  note dom = relay_queues_step [OF assms(4)]
  have "addr_typed to \<and> length (dev_user to) < 2 ^ 32" if "snd x = Req_Send to e" for to e
    using that assms(3)
    by (auto simp: from_wire_def encode_request_def put_addr_def put_bytes_Some option_bind_simps)
  then have "addr_typed a \<and> length (dev_user a) < 2 ^ 32" if "a |\<in>| fmdom (queues r')" for a
    using that dom assms(2) by (auto simp: relay_typed_def split: request.splits)
  moreover have "list_all message_typed (sent_to a x answer)" for a
    using assms(3) by (auto simp: sent_to_def from_wire_def message_typed_def split: prod.splits request.splits)
  then have "list_all message_typed (q_tail (relay_queue a r'))" for a
    using relay_step_ok [OF assms(1,4), of a] assms(2)
    by (auto simp: relay_typed_def list_all_iff dest: in_set_dropD)
  moreover have "fcard (fmdom (queues r')) \<le> Suc (fcard (fmdom (queues r)))"
    using fcard_mono [OF dom] by (cases "snd x") (auto simp: fcard_finsert_if split: if_splits)
  ultimately show ?thesis by (simp add: relay_typed_def)
qed

lemma relay_wire_run:
  "relay_ok r \<Longrightarrow> relay_limits r \<Longrightarrow> relay_typed r \<Longrightarrow> list_all from_wire xs \<Longrightarrow>
   r' = final relay_step xs r \<Longrightarrow>
   relay_ok r' \<and> relay_limits r' \<and> relay_typed r' \<and>
   fcard (fmdom (queues r')) \<le> fcard (fmdom (queues r)) + length xs"
proof (induction xs arbitrary: r)
  case (Cons x xs)
  obtain answer r1 where r1: "relay_step x r = (answer, r1)" by (cases "relay_step x r")
  show ?case
    using Cons.IH [of r1] Cons.prems r1 relay_step_ok [OF Cons.prems(1) r1]
      relay_typed_step [OF Cons.prems(1,3) _ r1] by fastforce
qed simp

lemma snapshot_total:
  assumes "relay_ok r" "relay_limits r" "relay_typed r" "fcard (fmdom (queues r)) < 2 ^ 32"
  shows "\<exists>bytes. snapshot r = Some bytes" "list_all entry_ok (sorted_list_of_fmap (queues r))"
proof -
  have q: "relay_queue a r = q" if "(a, q) \<in> set (sorted_list_of_fmap (queues r))" for a q
    using that by (simp add: in_sorted_list_of_fmap fmget_lookup)
  have entry: "queue_ok q \<and> queue_limits q \<and> session_cursor (q_inner q) = 0 \<and> addr_typed a \<and>
      length (dev_user a) < 2 ^ 32 \<and> list_all message_typed (q_tail q)"
    if "(a, q) \<in> set (sorted_list_of_fmap (queues r))" for a q
    using assms(1-3) q [OF that] that
    by (auto simp: relay_ok_def relay_limits_def relay_typed_def in_sorted_list_of_fmap
        intro: fmdomI)
  then show "list_all entry_ok (sorted_list_of_fmap (queues r))"
    by (auto simp: list_all_iff entry_ok_def q_tail_def queue_resident_def)
  have "list_all (\<lambda>x. \<exists>out. put_queue x = Some out) (sorted_list_of_fmap (queues r))"
    unfolding list_all_iff using entry put_queue_fits by auto
  then obtain body where "put_many put_queue (sorted_list_of_fmap (queues r)) = Some body"
    using put_many_total by blast
  moreover have "length (sorted_list_of_fmap (queues r)) = fcard (fmdom (queues r))"
    by (simp add: sorted_list_of_fmap_def sorted_list_of_fset.rep_eq fcard.rep_eq)
  ultimately show "\<exists>bytes. snapshot r = Some bytes"
    using assms(4) by (simp add: snapshot_def Let_def u32_try_from_def)
qed

text \<open>
  C18.  A relay survives a restart.  After any requests that came off the wire, fewer than 2 to the
  32nd of them (the snapshot counts its queues in a \<open>u32\<close> and panics beyond), taking a snapshot
  does not panic, and restoring its bytes gives a relay with exactly the same queues (messages,
  bases and cursors) and exact byte indices.
\<close>

theorem relay_restart:
  assumes "r = final relay_step xs relay_new" and "list_all from_wire xs" and "length xs < 2 ^ 32"
  shows "\<exists>bytes r'. snapshot r = Some bytes \<and> restore bytes = Some r' \<and> queues r' = queues r \<and>
    unat (total_bytes r') = total_sum (queues r) \<and> fmget 0 (user_bytes r') u = user_sum u (queues r)"
proof -
  have new: "relay_ok relay_new" "relay_limits relay_new" "relay_typed relay_new"
    using relay_new_ok queue_ok_default by (auto simp: relay_typed_def relay_new_def)
  have "fcard (fmdom (queues relay_new)) = 0" by (simp add: relay_new_def fcard.rep_eq)
  then have r: "relay_ok r" "relay_limits r" "relay_typed r" "fcard (fmdom (queues r)) < 2 ^ 32"
    using relay_wire_run [OF new assms(2,1)] assms(3) by linarith+
  obtain bytes where "snapshot r = Some bytes" using snapshot_total(1) [OF r] by blast
  then show ?thesis
    using restore_snapshot [OF r(1) snapshot_total(2) [OF r]] by (fastforce simp: relay_ok_def)
qed

theorem relay_restart_witness:
  "\<exists>bytes r'. snapshot (final relay_step [(alice, Req_Send bob hello)] relay_new) = Some bytes \<and>
     restore bytes = Some r' \<and>
     queues r' = queues (final relay_step [(alice, Req_Send bob hello)] relay_new)"
proof -
  have "list_all from_wire [(alice, Req_Send bob hello)]"
    by (simp add: from_wire_def addr_typed_def alice_def bob_def ascii_def utf8_valid.simps
        encode_request_def put_addr_def put_bytes_def u32_try_from_def encode_def hello_def)
  then show ?thesis
    using relay_restart [OF refl, of "[(alice, Req_Send bob hello)]"] by fastforce
qed

end
