(* ===== verification/Directory.thy ===== *)
theory Directory
  imports Relay_Protocol "HOL-Library.Multiset"
begin

text \<open>
  Crates \<^verbatim>\<open>tacenta-directory-core\<close> and \<^verbatim>\<open>tacenta-directory\<close> (\<^verbatim>\<open>lib.rs\<close>): the trust-on-first-use
  and rotation decisions, the rollback decision, and the directory that stores bindings, prekey
  bundles, recovery keys and witnessed generations per device.

  Bundles, identities and keys are opaque bytes here as they are in the source: who may call
  \<open>rotate\<close>, \<open>set_recovery\<close> or \<open>witness\<close> is decided above this crate.
\<close>

section \<open>The pure decisions\<close>

datatype registration = Registered | Refreshed | Reg_Rejected

datatype rotation = Rotated | Rot_Unregistered

definition register_core :: "bytes option \<Rightarrow> bytes \<Rightarrow> registration \<times> bytes" where
  "register_core current presented =
     (case current of
        None \<Rightarrow> (Registered, presented)
      | Some existing \<Rightarrow>
          if existing = presented then (Refreshed, presented) else (Reg_Rejected, existing))"

definition rotate_core :: "bytes option \<Rightarrow> bytes \<Rightarrow> rotation \<times> bytes option" where
  "rotate_core current new_identity =
     (case current of None \<Rightarrow> (Rot_Unregistered, None) | Some _ \<Rightarrow> (Rotated, Some new_identity))"

datatype witness = Fresh | RolledBack | Wit_Unregistered

definition witness_core :: "u64 option \<Rightarrow> u64 \<Rightarrow> witness \<times> u64" where
  "witness_core stored offered =
     (case stored of
        None \<Rightarrow> (Fresh, offered)
      | Some highest \<Rightarrow> if offered \<ge> highest then (Fresh, offered) else (RolledBack, highest))"

section \<open>The directory\<close>

datatype deposit = Deposited nat | Dep_Rejected | Dep_Unregistered

datatype recovery_set = Rec_Set | Rec_Unregistered

record entry =
  ent_identity :: bytes
  ent_bundle :: bytes
  ent_pool :: "bytes list"

record directory =
  entries :: "(device_addr, entry) fmap"
  devices :: "(bytes, u32 list) fmap"
  recovery :: "(device_addr, bytes) fmap"
  generations :: "(device_addr, u64) fmap"

definition directory_new :: directory where
  "directory_new = \<lparr>entries = fmempty, devices = fmempty, recovery = fmempty, generations = fmempty\<rparr>"

definition identity :: "directory \<Rightarrow> device_addr \<Rightarrow> bytes option" where
  "identity d device = map_option ent_identity (fmlookup (entries d) device)"

definition contains_device :: "directory \<Rightarrow> device_addr \<Rightarrow> bool" where
  "contains_device d device = (fmlookup (entries d) device \<noteq> None)"

definition register :: "device_addr \<Rightarrow> bytes \<Rightarrow> bytes \<Rightarrow> directory \<Rightarrow> registration \<times> directory" where
  "register device ident bundle d =
     (let current = map_option ent_identity (fmlookup (entries d) device);
          (outcome, binding) = register_core current ident;
          entry = \<lparr>ent_identity = binding, ent_bundle = bundle, ent_pool = []\<rparr>
      in case outcome of
           Reg_Rejected \<Rightarrow> (Reg_Rejected, d)
         | Refreshed \<Rightarrow> (Refreshed, d\<lparr>entries := fmupd device entry (entries d)\<rparr>)
         | Registered \<Rightarrow>
             let list = fmget [] (devices d) (dev_user device);
                 list' = (if dev_device device \<in> set list then list
                          else sort (list @ [dev_device device]))
             in (Registered, d\<lparr>devices := fmupd (dev_user device) list' (devices d),
                               entries := fmupd device entry (entries d)\<rparr>))"

definition rotate :: "device_addr \<Rightarrow> bytes \<Rightarrow> bytes \<Rightarrow> directory \<Rightarrow> rotation \<times> directory" where
  "rotate device new_identity new_bundle d =
     (let current = map_option ent_identity (fmlookup (entries d) device)
      in case rotate_core current new_identity of
           (Rotated, Some ident) \<Rightarrow>
             (Rotated, d\<lparr>entries := fmupd device
                            \<lparr>ent_identity = ident, ent_bundle = new_bundle, ent_pool = []\<rparr> (entries d),
                         generations := fmdrop device (generations d)\<rparr>)
         | _ \<Rightarrow> (Rot_Unregistered, d))"

definition set_recovery :: "device_addr \<Rightarrow> bytes \<Rightarrow> directory \<Rightarrow> recovery_set \<times> directory" where
  "set_recovery device key d =
     (if \<not> contains_device d device then (Rec_Unregistered, d)
      else (Rec_Set, d\<lparr>recovery := fmupd device key (recovery d)\<rparr>))"

definition recovery_key :: "directory \<Rightarrow> device_addr \<Rightarrow> bytes option" where
  "recovery_key d device = fmlookup (recovery d) device"

definition witness_generation :: "device_addr \<Rightarrow> u64 \<Rightarrow> directory \<Rightarrow> witness \<times> directory" where
  "witness_generation device generation d =
     (if \<not> contains_device d device then (Wit_Unregistered, d)
      else
        let (verdict, highest) = witness_core (fmlookup (generations d) device) generation
        in (verdict, d\<lparr>generations := fmupd device highest (generations d)\<rparr>))"

definition restore_generation :: "device_addr \<Rightarrow> u64 \<Rightarrow> directory \<Rightarrow> directory" where
  "restore_generation device generation d =
     d\<lparr>generations := fmupd device generation (generations d)\<rparr>"

definition deposit_prekeys :: "device_addr \<Rightarrow> bytes \<Rightarrow> bytes list \<Rightarrow> directory \<Rightarrow> deposit \<times> directory" where
  "deposit_prekeys device ident bundles d =
     (case fmlookup (entries d) device of
        None \<Rightarrow> (Dep_Unregistered, d)
      | Some entry \<Rightarrow>
          if ent_identity entry \<noteq> ident then (Dep_Rejected, d)
          else
            let entry' = entry\<lparr>ent_pool := ent_pool entry @ bundles\<rparr>
            in (Deposited (length (ent_pool entry')),
                d\<lparr>entries := fmupd device entry' (entries d)\<rparr>))"

definition pool_depth :: "directory \<Rightarrow> device_addr \<Rightarrow> nat" where
  "pool_depth d device =
     (case fmlookup (entries d) device of None \<Rightarrow> 0 | Some e \<Rightarrow> length (ent_pool e))"

definition take_bundle :: "device_addr \<Rightarrow> directory \<Rightarrow> bytes option \<times> directory" where
  "take_bundle device d =
     (case fmlookup (entries d) device of
        None \<Rightarrow> (None, d)
      | Some entry \<Rightarrow>
          (case ent_pool entry of
             one_time # pool \<Rightarrow>
               (Some one_time, d\<lparr>entries := fmupd device (entry\<lparr>ent_pool := pool\<rparr>) (entries d)\<rparr>)
           | [] \<Rightarrow> (Some (ent_bundle entry), d)))"

definition published_bundle :: "directory \<Rightarrow> device_addr \<Rightarrow> bytes option" where
  "published_bundle d device = map_option ent_bundle (fmlookup (entries d) device)"

definition devices_of :: "directory \<Rightarrow> bytes \<Rightarrow> u32 list" where
  "devices_of d user = fmget [] (devices d) user"

section \<open>The directory as a machine\<close>

datatype dir_op =
    Register device_addr bytes bytes
  | Rotate device_addr bytes bytes
  | SetRecovery device_addr bytes
  | WitnessGen device_addr u64
  | DepositPrekeys device_addr bytes "bytes list"
  | TakeBundle device_addr

datatype dir_answer =
    Ans_Registration registration
  | Ans_Rotation rotation
  | Ans_Recovery recovery_set
  | Ans_Witness witness
  | Ans_Deposit deposit
  | Ans_Bundle "bytes option"

primrec dir_step :: "dir_op \<Rightarrow> directory \<Rightarrow> dir_answer \<times> directory" where
  "dir_step (Register a i b) d = map_prod Ans_Registration id (register a i b d)"
| "dir_step (Rotate a i b) d = map_prod Ans_Rotation id (rotate a i b d)"
| "dir_step (SetRecovery a k) d = map_prod Ans_Recovery id (set_recovery a k d)"
| "dir_step (WitnessGen a g) d = map_prod Ans_Witness id (witness_generation a g d)"
| "dir_step (DepositPrekeys a i bs) d = map_prod Ans_Deposit id (deposit_prekeys a i bs d)"
| "dir_step (TakeBundle a) d = map_prod Ans_Bundle id (take_bundle a d)"

lemmas dir_op_defs = register_def register_core_def rotate_def rotate_core_def set_recovery_def
  witness_generation_def witness_core_def deposit_prekeys_def take_bundle_def contains_device_def
  Let_def

section \<open>The device index is exact\<close>

definition dir_ok :: "directory \<Rightarrow> bool" where
  "dir_ok d \<longleftrightarrow>
     (\<forall>u. set (devices_of d u) = {n. contains_device d (DeviceAddr u n)} \<and>
          sorted (devices_of d u) \<and> distinct (devices_of d u) \<and>
          fmlookup (devices d) u \<noteq> Some []) \<and>
     (\<forall>a. recovery_key d a \<noteq> None \<longrightarrow> contains_device d a) \<and>
     (\<forall>a. fmlookup (generations d) a \<noteq> None \<longrightarrow> contains_device d a)"

lemma dir_ok_new: "dir_ok directory_new"
  by (simp add: dir_ok_def directory_new_def devices_of_def contains_device_def recovery_key_def)

lemma register_ok:
  assumes "dir_ok d"
  shows "dir_ok (snd (register a i b d))"
proof (cases "fmlookup (entries d) a")
  case None
  obtain u n where a: "a = DeviceAddr u n" by (cases a)
  have "n \<notin> set (fmget [] (devices d) u)"
    using assms None a by (auto simp: dir_ok_def devices_of_def contains_device_def)
  moreover have "sort (l @ [n]) \<noteq> []" for l
    by (metis append_is_Nil_conv length_0_conv length_sort not_Cons_self2)
  ultimately show ?thesis
    using assms None a
    by (auto simp: dir_ok_def register_def register_core_def Let_def devices_of_def
        contains_device_def recovery_key_def)
next
  case (Some e)
  then show ?thesis
    using assms
    by (auto simp: dir_ok_def register_def register_core_def Let_def devices_of_def
        contains_device_def recovery_key_def)
qed

lemma dir_step_ok: "dir_ok d \<Longrightarrow> dir_ok (snd (dir_step x d))"
proof (cases x)
  case (Register a i b)
  assume "dir_ok d"
  then show ?thesis using Register by (simp add: register_ok)
qed (auto simp: dir_ok_def dir_op_defs devices_of_def recovery_key_def
    split: option.splits list.splits prod.splits if_splits)

interpretation directory: invariant_machine dir_step dir_ok
  by unfold_locales (rule dir_step_ok)

text \<open>
  C34.  The device index.  After any operations on an empty directory, the device list of a user is
  the sorted, duplicate-free list of exactly that user's registered devices, and a recovery key or
  a witnessed generation is held only for a registered device.
\<close>

theorem device_index_exact:
  "let d = final dir_step xs directory_new
   in set (devices_of d u) = {n. contains_device d (DeviceAddr u n)} \<and>
      sorted (devices_of d u) \<and> distinct (devices_of d u) \<and>
      (contains_device d a \<or> recovery_key d a = None \<and> fmlookup (generations d) a = None)"
  using directory.run_inv [OF dir_ok_new, of xs] by (auto simp: Let_def dir_ok_def)

section \<open>Trust on first use\<close>

primrec rotates :: "device_addr \<Rightarrow> dir_op \<Rightarrow> bool" where
  "rotates a (Register b i c) = False"
| "rotates a (Rotate b i c) = (b = a)"
| "rotates a (SetRecovery b k) = False"
| "rotates a (WitnessGen b g) = False"
| "rotates a (DepositPrekeys b i bs) = False"
| "rotates a (TakeBundle b) = False"

lemma identity_step:
  "identity d a = Some i \<Longrightarrow> \<not> rotates a x \<Longrightarrow> identity (snd (dir_step x d)) a = Some i"
  by (cases x) (auto simp: identity_def dir_op_defs split: option.splits list.splits if_splits)

lemma identity_run:
  "identity d a = Some i \<Longrightarrow> \<not> list_ex (rotates a) xs \<Longrightarrow> identity (final dir_step xs d) a = Some i"
  by (induction xs arbitrary: d) (simp_all add: identity_step)

text \<open>
  C12.  Trust on first use.  Once an address is bound to an identity key, no sequence of operations
  without an authorized rotation of that very address changes the binding; and a registration that
  presents another key is rejected and changes nothing in the directory.
\<close>

theorem binding_sticks:
  assumes "identity d a = Some i" and "\<not> list_ex (rotates a) xs" and "d' = final dir_step xs d"
  shows "identity d' a = Some i \<and>
    (j \<noteq> i \<longrightarrow> dir_step (Register a j b) d' = (Ans_Registration Reg_Rejected, d'))"
proof -
  have "identity d' a = Some i" using identity_run assms by blast
  then show ?thesis by (auto simp: identity_def register_def register_core_def Let_def)
qed

theorem binding_sticks_witness:
  "identity (final dir_step [Register bob [9] [5], TakeBundle bob]
      (snd (dir_step (Register bob [1] [2]) directory_new))) bob = Some [1]"
proof -
  have "identity (snd (dir_step (Register bob [1] [2]) directory_new)) bob = Some [1]"
    by (simp add: register_def register_core_def directory_new_def identity_def)
  then show ?thesis
    using binding_sticks [where xs = "[Register bob [9] [5], TakeBundle bob]", OF _ _ refl] by simp
qed

text \<open>
  C20.  What a rotation does: on a bound address it installs the new key and bundle, empties the
  pool of one-time bundles, keeps the recovery key, and resets the rollback anchor, so that any
  generation witnessed next is fresh, even after the anchor was driven to the top.  No other
  address's binding, pool, recovery key or anchor is touched.  On an address that is not bound it is
  refused and changes nothing: a rotation is no way to register.  Who may rotate is not decided
  here but by the service that calls it.
\<close>

theorem rotation_new_epoch:
  assumes "(answer, d') = dir_step (Rotate a i b) d"
  shows "if contains_device d a then
      answer = Ans_Rotation Rotated \<and> identity d' a = Some i \<and> published_bundle d' a = Some b \<and>
      pool_depth d' a = 0 \<and> recovery_key d' a = recovery_key d a \<and>
      fst (dir_step (WitnessGen a g) d') = Ans_Witness Fresh \<and>
      (c \<noteq> a \<longrightarrow> fmlookup (entries d') c = fmlookup (entries d) c \<and>
        recovery_key d' c = recovery_key d c \<and> fmlookup (generations d') c = fmlookup (generations d) c)
    else answer = Ans_Rotation Rot_Unregistered \<and> d' = d"
  using assms
  by (auto simp: dir_op_defs identity_def published_bundle_def pool_depth_def recovery_key_def split: option.splits)

theorem rotation_new_epoch_witness:
  "fst (dir_step (WitnessGen bob 0) (snd (dir_step (Rotate bob [3] [4])
     (final dir_step [Register bob [1] [2], WitnessGen bob u64_max] directory_new)))) = Ans_Witness Fresh"
proof -
  have "contains_device (final dir_step [Register bob [1] [2], WitnessGen bob u64_max] directory_new) bob"
    by (simp add: dir_op_defs directory_new_def)
  then show ?thesis
    using rotation_new_epoch [OF surjective_pairing [symmetric]] by metis
qed

section \<open>Rollback detection\<close>

lemma generation_step:
  assumes "contains_device d a" "fmlookup (generations d) a = Some h" "\<not> rotates a x"
  shows "contains_device (snd (dir_step x d)) a \<and>
    (\<exists>h'. fmlookup (generations (snd (dir_step x d))) a = Some h' \<and> h \<le> h')"
  using assms by (cases x) (auto simp: dir_op_defs split: option.splits list.splits if_splits)

lemma generation_run:
  "contains_device d a \<Longrightarrow> fmlookup (generations d) a = Some h \<Longrightarrow> \<not> list_ex (rotates a) xs \<Longrightarrow>
   contains_device (final dir_step xs d) a \<and>
   (\<exists>h'. fmlookup (generations (final dir_step xs d)) a = Some h' \<and> h \<le> h')"
proof (induction xs arbitrary: d h)
  case (Cons x xs)
  then obtain h' where "contains_device (snd (dir_step x d)) a"
    "fmlookup (generations (snd (dir_step x d))) a = Some h'" "h \<le> h'"
    using generation_step [of d a h x] by auto
  then show ?case using Cons.IH [of "snd (dir_step x d)" h'] Cons.prems by fastforce
qed simp

text \<open>
  C19.  Rollback is caught.  Once a device's generation \<open>g\<close> has been witnessed as fresh, then after
  any operations that do not rotate the device (refreshing registrations included), presenting a
  smaller generation is answered \<^const>\<open>RolledBack\<close> and changes nothing.
\<close>

theorem rollback_detected:
  assumes "(Ans_Witness Fresh, d1) = dir_step (WitnessGen a g) d" and "\<not> list_ex (rotates a) xs"
    and "d2 = final dir_step xs d1" and "g' < g"
  shows "dir_step (WitnessGen a g') d2 = (Ans_Witness RolledBack, d2)"
proof -
  have "contains_device d1 a" "fmlookup (generations d1) a = Some g"
    using assms(1) by (auto simp: dir_op_defs split: if_splits option.splits)
  then obtain h where h: "contains_device d2 a" "fmlookup (generations d2) a = Some h" "g \<le> h"
    using generation_run assms(2,3) by blast
  have "fmupd a h (generations d2) = generations d2"
    by (rule fmap_ext) (auto simp: h(2))
  then show ?thesis
    using h assms(4) by (simp add: witness_generation_def witness_core_def Let_def not_le)
qed

theorem rollback_detected_witness:
  "fst (dir_step (WitnessGen bob 4) (final dir_step [Register bob [1] [6]]
     (snd (dir_step (WitnessGen bob 5) (snd (dir_step (Register bob [1] [2]) directory_new))))))
   = Ans_Witness RolledBack"
proof -
  let ?d = "snd (dir_step (Register bob [1] [2]) directory_new)"
  have "(Ans_Witness Fresh, snd (dir_step (WitnessGen bob 5) ?d)) = dir_step (WitnessGen bob 5) ?d"
    by (simp add: dir_op_defs directory_new_def)
  from rollback_detected [OF this _ refl, of "[Register bob [1] [6]]" 4] show ?thesis by simp
qed

section \<open>One-time bundles\<close>

definition pool_of :: "device_addr \<Rightarrow> directory \<Rightarrow> bytes list" where
  "pool_of a d = (case fmlookup (entries d) a of None \<Rightarrow> [] | Some e \<Rightarrow> ent_pool e)"

text \<open>What an operation adds to the pool of \<open>a\<close>, and the one-time bundle it hands out of it.\<close>

definition stocked :: "device_addr \<Rightarrow> dir_op \<Rightarrow> directory \<Rightarrow> bytes list" where
  "stocked a x d = (case x of
     DepositPrekeys b i bs \<Rightarrow> if b = a \<and> identity d a = Some i then bs else []
   | _ \<Rightarrow> [])"

definition dispensed :: "device_addr \<Rightarrow> dir_op \<Rightarrow> directory \<Rightarrow> bytes list" where
  "dispensed a x d = (case x of
     TakeBundle b \<Rightarrow> if b = a then take 1 (pool_of a d) else []
   | _ \<Rightarrow> [])"

primrec collect :: "(dir_op \<Rightarrow> directory \<Rightarrow> bytes list) \<Rightarrow> dir_op list \<Rightarrow> directory \<Rightarrow> bytes list" where
  "collect f [] d = []"
| "collect f (x # xs) d = f x d @ collect f xs (snd (dir_step x d))"

lemma pool_step:
  "mset (dispensed a x d) + mset (pool_of a (snd (dir_step x d)))
   \<subseteq># mset (pool_of a d) + mset (stocked a x d)"
  by (cases x) (auto simp: dispensed_def stocked_def pool_of_def identity_def dir_op_defs
      split: option.splits list.splits if_splits)

lemma pool_run:
  "mset (collect (dispensed a) xs d) + mset (pool_of a (final dir_step xs d))
   \<subseteq># mset (pool_of a d) + mset (collect (stocked a) xs d)"
proof (induction xs arbitrary: d)
  case (Cons x xs)
  let ?d = "snd (dir_step x d)"
  have "mset (dispensed a x d) + (mset (collect (dispensed a) xs ?d) + mset (pool_of a (final dir_step xs ?d)))
      \<subseteq># mset (dispensed a x d) + (mset (pool_of a ?d) + mset (collect (stocked a) xs ?d))"
    using Cons.IH [of ?d] by (rule subset_mset.add_left_mono)
  also have "\<dots> \<subseteq># (mset (pool_of a d) + mset (stocked a x d)) + mset (collect (stocked a) xs ?d)"
    using pool_step [of a x d] by (simp add: add.assoc [symmetric])
  finally show ?case by (simp add: ac_simps)
qed simp

text \<open>
  C21.  One-time bundles are served at most once.  Over any operations on an empty directory, the
  one-time bundles handed out for an address, counted with multiplicity, are among those the
  currently bound key stocked for it; while the pool holds any, \<^const>\<open>take_bundle\<close> hands out its
  first and removes it, and otherwise it falls back to the published bundle.
\<close>

theorem one_time_bundles:
  "let d = final dir_step xs directory_new
   in mset (collect (dispensed a) xs directory_new) + mset (pool_of a d)
        \<subseteq># mset (collect (stocked a) xs directory_new) \<and>
      fst (take_bundle a d) = (if pool_of a d = [] then published_bundle d a else Some (hd (pool_of a d))) \<and>
      pool_of a (snd (take_bundle a d)) = tl (pool_of a d)"
  using pool_run [of a xs directory_new]
  by (auto simp: Let_def pool_of_def directory_new_def take_bundle_def published_bundle_def
      split: option.splits list.splits)

end
