(* ===== verification/Directory_Protocol.thy ===== *)
theory Directory_Protocol
  imports Directory
begin

text \<open>
  Crate \<^verbatim>\<open>tacenta-directory\<close>, \<^verbatim>\<open>protocol.rs\<close>: the directory's requests and responses, the responses
  its outcomes map to, the dispensing lookup, and the byte encodings.  The crate has its own copies
  of the relay's length-prefix helpers; they are written out here and shown to be the same.
\<close>

section \<open>Requests and responses\<close>

datatype dir_request =
    DReq_Register device_addr bytes bytes bytes
  | DReq_Lookup device_addr
  | DReq_DepositPrekeys device_addr bytes "bytes list" bytes
  | DReq_Rotate device_addr bytes bytes bytes bytes
  | DReq_SetRecovery device_addr bytes bytes
  | DReq_Recover device_addr bytes bytes bytes bytes
  | DReq_Witness device_addr u64 bytes

datatype dir_response =
    DResp_Registered
  | DResp_Refreshed
  | DResp_Rejected
  | DResp_PossessionFailed
  | DResp_Found bytes bytes
  | DResp_Deposited u32
  | DResp_DepositRejected
  | DResp_NotFound
  | DResp_Rotated
  | DResp_Unauthorized
  | DResp_Unregistered
  | DResp_RecoverySet
  | DResp_NoRecovery
  | DResp_ReservedHandle
  | DResp_Fresh
  | DResp_RolledBack
  | DResp_RateLimited
  | DResp_RegistrationClosed

primrec response_of_registration :: "registration \<Rightarrow> dir_response" where
  "response_of_registration Registered = DResp_Registered"
| "response_of_registration Refreshed = DResp_Refreshed"
| "response_of_registration Reg_Rejected = DResp_Rejected"

primrec response_of_rotation :: "rotation \<Rightarrow> dir_response" where
  "response_of_rotation Rotated = DResp_Rotated"
| "response_of_rotation Rot_Unregistered = DResp_Unregistered"

primrec response_of_deposit :: "deposit \<Rightarrow> dir_response" where
  "response_of_deposit (Deposited depth) =
     DResp_Deposited (case u32_try_from depth of None \<Rightarrow> - 1 | Some n \<Rightarrow> n)"
| "response_of_deposit Dep_Rejected = DResp_DepositRejected"
| "response_of_deposit Dep_Unregistered = DResp_Unregistered"

primrec response_of_recovery_set :: "recovery_set \<Rightarrow> dir_response" where
  "response_of_recovery_set Rec_Set = DResp_RecoverySet"
| "response_of_recovery_set Rec_Unregistered = DResp_Unregistered"

primrec response_of_witness :: "witness \<Rightarrow> dir_response" where
  "response_of_witness Fresh = DResp_Fresh"
| "response_of_witness RolledBack = DResp_RolledBack"
| "response_of_witness Wit_Unregistered = DResp_Unregistered"

definition lookup :: "device_addr \<Rightarrow> directory \<Rightarrow> (bytes \<times> bytes) option \<times> directory" where
  "lookup device d =
     (case identity d device of
        None \<Rightarrow> (None, d)
      | Some ident \<Rightarrow>
          (case take_bundle device d of
             (None, d') \<Rightarrow> (None, d')
           | (Some b, d') \<Rightarrow> (Some (ident, b), d')))"

section \<open>Byte encodings\<close>

definition dir_put_u32 :: "u32 \<Rightarrow> bytes" where
  "dir_put_u32 n = u32_to_be n"

definition dir_take_u32 :: "bytes \<Rightarrow> (u32 \<times> bytes) option" where
  "dir_take_u32 bytes = do { (front, rest) \<leftarrow> split_at_checked 4 bytes; Some (u32_from_be front, rest) }"

definition dir_put_bytes :: "bytes \<Rightarrow> bytes option" where
  "dir_put_bytes bytes = do { len \<leftarrow> u32_try_from (length bytes); Some (dir_put_u32 len @ bytes) }"

definition dir_take_bytes :: "bytes \<Rightarrow> (bytes \<times> bytes) option" where
  "dir_take_bytes bytes = do { (len, rest) \<leftarrow> dir_take_u32 bytes; split_at_checked (unat len) rest }"

definition dir_put_addr :: "device_addr \<Rightarrow> bytes option" where
  "dir_put_addr addr = do {
     user \<leftarrow> dir_put_bytes (dev_user addr);
     Some (user @ dir_put_u32 (dev_device addr))
   }"

definition dir_take_addr :: "bytes \<Rightarrow> (device_addr \<times> bytes) option" where
  "dir_take_addr bytes = do {
     (user_bytes, rest) \<leftarrow> dir_take_bytes bytes;
     if \<not> utf8_valid user_bytes then None else do {
       (device, rest) \<leftarrow> dir_take_u32 rest;
       Some (DeviceAddr user_bytes device, rest)
     }
   }"

definition encode_dir_request :: "dir_request \<Rightarrow> bytes option" where
  "encode_dir_request request =
     (case request of
        DReq_Register device ident bundle signature \<Rightarrow> do {
          a \<leftarrow> dir_put_addr device;
          i \<leftarrow> dir_put_bytes ident;
          b \<leftarrow> dir_put_bytes bundle;
          s \<leftarrow> dir_put_bytes signature;
          Some ([1] @ a @ i @ b @ s)
        }
      | DReq_Lookup device \<Rightarrow> do { a \<leftarrow> dir_put_addr device; Some ([2] @ a) }
      | DReq_Rotate device new_identity new_bundle possession_sig rotation_sig \<Rightarrow> do {
          a \<leftarrow> dir_put_addr device;
          i \<leftarrow> dir_put_bytes new_identity;
          b \<leftarrow> dir_put_bytes new_bundle;
          p \<leftarrow> dir_put_bytes possession_sig;
          r \<leftarrow> dir_put_bytes rotation_sig;
          Some ([3] @ a @ i @ b @ p @ r)
        }
      | DReq_SetRecovery device recovery_bytes signature \<Rightarrow> do {
          a \<leftarrow> dir_put_addr device;
          k \<leftarrow> dir_put_bytes recovery_bytes;
          s \<leftarrow> dir_put_bytes signature;
          Some ([4] @ a @ k @ s)
        }
      | DReq_Recover device new_identity new_bundle possession_sig recovery_sig \<Rightarrow> do {
          a \<leftarrow> dir_put_addr device;
          i \<leftarrow> dir_put_bytes new_identity;
          b \<leftarrow> dir_put_bytes new_bundle;
          p \<leftarrow> dir_put_bytes possession_sig;
          r \<leftarrow> dir_put_bytes recovery_sig;
          Some ([5] @ a @ i @ b @ p @ r)
        }
      | DReq_DepositPrekeys device ident bundles signature \<Rightarrow> do {
          a \<leftarrow> dir_put_addr device;
          i \<leftarrow> dir_put_bytes ident;
          count \<leftarrow> u32_try_from (length bundles);
          body \<leftarrow> put_many dir_put_bytes bundles;
          s \<leftarrow> dir_put_bytes signature;
          Some ([6] @ a @ i @ dir_put_u32 count @ body @ s)
        }
      | DReq_Witness device generation signature \<Rightarrow> do {
          a \<leftarrow> dir_put_addr device;
          s \<leftarrow> dir_put_bytes signature;
          Some ([7] @ a @ u64_to_be generation @ s)
        })"

definition decode_dir_request :: "bytes \<Rightarrow> dir_request option" where
  "decode_dir_request bytes = do {
     (tag, rest) \<leftarrow> split_first bytes;
     if tag = 1 then do {
       (device, rest) \<leftarrow> dir_take_addr rest;
       (ident, rest) \<leftarrow> dir_take_bytes rest;
       (bundle, rest) \<leftarrow> dir_take_bytes rest;
       (signature, rest) \<leftarrow> dir_take_bytes rest;
       if rest = [] then Some (DReq_Register device ident bundle signature) else None
     }
     else if tag = 2 then do {
       (device, rest) \<leftarrow> dir_take_addr rest;
       if rest = [] then Some (DReq_Lookup device) else None
     }
     else if tag = 3 then do {
       (device, rest) \<leftarrow> dir_take_addr rest;
       (new_identity, rest) \<leftarrow> dir_take_bytes rest;
       (new_bundle, rest) \<leftarrow> dir_take_bytes rest;
       (possession_sig, rest) \<leftarrow> dir_take_bytes rest;
       (rotation_sig, rest) \<leftarrow> dir_take_bytes rest;
       if rest = [] then Some (DReq_Rotate device new_identity new_bundle possession_sig rotation_sig)
       else None
     }
     else if tag = 4 then do {
       (device, rest) \<leftarrow> dir_take_addr rest;
       (recovery_bytes, rest) \<leftarrow> dir_take_bytes rest;
       (signature, rest) \<leftarrow> dir_take_bytes rest;
       if rest = [] then Some (DReq_SetRecovery device recovery_bytes signature) else None
     }
     else if tag = 5 then do {
       (device, rest) \<leftarrow> dir_take_addr rest;
       (new_identity, rest) \<leftarrow> dir_take_bytes rest;
       (new_bundle, rest) \<leftarrow> dir_take_bytes rest;
       (possession_sig, rest) \<leftarrow> dir_take_bytes rest;
       (recovery_sig, rest) \<leftarrow> dir_take_bytes rest;
       if rest = [] then Some (DReq_Recover device new_identity new_bundle possession_sig recovery_sig)
       else None
     }
     else if tag = 6 then do {
       (device, rest) \<leftarrow> dir_take_addr rest;
       (ident, rest) \<leftarrow> dir_take_bytes rest;
       (count, rest) \<leftarrow> dir_take_u32 rest;
       (bundles, rest) \<leftarrow> take_many dir_take_bytes (unat count) rest;
       (signature, rest) \<leftarrow> dir_take_bytes rest;
       if rest = [] then Some (DReq_DepositPrekeys device ident bundles signature) else None
     }
     else if tag = 7 then do {
       (device, rest) \<leftarrow> dir_take_addr rest;
       (gen_bytes, rest) \<leftarrow> split_at_checked 8 rest;
       (signature, rest) \<leftarrow> dir_take_bytes rest;
       if rest = [] then Some (DReq_Witness device (u64_from_be gen_bytes) signature) else None
     }
     else None
   }"

definition encode_dir_response :: "dir_response \<Rightarrow> bytes option" where
  "encode_dir_response response =
     (case response of
        DResp_Registered \<Rightarrow> Some [1]
      | DResp_Refreshed \<Rightarrow> Some [2]
      | DResp_Rejected \<Rightarrow> Some [3]
      | DResp_PossessionFailed \<Rightarrow> Some [4]
      | DResp_Found ident bundle \<Rightarrow> do {
          i \<leftarrow> dir_put_bytes ident;
          b \<leftarrow> dir_put_bytes bundle;
          Some ([5] @ i @ b)
        }
      | DResp_NotFound \<Rightarrow> Some [6]
      | DResp_Rotated \<Rightarrow> Some [7]
      | DResp_Unauthorized \<Rightarrow> Some [8]
      | DResp_Unregistered \<Rightarrow> Some [9]
      | DResp_RecoverySet \<Rightarrow> Some [10]
      | DResp_NoRecovery \<Rightarrow> Some [11]
      | DResp_Deposited depth \<Rightarrow> Some ([12] @ dir_put_u32 depth)
      | DResp_DepositRejected \<Rightarrow> Some [13]
      | DResp_ReservedHandle \<Rightarrow> Some [14]
      | DResp_Fresh \<Rightarrow> Some [15]
      | DResp_RolledBack \<Rightarrow> Some [16]
      | DResp_RateLimited \<Rightarrow> Some [17]
      | DResp_RegistrationClosed \<Rightarrow> Some [18])"

definition decode_dir_response :: "bytes \<Rightarrow> dir_response option" where
  "decode_dir_response bytes = do {
     (tag, rest) \<leftarrow> split_first bytes;
     if tag = 1 then (if rest = [] then Some DResp_Registered else None)
     else if tag = 2 then (if rest = [] then Some DResp_Refreshed else None)
     else if tag = 3 then (if rest = [] then Some DResp_Rejected else None)
     else if tag = 4 then (if rest = [] then Some DResp_PossessionFailed else None)
     else if tag = 5 then do {
       (ident, rest) \<leftarrow> dir_take_bytes rest;
       (bundle, rest) \<leftarrow> dir_take_bytes rest;
       if rest = [] then Some (DResp_Found ident bundle) else None
     }
     else if tag = 6 then (if rest = [] then Some DResp_NotFound else None)
     else if tag = 7 then (if rest = [] then Some DResp_Rotated else None)
     else if tag = 8 then (if rest = [] then Some DResp_Unauthorized else None)
     else if tag = 9 then (if rest = [] then Some DResp_Unregistered else None)
     else if tag = 10 then (if rest = [] then Some DResp_RecoverySet else None)
     else if tag = 11 then (if rest = [] then Some DResp_NoRecovery else None)
     else if tag = 12 then do {
       (depth, rest) \<leftarrow> dir_take_u32 rest;
       if rest = [] then Some (DResp_Deposited depth) else None
     }
     else if tag = 13 then (if rest = [] then Some DResp_DepositRejected else None)
     else if tag = 14 then (if rest = [] then Some DResp_ReservedHandle else None)
     else if tag = 15 then (if rest = [] then Some DResp_Fresh else None)
     else if tag = 16 then (if rest = [] then Some DResp_RolledBack else None)
     else if tag = 17 then (if rest = [] then Some DResp_RateLimited else None)
     else if tag = 18 then (if rest = [] then Some DResp_RegistrationClosed else None)
     else None
   }"

section \<open>The encodings are exact\<close>

lemma dir_helpers:
  "dir_put_u32 = put_u32" "dir_take_u32 = take_u32" "dir_put_bytes = put_bytes"
  "dir_take_bytes = take_bytes" "dir_put_addr = put_addr" "dir_take_addr = take_addr"
proof -
  show u: "dir_put_u32 = put_u32" "dir_take_u32 = take_u32"
    by (simp_all add: fun_eq_iff dir_put_u32_def put_u32_def dir_take_u32_def take_u32_def)
  show b: "dir_put_bytes = put_bytes" "dir_take_bytes = take_bytes"
    by (simp_all add: fun_eq_iff dir_put_bytes_def put_bytes_def dir_take_bytes_def take_bytes_def u)
  show "dir_put_addr = put_addr" "dir_take_addr = take_addr"
    by (simp_all add: fun_eq_iff dir_put_addr_def put_addr_def dir_take_addr_def take_addr_def u b
        cong: if_cong)
qed

primrec dir_request_typed :: "dir_request \<Rightarrow> bool" where
  "dir_request_typed (DReq_Register a i b s) = addr_typed a"
| "dir_request_typed (DReq_Lookup a) = addr_typed a"
| "dir_request_typed (DReq_DepositPrekeys a i bs s) = addr_typed a"
| "dir_request_typed (DReq_Rotate a i b p r) = addr_typed a"
| "dir_request_typed (DReq_SetRecovery a k s) = addr_typed a"
| "dir_request_typed (DReq_Recover a i b p r) = addr_typed a"
| "dir_request_typed (DReq_Witness a g s) = addr_typed a"

primrec dir_request_tag :: "dir_request \<Rightarrow> byte" where
  "dir_request_tag (DReq_Register a i b s) = 1"
| "dir_request_tag (DReq_Lookup a) = 2"
| "dir_request_tag (DReq_DepositPrekeys a i bs s) = 6"
| "dir_request_tag (DReq_Rotate a i b p r) = 3"
| "dir_request_tag (DReq_SetRecovery a k s) = 4"
| "dir_request_tag (DReq_Recover a i b p r) = 5"
| "dir_request_tag (DReq_Witness a g s) = 7"

lemmas dir_request_simps = decode_dir_request_def encode_dir_request_def dir_helpers
  option_bind_simps take_addr_iff take_bytes_iff take_u32_iff

lemma decode_dir_request_fields:
  "decode_dir_request (dir_request_tag q # rest) = Some q \<longleftrightarrow>
   dir_request_typed q \<and> encode_dir_request q = Some (dir_request_tag q # rest)"
proof (cases q)
  case (DReq_DepositPrekeys a i bs s)
  then show ?thesis
    by (auto simp: dir_request_simps bytes_codec.take_many_iff u32_try_from_Some list_all_iff
        put_u32_def; metis)
next
  case (DReq_Witness a g s)
  then show ?thesis
    by (auto simp: dir_request_simps split_at_checked_Some u64_to_from_be)
qed (auto simp: dir_request_simps)

lemma decode_dir_request_tag: "decode_dir_request (tag # rest) = Some q \<Longrightarrow> tag = dir_request_tag q"
  by (auto simp: decode_dir_request_def option_bind_simps split: if_splits)

text \<open>The directory request codec is exact.\<close>

theorem decode_dir_request_iff:
  "decode_dir_request bytes = Some q \<longleftrightarrow> dir_request_typed q \<and> encode_dir_request q = Some bytes"
proof (cases bytes)
  case Nil
  then show ?thesis
    by (cases q) (auto simp: decode_dir_request_def split_first_def encode_dir_request_def option_bind_simps)
next
  case (Cons tag rest)
  have "encode_dir_request q = Some (tag # rest) \<Longrightarrow> tag = dir_request_tag q"
    by (cases q) (auto simp: encode_dir_request_def option_bind_simps)
  then show ?thesis
    using Cons decode_dir_request_fields [of q rest] decode_dir_request_tag [of tag rest q] by auto
qed

text \<open>The directory response codec is exact.\<close>

theorem decode_dir_response_iff:
  "decode_dir_response bytes = Some q \<longleftrightarrow> encode_dir_response q = Some bytes"
proof
  assume "decode_dir_response bytes = Some q"
  then show "encode_dir_response q = Some bytes"
    by (auto simp: decode_dir_response_def encode_dir_response_def option_bind_simps split_first_Some
        dir_helpers take_bytes_iff take_u32_iff split: if_splits)
next
  assume enc: "encode_dir_response q = Some bytes"
  show "decode_dir_response bytes = Some q"
  proof (cases q)
    case (DResp_Found i b)
    then obtain out out' where "put_bytes i = Some out" "put_bytes b = Some out'"
      "bytes = 5 # out @ out'"
      using enc by (auto simp: encode_dir_response_def option_bind_simps dir_helpers)
    then show ?thesis
      using DResp_Found bytes_codec.dec_enc [of i out out'] bytes_codec.dec_enc [of b out' "[]"]
      by (simp add: decode_dir_response_def dir_helpers)
  next
    case (DResp_Deposited n)
    then show ?thesis
      using enc u32_codec.dec_enc [of n "put_u32 n" "[]"]
      by (auto simp: decode_dir_response_def encode_dir_response_def dir_helpers)
  qed (use enc in \<open>auto simp: decode_dir_response_def encode_dir_response_def\<close>)
qed

end
