(* ===== verification/Directory_Persist.thy ===== *)
theory Directory_Persist
  imports Directory_Protocol
begin

text \<open>
  Crate \<^verbatim>\<open>tacenta-directory\<close>, \<^verbatim>\<open>persist.rs\<close>: the snapshot of a directory (entries with their
  one-time pools, recovery keys, witnessed generations) and its restoration, which replays the
  entries through \<^const>\<open>register\<close> and so regenerates the device index.
\<close>

section \<open>Definitions\<close>

definition SNAPSHOT_VERSION :: byte where "SNAPSHOT_VERSION = 0x03"

definition SNAPSHOT_VERSION_V2 :: byte where "SNAPSHOT_VERSION_V2 = 0x02"

text \<open>The bodies of the three loops of \<open>snapshot\<close>.\<close>

definition put_entry :: "device_addr \<times> entry \<Rightarrow> bytes option" where
  "put_entry = (\<lambda>(device, entry). do {
     a \<leftarrow> dir_put_addr device;
     i \<leftarrow> dir_put_bytes (ent_identity entry);
     b \<leftarrow> dir_put_bytes (ent_bundle entry);
     count \<leftarrow> u32_try_from (length (ent_pool entry));
     pool \<leftarrow> put_many dir_put_bytes (ent_pool entry);
     Some (a @ i @ b @ dir_put_u32 count @ pool)
   })"

definition put_recovery :: "device_addr \<times> bytes \<Rightarrow> bytes option" where
  "put_recovery = (\<lambda>(device, key). do {
     a \<leftarrow> dir_put_addr device;
     k \<leftarrow> dir_put_bytes key;
     Some (a @ k)
   })"

definition put_generation :: "device_addr \<times> u64 \<Rightarrow> bytes option" where
  "put_generation = (\<lambda>(device, generation). do {
     a \<leftarrow> dir_put_addr device;
     Some (a @ u64_to_be generation)
   })"

definition dir_snapshot :: "directory \<Rightarrow> bytes option" where
  "dir_snapshot d = do {
     let devices = sorted_list_of_fmap (entries d);
     count \<leftarrow> u32_try_from (length devices);
     body \<leftarrow> put_many put_entry devices;
     let recoveries = sorted_list_of_fmap (recovery d);
     rec_count \<leftarrow> u32_try_from (length recoveries);
     rec_body \<leftarrow> put_many put_recovery recoveries;
     let gens = sorted_list_of_fmap (generations d);
     gen_count \<leftarrow> u32_try_from (length gens);
     gen_body \<leftarrow> put_many put_generation gens;
     Some ([SNAPSHOT_VERSION] @ dir_put_u32 count @ body @ dir_put_u32 rec_count @ rec_body
           @ dir_put_u32 gen_count @ gen_body)
   }"

fun restore_entries :: "nat \<Rightarrow> bytes \<Rightarrow> directory \<Rightarrow> (directory \<times> bytes) option" where
  "restore_entries 0 rest d = Some (d, rest)"
| "restore_entries (Suc n) rest d = do {
     (device, r) \<leftarrow> dir_take_addr rest;
     (ident, r) \<leftarrow> dir_take_bytes r;
     (bundle, r) \<leftarrow> dir_take_bytes r;
     (pool_len, r) \<leftarrow> dir_take_u32 r;
     let d1 = snd (register device ident bundle d);
     (pool, r) \<leftarrow> take_many dir_take_bytes (unat pool_len) r;
     let d2 = (if pool \<noteq> [] then snd (deposit_prekeys device ident pool d1) else d1);
     restore_entries n r d2
   }"

fun restore_recoveries :: "nat \<Rightarrow> bytes \<Rightarrow> directory \<Rightarrow> (directory \<times> bytes) option" where
  "restore_recoveries 0 rest d = Some (d, rest)"
| "restore_recoveries (Suc n) rest d = do {
     (device, r) \<leftarrow> dir_take_addr rest;
     (key, r) \<leftarrow> dir_take_bytes r;
     restore_recoveries n r (snd (set_recovery device key d))
   }"

fun restore_generations :: "nat \<Rightarrow> bytes \<Rightarrow> directory \<Rightarrow> (directory \<times> bytes) option" where
  "restore_generations 0 rest d = Some (d, rest)"
| "restore_generations (Suc n) rest d = do {
     (device, r) \<leftarrow> dir_take_addr rest;
     (gen_bytes, r) \<leftarrow> split_at_checked 8 r;
     restore_generations n r (restore_generation device (u64_from_be gen_bytes) d)
   }"

definition dir_restore :: "bytes \<Rightarrow> directory option" where
  "dir_restore bytes = do {
     (version, rest) \<leftarrow> split_first bytes;
     if version \<noteq> SNAPSHOT_VERSION \<and> version \<noteq> SNAPSHOT_VERSION_V2 then None else do {
       (count, rest) \<leftarrow> dir_take_u32 rest;
       (d, rest) \<leftarrow> restore_entries (unat count) rest directory_new;
       (rec_count, rest) \<leftarrow> dir_take_u32 rest;
       (d, rest) \<leftarrow> restore_recoveries (unat rec_count) rest d;
       (d, rest) \<leftarrow>
         (if version = SNAPSHOT_VERSION then do {
            (gen_count, rest) \<leftarrow> dir_take_u32 rest;
            restore_generations (unat gen_count) rest d
          } else Some (d, rest));
       if rest = [] then Some d else None
     }
   }"

section \<open>A restored directory is the one that was saved\<close>

text \<open>Two well-formed directories with the same entries have the same device index.\<close>

lemma devices_determined:
  assumes "dir_ok d" "dir_ok d'" "entries d' = entries d"
  shows "devices d' = devices d"
proof (rule fmap_ext)
  fix u
  have "set (devices_of d' u) = set (devices_of d u)"
    using assms by (simp add: dir_ok_def contains_device_def)
  then have "devices_of d' u = devices_of d u"
    using assms(1,2) by (intro sorted_distinct_set_unique) (auto simp: dir_ok_def)
  moreover have "fmlookup (devices d) u \<noteq> Some []" "fmlookup (devices d') u \<noteq> Some []"
    using assms(1,2) by (auto simp: dir_ok_def)
  ultimately show "fmlookup (devices d') u = fmlookup (devices d) u"
    by (auto simp: devices_of_def fmget_def split: option.splits)
qed

lemma register_new_entry:
  fixes e :: entry
  assumes "fmlookup (entries d) a = None" "dir_ok d"
  defines "d1 \<equiv> snd (register a (ent_identity e) (ent_bundle e) d)"
  defines "d2 \<equiv> (if ent_pool e \<noteq> [] then snd (deposit_prekeys a (ent_identity e) (ent_pool e) d1) else d1)"
  shows "dir_ok d2 \<and> entries d2 = fmupd a e (entries d) \<and> recovery d2 = recovery d \<and>
    generations d2 = generations d"
proof -
  have "dir_ok d1" using register_ok [OF assms(2)] by (simp add: d1_def)
  then have "dir_ok d2"
    using dir_step_ok [of d1 "DepositPrekeys a (ent_identity e) (ent_pool e)"] by (simp add: d2_def)
  then show ?thesis
    using assms(1) by (cases e)
      (auto simp: d2_def d1_def register_def register_core_def deposit_prekeys_def Let_def
        intro: fmap_ext)
qed

lemma restore_entries_put:
  assumes "list_all (\<lambda>x. addr_typed (fst x)) xs" "put_many put_entry xs = Some out"
    "distinct (map fst xs)" "list_all (\<lambda>x. fmlookup (entries d) (fst x) = None) xs" "dir_ok d"
  shows "\<exists>d'. restore_entries (length xs) (out @ rest) d = Some (d', rest) \<and> dir_ok d' \<and>
    entries d' = fold (\<lambda>(k, v). fmupd k v) xs (entries d) \<and> recovery d' = recovery d \<and>
    generations d' = generations d"
  using assms
proof (induction xs arbitrary: out d)
  case (Cons x xs)
  obtain a e where x: "x = (a, e)" by (cases x)
  obtain pa pi pb n pp out' where p: "put_addr a = Some pa" "put_bytes (ent_identity e) = Some pi"
    "put_bytes (ent_bundle e) = Some pb" "u32_try_from (length (ent_pool e)) = Some n"
    "put_many put_bytes (ent_pool e) = Some pp" "put_many put_entry xs = Some out'"
    and out: "out = pa @ pi @ pb @ put_u32 n @ pp @ out'"
    using Cons.prems(2) x by (auto simp: put_entry_def option_bind_simps dir_helpers)
  have a: "addr_typed a" "fmlookup (entries d) a = None" using Cons.prems x by auto
  define d1 where "d1 = snd (register a (ent_identity e) (ent_bundle e) d)"
  define d2 where "d2 = (if ent_pool e \<noteq> [] then snd (deposit_prekeys a (ent_identity e) (ent_pool e) d1) else d1)"
  have d2: "dir_ok d2" "entries d2 = fmupd a e (entries d)" "recovery d2 = recovery d"
    "generations d2 = generations d"
    using register_new_entry [OF a(2) Cons.prems(5), of e] unfolding d2_def d1_def by blast+
  have none: "list_all (\<lambda>x. fmlookup (entries d2) (fst x) = None) xs"
    using Cons.prems(3,4) x d2(2) by (auto simp: list_all_iff)
  have pool: "take_many take_bytes (unat n) (pp @ out' @ rest) = Some (ent_pool e, out' @ rest)"
    using p(4,5) by (simp add: bytes_codec.take_many_iff u32_try_from_Some list_all_iff)
  have "restore_entries (length (x # xs)) (out @ rest) d = restore_entries (length xs) (out' @ rest) d2"
    using addr_codec.dec_enc [OF a(1) p(1)] bytes_codec.dec_enc [OF _ p(2)]
      bytes_codec.dec_enc [OF _ p(3)] u32_codec.dec_enc [of n "put_u32 n"] pool
    by (simp add: out dir_helpers d1_def d2_def Let_def)
  then show ?case
    using Cons.IH [OF _ p(6) _ none d2(1)] Cons.prems(1,3) d2(2-4) x by simp
qed simp

lemma restore_recoveries_put:
  assumes "list_all (\<lambda>x. addr_typed (fst x) \<and> contains_device d (fst x)) xs"
    "put_many put_recovery xs = Some out"
  shows "restore_recoveries (length xs) (out @ rest) d =
    Some (d\<lparr>recovery := fold (\<lambda>(k, v). fmupd k v) xs (recovery d)\<rparr>, rest)"
  using assms
proof (induction xs arbitrary: out d)
  case (Cons x xs)
  obtain a k where x: "x = (a, k)" by (cases x)
  obtain pa pk out' where p: "put_addr a = Some pa" "put_bytes k = Some pk"
    "put_many put_recovery xs = Some out'" and out: "out = pa @ pk @ out'"
    using Cons.prems(2) x by (auto simp: put_recovery_def option_bind_simps dir_helpers)
  let ?d = "d\<lparr>recovery := fmupd a k (recovery d)\<rparr>"
  have "list_all (\<lambda>x. addr_typed (fst x) \<and> contains_device ?d (fst x)) xs"
    using Cons.prems(1) by (auto simp: list_all_iff contains_device_def)
  moreover have "set_recovery a k d = (Rec_Set, ?d)"
    using Cons.prems(1) x by (simp add: set_recovery_def)
  ultimately show ?case
    using Cons.IH [OF _ p(3), of ?d] Cons.prems(1) x out
      addr_codec.dec_enc [OF _ p(1)] bytes_codec.dec_enc [OF _ p(2)]
    by (simp add: dir_helpers)
qed simp

lemma restore_generations_put:
  assumes "list_all (\<lambda>x. addr_typed (fst x)) xs" "put_many put_generation xs = Some out"
  shows "restore_generations (length xs) (out @ rest) d =
    Some (d\<lparr>generations := fold (\<lambda>(k, v). fmupd k v) xs (generations d)\<rparr>, rest)"
  using assms
proof (induction xs arbitrary: out d)
  case (Cons x xs)
  obtain a g where x: "x = (a, g)" by (cases x)
  obtain pa out' where p: "put_addr a = Some pa" "put_many put_generation xs = Some out'"
    and out: "out = pa @ u64_to_be g @ out'"
    using Cons.prems(2) x by (auto simp: put_generation_def option_bind_simps dir_helpers)
  show ?case
    using Cons.IH [OF _ p(2)] Cons.prems(1) x out addr_codec.dec_enc [OF _ p(1)]
    by (simp add: dir_helpers restore_generation_def)
qed simp

definition dir_typed :: "directory \<Rightarrow> bool" where
  "dir_typed d \<longleftrightarrow> (\<forall>a. contains_device d a \<longrightarrow> addr_typed a)"

lemma keys_typed:
  assumes "dir_ok d" "dir_typed d"
  shows "list_all (\<lambda>x. addr_typed (fst x)) (sorted_list_of_fmap (entries d))"
    "list_all (\<lambda>x. addr_typed (fst x) \<and> contains_device d (fst x)) (sorted_list_of_fmap (recovery d))"
    "list_all (\<lambda>x. addr_typed (fst x)) (sorted_list_of_fmap (generations d))"
proof -
  have "addr_typed a" if "fmlookup (entries d) a = Some e" for a e
    using that assms(2) by (simp add: dir_typed_def contains_device_def)
  moreover have "addr_typed a \<and> contains_device d a" if "fmlookup (recovery d) a = Some k" for a k
    using that assms by (auto simp: dir_typed_def dir_ok_def recovery_key_def)
  moreover have "addr_typed a" if "fmlookup (generations d) a = Some g" for a g
    using that assms by (auto simp: dir_typed_def dir_ok_def)
  ultimately show "list_all (\<lambda>x. addr_typed (fst x)) (sorted_list_of_fmap (entries d))"
    "list_all (\<lambda>x. addr_typed (fst x) \<and> contains_device d (fst x)) (sorted_list_of_fmap (recovery d))"
    "list_all (\<lambda>x. addr_typed (fst x)) (sorted_list_of_fmap (generations d))"
    unfolding list_all_iff by (auto simp: in_sorted_list_of_fmap)
qed

lemma dir_restore_snapshot:
  assumes ok: "dir_ok d" and typed: "dir_typed d" and snap: "dir_snapshot d = Some bytes"
  shows "dir_restore bytes = Some d"
proof -
  note keys = keys_typed [OF ok typed]
  obtain n body nr rbody ng gbody where
    b: "u32_try_from (length (sorted_list_of_fmap (entries d))) = Some n"
      "put_many put_entry (sorted_list_of_fmap (entries d)) = Some body"
      "u32_try_from (length (sorted_list_of_fmap (recovery d))) = Some nr"
      "put_many put_recovery (sorted_list_of_fmap (recovery d)) = Some rbody"
      "u32_try_from (length (sorted_list_of_fmap (generations d))) = Some ng"
      "put_many put_generation (sorted_list_of_fmap (generations d)) = Some gbody"
    and bytes: "bytes = SNAPSHOT_VERSION # put_u32 n @ body @ put_u32 nr @ rbody @ put_u32 ng @ gbody"
    using snap by (auto simp: dir_snapshot_def Let_def option_bind_simps dir_helpers)
  obtain d1 where d1: "restore_entries (unat n) (body @ put_u32 nr @ rbody @ put_u32 ng @ gbody) directory_new
      = Some (d1, put_u32 nr @ rbody @ put_u32 ng @ gbody)" "dir_ok d1" "entries d1 = entries d"
    "recovery d1 = fmempty" "generations d1 = fmempty"
    using restore_entries_put [OF keys(1) b(2) distinct_sorted_list_of_fmap _ dir_ok_new,
        of "put_u32 nr @ rbody @ put_u32 ng @ gbody"] b(1)
    by (auto simp: directory_new_def u32_try_from_Some fold_fmupd_sorted_list list_all_iff)
  have "devices d1 = devices d" using devices_determined [OF ok d1(2,3)] .
  then have "d1\<lparr>recovery := recovery d, generations := generations d\<rparr> = d"
    using d1(3-5) by (cases d; cases d1) simp
  moreover have "list_all (\<lambda>x. addr_typed (fst x) \<and> contains_device d1 (fst x)) (sorted_list_of_fmap (recovery d))"
    using keys(2) d1(3) by (simp add: contains_device_def)
  ultimately show ?thesis
    using d1 b(3,5) restore_recoveries_put [OF _ b(4), of d1 "put_u32 ng @ gbody"]
      restore_generations_put [OF keys(3) b(6), of "[]" "d1\<lparr>recovery := recovery d\<rparr>"]
      u32_codec.dec_enc [of n "put_u32 n"] u32_codec.dec_enc [of nr "put_u32 nr"]
      u32_codec.dec_enc [of ng "put_u32 ng"]
    by (simp add: bytes dir_restore_def dir_helpers u32_try_from_Some fold_fmupd_sorted_list)
qed

text \<open>The handles of the operations are Rust strings.\<close>

primrec op_typed :: "dir_op \<Rightarrow> bool" where
  "op_typed (Register a i b) = addr_typed a"
| "op_typed (Rotate a i b) = addr_typed a"
| "op_typed (SetRecovery a k) = addr_typed a"
| "op_typed (WitnessGen a g) = addr_typed a"
| "op_typed (DepositPrekeys a i bs) = addr_typed a"
| "op_typed (TakeBundle a) = addr_typed a"

lemma dir_typed_step: "dir_typed d \<Longrightarrow> op_typed x \<Longrightarrow> dir_typed (snd (dir_step x d))"
  by (cases x) (auto simp: dir_typed_def dir_op_defs split: option.splits list.splits if_splits)

lemma dir_typed_run: "dir_typed d \<Longrightarrow> list_all op_typed xs \<Longrightarrow> dir_typed (final dir_step xs d)"
  by (induction xs arbitrary: d) (auto simp: dir_typed_step)

text \<open>
  C33.  A directory survives a restart: whatever operations led to it, restoring its snapshot gives
  the very same directory: bindings, bundles, the remaining one-time pools, recovery keys, witnessed
  generations and the regenerated device index.
\<close>

theorem directory_restart:
  assumes "d = final dir_step xs directory_new" and "list_all op_typed xs"
    and "dir_snapshot d = Some bytes"
  shows "dir_restore bytes = Some d"
proof (rule dir_restore_snapshot)
  show "dir_ok d" using assms(1) directory.run_inv [OF dir_ok_new] by simp
  have "dir_typed directory_new" by (simp add: dir_typed_def contains_device_def directory_new_def)
  then show "dir_typed d" using assms(1,2) dir_typed_run by simp
qed (rule assms(3))

theorem directory_restart_witness:
  "\<exists>bytes. dir_snapshot (final dir_step [Register bob [1] [2], DepositPrekeys bob [1] [[3], [4]],
      WitnessGen bob 5, TakeBundle bob] directory_new) = Some bytes \<and>
    dir_restore bytes = Some (final dir_step [Register bob [1] [2], DepositPrekeys bob [1] [[3], [4]],
      WitnessGen bob 5, TakeBundle bob] directory_new)"
proof -
  let ?xs = "[Register bob [1] [2], DepositPrekeys bob [1] [[3], [4]], WitnessGen bob 5, TakeBundle bob]"
  have "dir_snapshot (final dir_step ?xs directory_new) \<noteq> None" by code_simp
  then obtain bytes where b: "dir_snapshot (final dir_step ?xs directory_new) = Some bytes" by blast
  have "list_all op_typed ?xs"
    by (simp add: addr_typed_def bob_def ascii_def utf8_valid.simps)
  then have "dir_restore bytes = Some (final dir_step ?xs directory_new)"
    using b by (rule directory_restart [OF refl])
  then show ?thesis using b by blast
qed

end
