(* ===== verification/Registration_Limit.thy ===== *)
theory Registration_Limit
  imports Tacenta_Prelude "HOL-Library.Product_Lexorder" "HOL-Library.Multiset"
begin

text \<open>
  Crate \<^verbatim>\<open>tacenta-directory\<close>, \<^verbatim>\<open>registration_limit.rs\<close>: the sliding-window throttle on new
  registrations per source.  The clock is an argument, as in \<open>over_limit_at\<close>; \<open>over_limit\<close> is that
  function at the system clock.
\<close>

section \<open>Definitions\<close>

definition DEFAULT_MAX_PER_WINDOW :: nat where "DEFAULT_MAX_PER_WINDOW = 20"

definition MAX_KEYS :: nat where "MAX_KEYS = 64 * 1024"

definition WINDOW_SECS :: u64 where "WINDOW_SECS = 60 * 60"

record registration_limiter =
  seen :: "(bytes, u64 list) fmap"
  lim_max :: nat
  lim_window :: u64

definition with_max :: "nat \<Rightarrow> registration_limiter" where
  "with_max m = \<lparr>seen = fmempty, lim_max = max m 1, lim_window = WINDOW_SECS\<rparr>"

definition limiter_default :: registration_limiter where
  "limiter_default = with_max DEFAULT_MAX_PER_WINDOW"

text \<open>\<open>t.saturating_add(window) >= now\<close>: the timestamp still counts.\<close>

definition live :: "u64 \<Rightarrow> u64 \<Rightarrow> u64 \<Rightarrow> bool" where
  "live window now t = (saturating_add t window \<ge> now)"

definition newest_of :: "u64 list \<Rightarrow> u64" where
  "newest_of ts = fold max ts 0"

definition shed :: "u64 \<Rightarrow> u64 \<Rightarrow> (bytes, u64 list) fmap \<Rightarrow> (bytes, u64 list) fmap" where
  "shed window now m =
     (let kept = fmfilter (\<lambda>k. list_ex (live window now) (fmget [] m k)) m in
      if fcard (fmdom kept) \<le> MAX_KEYS then kept
      else
        let newest = sort (map (\<lambda>(k, ts). (newest_of ts, k)) (sorted_list_of_fmap kept));
            excess = fcard (fmdom kept) - MAX_KEYS
        in fold (\<lambda>(t, key). fmdrop key) (take excess newest) kept)"

definition over_limit_at :: "bytes \<Rightarrow> u64 \<Rightarrow> registration_limiter \<Rightarrow> bool \<times> registration_limiter" where
  "over_limit_at source now l =
     (let window = lim_window l;
          entry = filter (live window now) (fmget [] (seen l) source)
      in if length entry \<ge> lim_max l then (True, l\<lparr>seen := fmupd source entry (seen l)\<rparr>)
         else (False, l\<lparr>seen := shed window now (fmupd source (entry @ [now]) (seen l))\<rparr>))"

section \<open>Memory and admission bounds\<close>

definition limiter_step :: "bytes \<times> u64 \<Rightarrow> registration_limiter \<Rightarrow> bool \<times> registration_limiter" where
  "limiter_step x l = over_limit_at (fst x) (snd x) l"

definition limiter_ok :: "registration_limiter \<Rightarrow> bool" where
  "limiter_ok l \<longleftrightarrow> 1 \<le> lim_max l \<and> fcard (fmdom (seen l)) \<le> MAX_KEYS \<and>
     (\<forall>s. length (fmget [] (seen l) s) \<le> lim_max l)"

lemma live_iff: "live w now t \<longleftrightarrow> unat now \<le> unat t + unat w"
  by (simp add: live_def word_le_nat_alt unat_saturating_add min_def)
    (use unat_u64_le [of now] in linarith)

lemma fmget_fmdrop: "fmget d (fmdrop k m) j = (if j = k then d else fmget d m j)"
  by (simp add: fmget_def)

lemma fold_fmdrop_lookup:
  "fmlookup (fold (\<lambda>(t, key). fmdrop key) xs m) j = (if j \<in> snd ` set xs then None else fmlookup m j)"
  by (induction xs arbitrary: m) auto

lemma fmget_fmfilter: "fmget d (fmfilter P m) k = (if P k then fmget d m k else d)"
  by (simp add: fmget_def)

lemma shed_shorter: "length (fmget [] (shed w now m) s) \<le> length (fmget [] m s)"
  by (auto simp: shed_def Let_def fmget_def fold_fmdrop_lookup split: option.splits if_splits)

lemma fmdom_fold_fmdrop:
  "fmdom (fold (\<lambda>(t, key). fmdrop key) xs m) = fmdom m |-| fset_of_list (map snd xs)"
  by (induction xs arbitrary: m) auto

lemma newest_keys:
  fixes m :: "(bytes, u64 list) fmap"
  defines "newest \<equiv> sort (map (\<lambda>(k, ts). (newest_of ts, k)) (sorted_list_of_fmap m))"
  shows "distinct (map snd newest)" "set (map snd newest) = fset (fmdom m)"
proof -
  have eq: "mset (map snd newest) = mset (map fst (sorted_list_of_fmap m))"
    by (simp add: newest_def split_beta image_mset.compositionality o_def)
  then show "distinct (map snd newest)"
    using distinct_sorted_list_of_fmap mset_eq_imp_distinct_iff by blast
  have "set (map snd newest) = set (map fst (sorted_list_of_fmap m))"
    using eq by (rule mset_eq_setD)
  then show "set (map snd newest) = fset (fmdom m)"
    by (simp add: sorted_list_of_fmap_def sorted_list_of_fset.rep_eq o_def image_image)
qed

lemma card_shed: "fcard (fmdom (shed w now m)) \<le> MAX_KEYS"
proof -
  define kept where "kept = fmfilter (\<lambda>k. list_ex (live w now) (fmget [] m k)) m"
  define newest where "newest = sort (map (\<lambda>(k, ts). (newest_of ts, k)) (sorted_list_of_fmap kept))"
  define gone where "gone = map snd (take (fcard (fmdom kept) - MAX_KEYS) newest)"
  have n: "distinct (map snd newest)" "set (map snd newest) = fset (fmdom kept)"
    unfolding newest_def by (rule newest_keys)+
  have "length newest = fcard (fmdom kept)"
    using n distinct_card [OF n(1)] by (simp add: fcard.rep_eq)
  moreover have "distinct gone" "set gone \<subseteq> fset (fmdom kept)"
    using n set_take_subset [of _ "map snd newest"] by (simp_all add: gone_def flip: take_map)
  ultimately have "card (fset (fmdom kept) - set gone) = fcard (fmdom kept) - (fcard (fmdom kept) - MAX_KEYS)"
    by (simp add: card_Diff_subset distinct_card fcard.rep_eq) (simp add: gone_def fcard.rep_eq)
  then show ?thesis
    by (auto simp: shed_def Let_def fmdom_fold_fmdrop fcard.rep_eq fset_of_list.rep_eq gone_def
        simp flip: kept_def newest_def)
qed

lemma limiter_step_ok: "limiter_ok l \<Longrightarrow> limiter_ok (snd (limiter_step x l))"
proof -
  assume ok: "limiter_ok l"
  obtain s now where x: "x = (s, now)" by (cases x)
  let ?e = "filter (live (lim_window l) now) (fmget [] (seen l) s)"
  show ?thesis
  proof (cases "length ?e \<ge> lim_max l")
    case True
    then have "fmget [] (seen l) s \<noteq> []" using ok by (auto simp: limiter_ok_def)
    then have "s |\<in>| fmdom (seen l)" by (auto simp: fmget_def intro: fmdomI split: option.splits)
    then have "fmdom (fmupd s ?e (seen l)) = fmdom (seen l)" by auto
    then show ?thesis
      using True ok x by (auto simp: limiter_step_def over_limit_at_def Let_def limiter_ok_def
          intro!: antisym le_trans [OF length_filter_le])
  next
    case False
    have "length (fmget [] (shed (lim_window l) now (fmupd s (?e @ [now]) (seen l))) j) \<le> lim_max l" for j
      using shed_shorter [of "lim_window l" now "fmupd s (?e @ [now]) (seen l)" j] False ok
      by (auto simp: limiter_ok_def intro: le_trans split: if_splits)
    then show ?thesis
      using False ok x card_shed by (auto simp: limiter_step_def over_limit_at_def Let_def limiter_ok_def)
  qed
qed

interpretation limiter: invariant_machine limiter_step limiter_ok
  by unfold_locales (rule limiter_step_ok)

lemma limiter_ok_new: "limiter_ok (with_max m)"
  by (simp add: limiter_ok_def with_max_def fcard.rep_eq)

text \<open>
  C40.  The limiter's own memory is bounded: after any attempts, from however many sources and at
  whatever times, it holds at most \<^const>\<open>MAX_KEYS\<close> sources with at most the ceiling's number of
  timestamps each.
\<close>

theorem limiter_memory:
  "let l = final limiter_step xs (with_max m)
   in fcard (fmdom (seen l)) \<le> MAX_KEYS \<and> length (fmget [] (seen l) s) \<le> lim_max l"
  using limiter.run_inv [OF limiter_ok_new, of xs m] by (simp add: limiter_ok_def Let_def)

text \<open>The attempts of source \<open>s\<close> that were let through.\<close>

primrec admitted :: "bytes \<Rightarrow> (bytes \<times> u64) list \<Rightarrow> registration_limiter \<Rightarrow> u64 list" where
  "admitted s [] l = []"
| "admitted s (x # xs) l =
     (if fst x = s \<and> \<not> fst (limiter_step x l) then [snd x] else [])
     @ admitted s xs (snd (limiter_step x l))"

text \<open>While the distinct sources fit the map nothing is evicted: only dead timestamps are shed.\<close>

lemma shed_live:
  assumes "fcard (fmdom m) \<le> MAX_KEYS" "now \<le> now'"
  shows "filter (live w now') (fmget [] (shed w now m) s) = filter (live w now') (fmget [] m s)"
proof -
  have "fcard (fmdom (fmfilter P m)) \<le> fcard (fmdom m)" for P by (intro fcard_mono) auto
  then have "fcard (fmdom (fmfilter P m)) \<le> MAX_KEYS" for P using assms(1) le_trans by blast
  then have "shed w now m = fmfilter (\<lambda>k. list_ex (live w now) (fmget [] m k)) m"
    by (simp add: shed_def)
  moreover have "\<not> live w now t \<Longrightarrow> \<not> live w now' t" for t
    using assms(2) by (auto simp: live_iff word_le_nat_alt)
  ultimately show ?thesis
    by (auto simp: fmget_fmfilter list_ex_iff)
qed

lemma shed_dom: "fmdom (shed w now m) |\<subseteq>| fmdom m"
  by (auto simp: shed_def Let_def fmdom_fold_fmdrop)

text \<open>One attempt at time \<open>now\<close>, seen at any later time \<open>now'\<close> from source \<open>s\<close>.\<close>

lemma limiter_step_live:
  assumes "fmdom (seen l) |\<subseteq>| K" "fst x |\<in>| K" "fcard K \<le> MAX_KEYS" "snd x \<le> now'"
    and "limiter_step x l = (refused, l')"
  shows "fmdom (seen l') |\<subseteq>| K" "lim_window l' = lim_window l" "lim_max l' = lim_max l"
    "filter (live (lim_window l) now') (fmget [] (seen l') s) =
     filter (live (lim_window l) now') (fmget [] (seen l) s @ (if fst x = s \<and> \<not> refused then [snd x] else []))"
proof -
  obtain src now where x: "x = (src, now)" by (cases x)
  let ?w = "lim_window l" and ?e = "filter (live (lim_window l) now) (fmget [] (seen l) src)"
  have later: "live ?w now' t \<Longrightarrow> live ?w now t" for t
    using assms(4) x by (auto simp: live_iff word_le_nat_alt)
  have dom: "fmdom (fmupd src e (seen l)) |\<subseteq>| K" for e using assms(1,2) x by auto
  then have card: "fcard (fmdom (fmupd src e (seen l))) \<le> MAX_KEYS" for e
    using fcard_mono assms(3) le_trans by blast
  have f: "filter (live ?w now') ?e = filter (live ?w now') (fmget [] (seen l) src)"
    using later by (auto intro: filter_cong)
  show "fmdom (seen l') |\<subseteq>| K" "lim_window l' = lim_window l" "lim_max l' = lim_max l"
    using assms(5) x dom [of ?e] order_trans [OF shed_dom dom [of "?e @ [now]"], of ?w now]
    by (auto simp: limiter_step_def over_limit_at_def Let_def split: if_splits)
  show "filter (live ?w now') (fmget [] (seen l') s) =
     filter (live ?w now') (fmget [] (seen l) s @ (if fst x = s \<and> \<not> refused then [snd x] else []))"
    using assms(4,5) x f shed_live [OF card [of "?e @ [now]"], of now now' ?w s]
    by (auto simp: limiter_step_def over_limit_at_def Let_def split: if_splits)
qed

lemma limiter_run_live:
  assumes "fmdom (seen l) |\<subseteq>| K" "fcard K \<le> MAX_KEYS" "list_all (\<lambda>x. fst x |\<in>| K \<and> snd x \<le> now') xs"
  shows "filter (live (lim_window l) now') (fmget [] (seen (final limiter_step xs l)) s) =
     filter (live (lim_window l) now') (fmget [] (seen l) s @ admitted s xs l) \<and>
     lim_max (final limiter_step xs l) = lim_max l"
  using assms(1,3)
proof (induction xs arbitrary: l)
  case (Cons x xs)
  obtain refused l' where l': "limiter_step x l = (refused, l')" by (cases "limiter_step x l")
  have x: "fst x |\<in>| K" "snd x \<le> now'" using Cons.prems by auto
  note step = limiter_step_live [OF Cons.prems(1) x(1) assms(2) x(2) l']
  show ?case
    using Cons.IH [OF step(1)] Cons.prems(2) step(2,3) step(4) [of s] l' by simp
qed simp

text \<open>
  The admission bound.  As long as at most \<^const>\<open>MAX_KEYS\<close> distinct sources ask, whatever
  the order of the attempts, at most the ceiling's number of registrations of any one source that
  were let through still lie within the hour before any time the attempts had not passed.
\<close>

theorem limiter_admission:
  assumes "fcard K \<le> MAX_KEYS" and "list_all (\<lambda>x. fst x |\<in>| K \<and> snd x \<le> now) xs"
  shows "length (filter (\<lambda>t. unat now \<le> unat t + 3600) (admitted s xs (with_max m))) \<le> max m 1"
proof -
  let ?l = "final limiter_step xs (with_max m)"
  have run: "filter (live WINDOW_SECS now) (fmget [] (seen ?l) s) =
      filter (live WINDOW_SECS now) (admitted s xs (with_max m))" "lim_max ?l = max m 1"
    using limiter_run_live [of "with_max m" K now xs s] assms by (auto simp: with_max_def)
  have "length (filter (live WINDOW_SECS now) (admitted s xs (with_max m))) \<le> max m 1"
    unfolding run(1) [symmetric] using limiter.run_inv [OF limiter_ok_new, of xs m] run(2)
    by (auto simp: limiter_ok_def intro: le_trans [OF length_filter_le])
  moreover have "live WINDOW_SECS now = (\<lambda>t. unat now \<le> unat t + 3600)"
    by (auto simp: live_iff WINDOW_SECS_def fun_eq_iff)
  ultimately show ?thesis by simp
qed

theorem limiter_admission_witness:
  "length (filter (\<lambda>t. unat (100 :: u64) \<le> unat t + 3600)
     (admitted [1] [([1], 10), ([1], 20), ([2], 30), ([1], 100)] (with_max 2))) \<le> max 2 1"
proof -
  have "fcard {|[1], [2 :: byte]|} \<le> MAX_KEYS"
    by (simp add: fcard_finsert_if MAX_KEYS_def fcard.rep_eq)
  then show ?thesis by (rule limiter_admission) simp
qed

end
