(* ===== verification/Group_Values.thy ===== *)
theory Group_Values
  imports Tacenta_Prelude
begin

text \<open>
  Crate \<^verbatim>\<open>tacenta-group\<close>, \<^verbatim>\<open>lib.rs\<close>: the canonical values of a bounded group (member bindings, the
  roster preimage, the application context), their validation and their encodings.

  A decoder takes the remaining input and returns the value with what follows it; the source moves
  the start of the slice instead.  \<open>GroupId\<close> and digests are fixed arrays: byte lists whose
  lengths the typing predicates state.
\<close>

section \<open>Profile bounds and errors\<close>

definition GROUP_ID_LEN :: nat where "GROUP_ID_LEN = 16"

definition DIGEST_LEN :: nat where "DIGEST_LEN = 32"

definition MAX_MEMBERS :: nat where "MAX_MEMBERS = 8"

definition MAX_PAYLOAD_LEN :: nat where "MAX_PAYLOAD_LEN = 1024"

definition MAX_IDENTITY_LEN :: nat where "MAX_IDENTITY_LEN = 256"

definition MAX_DEVICE_LEN :: nat where "MAX_DEVICE_LEN = 64"

definition MAX_ROSTER_LEN :: nat where "MAX_ROSTER_LEN = 4096"

definition MAX_APPLICATION_CONTEXT_LEN :: nat where "MAX_APPLICATION_CONTEXT_LEN = 2048"

definition MAX_LIVE_LOGICAL_SENDS :: nat where "MAX_LIVE_LOGICAL_SENDS = 8"

definition POLICY_VERSION_V1 :: u32 where "POLICY_VERSION_V1 = 1"

definition RESERVED_REVISION :: u64 where "RESERVED_REVISION = u64_max"

definition ROSTER_DOMAIN :: bytes where "ROSTER_DOMAIN = ascii ''Tacenta Group Roster v1''"

definition APPLICATION_DOMAIN :: bytes where
  "APPLICATION_DOMAIN = ascii ''Tacenta Group Application v1''"

lemmas group_bounds = GROUP_ID_LEN_def DIGEST_LEN_def MAX_MEMBERS_def MAX_PAYLOAD_LEN_def
  MAX_IDENTITY_LEN_def MAX_DEVICE_LEN_def MAX_ROSTER_LEN_def MAX_APPLICATION_CONTEXT_LEN_def
  MAX_LIVE_LOGICAL_SENDS_def

datatype group_error =
    E_Malformed | E_NonCanonical | E_UnsupportedPolicy | E_ReservedRevision | E_InvalidGenesis
  | E_TooManyMembers | E_PayloadTooLarge | E_IdentityTooLarge | E_DeviceTooLarge | E_RosterTooLarge
  | E_ContextTooLarge | E_Unauthorized | E_Conflict | E_WrongTarget | E_StaleSource | E_Expired
  | E_Revoked | E_WrongDisposition | E_EmptyRecipients | E_NotMember | E_Closed | E_RetryExhausted
  | E_OutboxFull | E_StaleRevision | E_SequenceOrder | E_SequenceExhausted

type_synonym 'a group_result = "group_error + 'a"

definition group_id_try_from :: "bytes \<Rightarrow> bytes group_result" where
  "group_id_try_from bs = (if length bs = GROUP_ID_LEN then Inr bs else Inl E_Malformed)"

definition digest_try_from :: "bytes \<Rightarrow> bytes group_result" where
  "digest_try_from bs = (if length bs = DIGEST_LEN then Inr bs else Inl E_Malformed)"

section \<open>Members\<close>

datatype member = Member (mem_identity: bytes) (mem_device: bytes)

text \<open>\<open>canonical_cmp\<close>: by the identity bytes, then by the device bytes.\<close>

definition canonical_lt :: "member \<Rightarrow> member \<Rightarrow> bool" where
  "canonical_lt a b \<longleftrightarrow>
     mem_identity a < mem_identity b \<or> (mem_identity a = mem_identity b \<and> mem_device a < mem_device b)"

instantiation member :: linorder
begin

definition less_eq_member :: "member \<Rightarrow> member \<Rightarrow> bool" where
  "less_eq_member a b \<longleftrightarrow>
     mem_identity a < mem_identity b \<or> (mem_identity a = mem_identity b \<and> mem_device a \<le> mem_device b)"

definition less_member :: "member \<Rightarrow> member \<Rightarrow> bool" where
  "less_member a b \<longleftrightarrow> canonical_lt a b"

instance
proof
  fix a b c :: member
  show "(a < b) = (a \<le> b \<and> \<not> b \<le> a)" by (auto simp: less_eq_member_def less_member_def canonical_lt_def)
  show "a \<le> a" by (simp add: less_eq_member_def)
  show "a \<le> b \<Longrightarrow> b \<le> c \<Longrightarrow> a \<le> c" by (auto simp: less_eq_member_def)
  show "a \<le> b \<Longrightarrow> b \<le> a \<Longrightarrow> a = b" by (auto simp: less_eq_member_def member.expand)
  show "a \<le> b \<or> b \<le> a" by (auto simp: less_eq_member_def)
qed

end

definition member_validate :: "member \<Rightarrow> unit group_result" where
  "member_validate m =
     (if length (mem_identity m) > MAX_IDENTITY_LEN then Inl E_IdentityTooLarge
      else if length (mem_device m) > MAX_DEVICE_LEN then Inl E_DeviceTooLarge
      else Inr ())"

section \<open>Reading and writing\<close>

definition lp_len :: "nat \<Rightarrow> nat" where "lp_len value_len = 4 + value_len"

definition member_len :: "member \<Rightarrow> nat" where
  "member_len m = lp_len (length (mem_identity m)) + lp_len (length (mem_device m))"

definition g_put_u32 :: "nat \<Rightarrow> bytes group_result" where
  "g_put_u32 value = rbind (ok_or E_Malformed (u32_try_from value)) (\<lambda>v. Inr (u32_to_be v))"

definition put_lp :: "bytes \<Rightarrow> bytes group_result" where
  "put_lp value = rbind (g_put_u32 (length value)) (\<lambda>n. Inr (n @ value))"

definition put_member :: "member \<Rightarrow> bytes group_result" where
  "put_member m = rbind (put_lp (mem_identity m)) (\<lambda>i. rbind (put_lp (mem_device m)) (\<lambda>d. Inr (i @ d)))"

definition g_take :: "nat \<Rightarrow> bytes \<Rightarrow> (bytes \<times> bytes) group_result" where
  "g_take count input = ok_or E_Malformed (split_at_checked count input)"

definition take_exact :: "bytes \<Rightarrow> bytes \<Rightarrow> bytes group_result" where
  "take_exact expected input =
     rbind (g_take (length expected) input)
       (\<lambda>(v, rest). if v = expected then Inr rest else Inl E_Malformed)"

definition take_byte :: "bytes \<Rightarrow> (byte \<times> bytes) group_result" where
  "take_byte input =
     rbind (g_take 1 input) (\<lambda>(v, rest). case v of [] \<Rightarrow> Inl E_Malformed | b # _ \<Rightarrow> Inr (b, rest))"

definition g_take_u32 :: "bytes \<Rightarrow> (u32 \<times> bytes) group_result" where
  "g_take_u32 input = rbind (g_take 4 input) (\<lambda>(v, rest). Inr (u32_from_be v, rest))"

definition g_take_u64 :: "bytes \<Rightarrow> (u64 \<times> bytes) group_result" where
  "g_take_u64 input = rbind (g_take 8 input) (\<lambda>(v, rest). Inr (u64_from_be v, rest))"

definition take_lp :: "bytes \<Rightarrow> (bytes \<times> bytes) group_result" where
  "take_lp input = rbind (g_take_u32 input) (\<lambda>(count, rest). g_take (unat count) rest)"

definition take_member :: "bytes \<Rightarrow> (member \<times> bytes) group_result" where
  "take_member input =
     rbind (take_lp input) (\<lambda>(i, rest1).
     rbind (take_lp rest1) (\<lambda>(d, rest2).
       let m = Member i d in rbind (member_validate m) (\<lambda>_. Inr (m, rest2))))"

section \<open>Rosters\<close>

record roster =
  ros_group_id :: bytes
  ros_revision :: u64
  ros_predecessor :: bytes
  ros_authority :: member
  ros_policy :: u32
  ros_closed :: bool
  ros_members :: "member list"

definition roster_encoded_len :: "roster \<Rightarrow> nat" where
  "roster_encoded_len r =
     length ROSTER_DOMAIN + lp_len GROUP_ID_LEN + 8 + lp_len DIGEST_LEN + member_len (ros_authority r)
     + 4 + 1 + 4 + sum_list (map member_len (ros_members r))"

text \<open>The loop of \<open>validate\<close> over the members, with the previous member and the identities seen.\<close>

fun validate_members :: "member option \<Rightarrow> bytes set \<Rightarrow> member list \<Rightarrow> unit group_result" where
  "validate_members previous identities [] = Inr ()"
| "validate_members previous identities (m # ms) =
     rbind (member_validate m) (\<lambda>_.
     rbind (refuse_if (case previous of None \<Rightarrow> False | Some p \<Rightarrow> \<not> p < m) E_NonCanonical) (\<lambda>_.
     rbind (refuse_if (mem_identity m \<in> identities) E_NonCanonical) (\<lambda>_.
       validate_members (Some m) (insert (mem_identity m) identities) ms)))"

definition roster_validate :: "roster \<Rightarrow> unit group_result" where
  "roster_validate r =
     (if ros_revision r = RESERVED_REVISION then Inl E_ReservedRevision
      else if ros_policy r \<noteq> POLICY_VERSION_V1 then Inl E_UnsupportedPolicy
      else if ros_revision r = 0
              \<and> (ros_predecessor r \<noteq> replicate DIGEST_LEN 0 \<or> ros_closed r
                 \<or> ros_members r \<noteq> [ros_authority r])
      then Inl E_InvalidGenesis
      else if length (ros_members r) > MAX_MEMBERS then Inl E_TooManyMembers
      else rbind (member_validate (ros_authority r)) (\<lambda>_.
           rbind (validate_members None {} (ros_members r)) (\<lambda>_.
           if roster_encoded_len r > MAX_ROSTER_LEN then Inl E_RosterTooLarge else Inr ())))"

definition roster_new ::
  "bytes \<Rightarrow> u64 \<Rightarrow> bytes \<Rightarrow> member \<Rightarrow> u32 \<Rightarrow> bool \<Rightarrow> member list \<Rightarrow> roster group_result" where
  "roster_new group_id revision predecessor authority policy closed members =
     (let r = \<lparr>ros_group_id = group_id, ros_revision = revision, ros_predecessor = predecessor,
               ros_authority = authority, ros_policy = policy, ros_closed = closed,
               ros_members = members\<rparr>
      in rbind (roster_validate r) (\<lambda>_. Inr r))"

definition roster_encode :: "roster \<Rightarrow> bytes group_result" where
  "roster_encode r =
     rbind (roster_validate r) (\<lambda>_.
     rbind (put_lp (ros_group_id r)) (\<lambda>g.
     rbind (put_lp (ros_predecessor r)) (\<lambda>p.
     rbind (put_member (ros_authority r)) (\<lambda>a.
     rbind (g_put_u32 (length (ros_members r))) (\<lambda>n.
     rbind (rput_many put_member (ros_members r)) (\<lambda>ms.
       Inr (ROSTER_DOMAIN @ g @ u64_to_be (ros_revision r) @ p @ a @ u32_to_be (ros_policy r)
            @ [if ros_closed r then 1 else 0] @ n @ ms)))))))"

definition roster_decode :: "bytes \<Rightarrow> roster group_result" where
  "roster_decode bytes =
     (if length bytes > MAX_ROSTER_LEN then Inl E_RosterTooLarge else
      rbind (take_exact ROSTER_DOMAIN bytes) (\<lambda>i.
      rbind (take_lp i) (\<lambda>(g, i).
      rbind (group_id_try_from g) (\<lambda>group_id.
      rbind (g_take_u64 i) (\<lambda>(revision, i).
      rbind (take_lp i) (\<lambda>(p, i).
      rbind (digest_try_from p) (\<lambda>predecessor.
      rbind (take_member i) (\<lambda>(authority, i).
      rbind (g_take_u32 i) (\<lambda>(policy, i).
      rbind (take_byte i) (\<lambda>(c, i).
      rbind (if c = 0 then Inr False else if c = 1 then Inr True else Inl E_Malformed) (\<lambda>closed.
      rbind (g_take_u32 i) (\<lambda>(count, i).
      if unat count > MAX_MEMBERS then Inl E_TooManyMembers else
      rbind (rtake_many take_member (unat count) i) (\<lambda>(members, i).
      if i \<noteq> [] then Inl E_Malformed
      else roster_new group_id revision predecessor authority policy closed members)))))))))))))"

section \<open>Application contexts\<close>

record application_context =
  ctx_group_id :: bytes
  ctx_revision :: u64
  ctx_roster_digest :: bytes
  ctx_sender :: member
  ctx_recipient :: member
  ctx_sequence :: u64
  ctx_payload :: bytes

definition context_encoded_len :: "application_context \<Rightarrow> nat" where
  "context_encoded_len c =
     length APPLICATION_DOMAIN + lp_len GROUP_ID_LEN + 8 + lp_len DIGEST_LEN
     + member_len (ctx_sender c) + member_len (ctx_recipient c) + 8 + lp_len (length (ctx_payload c))"

definition context_validate :: "application_context \<Rightarrow> unit group_result" where
  "context_validate c =
     (if ctx_revision c = RESERVED_REVISION then Inl E_ReservedRevision
      else if length (ctx_payload c) > MAX_PAYLOAD_LEN then Inl E_PayloadTooLarge
      else rbind (member_validate (ctx_sender c)) (\<lambda>_.
           rbind (member_validate (ctx_recipient c)) (\<lambda>_.
           if context_encoded_len c > MAX_APPLICATION_CONTEXT_LEN then Inl E_ContextTooLarge
           else Inr ())))"

definition context_new ::
  "bytes \<Rightarrow> u64 \<Rightarrow> bytes \<Rightarrow> member \<Rightarrow> member \<Rightarrow> u64 \<Rightarrow> bytes \<Rightarrow> application_context group_result" where
  "context_new group_id revision digest sender recipient sequence payload =
     (let c = \<lparr>ctx_group_id = group_id, ctx_revision = revision, ctx_roster_digest = digest,
               ctx_sender = sender, ctx_recipient = recipient, ctx_sequence = sequence,
               ctx_payload = payload\<rparr>
      in rbind (context_validate c) (\<lambda>_. Inr c))"

definition context_encode :: "application_context \<Rightarrow> bytes group_result" where
  "context_encode c =
     rbind (context_validate c) (\<lambda>_.
     rbind (put_lp (ctx_group_id c)) (\<lambda>g.
     rbind (put_lp (ctx_roster_digest c)) (\<lambda>d.
     rbind (put_member (ctx_sender c)) (\<lambda>s.
     rbind (put_member (ctx_recipient c)) (\<lambda>r.
     rbind (put_lp (ctx_payload c)) (\<lambda>p.
       Inr (APPLICATION_DOMAIN @ g @ u64_to_be (ctx_revision c) @ d @ s @ r
            @ u64_to_be (ctx_sequence c) @ p)))))))"

definition context_decode :: "bytes \<Rightarrow> application_context group_result" where
  "context_decode bytes =
     (if length bytes > MAX_APPLICATION_CONTEXT_LEN then Inl E_ContextTooLarge else
      rbind (take_exact APPLICATION_DOMAIN bytes) (\<lambda>i.
      rbind (take_lp i) (\<lambda>(g, i).
      rbind (group_id_try_from g) (\<lambda>group_id.
      rbind (g_take_u64 i) (\<lambda>(revision, i).
      rbind (take_lp i) (\<lambda>(d, i).
      rbind (digest_try_from d) (\<lambda>digest.
      rbind (take_member i) (\<lambda>(sender, i).
      rbind (take_member i) (\<lambda>(recipient, i).
      rbind (g_take_u64 i) (\<lambda>(sequence, i).
      rbind (take_lp i) (\<lambda>(payload, i).
      if i \<noteq> [] then Inl E_Malformed
      else context_new group_id revision digest sender recipient sequence payload)))))))))))"

section \<open>The encodings are exact\<close>

text \<open>What the writers produce, as plain bytes.\<close>

definition lp :: "bytes \<Rightarrow> bytes" where
  "lp v = u32_to_be (of_nat (length v)) @ v"

definition member_bytes :: "member \<Rightarrow> bytes" where
  "member_bytes m = lp (mem_identity m) @ lp (mem_device m)"

definition member_ok :: "member \<Rightarrow> bool" where
  "member_ok m \<longleftrightarrow> length (mem_identity m) \<le> MAX_IDENTITY_LEN \<and> length (mem_device m) \<le> MAX_DEVICE_LEN"

lemma length_lp [simp]: "length (lp v) = lp_len (length v)"
  by (simp add: lp_def lp_len_def)

lemma length_member_bytes [simp]: "length (member_bytes m) = member_len m"
  by (simp add: member_bytes_def member_len_def)

lemma member_validate_Inr [simp]: "member_validate m = Inr u \<longleftrightarrow> member_ok m"
  by (simp add: member_validate_def member_ok_def)

lemma rbind_member_validate [simp]: "member_ok m \<Longrightarrow> rbind (member_validate m) f = f ()"
  by (metis member_validate_Inr rbind_Inr)

lemma g_take_Inr: "g_take n i = Inr (v, rest) \<longleftrightarrow> length v = n \<and> i = v @ rest"
  by (auto simp: g_take_def ok_or_eq_Inr split_at_checked_Some)

lemma take_exact_Inr: "take_exact e i = Inr rest \<longleftrightarrow> i = e @ rest"
  by (auto simp: take_exact_def rbind_eq_Inr g_take_Inr split: if_splits)

lemma take_byte_Inr: "take_byte i = Inr (b, rest) \<longleftrightarrow> i = b # rest"
  by (auto simp: take_byte_def rbind_eq_Inr g_take_Inr length_Suc_conv split: list.splits)

lemma g_take_u32_Inr: "g_take_u32 i = Inr (w, rest) \<longleftrightarrow> i = u32_to_be w @ rest"
  by (auto simp: g_take_u32_def rbind_eq_Inr g_take_Inr u32_to_from_be)

lemma g_take_u64_Inr: "g_take_u64 i = Inr (w, rest) \<longleftrightarrow> i = u64_to_be w @ rest"
  by (auto simp: g_take_u64_def rbind_eq_Inr g_take_Inr u64_to_from_be)

lemma take_lp_Inr: "take_lp i = Inr (v, rest) \<longleftrightarrow> length v < 2 ^ 32 \<and> i = lp v @ rest"
proof
  assume "take_lp i = Inr (v, rest)"
  then obtain n where "i = u32_to_be n @ v @ rest" "length v = unat n"
    by (auto simp: take_lp_def rbind_eq_Inr g_take_u32_Inr g_take_Inr)
  then show "length v < 2 ^ 32 \<and> i = lp v @ rest" by (simp add: lp_def)
next
  assume "length v < 2 ^ 32 \<and> i = lp v @ rest"
  then show "take_lp i = Inr (v, rest)"
    by (auto simp: take_lp_def rbind_eq_Inr g_take_u32_Inr g_take_Inr lp_def unat_of_nat_u32)
qed

lemma g_put_u32_Inr: "g_put_u32 n = Inr out \<longleftrightarrow> n < 2 ^ 32 \<and> out = u32_to_be (of_nat n)"
  by (auto simp: g_put_u32_def rbind_eq_Inr ok_or_eq_Inr u32_try_from_def)

lemma put_lp_Inr: "put_lp v = Inr out \<longleftrightarrow> length v < 2 ^ 32 \<and> out = lp v"
  by (auto simp: put_lp_def rbind_eq_Inr g_put_u32_Inr lp_def)

lemma member_ok_fits: "member_ok m \<Longrightarrow> length (mem_identity m) < 2 ^ 32 \<and> length (mem_device m) < 2 ^ 32"
  by (simp add: member_ok_def group_bounds)

lemma put_member_ok: "member_ok m \<Longrightarrow> put_member m = Inr out \<longleftrightarrow> out = member_bytes m"
  using member_ok_fits [of m] by (auto simp: put_member_def rbind_eq_Inr put_lp_Inr member_bytes_def)

lemma take_member_Inr: "take_member i = Inr (m, rest) \<longleftrightarrow> member_ok m \<and> i = member_bytes m @ rest"
  using member_ok_fits [of m]
  by (cases m) (auto simp: take_member_def rbind_eq_Inr take_lp_Inr member_bytes_def Let_def)

lemmas take_Inr = take_exact_Inr take_byte_Inr g_take_u32_Inr g_take_u64_Inr take_lp_Inr take_member_Inr

text \<open>The same facts as evaluation rules: a reader applied to what the writer wrote.\<close>

lemma take_write [simp]:
  "take_exact e (e @ rest) = Inr rest"
  "take_byte (b # rest) = Inr (b, rest)"
  "g_take_u32 (u32_to_be w @ rest) = Inr (w, rest)"
  "g_take_u64 (u64_to_be x @ rest) = Inr (x, rest)"
  "length v < 2 ^ 32 \<Longrightarrow> take_lp (lp v @ rest) = Inr (v, rest)"
  "member_ok m \<Longrightarrow> take_member (member_bytes m @ rest) = Inr (m, rest)"
  by (simp_all add: take_Inr)

interpretation member_codec: result_codec
  "\<lambda>m. rbind (member_validate m) (\<lambda>_. put_member m)" take_member member_ok
proof unfold_locales
  fix bs m rest
  show "take_member bs = Inr (m, rest) \<longleftrightarrow>
    member_ok m \<and> (\<exists>out. rbind (member_validate m) (\<lambda>_. put_member m) = Inr out \<and> bs = out @ rest)"
    by (auto simp: take_member_Inr rbind_eq_Inr put_member_ok)
qed

lemma rput_many_members:
  "list_all member_ok ms \<Longrightarrow> rput_many put_member ms = Inr (concat (map member_bytes ms))"
proof (induction ms)
  case (Cons m ms)
  then show ?case using put_member_ok [of m "member_bytes m"] by simp
qed simp

lemma rtake_many_members:
  "rtake_many take_member n i = Inr (ms, rest) \<longleftrightarrow>
   length ms = n \<and> list_all member_ok ms \<and> i = concat (map member_bytes ms) @ rest"
proof (induction n arbitrary: i ms)
  case (Suc n)
  show ?case
    by (cases ms) (auto simp: rbind_eq_Inr take_member_Inr Suc.IH)
qed auto

lemma validate_members_Inr:
  "validate_members previous identities ms = Inr u \<longleftrightarrow>
   list_all member_ok ms \<and> sorted_wrt (<) (case previous of None \<Rightarrow> ms | Some p \<Rightarrow> p # ms) \<and>
   distinct (map mem_identity ms) \<and> set (map mem_identity ms) \<inter> identities = {}"
proof (induction previous identities ms rule: validate_members.induct)
  case (2 previous identities m ms)
  have "sorted_wrt (<) (m # ms) \<Longrightarrow> p < m \<Longrightarrow> \<forall>x \<in> set ms. p < x" for p
    by (auto intro: less_trans)
  then show ?case
    using 2 by (cases previous) (auto simp: rbind_eq_Inr)
qed (auto split: option.splits)

text \<open>The rule every roster obeys, as one predicate.\<close>

definition roster_valid :: "roster \<Rightarrow> bool" where
  "roster_valid r \<longleftrightarrow> ros_revision r \<noteq> RESERVED_REVISION \<and> ros_policy r = POLICY_VERSION_V1 \<and>
     (ros_revision r = 0 \<longrightarrow> ros_predecessor r = replicate DIGEST_LEN 0 \<and> \<not> ros_closed r \<and>
        ros_members r = [ros_authority r]) \<and>
     length (ros_members r) \<le> MAX_MEMBERS \<and> member_ok (ros_authority r) \<and>
     list_all member_ok (ros_members r) \<and> sorted_wrt (<) (ros_members r) \<and>
     distinct (map mem_identity (ros_members r)) \<and> roster_encoded_len r \<le> MAX_ROSTER_LEN"

definition roster_typed :: "roster \<Rightarrow> bool" where
  "roster_typed r \<longleftrightarrow> length (ros_group_id r) = GROUP_ID_LEN \<and> length (ros_predecessor r) = DIGEST_LEN"

lemma roster_validate_Inr: "roster_validate r = Inr u \<longleftrightarrow> roster_valid r"
  by (auto simp: roster_validate_def roster_valid_def rbind_eq_Inr validate_members_Inr)

definition roster_bytes :: "roster \<Rightarrow> bytes" where
  "roster_bytes r = ROSTER_DOMAIN @ lp (ros_group_id r) @ u64_to_be (ros_revision r)
     @ lp (ros_predecessor r) @ member_bytes (ros_authority r) @ u32_to_be (ros_policy r)
     @ [if ros_closed r then 1 else 0] @ u32_to_be (of_nat (length (ros_members r)))
     @ concat (map member_bytes (ros_members r))"

lemma roster_encode_Inr:
  assumes "roster_typed r"
  shows "roster_encode r = Inr bytes \<longleftrightarrow> roster_valid r \<and> bytes = roster_bytes r"
proof (cases "roster_valid r")
  case True
  then have "rput_many put_member (ros_members r) = Inr (concat (map member_bytes (ros_members r)))"
    "put_member (ros_authority r) = Inr (member_bytes (ros_authority r))"
    "g_put_u32 (length (ros_members r)) = Inr (u32_to_be (of_nat (length (ros_members r))))"
    using rput_many_members put_member_ok by (auto simp: roster_valid_def g_put_u32_Inr group_bounds)
  then show ?thesis
    using True assms
    by (auto simp: roster_encode_def rbind_eq_Inr roster_validate_Inr put_lp_Inr roster_bytes_def
        roster_typed_def group_bounds)
qed (auto simp: roster_encode_def rbind_eq_Inr roster_validate_Inr)

lemma length_roster_bytes: "roster_typed r \<Longrightarrow> length (roster_bytes r) = roster_encoded_len r"
  by (simp add: roster_bytes_def roster_encoded_len_def roster_typed_def length_concat o_def)

lemma roster_decode_exact:
  "roster_decode bytes = Inr r \<longleftrightarrow> roster_typed r \<and> roster_encode r = Inr bytes"
proof
  assume "roster_decode bytes = Inr r"
  then have "roster_typed r \<and> roster_valid r \<and> bytes = roster_bytes r"
    by (auto simp: roster_decode_def rbind_eq_Inr take_Inr rtake_many_members roster_new_def Let_def
        roster_validate_Inr roster_typed_def roster_bytes_def group_id_try_from_def digest_try_from_def
        split: if_splits)
  then show "roster_typed r \<and> roster_encode r = Inr bytes" by (simp add: roster_encode_Inr)
next
  assume enc: "roster_typed r \<and> roster_encode r = Inr bytes"
  then have "roster_valid r" "bytes = roster_bytes r" "length bytes \<le> MAX_ROSTER_LEN"
    using roster_encode_Inr length_roster_bytes by (auto simp: roster_valid_def)
  then show "roster_decode bytes = Inr r"
    using enc rtake_many_members [of "length (ros_members r)" "concat (map member_bytes (ros_members r))" _ "[]"]
    by (cases r) (auto simp: roster_decode_def roster_new_def Let_def roster_typed_def roster_bytes_def
        group_id_try_from_def digest_try_from_def roster_valid_def group_bounds unat_of_nat_u32
        rbind_eq_Inr roster_validate_Inr)
qed

text \<open>
  The roster codec is exact and canonical: a buffer decodes to a roster exactly when it is the
  encoding of that roster, so the digest of a roster's bytes commits to the roster; and a roster
  encodes exactly when it is well formed: a revision that is not reserved, the one policy, at most
  eight members within their size bounds, strictly ordered, one binding per identity, and a genesis
  holding only its authority.
\<close>

theorem roster_decode_iff:
  "(roster_decode bytes = Inr r \<longleftrightarrow> roster_typed r \<and> roster_encode r = Inr bytes) \<and>
   (roster_typed r \<and> (\<exists>out. roster_encode r = Inr out) \<longleftrightarrow> roster_typed r \<and> roster_valid r)"
  using roster_decode_exact [of bytes r] roster_encode_Inr [of r] by auto

definition context_valid :: "application_context \<Rightarrow> bool" where
  "context_valid c \<longleftrightarrow> ctx_revision c \<noteq> RESERVED_REVISION \<and> length (ctx_payload c) \<le> MAX_PAYLOAD_LEN \<and>
     member_ok (ctx_sender c) \<and> member_ok (ctx_recipient c) \<and>
     context_encoded_len c \<le> MAX_APPLICATION_CONTEXT_LEN"

definition context_typed :: "application_context \<Rightarrow> bool" where
  "context_typed c \<longleftrightarrow> length (ctx_group_id c) = GROUP_ID_LEN \<and> length (ctx_roster_digest c) = DIGEST_LEN"

lemma context_validate_Inr: "context_validate c = Inr u \<longleftrightarrow> context_valid c"
  by (auto simp: context_validate_def context_valid_def rbind_eq_Inr)

definition context_bytes :: "application_context \<Rightarrow> bytes" where
  "context_bytes c = APPLICATION_DOMAIN @ lp (ctx_group_id c) @ u64_to_be (ctx_revision c)
     @ lp (ctx_roster_digest c) @ member_bytes (ctx_sender c) @ member_bytes (ctx_recipient c)
     @ u64_to_be (ctx_sequence c) @ lp (ctx_payload c)"

lemma context_encode_Inr:
  assumes "context_typed c"
  shows "context_encode c = Inr bytes \<longleftrightarrow> context_valid c \<and> bytes = context_bytes c"
  using assms
  by (auto simp: context_encode_def rbind_eq_Inr context_validate_Inr put_lp_Inr context_bytes_def
      context_typed_def context_valid_def put_member_ok group_bounds)

lemma length_context_bytes: "context_typed c \<Longrightarrow> length (context_bytes c) = context_encoded_len c"
  by (simp add: context_bytes_def context_encoded_len_def context_typed_def)

lemma context_decode_exact:
  "context_decode bytes = Inr c \<longleftrightarrow> context_typed c \<and> context_encode c = Inr bytes"
proof
  assume "context_decode bytes = Inr c"
  then have "context_typed c \<and> context_valid c \<and> bytes = context_bytes c"
    by (auto simp: context_decode_def rbind_eq_Inr take_Inr context_new_def Let_def
        context_validate_Inr context_typed_def context_bytes_def group_id_try_from_def
        digest_try_from_def split: if_splits)
  then show "context_typed c \<and> context_encode c = Inr bytes" by (simp add: context_encode_Inr)
next
  assume enc: "context_typed c \<and> context_encode c = Inr bytes"
  then have "context_valid c" "bytes = context_bytes c" "length bytes \<le> MAX_APPLICATION_CONTEXT_LEN"
    using context_encode_Inr length_context_bytes by (auto simp: context_valid_def)
  then show "context_decode bytes = Inr c"
    using enc take_write(5) [of "ctx_payload c" "[]"]
    by (cases c) (auto simp: context_decode_def context_new_def Let_def context_typed_def
        context_bytes_def group_id_try_from_def digest_try_from_def context_valid_def group_bounds
        rbind_eq_Inr context_validate_Inr)
qed

text \<open>
  The application-context codec is exact and canonical in the same way: what a receiver decodes
  is, bit for bit, what some sender's valid context encodes to.
\<close>

theorem context_decode_iff:
  "(context_decode bytes = Inr c \<longleftrightarrow> context_typed c \<and> context_encode c = Inr bytes) \<and>
   (context_typed c \<and> (\<exists>out. context_encode c = Inr out) \<longleftrightarrow> context_typed c \<and> context_valid c)"
  using context_decode_exact [of bytes c] context_encode_Inr [of c] by auto

end
