(* ===== verification/Roster_View.thy ===== *)
theory Roster_View
  imports Group_Values
begin

text \<open>
  Crate \<^verbatim>\<open>tacenta-group\<close>, \<^verbatim>\<open>roster_view.rs\<close>: the one roster a device has accepted, how a view starts
  (a genesis, or the source roster of an invitation), how a successor replaces it, and its
  checkpoint.

  The digest of a roster's bytes is computed by the core library, which is not part of this
  workspace: it is the parameter \<open>commit\<close>.
\<close>

section \<open>Definitions\<close>

definition ROSTER_VIEW_STATE_DOMAIN :: bytes where
  "ROSTER_VIEW_STATE_DOMAIN = ascii ''Tacenta Group Roster View State v1''"

datatype roster_refusal =
    WrongAuthority | WrongGroup | InvalidGenesis | InvalidSource | StaleRevision
  | MissingPredecessor | RosterConflict | AuthorityTransfer | PolicyChange | Reopened
  | MissingAuthorityMember

datatype roster_disposition = RosterAccepted | RosterDuplicate | RosterRejected roster_refusal

record roster_view =
  view_roster :: roster
  view_digest :: bytes

definition accept_genesis :: "member \<Rightarrow> roster \<Rightarrow> bytes \<Rightarrow> roster_refusal + roster_view" where
  "accept_genesis authenticated r digest =
     (if authenticated \<noteq> ros_authority r then Inl WrongAuthority
      else if ros_revision r \<noteq> 0 \<or> ros_predecessor r \<noteq> replicate DIGEST_LEN 0 \<or> ros_closed r
              \<or> ros_members r \<noteq> [ros_authority r]
      then Inl InvalidGenesis
      else Inr \<lparr>view_roster = r, view_digest = digest\<rparr>)"

definition accept_source :: "member \<Rightarrow> roster \<Rightarrow> bytes \<Rightarrow> roster_refusal + roster_view" where
  "accept_source authenticated r digest =
     (if authenticated \<noteq> ros_authority r then Inl WrongAuthority
      else if ros_revision r = 0 then accept_genesis authenticated r digest
      else if ros_closed r then Inl InvalidSource
      else if \<not> list_ex (\<lambda>m. m = ros_authority r) (ros_members r) then Inl MissingAuthorityMember
      else Inr \<lparr>view_roster = r, view_digest = digest\<rparr>)"

definition view_encode_state :: "roster_view \<Rightarrow> bytes group_result" where
  "view_encode_state v =
     rbind (roster_encode (view_roster v)) (\<lambda>ros.
     rbind (ok_or E_Malformed (u32_try_from (length ros))) (\<lambda>n.
       Inr (ROSTER_VIEW_STATE_DOMAIN @ u32_to_be n @ ros @ view_digest v)))"

definition view_decode_state ::
  "bytes \<Rightarrow> member \<Rightarrow> (bytes \<Rightarrow> bytes) \<Rightarrow> roster_refusal + roster_view" where
  "view_decode_state bytes pinned commit =
     (if \<not> starts_with bytes ROSTER_VIEW_STATE_DOMAIN then Inl InvalidGenesis else
      rbind (ok_or InvalidGenesis (split_at_checked 4 (drop (length ROSTER_VIEW_STATE_DOMAIN) bytes)))
        (\<lambda>(len, rest).
      rbind (ok_or InvalidGenesis (split_at_checked (unat (u32_from_be len)) rest))
        (\<lambda>(ros_bytes, digest).
      if length digest \<noteq> DIGEST_LEN then Inl InvalidGenesis else
      case roster_decode ros_bytes of
        Inl _ \<Rightarrow> Inl InvalidGenesis
      | Inr r \<Rightarrow>
          if ros_authority r \<noteq> pinned then Inl WrongAuthority
          else if digest \<noteq> commit ros_bytes then Inl RosterConflict
          else if ros_revision r = 0 then accept_genesis pinned r digest
          else if \<not> list_ex (\<lambda>m. m = pinned) (ros_members r) then Inl MissingAuthorityMember
          else Inr \<lparr>view_roster = r, view_digest = digest\<rparr>)))"

definition is_active :: "roster_view \<Rightarrow> member \<Rightarrow> bool" where
  "is_active v m = (\<not> ros_closed (view_roster v) \<and> list_ex (\<lambda>k. k = m) (ros_members (view_roster v)))"

definition accept_successor ::
  "member \<Rightarrow> roster \<Rightarrow> bytes \<Rightarrow> roster_view \<Rightarrow> roster_disposition \<times> roster_view" where
  "accept_successor authenticated candidate digest v =
     (let r = view_roster v in
      if authenticated \<noteq> ros_authority r then (RosterRejected WrongAuthority, v)
      else if ros_group_id candidate \<noteq> ros_group_id r then (RosterRejected WrongGroup, v)
      else if ros_authority candidate \<noteq> ros_authority r then (RosterRejected AuthorityTransfer, v)
      else if ros_policy candidate \<noteq> ros_policy r then (RosterRejected PolicyChange, v)
      else if \<not> list_ex (\<lambda>m. m = ros_authority candidate) (ros_members candidate)
      then (RosterRejected MissingAuthorityMember, v)
      else if ros_revision candidate < ros_revision r then (RosterRejected StaleRevision, v)
      else if ros_revision candidate = ros_revision r then
        (if candidate = r \<and> digest = view_digest v then (RosterDuplicate, v)
         else (RosterRejected RosterConflict, v))
      else if ros_revision candidate \<noteq> saturating_add (ros_revision r) 1
              \<or> ros_predecessor candidate \<noteq> view_digest v
      then (RosterRejected MissingPredecessor, v)
      else if ros_closed r \<and> \<not> ros_closed candidate then (RosterRejected Reopened, v)
      else (RosterAccepted, \<lparr>view_roster = candidate, view_digest = digest\<rparr>))"

section \<open>The chain of accepted rosters\<close>

type_synonym view_op = "member \<times> roster \<times> bytes"

definition view_step :: "view_op \<Rightarrow> roster_view \<Rightarrow> roster_disposition \<times> roster_view" where
  "view_step = (\<lambda>(authenticated, candidate, digest). accept_successor authenticated candidate digest)"

text \<open>\<open>w\<close> may follow \<open>v\<close>: the next revision, naming \<open>v\<close>'s digest, under the same authority.\<close>

definition linked :: "roster_view \<Rightarrow> roster_view \<Rightarrow> bool" where
  "linked v w \<longleftrightarrow>
     unat (ros_revision (view_roster w)) = Suc (unat (ros_revision (view_roster v))) \<and>
     ros_predecessor (view_roster w) = view_digest v \<and>
     ros_group_id (view_roster w) = ros_group_id (view_roster v) \<and>
     ros_authority (view_roster w) = ros_authority (view_roster v) \<and>
     ros_policy (view_roster w) = ros_policy (view_roster v) \<and>
     ros_authority (view_roster w) \<in> set (ros_members (view_roster w)) \<and>
     (ros_closed (view_roster v) \<longrightarrow> ros_closed (view_roster w))"

primrec accepted_views :: "view_op list \<Rightarrow> roster_view \<Rightarrow> roster_view list" where
  "accepted_views [] v = []"
| "accepted_views (x # xs) v =
     (case view_step x v of (answer, w) \<Rightarrow>
        (if answer = RosterAccepted then [w] else []) @ accepted_views xs w)"

lemma saturating_Suc: "a < b \<Longrightarrow> b = saturating_add a 1 \<Longrightarrow> unat b = Suc (unat a)"
  using unat_u64_less [of b]
  by (auto simp: word_less_nat_alt unat_saturating_add min_def split: if_splits)

lemma view_step_cases:
  assumes "view_step x v = (answer, w)"
  shows "if answer = RosterAccepted then linked v w \<and> (\<exists>a. x = (a, view_roster w, view_digest w)) else w = v"
proof (cases x)
  case (fields a c d)
  have "\<not> ros_revision c < ros_revision (view_roster v) \<Longrightarrow>
      ros_revision c \<noteq> ros_revision (view_roster v) \<Longrightarrow> ros_revision (view_roster v) < ros_revision c"
    by auto
  then show ?thesis
    using assms fields saturating_Suc [of "ros_revision (view_roster v)" "ros_revision c"]
    by (auto simp: view_step_def accept_successor_def Let_def linked_def list_ex_iff split: if_splits)
qed

lemma accepted_chain:
  "successively linked (v # accepted_views xs v) \<and>
   final view_step xs v = last (v # accepted_views xs v)"
proof (induction xs arbitrary: v)
  case (Cons x xs)
  obtain answer w where w: "view_step x v = (answer, w)" by (cases "view_step x v")
  show ?case
    using Cons.IH [of w] view_step_cases [OF w] w by (auto split: if_splits)
qed simp

text \<open>
  C13.  The history of a view is a chain.  Whatever rosters are offered to a view, by whom and in
  what order, the ones it accepts form a chain from its start: each is the next revision, names the
  digest of the one before, keeps the group, the authority (who is always a member) and the policy,
  and never reopens a closed group; the view is always the last of them.
\<close>

theorem roster_chain:
  "successively linked (v # accepted_views xs v) \<and>
   final view_step xs v = last (v # accepted_views xs v)"
  by (rule accepted_chain)

definition view_le :: "roster_view \<Rightarrow> roster_view \<Rightarrow> bool" where
  "view_le v w \<longleftrightarrow> unat (ros_revision (view_roster v)) \<le> unat (ros_revision (view_roster w)) \<and>
     ros_group_id (view_roster w) = ros_group_id (view_roster v) \<and>
     ros_authority (view_roster w) = ros_authority (view_roster v) \<and>
     (ros_closed (view_roster v) \<longrightarrow> ros_closed (view_roster w)) \<and>
     (ros_revision (view_roster w) = ros_revision (view_roster v) \<longrightarrow> w = v)"

lemma view_step_le: "view_le v (snd (view_step x v))"
  using view_step_cases [of x v] by (cases "view_step x v") (auto simp: view_le_def linked_def split: if_splits)

interpretation view: monotone_machine view_step "\<lambda>_. True" view_le
proof unfold_locales
  show "view_le v v" for v by (simp add: view_le_def)
  show "view_le u v \<Longrightarrow> view_le v w \<Longrightarrow> view_le u w" for u v w
    by (auto simp: view_le_def) (metis le_antisym word_unat_eq_iff)+
  show "view_le v (snd (view_step x v))" for v x by (rule view_step_le)
qed simp

text \<open>
  C23.  No rollback, no reopening, no second roster at a revision.  Over any offers the accepted
  revision never goes down, a view whose revision is unchanged is unchanged, and once the group is
  closed nobody is an active member any more.
\<close>

theorem view_monotone:
  "let v' = final view_step xs v
   in ros_revision (view_roster v) \<le> ros_revision (view_roster v') \<and>
      (v' = v \<or> ros_revision (view_roster v) < ros_revision (view_roster v')) \<and>
      \<not> (ros_closed (view_roster v) \<and> is_active v' m)"
  using view.run_le [of v xs]
  by (auto simp: Let_def view_le_def is_active_def word_le_nat_alt word_less_nat_alt
      order.order_iff_strict word_unat_eq_iff)

section \<open>Equal digests mean equal histories\<close>

definition view_bytes :: "roster_view \<Rightarrow> bytes" where
  "view_bytes v = (case roster_encode (view_roster v) of Inl _ \<Rightarrow> [] | Inr b \<Rightarrow> b)"

text \<open>The integration computes each digest over the encoding of a well-formed roster.\<close>

definition committed :: "(bytes \<Rightarrow> bytes) \<Rightarrow> roster_view \<Rightarrow> bool" where
  "committed commit v \<longleftrightarrow> roster_typed (view_roster v) \<and>
     roster_encode (view_roster v) = Inr (view_bytes v) \<and> view_digest v = commit (view_bytes v)"

definition op_view :: "view_op \<Rightarrow> roster_view" where
  "op_view x = \<lparr>view_roster = fst (snd x), view_digest = snd (snd x)\<rparr>"

lemma committed_inject:
  assumes "committed commit v" "committed commit w" "inj_on commit (view_bytes ` S)" "v \<in> S" "w \<in> S"
    and "view_digest v = view_digest w"
  shows "v = w"
proof -
  have "commit (view_bytes v) = commit (view_bytes w)" using assms by (simp add: committed_def)
  then have "view_bytes v = view_bytes w" using inj_onD [OF assms(3)] assms(4,5) by blast
  then have "roster_decode (view_bytes v) = Inr (view_roster v)"
    "roster_decode (view_bytes v) = Inr (view_roster w)"
    using assms(1,2) by (simp_all add: roster_decode_exact committed_def)
  then show ?thesis using assms(6) by simp
qed

lemma accepted_committed:
  "list_all (\<lambda>x. committed commit (op_view x)) xs \<Longrightarrow> list_all (committed commit) (accepted_views xs v)"
proof (induction xs arbitrary: v)
  case (Cons x xs)
  obtain answer w where w: "view_step x v = (answer, w)" by (cases "view_step x v")
  have "answer = RosterAccepted \<Longrightarrow> w = op_view x"
    using view_step_cases [OF w] by (auto simp: op_view_def)
  then show ?case using Cons w by auto
qed simp

lemma chain_revision:
  "successively linked (v # h) \<Longrightarrow> w \<in> set h \<Longrightarrow>
   unat (ros_revision (view_roster v)) < unat (ros_revision (view_roster w))"
proof (induction h arbitrary: v)
  case (Cons u h)
  then have "linked v u" "successively linked (u # h)" by auto
  then show ?case using Cons.IH [of u] Cons.prems(2) by (auto simp: linked_def)
qed simp

lemma successively_snoc:
  "successively P (v # h @ [w]) \<longleftrightarrow> successively P (v # h) \<and> P (last (v # h)) w"
  using successively_append_iff [of P "v # h" "[w]"] by simp

lemma chain_agree:
  assumes "successively linked (v # h)" "successively linked (v # h')"
    and "list_all (committed commit) (v # h @ h')"
    and "inj_on commit (view_bytes ` set (v # h @ h'))"
    and "view_digest (last (v # h)) = view_digest (last (v # h'))"
  shows "h = h'"
  using assms
proof (induction h arbitrary: h' rule: rev_induct)
  case Nil
  show ?case
  proof (rule ccontr)
    assume "[] \<noteq> h'"
    then have "last h' \<in> set h'" "view_digest v = view_digest (last h')" using Nil(5) by auto
    then have "v = last h'"
      using Nil(3) by (intro committed_inject [OF _ _ Nil(4)]) (auto simp: list_all_iff)
    then show False using chain_revision [OF Nil(2) \<open>last h' \<in> set h'\<close>] by simp
  qed
next
  case (snoc w h)
  have same: "w = u" if "u \<in> set (v # h')" "view_digest w = view_digest u" for u
    using that snoc.prems(3) by (intro committed_inject [OF _ _ snoc.prems(4)]) (auto simp: list_all_iff)
  obtain g u where h': "h' = g @ [u]"
  proof (cases h' rule: rev_cases)
    case Nil
    then have "w = v" using same [of v] snoc.prems(5) by simp
    then show ?thesis using chain_revision [OF snoc.prems(1), of w] by simp
  qed
  then have "w = u" using same [of u] snoc.prems(5) by simp
  moreover have "view_digest (last (v # h)) = view_digest (last (v # g))"
    using snoc.prems(1,2) h' \<open>w = u\<close> successively_snoc [of linked v h w] successively_snoc [of linked v g u]
    by (simp add: linked_def)
  moreover have "inj_on commit (view_bytes ` set (v # h @ g))"
    using snoc.prems(4) h' by (auto elim: inj_on_subset)
  ultimately show ?case
    using snoc.IH [of g] snoc.prems(1-3) h' successively_snoc [of linked v h w]
      successively_snoc [of linked v g u] by simp
qed

text \<open>
  C22.  Agreement.  Two devices that start from the same view and whose digests are computed by a
  commitment that does not collide on the rosters they have accepted: if their current digests are
  equal, they have accepted exactly the same rosters in the same order.
\<close>

theorem view_agreement:
  assumes "committed commit v"
    and "list_all (\<lambda>x. committed commit (op_view x)) xs" and "list_all (\<lambda>x. committed commit (op_view x)) ys"
    and "inj_on commit (view_bytes ` set (v # accepted_views xs v @ accepted_views ys v))"
    and "view_digest (final view_step xs v) = view_digest (final view_step ys v)"
  shows "accepted_views xs v = accepted_views ys v \<and> final view_step xs v = final view_step ys v"
proof -
  have "accepted_views xs v = accepted_views ys v"
    using assms accepted_chain [of v xs] accepted_chain [of v ys]
    by (intro chain_agree [of v _ _ commit]) (auto simp: accepted_committed)
  then show ?thesis using accepted_chain [of v xs] accepted_chain [of v ys] by simp
qed

text \<open>A small group: Alice founds it and admits Bob; digests by a toy commitment.\<close>

definition ex_alice :: member where "ex_alice = Member [1] [1]"

definition ex_bob :: member where "ex_bob = Member [2] [1]"

definition ex_commit :: "bytes \<Rightarrow> bytes" where
  "ex_commit bs = replicate 32 (of_nat (length bs))"

definition ex_genesis :: roster where
  "ex_genesis = \<lparr>ros_group_id = replicate 16 9, ros_revision = 0, ros_predecessor = replicate 32 0,
     ros_authority = ex_alice, ros_policy = 1, ros_closed = False, ros_members = [ex_alice]\<rparr>"

definition ex_view :: roster_view where
  "ex_view = \<lparr>view_roster = ex_genesis, view_digest = ex_commit (roster_bytes ex_genesis)\<rparr>"

definition ex_second :: roster where
  "ex_second = ex_genesis\<lparr>ros_revision := 1, ros_predecessor := view_digest ex_view,
     ros_members := [ex_alice, ex_bob]\<rparr>"

definition ex_offer :: view_op where
  "ex_offer = (ex_alice, ex_second, ex_commit (roster_bytes ex_second))"

lemmas ex_defs = ex_alice_def ex_bob_def ex_commit_def ex_genesis_def ex_view_def ex_second_def
  ex_offer_def

lemma ex_committed: "committed ex_commit ex_view" "committed ex_commit (op_view ex_offer)"
  by code_simp+

lemma ex_step: "view_step ex_offer ex_view = (RosterAccepted, op_view ex_offer)"
  by code_simp

theorem view_agreement_witness:
  "accepted_views [ex_offer, ex_offer] ex_view = accepted_views [ex_offer] ex_view \<and>
   accepted_views [ex_offer] ex_view \<noteq> []"
proof -
  have dup: "view_step ex_offer (op_view ex_offer) = (RosterDuplicate, op_view ex_offer)" by code_simp
  have "ex_commit (view_bytes ex_view) \<noteq> ex_commit (view_bytes (op_view ex_offer))" by code_simp
  then have "inj_on ex_commit (view_bytes ` {ex_view, op_view ex_offer})" by (auto simp: inj_on_def)
  then show ?thesis
    using view_agreement [of ex_commit ex_view "[ex_offer, ex_offer]" "[ex_offer]"] ex_committed
    by (simp add: ex_step dup)
qed

section \<open>Checkpoints\<close>

lemma view_restore:
  assumes "committed commit v" "ros_authority (view_roster v) \<in> set (ros_members (view_roster v))"
    and "length (view_digest v) = DIGEST_LEN"
  shows "\<exists>bytes. view_encode_state v = Inr bytes \<and>
    view_decode_state bytes (ros_authority (view_roster v)) commit = Inr v"
proof -
  let ?r = "view_roster v" and ?b = "view_bytes v"
  have r: "roster_typed ?r" "roster_encode ?r = Inr ?b" "view_digest v = commit ?b"
    using assms(1) by (auto simp: committed_def)
  then have valid: "roster_valid ?r" "?b = roster_bytes ?r" using roster_encode_Inr by auto
  then have len: "length ?b < 2 ^ 32"
    using length_roster_bytes [OF r(1)] by (simp add: roster_valid_def group_bounds)
  have dec: "roster_decode ?b = Inr ?r" using r by (simp add: roster_decode_exact)
  have gen: "ros_revision ?r = 0 \<Longrightarrow> accept_genesis (ros_authority ?r) ?r (view_digest v) = Inr v"
    using valid(1) by (simp add: roster_valid_def accept_genesis_def)
  have len_dec: "u32_from_be (u32_to_be (of_nat (length ?b))) = of_nat (length ?b)"
    "unat (of_nat (length ?b) :: u32) = length ?b"
    using len by (simp_all add: unat_of_nat_u32)
  have "view_encode_state v = Inr (ROSTER_VIEW_STATE_DOMAIN @ u32_to_be (of_nat (length ?b)) @ ?b @ view_digest v)"
    using r(2) len by (simp add: view_encode_state_def u32_try_from_def)
  moreover have "view_decode_state (ROSTER_VIEW_STATE_DOMAIN @ u32_to_be (of_nat (length ?b)) @ ?b @ view_digest v)
      (ros_authority ?r) commit = Inr v"
    using len_dec dec gen assms(2,3) r(3)
    by (simp add: view_decode_state_def list_ex_iff)
  ultimately show ?thesis by blast
qed

lemma final_authority:
  assumes "ros_authority (view_roster v) \<in> set (ros_members (view_roster v))"
  shows "ros_authority (view_roster (final view_step xs v)) \<in> set (ros_members (view_roster (final view_step xs v)))"
  using assms
proof (induction xs arbitrary: v)
  case (Cons x xs)
  have "ros_authority (view_roster (snd (view_step x v))) \<in> set (ros_members (view_roster (snd (view_step x v))))"
    using view_step_cases [of x v] Cons.prems
    by (cases "view_step x v") (auto simp: linked_def split: if_splits)
  then show ?case using Cons.IH by simp
qed simp

lemma final_committed:
  assumes "committed commit v" "list_all (\<lambda>x. committed commit (op_view x)) xs"
  shows "committed commit (final view_step xs v)"
  using accepted_chain [of v xs] accepted_committed [OF assms(2), of v] assms(1)
  by (auto simp: list_all_iff)

text \<open>
  C27.  A view survives a restart.  From a source roster accepted under the pinned authority, through
  any offers whose digests the 32-byte commitment computed, the checkpoint of the view encodes and,
  under the same authority and commitment, decodes to exactly that view.
\<close>

theorem view_restart:
  assumes "accept_source a r d = Inr v" and "committed commit v"
    and "list_all (\<lambda>x. committed commit (op_view x)) xs" and "\<And>b. length (commit b) = DIGEST_LEN"
    and "v' = final view_step xs v"
  shows "\<exists>bytes. view_encode_state v' = Inr bytes \<and> view_decode_state bytes a commit = Inr v'"
proof -
  have v: "ros_authority (view_roster v) \<in> set (ros_members (view_roster v))" "ros_authority (view_roster v) = a"
    using assms(1) by (auto simp: accept_source_def accept_genesis_def list_ex_iff split: if_splits)
  have "ros_authority (view_roster v') = a"
    using view.run_le [of v xs] v(2) assms(5) by (simp add: view_le_def)
  moreover have "committed commit v'" using final_committed assms(2,3,5) by blast
  moreover have "length (view_digest v') = DIGEST_LEN"
    using \<open>committed commit v'\<close> assms(4) by (simp add: committed_def)
  ultimately show ?thesis using view_restore [of commit v'] final_authority [OF v(1)] assms(5) by auto
qed

theorem view_restart_witness:
  "\<exists>bytes. view_encode_state (final view_step [ex_offer] ex_view) = Inr bytes \<and>
    view_decode_state bytes ex_alice ex_commit = Inr (final view_step [ex_offer] ex_view)"
proof -
  have "accept_source ex_alice ex_genesis (ex_commit (roster_bytes ex_genesis)) = Inr ex_view"
    by (simp add: accept_source_def accept_genesis_def ex_defs DIGEST_LEN_def)
  then show ?thesis
    using ex_committed(1) by (rule view_restart [where xs = "[ex_offer]"])
      (simp_all add: ex_committed ex_commit_def DIGEST_LEN_def)
qed

end
