(* ===== verification/Group_Invitation.thy ===== *)
theory Group_Invitation
  imports Roster_View
begin

text \<open>
  Crate \<^verbatim>\<open>tacenta-group\<close>, \<^verbatim>\<open>invitation.rs\<close>: the authority's invitations.  A book holds the
  invitations of one group; the target accepts, the authority admits or revokes, and an invitation
  expires.  The three messages about an invitation (bootstrap, acceptance, revocation) and the
  book's checkpoint have their codecs here.

  The peer of an authenticated channel is an argument of each operation; the clock is the argument
  \<open>now\<close>.
\<close>

section \<open>Invitations\<close>

definition INVITATION_BOOK_STATE_DOMAIN :: bytes where
  "INVITATION_BOOK_STATE_DOMAIN = ascii ''Tacenta Group Invitation Book State v1''"

definition INVITATION_BOOTSTRAP_DOMAIN :: bytes where
  "INVITATION_BOOTSTRAP_DOMAIN = ascii ''Tacenta Group Invitation Bootstrap v1''"

definition INVITATION_ACCEPTANCE_DOMAIN :: bytes where
  "INVITATION_ACCEPTANCE_DOMAIN = ascii ''Tacenta Group Invitation Acceptance v1''"

definition INVITATION_REVOCATION_DOMAIN :: bytes where
  "INVITATION_REVOCATION_DOMAIN = ascii ''Tacenta Group Invitation Revocation v1''"

definition MAX_INVITATION_RECORDS :: nat where "MAX_INVITATION_RECORDS = 32"

text \<open>Length prefixes of two and of four bytes.\<close>

definition take_lp16 :: "bytes \<Rightarrow> (bytes \<times> bytes) group_result" where
  "take_lp16 input = rbind (g_take 2 input) (\<lambda>(n, rest). g_take (unat (u16_from_be n)) rest)"

definition take_u32_lp :: "bytes \<Rightarrow> (bytes \<times> bytes) group_result" where
  "take_u32_lp input = rbind (g_take_u32 input) (\<lambda>(n, rest). g_take (unat n) rest)"

definition put_lp16 :: "bytes \<Rightarrow> bytes group_result" where
  "put_lp16 value = rbind (ok_or E_Malformed (u16_try_from (length value))) (\<lambda>n. Inr (u16_to_be n @ value))"

definition put_u32_lp :: "bytes \<Rightarrow> bytes group_result" where
  "put_u32_lp value = rbind (ok_or E_Malformed (u32_try_from (length value))) (\<lambda>n. Inr (u32_to_be n @ value))"

definition invitation_id_try_from :: "bytes \<Rightarrow> bytes group_result" where
  "invitation_id_try_from bs = (if length bs = 16 then Inr bs else Inl E_Malformed)"

datatype invitation_status =
    InvPending
  | InvAcceptedPendingAdmission
  | InvAdmitted u64
  | InvRevoked
  | InvExpired

fun status_code :: "invitation_status \<Rightarrow> byte \<times> u64 option" where
  "status_code InvPending = (0, None)"
| "status_code InvAcceptedPendingAdmission = (1, None)"
| "status_code (InvAdmitted revision) = (2, Some revision)"
| "status_code InvRevoked = (3, None)"
| "status_code InvExpired = (4, None)"

record invitation =
  inv_id :: bytes
  inv_group_id :: bytes
  inv_target :: member
  inv_source_revision :: u64
  inv_source_digest :: bytes
  inv_policy :: u32
  inv_expires_at :: u64
  inv_status :: invitation_status

definition invitation_validate :: "invitation \<Rightarrow> unit group_result" where
  "invitation_validate i =
     (if inv_source_revision i = RESERVED_REVISION then Inl E_ReservedRevision
      else if inv_policy i \<noteq> POLICY_VERSION_V1 then Inl E_UnsupportedPolicy
      else member_validate (inv_target i))"

definition invitation_new ::
  "bytes \<Rightarrow> bytes \<Rightarrow> member \<Rightarrow> u64 \<Rightarrow> bytes \<Rightarrow> u32 \<Rightarrow> u64 \<Rightarrow> invitation group_result" where
  "invitation_new ident group_id target source_revision source_digest policy expires_at =
     (let i = \<lparr>inv_id = ident, inv_group_id = group_id, inv_target = target,
               inv_source_revision = source_revision, inv_source_digest = source_digest,
               inv_policy = policy, inv_expires_at = expires_at, inv_status = InvPending\<rparr>
      in rbind (invitation_validate i) (\<lambda>_. Inr i))"

definition inv_same_immutable_fields :: "invitation \<Rightarrow> invitation \<Rightarrow> bool" where
  "inv_same_immutable_fields i candidate \<longleftrightarrow>
     inv_id i = inv_id candidate \<and> inv_group_id i = inv_group_id candidate \<and>
     inv_target i = inv_target candidate \<and> inv_source_revision i = inv_source_revision candidate \<and>
     inv_source_digest i = inv_source_digest candidate \<and> inv_policy i = inv_policy candidate \<and>
     inv_expires_at i = inv_expires_at candidate"

definition source_matches :: "invitation \<Rightarrow> u64 \<Rightarrow> bytes \<Rightarrow> bool" where
  "source_matches i revision digest \<longleftrightarrow> inv_source_revision i = revision \<and> inv_source_digest i = digest"

definition expire_if_due :: "u64 \<Rightarrow> invitation \<Rightarrow> invitation" where
  "expire_if_due now i =
     (if now \<ge> inv_expires_at i \<and> inv_status i \<in> {InvPending, InvAcceptedPendingAdmission}
      then i\<lparr>inv_status := InvExpired\<rparr> else i)"

section \<open>The three messages\<close>

record invitation_bootstrap =
  boot_invitation :: invitation
  boot_source_roster :: roster

definition check_binding :: "invitation \<Rightarrow> roster \<Rightarrow> unit group_result" where
  "check_binding i r =
     (if inv_status i \<noteq> InvPending \<or> inv_group_id i \<noteq> ros_group_id r
         \<or> inv_source_revision i \<noteq> ros_revision r \<or> inv_policy i \<noteq> ros_policy r
      then Inl E_Conflict else Inr ())"

definition bootstrap_new :: "invitation \<Rightarrow> roster \<Rightarrow> invitation_bootstrap group_result" where
  "bootstrap_new i r =
     rbind (check_binding i r) (\<lambda>_.
     rbind (roster_encode r) (\<lambda>_. Inr \<lparr>boot_invitation = i, boot_source_roster = r\<rparr>))"

definition validate_source_digest :: "invitation_bootstrap \<Rightarrow> bytes \<Rightarrow> unit group_result" where
  "validate_source_digest b source_digest =
     (if source_digest \<noteq> inv_source_digest (boot_invitation b) then Inl E_StaleSource else Inr ())"

definition bootstrap_encode :: "invitation_bootstrap \<Rightarrow> bytes group_result" where
  "bootstrap_encode b =
     rbind (roster_encode (boot_source_roster b)) (\<lambda>roster.
     rbind (invitation_validate (boot_invitation b)) (\<lambda>_.
     rbind (check_binding (boot_invitation b) (boot_source_roster b)) (\<lambda>_.
       let i = boot_invitation b in
     rbind (put_lp16 (mem_identity (inv_target i))) (\<lambda>identity.
     rbind (put_lp16 (mem_device (inv_target i))) (\<lambda>device.
     rbind (put_u32_lp roster) (\<lambda>roster_lp.
       Inr (INVITATION_BOOTSTRAP_DOMAIN @ inv_id i @ inv_group_id i @ identity @ device
            @ u64_to_be (inv_source_revision i) @ inv_source_digest i @ u32_to_be (inv_policy i)
            @ u64_to_be (inv_expires_at i) @ roster_lp)))))))"

definition bootstrap_decode :: "bytes \<Rightarrow> invitation_bootstrap group_result" where
  "bootstrap_decode bytes =
     rbind (take_exact INVITATION_BOOTSTRAP_DOMAIN bytes) (\<lambda>c.
     rbind (g_take 16 c) (\<lambda>(ident, c).
     rbind (invitation_id_try_from ident) (\<lambda>ident.
     rbind (g_take GROUP_ID_LEN c) (\<lambda>(group_id, c).
     rbind (group_id_try_from group_id) (\<lambda>group_id.
     rbind (take_lp16 c) (\<lambda>(identity, c).
     rbind (take_lp16 c) (\<lambda>(device, c).
     rbind (g_take_u64 c) (\<lambda>(source_revision, c).
     rbind (g_take DIGEST_LEN c) (\<lambda>(source_digest, c).
     rbind (digest_try_from source_digest) (\<lambda>source_digest.
     rbind (g_take_u32 c) (\<lambda>(policy, c).
     rbind (g_take_u64 c) (\<lambda>(expires_at, c).
     rbind (take_u32_lp c) (\<lambda>(roster, c).
     rbind (roster_decode roster) (\<lambda>roster.
       if c \<noteq> [] then Inl E_Malformed
       else
     rbind (invitation_new ident group_id (Member identity device) source_revision source_digest policy
              expires_at) (\<lambda>i. bootstrap_new i roster)))))))))))))))"

text \<open>Acceptance and revocation have the same fields; each has its own domain.\<close>

record invitation_answer =
  ans_group_id :: bytes
  ans_invitation_id :: bytes
  ans_source_revision :: u64
  ans_source_digest :: bytes

definition acceptance_new :: "bytes \<Rightarrow> bytes \<Rightarrow> u64 \<Rightarrow> bytes \<Rightarrow> invitation_answer group_result" where
  "acceptance_new group_id invitation_id source_revision source_digest =
     (if source_revision = RESERVED_REVISION then Inl E_ReservedRevision
      else Inr \<lparr>ans_group_id = group_id, ans_invitation_id = invitation_id,
                ans_source_revision = source_revision, ans_source_digest = source_digest\<rparr>)"

definition acceptance_encode :: "invitation_answer \<Rightarrow> bytes group_result" where
  "acceptance_encode a =
     rbind (acceptance_new (ans_group_id a) (ans_invitation_id a) (ans_source_revision a)
              (ans_source_digest a)) (\<lambda>canonical.
       Inr (INVITATION_ACCEPTANCE_DOMAIN @ ans_group_id canonical @ ans_invitation_id canonical
            @ u64_to_be (ans_source_revision canonical) @ ans_source_digest canonical))"

definition acceptance_decode :: "bytes \<Rightarrow> invitation_answer group_result" where
  "acceptance_decode bytes =
     rbind (take_exact INVITATION_ACCEPTANCE_DOMAIN bytes) (\<lambda>c.
     rbind (g_take GROUP_ID_LEN c) (\<lambda>(group_id, c).
     rbind (group_id_try_from group_id) (\<lambda>group_id.
     rbind (g_take 16 c) (\<lambda>(ident, c).
     rbind (invitation_id_try_from ident) (\<lambda>ident.
     rbind (g_take_u64 c) (\<lambda>(source_revision, c).
     rbind (g_take DIGEST_LEN c) (\<lambda>(source_digest, c).
     rbind (digest_try_from source_digest) (\<lambda>source_digest.
       if c \<noteq> [] then Inl E_Malformed
       else acceptance_new group_id ident source_revision source_digest))))))))"

definition revocation_new :: "bytes \<Rightarrow> bytes \<Rightarrow> u64 \<Rightarrow> bytes \<Rightarrow> invitation_answer group_result" where
  "revocation_new group_id invitation_id source_revision source_digest =
     (if source_revision = RESERVED_REVISION then Inl E_ReservedRevision
      else Inr \<lparr>ans_group_id = group_id, ans_invitation_id = invitation_id,
                ans_source_revision = source_revision, ans_source_digest = source_digest\<rparr>)"

definition revocation_encode :: "invitation_answer \<Rightarrow> bytes group_result" where
  "revocation_encode a =
     rbind (revocation_new (ans_group_id a) (ans_invitation_id a) (ans_source_revision a)
              (ans_source_digest a)) (\<lambda>canonical.
       Inr (INVITATION_REVOCATION_DOMAIN @ ans_group_id canonical @ ans_invitation_id canonical
            @ u64_to_be (ans_source_revision canonical) @ ans_source_digest canonical))"

definition revocation_decode :: "bytes \<Rightarrow> invitation_answer group_result" where
  "revocation_decode bytes =
     rbind (take_exact INVITATION_REVOCATION_DOMAIN bytes) (\<lambda>c.
     rbind (g_take GROUP_ID_LEN c) (\<lambda>(group_id, c).
     rbind (group_id_try_from group_id) (\<lambda>group_id.
     rbind (g_take 16 c) (\<lambda>(ident, c).
     rbind (invitation_id_try_from ident) (\<lambda>ident.
     rbind (g_take_u64 c) (\<lambda>(source_revision, c).
     rbind (g_take DIGEST_LEN c) (\<lambda>(source_digest, c).
     rbind (digest_try_from source_digest) (\<lambda>source_digest.
       if c \<noteq> [] then Inl E_Malformed
       else revocation_new group_id ident source_revision source_digest))))))))"

section \<open>The book\<close>

record invitation_book =
  book_group_id :: bytes
  book_invitations :: "invitation list"

definition book_new :: "bytes \<Rightarrow> invitation_book" where
  "book_new group_id = \<lparr>book_group_id = group_id, book_invitations = []\<rparr>"

text \<open>\<open>find_mut\<close>, and the operation its caller goes on with; the result carries the record.\<close>

definition find_mut ::
  "bytes \<Rightarrow> (invitation \<Rightarrow> invitation group_result \<times> invitation) \<Rightarrow> invitation_book
     \<Rightarrow> invitation group_result \<times> invitation_book" where
  "find_mut ident f b =
     (case with_first (\<lambda>i. inv_id i = ident) f (book_invitations b) of
        None \<Rightarrow> (Inl E_Malformed, b)
      | Some (r, invitations) \<Rightarrow> (r, b\<lparr>book_invitations := invitations\<rparr>))"

definition book_create ::
  "member \<Rightarrow> member \<Rightarrow> member list \<Rightarrow> invitation \<Rightarrow> u64 \<Rightarrow> invitation_book
     \<Rightarrow> invitation group_result \<times> invitation_book" where
  "book_create authenticated_authority authority active_members i now b =
     (if authenticated_authority \<noteq> authority then (Inl E_Unauthorized, b)
      else if inv_group_id i \<noteq> book_group_id b then (Inl E_Conflict, b)
      else if now \<ge> inv_expires_at i then (Inl E_Expired, b)
      else if list_ex (\<lambda>m. mem_identity m = mem_identity (inv_target i)) active_members
      then (Inl E_Conflict, b)
      else case find (\<lambda>existing. inv_id existing = inv_id i) (book_invitations b) of
        Some existing \<Rightarrow>
          (if inv_same_immutable_fields existing i then Inr existing else Inl E_Conflict, b)
      | None \<Rightarrow>
          if length active_members \<ge> MAX_MEMBERS then (Inl E_TooManyMembers, b)
          else if length (book_invitations b) = MAX_INVITATION_RECORDS then (Inl E_OutboxFull, b)
          else (Inr i, b\<lparr>book_invitations := book_invitations b @ [i]\<rparr>))"

definition accept_invitation ::
  "member \<Rightarrow> u64 \<Rightarrow> bytes \<Rightarrow> u64 \<Rightarrow> invitation \<Rightarrow> invitation group_result \<times> invitation" where
  "accept_invitation authenticated_target observed_revision observed_digest now i =
     (if authenticated_target \<noteq> inv_target i then (Inl E_WrongTarget, i)
      else if \<not> source_matches i observed_revision observed_digest then (Inl E_StaleSource, i)
      else
        let i = expire_if_due now i
        in case inv_status i of
             InvPending \<Rightarrow>
               let i = i\<lparr>inv_status := InvAcceptedPendingAdmission\<rparr> in (Inr i, i)
           | InvAcceptedPendingAdmission \<Rightarrow> (Inr i, i)
           | InvAdmitted _ \<Rightarrow> (Inr i, i)
           | InvRevoked \<Rightarrow> (Inl E_Revoked, i)
           | InvExpired \<Rightarrow> (Inl E_Expired, i))"

definition book_accept ::
  "bytes \<Rightarrow> member \<Rightarrow> u64 \<Rightarrow> bytes \<Rightarrow> u64 \<Rightarrow> invitation_book
     \<Rightarrow> invitation group_result \<times> invitation_book" where
  "book_accept ident authenticated_target observed_revision observed_digest now b =
     find_mut ident (accept_invitation authenticated_target observed_revision observed_digest now) b"

definition revoke_invitation :: "u64 \<Rightarrow> invitation \<Rightarrow> invitation group_result \<times> invitation" where
  "revoke_invitation now i =
     (let i = expire_if_due now i
      in case inv_status i of
           InvPending \<Rightarrow> let i = i\<lparr>inv_status := InvRevoked\<rparr> in (Inr i, i)
         | InvAcceptedPendingAdmission \<Rightarrow> let i = i\<lparr>inv_status := InvRevoked\<rparr> in (Inr i, i)
         | InvRevoked \<Rightarrow> (Inr i, i)
         | InvExpired \<Rightarrow> (Inl E_Expired, i)
         | InvAdmitted _ \<Rightarrow> (Inl E_WrongDisposition, i))"

definition book_revoke ::
  "bytes \<Rightarrow> member \<Rightarrow> member \<Rightarrow> u64 \<Rightarrow> invitation_book \<Rightarrow> invitation group_result \<times> invitation_book" where
  "book_revoke ident authenticated_authority authority now b =
     (if authenticated_authority \<noteq> authority then (Inl E_Unauthorized, b)
      else find_mut ident (revoke_invitation now) b)"

definition admit_invitation :: "u64 \<Rightarrow> u64 \<Rightarrow> invitation \<Rightarrow> invitation group_result \<times> invitation" where
  "admit_invitation accepted_revision now i =
     (let i = expire_if_due now i
      in case inv_status i of
           InvAcceptedPendingAdmission \<Rightarrow>
             if accepted_revision \<le> inv_source_revision i then (Inl E_StaleSource, i)
             else let i = i\<lparr>inv_status := InvAdmitted accepted_revision\<rparr> in (Inr i, i)
         | InvAdmitted revision \<Rightarrow>
             if revision = accepted_revision then (Inr i, i) else (Inl E_Conflict, i)
         | InvPending \<Rightarrow> (Inl E_WrongDisposition, i)
         | InvRevoked \<Rightarrow> (Inl E_Revoked, i)
         | InvExpired \<Rightarrow> (Inl E_Expired, i))"

definition book_admit ::
  "bytes \<Rightarrow> member \<Rightarrow> member \<Rightarrow> u64 \<Rightarrow> u64 \<Rightarrow> invitation_book
     \<Rightarrow> invitation group_result \<times> invitation_book" where
  "book_admit ident authenticated_authority authority accepted_revision now b =
     (if authenticated_authority \<noteq> authority then (Inl E_Unauthorized, b)
      else if accepted_revision = RESERVED_REVISION then (Inl E_ReservedRevision, b)
      else find_mut ident (admit_invitation accepted_revision now) b)"

section \<open>The book's checkpoint\<close>

definition put_invitation :: "invitation \<Rightarrow> bytes group_result" where
  "put_invitation i =
     (case status_code (inv_status i) of (status, admitted_revision) \<Rightarrow>
        if admitted_revision = Some RESERVED_REVISION then Inl E_ReservedRevision
        else
          rbind (invitation_validate i) (\<lambda>_.
          rbind (put_lp16 (mem_identity (inv_target i))) (\<lambda>identity.
          rbind (put_lp16 (mem_device (inv_target i))) (\<lambda>device.
            Inr (inv_id i @ identity @ device @ u64_to_be (inv_source_revision i) @ inv_source_digest i
                 @ u32_to_be (inv_policy i) @ u64_to_be (inv_expires_at i) @ [status]
                 @ (case admitted_revision of None \<Rightarrow> [] | Some revision \<Rightarrow> u64_to_be revision))))))"

definition book_encode_state :: "invitation_book \<Rightarrow> bytes group_result" where
  "book_encode_state b =
     rbind (ok_or E_Malformed (u8_try_from (length (book_invitations b)))) (\<lambda>count.
       if unat count > MAX_INVITATION_RECORDS then Inl E_Malformed
       else
     rbind (rput_many put_invitation (sort_key inv_id (book_invitations b))) (\<lambda>records.
       Inr (INVITATION_BOOK_STATE_DOMAIN @ book_group_id b @ [count] @ records)))"

definition take_status :: "bytes \<Rightarrow> (invitation_status \<times> bytes) group_result" where
  "take_status c =
     rbind (take_byte c) (\<lambda>(code, c).
       if code = 0 then Inr (InvPending, c)
       else if code = 1 then Inr (InvAcceptedPendingAdmission, c)
       else if code = 2 then
         rbind (g_take_u64 c) (\<lambda>(revision, c).
           if revision = RESERVED_REVISION then Inl E_ReservedRevision else Inr (InvAdmitted revision, c))
       else if code = 3 then Inr (InvRevoked, c)
       else if code = 4 then Inr (InvExpired, c)
       else Inl E_Malformed)"

fun take_invitations ::
  "bytes \<Rightarrow> nat \<Rightarrow> bytes option \<Rightarrow> bytes \<Rightarrow> (invitation list \<times> bytes) group_result" where
  "take_invitations group_id 0 previous c = Inr ([], c)"
| "take_invitations group_id (Suc n) previous c =
     rbind (g_take 16 c) (\<lambda>(ident, c).
     rbind (invitation_id_try_from ident) (\<lambda>ident.
       if (case previous of None \<Rightarrow> False | Some p \<Rightarrow> p \<ge> ident) then Inl E_NonCanonical
       else
     rbind (take_lp16 c) (\<lambda>(identity, c).
     rbind (take_lp16 c) (\<lambda>(device, c).
     rbind (g_take_u64 c) (\<lambda>(source_revision, c).
     rbind (g_take DIGEST_LEN c) (\<lambda>(source_digest, c).
     rbind (digest_try_from source_digest) (\<lambda>source_digest.
     rbind (g_take_u32 c) (\<lambda>(policy, c).
     rbind (g_take_u64 c) (\<lambda>(expires_at, c).
     rbind (take_status c) (\<lambda>(status, c).
     rbind (invitation_new ident group_id (Member identity device) source_revision source_digest policy
              expires_at) (\<lambda>i.
     rbind (take_invitations group_id n (Some ident) c) (\<lambda>(rest, c).
       Inr (i\<lparr>inv_status := status\<rparr> # rest, c)))))))))))))"

definition book_decode_state :: "bytes \<Rightarrow> bytes \<Rightarrow> invitation_book group_result" where
  "book_decode_state bytes expected_group_id =
     (if \<not> starts_with bytes INVITATION_BOOK_STATE_DOMAIN then Inl E_Malformed
      else
        rbind (g_take GROUP_ID_LEN (drop (length INVITATION_BOOK_STATE_DOMAIN) bytes)) (\<lambda>(group_id, c).
        rbind (group_id_try_from group_id) (\<lambda>group_id.
        if group_id \<noteq> expected_group_id then Inl E_Conflict else
        rbind (take_byte c) (\<lambda>(count, c).
        if unat count > MAX_INVITATION_RECORDS then Inl E_Malformed else
        rbind (take_invitations expected_group_id (unat count) None c) (\<lambda>(invitations, c).
        if c \<noteq> [] then Inl E_Malformed
        else Inr \<lparr>book_group_id = expected_group_id, book_invitations = invitations\<rparr>)))))"

section \<open>The lifecycle of an invitation\<close>

datatype book_op =
    Create member member "member list" invitation u64
  | AcceptInvitation bytes member u64 bytes u64
  | RevokeInvitation bytes member member u64
  | Admit bytes member member u64 u64

primrec book_step :: "book_op \<Rightarrow> invitation_book \<Rightarrow> invitation group_result \<times> invitation_book" where
  "book_step (Create auth authority members i now) b = book_create auth authority members i now b"
| "book_step (AcceptInvitation ident target revision digest now) b =
     book_accept ident target revision digest now b"
| "book_step (RevokeInvitation ident auth authority now) b = book_revoke ident auth authority now b"
| "book_step (Admit ident auth authority revision now) b = book_admit ident auth authority revision now b"

text \<open>
  How a record may develop: its immutable fields stay; pending may become anything, accepted may be
  admitted after its source revision, revoked or expire; the other three are final.
\<close>

fun status_le :: "u64 \<Rightarrow> invitation_status \<Rightarrow> invitation_status \<Rightarrow> bool" where
  "status_le source InvPending s = (case s of InvAdmitted r \<Rightarrow> source < r | _ \<Rightarrow> True)"
| "status_le source InvAcceptedPendingAdmission s =
     (case s of InvPending \<Rightarrow> False | InvAdmitted r \<Rightarrow> source < r | _ \<Rightarrow> True)"
| "status_le source s s' = (s = s')"

definition invitation_le :: "invitation \<Rightarrow> invitation \<Rightarrow> bool" where
  "invitation_le i i' \<longleftrightarrow> inv_same_immutable_fields i i' \<and>
     status_le (inv_source_revision i) (inv_status i) (inv_status i')"

lemma status_le_refl [simp]: "status_le source s s"
  by (cases s) auto

lemma status_le_trans: "status_le source a b \<Longrightarrow> status_le source b c \<Longrightarrow> status_le source a c"
  by (cases a; cases b; cases c) auto

lemma invitation_le_refl [simp]: "invitation_le i i"
  by (simp add: invitation_le_def inv_same_immutable_fields_def)

lemma invitation_le_trans: "invitation_le i j \<Longrightarrow> invitation_le j k \<Longrightarrow> invitation_le i k"
  using status_le_trans by (auto simp: invitation_le_def inv_same_immutable_fields_def)

lemmas invitation_changes = accept_invitation_def revoke_invitation_def admit_invitation_def Let_def
  expire_if_due_def

lemma accept_invitation_le: "invitation_le i (snd (accept_invitation target revision digest now i))"
  by (cases "inv_status i") (auto simp: invitation_changes invitation_le_def inv_same_immutable_fields_def)

lemma revoke_invitation_le: "invitation_le i (snd (revoke_invitation now i))"
  by (cases "inv_status i") (auto simp: invitation_changes invitation_le_def inv_same_immutable_fields_def)

lemma admit_invitation_le: "invitation_le i (snd (admit_invitation revision now i))"
  by (cases "inv_status i") (auto simp: invitation_changes invitation_le_def inv_same_immutable_fields_def)

text \<open>Records keep their places in the book, and new ones are added at the end.\<close>

definition book_le :: "invitation_book \<Rightarrow> invitation_book \<Rightarrow> bool" where
  "book_le b b' \<longleftrightarrow> book_group_id b' = book_group_id b \<and>
     extends invitation_le (book_invitations b) (book_invitations b')"

definition book_ok :: "invitation_book \<Rightarrow> bool" where
  "book_ok b \<longleftrightarrow> length (book_invitations b) \<le> MAX_INVITATION_RECORDS \<and>
     distinct (map inv_id (book_invitations b)) \<and>
     (\<forall>i \<in> set (book_invitations b). inv_group_id i = book_group_id b)"

lemma book_le_refl [simp]: "book_le b b"
  by (simp add: book_le_def extends_refl)

lemma book_le_trans: "book_le a b \<Longrightarrow> book_le b c \<Longrightarrow> book_le a c"
  using extends_trans [OF invitation_le_trans] by (auto simp: book_le_def)

lemma find_mut_cases:
  obtains (none) "find_mut ident f b = (Inl E_Malformed, b)" "\<forall>i \<in> set (book_invitations b). inv_id i \<noteq> ident"
  | (found) as i bs where "book_invitations b = as @ i # bs" "inv_id i = ident"
      "find_mut ident f b = (fst (f i), b\<lparr>book_invitations := as @ snd (f i) # bs\<rparr>)"
proof (rule with_first_cases [of "\<lambda>i. inv_id i = ident" f "book_invitations b"], goal_cases)
  case 1
  then show thesis using none by (simp add: find_mut_def)
next
  case (2 as i bs)
  then show thesis using found [of as i bs] by (simp add: find_mut_def)
qed

lemma find_mut_le:
  assumes "\<And>i. invitation_le i (snd (f i))"
  shows "book_le b (snd (find_mut ident f b))" "book_ok b \<Longrightarrow> book_ok (snd (find_mut ident f b))"
proof -
  have same: "inv_id (snd (f i)) = inv_id i \<and> inv_group_id (snd (f i)) = inv_group_id i" for i
    using assms [of i] by (simp add: invitation_le_def inv_same_immutable_fields_def)
  show "book_le b (snd (find_mut ident f b))"
    by (cases rule: find_mut_cases [of ident f b])
      (auto simp: book_le_def assms extends_update)
  show "book_ok b \<Longrightarrow> book_ok (snd (find_mut ident f b))"
    by (cases rule: find_mut_cases [of ident f b]) (auto simp: book_ok_def same)
qed

lemma book_create_cases:
  "(\<exists>r. book_create auth authority members i now b = (r, b)) \<or>
   book_create auth authority members i now b = (Inr i, b\<lparr>book_invitations := book_invitations b @ [i]\<rparr>) \<and>
   auth = authority \<and> inv_group_id i = book_group_id b \<and> now < inv_expires_at i \<and>
   (\<forall>m \<in> set members. mem_identity m \<noteq> mem_identity (inv_target i)) \<and> length members < MAX_MEMBERS \<and>
   (\<forall>j \<in> set (book_invitations b). inv_id j \<noteq> inv_id i) \<and>
   length (book_invitations b) \<noteq> MAX_INVITATION_RECORDS"
  by (auto simp: book_create_def list_ex_iff find_None_iff split: option.splits)

lemma book_step_le: "book_le b (snd (book_step x b))"
proof (cases x)
  case (Create auth authority members i now)
  then show ?thesis
    using book_create_cases [of auth authority members i now b] by (auto simp: book_le_def extends_append extends_refl)
qed (auto simp: book_accept_def book_revoke_def book_admit_def find_mut_le accept_invitation_le
    revoke_invitation_le admit_invitation_le)

lemma book_step_ok: "book_ok b \<Longrightarrow> book_ok (snd (book_step x b))"
proof (cases x)
  case (Create auth authority members i now)
  assume "book_ok b"
  then show ?thesis
    using Create book_create_cases [of auth authority members i now b] by (auto simp: book_ok_def) blast
qed (auto simp: book_accept_def book_revoke_def book_admit_def find_mut_le accept_invitation_le
    revoke_invitation_le admit_invitation_le)

interpretation invitations: monotone_machine book_step book_ok book_le
  by unfold_locales (auto simp: book_step_ok book_step_le intro: book_le_trans)

text \<open>
  C24.  The lifecycle of invitations.  Whatever operations, peers and times a new book sees, it holds
  at most 32 records with distinct identifiers, all of its group.  A record is never removed or
  moved, its target, source and expiry never change, and its status only goes forward: an admitted,
  revoked or expired invitation stays so, an accepted one is never pending again, and an admission
  is at a revision after the source.
\<close>

theorem invitation_lifecycle:
  "let b = final book_step xs (book_new group_id); b' = final book_step ys b
   in length (book_invitations b) \<le> MAX_INVITATION_RECORDS \<and> distinct (map inv_id (book_invitations b)) \<and>
      list_all (\<lambda>i. inv_group_id i = group_id) (book_invitations b) \<and>
      extends (\<lambda>i i'. inv_same_immutable_fields i i' \<and>
          status_le (inv_source_revision i) (inv_status i) (inv_status i'))
        (book_invitations b) (book_invitations b')"
proof -
  have new: "book_ok (book_new group_id)" by (simp add: book_ok_def book_new_def)
  then have ok: "book_ok (final book_step xs (book_new group_id))" by (rule invitations.run_inv)
  have gid: "book_group_id (final book_step xs (book_new group_id)) = group_id"
    using invitations.run_le [OF new, of xs] by (simp add: book_le_def book_new_def)
  have "invitation_le = (\<lambda>i i'. inv_same_immutable_fields i i' \<and>
      status_le (inv_source_revision i) (inv_status i) (inv_status i'))"
    by (intro ext) (simp add: invitation_le_def)
  then show ?thesis
    using ok gid invitations.run_le [OF ok, of ys]
    by (simp add: Let_def book_ok_def book_le_def list_all_iff)
qed

section \<open>Who admits\<close>

definition accepted_in :: "book_op list \<Rightarrow> invitation \<Rightarrow> bool" where
  "accepted_in xs i \<longleftrightarrow> (\<exists>now < inv_expires_at i.
     AcceptInvitation (inv_id i) (inv_target i) (inv_source_revision i) (inv_source_digest i) now \<in> set xs)"

definition admitted_in :: "book_op list \<Rightarrow> invitation \<Rightarrow> u64 \<Rightarrow> bool" where
  "admitted_in xs i revision \<longleftrightarrow> (\<exists>before after authority now.
     xs = before @ Admit (inv_id i) authority authority revision now # after \<and>
     accepted_in before i \<and> now < inv_expires_at i \<and> inv_source_revision i < revision)"

definition justified :: "book_op list \<Rightarrow> invitation \<Rightarrow> bool" where
  "justified xs i \<longleftrightarrow> (inv_status i = InvAcceptedPendingAdmission \<longrightarrow> accepted_in xs i) \<and>
     (\<forall>revision. inv_status i = InvAdmitted revision \<longrightarrow> admitted_in xs i revision)"

lemma accepted_extend: "accepted_in xs i \<Longrightarrow> accepted_in (xs @ [x]) i"
  by (auto simp: accepted_in_def)

lemma admitted_extend: "admitted_in xs i revision \<Longrightarrow> admitted_in (xs @ [x]) i revision"
  unfolding admitted_in_def by (metis append_Cons append_assoc)

lemma justified_extend: "justified xs i \<Longrightarrow> justified (xs @ [x]) i"
  by (simp add: justified_def accepted_extend admitted_extend)

lemma justified_same:
  "inv_same_immutable_fields i i' \<Longrightarrow> accepted_in xs i' = accepted_in xs i \<and>
   admitted_in xs i' revision = admitted_in xs i revision"
  by (simp add: accepted_in_def admitted_in_def inv_same_immutable_fields_def)

lemma accept_justified:
  assumes "justified xs i"
  shows "justified (xs @ [AcceptInvitation (inv_id i) target revision digest now])
    (snd (accept_invitation target revision digest now i))"
  using justified_extend [OF assms]
  by (cases "inv_status i")
    (auto simp: invitation_changes justified_def accepted_in_def admitted_in_def source_matches_def not_le)

lemma revoke_justified:
  assumes "justified xs i"
  shows "justified (xs @ [RevokeInvitation (inv_id i) auth authority now]) (snd (revoke_invitation now i))"
  using justified_extend [OF assms] by (cases "inv_status i") (auto simp: invitation_changes justified_def)

lemma admit_justified:
  assumes "justified xs i"
  shows "justified (xs @ [Admit (inv_id i) auth auth revision now]) (snd (admit_invitation revision now i))"
proof (cases "inv_status i = InvAcceptedPendingAdmission \<and> now < inv_expires_at i \<and> inv_source_revision i < revision")
  case True
  then have "accepted_in xs i" using assms by (simp add: justified_def)
  then have "admitted_in (xs @ [Admit (inv_id i) auth auth revision now]) i revision"
    using True by (auto simp: admitted_in_def)
  moreover have "snd (admit_invitation revision now i) = i\<lparr>inv_status := InvAdmitted revision\<rparr>"
    using True by (auto simp: invitation_changes)
  ultimately show ?thesis
    using justified_same [of i "i\<lparr>inv_status := InvAdmitted revision\<rparr>"]
    by (simp add: justified_def inv_same_immutable_fields_def)
next
  case False
  then have "snd (admit_invitation revision now i) = i \<or> inv_status (snd (admit_invitation revision now i)) = InvExpired"
    by (cases "inv_status i") (auto simp: invitation_changes not_le not_less)
  then show ?thesis using justified_extend [OF assms] by (auto simp: justified_def)
qed

lemma find_mut_justified:
  assumes "\<forall>i \<in> set (book_invitations b). justified xs i"
    and "\<And>i. inv_id i = ident \<Longrightarrow> justified xs i \<Longrightarrow> justified (xs @ [x]) (snd (f i))"
  shows "\<forall>i \<in> set (book_invitations (snd (find_mut ident f b))). justified (xs @ [x]) i"
  by (cases rule: find_mut_cases [of ident f b]) (use assms justified_extend in auto)

primrec creates_pending :: "book_op \<Rightarrow> bool" where
  "creates_pending (Create auth authority members i now) = (inv_status i = InvPending)"
| "creates_pending (AcceptInvitation ident target revision digest now) = True"
| "creates_pending (RevokeInvitation ident auth authority now) = True"
| "creates_pending (Admit ident auth authority revision now) = True"

lemma run_justified:
  "list_all creates_pending xs \<Longrightarrow>
   \<forall>i \<in> set (book_invitations (final book_step xs (book_new group_id))). justified xs i"
proof (induction xs rule: rev_induct)
  case (snoc x xs)
  let ?b = "final book_step xs (book_new group_id)"
  have IH: "\<forall>i \<in> set (book_invitations ?b). justified xs i" using snoc by simp
  have "\<forall>i \<in> set (book_invitations (snd (book_step x ?b))). justified (xs @ [x]) i"
  proof (cases x)
    case (Create auth authority members i now)
    have "justified (xs @ [x]) i" using snoc.prems Create by (simp add: justified_def)
    then show ?thesis
      using Create IH justified_extend book_create_cases [of auth authority members i now ?b] by auto
  next
    case (AcceptInvitation ident target revision digest now)
    have "\<forall>i \<in> set (book_invitations (snd (find_mut ident (accept_invitation target revision digest now) ?b))).
        justified (xs @ [x]) i"
      by (rule find_mut_justified [OF IH]) (metis AcceptInvitation accept_justified)
    then show ?thesis using AcceptInvitation by (simp add: book_accept_def)
  next
    case (RevokeInvitation ident auth authority now)
    have "\<forall>i \<in> set (book_invitations (snd (find_mut ident (revoke_invitation now) ?b))). justified (xs @ [x]) i"
      by (rule find_mut_justified [OF IH]) (metis RevokeInvitation revoke_justified)
    then show ?thesis using RevokeInvitation IH justified_extend by (auto simp: book_revoke_def)
  next
    case (Admit ident auth authority revision now)
    have "\<forall>i \<in> set (book_invitations (snd (find_mut ident (admit_invitation revision now) ?b))).
        justified (xs @ [x]) i" if "auth = authority"
      by (rule find_mut_justified [OF IH]) (metis Admit that admit_justified)
    then show ?thesis using Admit IH justified_extend by (auto simp: book_admit_def)
  qed
  then show ?case by (simp add: final_append)
qed (simp add: book_new_def)

text \<open>
  C10.  Nobody is admitted without having accepted.  In a book whose invitations were created
  pending, a record that says admitted at a revision was accepted by its own authenticated target,
  for the source the invitation names, before it expired; and after that the authenticated authority
  admitted it at that revision, which is past the source, before it expired.
\<close>

theorem admission_authorised:
  assumes "list_all creates_pending xs"
    and "i \<in> set (book_invitations (final book_step xs (book_new group_id)))"
    and "inv_status i = InvAdmitted revision"
  shows "\<exists>before after authority now accepted_at.
    xs = before @ Admit (inv_id i) authority authority revision now # after \<and>
    AcceptInvitation (inv_id i) (inv_target i) (inv_source_revision i) (inv_source_digest i) accepted_at
      \<in> set before \<and>
    accepted_at < inv_expires_at i \<and> now < inv_expires_at i \<and> inv_source_revision i < revision"
  using run_justified [OF assms(1)] assms(2,3)
  by (fastforce simp: justified_def admitted_in_def accepted_in_def)

text \<open>Alice invites Bob, who accepts, and admits him.\<close>

definition ex_invitation :: invitation where
  "ex_invitation = \<lparr>inv_id = replicate 16 3, inv_group_id = replicate 16 9, inv_target = ex_bob,
     inv_source_revision = 0, inv_source_digest = replicate 32 1, inv_policy = 1, inv_expires_at = 100,
     inv_status = InvPending\<rparr>"

definition ex_book_ops :: "book_op list" where
  "ex_book_ops = [Create ex_alice ex_alice [ex_alice] ex_invitation 10,
     AcceptInvitation (replicate 16 3) ex_bob 0 (replicate 32 1) 20,
     Admit (replicate 16 3) ex_alice ex_alice 1 30]"

lemma ex_book:
  "book_invitations (final book_step ex_book_ops (book_new (replicate 16 9))) =
    [ex_invitation\<lparr>inv_status := InvAdmitted 1\<rparr>]"
  "list_all creates_pending ex_book_ops"
  by code_simp+

theorem admission_authorised_witness:
  "\<exists>before after authority now accepted_at.
    ex_book_ops = before @ Admit (replicate 16 3) authority authority 1 now # after \<and>
    AcceptInvitation (replicate 16 3) ex_bob 0 (replicate 32 1) accepted_at \<in> set before \<and>
    accepted_at < 100 \<and> now < 100 \<and> (0 :: u64) < 1"
  using admission_authorised [of ex_book_ops "ex_invitation\<lparr>inv_status := InvAdmitted 1\<rparr>" "replicate 16 9" 1]
  by (simp add: ex_book) (simp add: ex_invitation_def)

end
