(* ===== verification/Group_Payload.thy ===== *)
theory Group_Payload
  imports Group_Invitation
begin

text \<open>
  Crate \<^verbatim>\<open>tacenta-group\<close>, \<^verbatim>\<open>payload.rs\<close>: the tagged payload inside a group envelope, and the exactness of
  every codec it selects from; then the checkpoint of an invitation book.
\<close>

section \<open>The payload codec\<close>

definition GROUP_PAYLOAD_DOMAIN :: bytes where
  "GROUP_PAYLOAD_DOMAIN = ascii ''Tacenta Group Payload v1''"

definition APPLICATION_TAG :: byte where "APPLICATION_TAG = 1"

definition ROSTER_TAG :: byte where "ROSTER_TAG = 2"

definition INVITATION_BOOTSTRAP_TAG :: byte where "INVITATION_BOOTSTRAP_TAG = 3"

definition INVITATION_ACCEPTANCE_TAG :: byte where "INVITATION_ACCEPTANCE_TAG = 4"

definition INVITATION_REVOCATION_TAG :: byte where "INVITATION_REVOCATION_TAG = 5"

definition MAX_GROUP_PAYLOAD_LEN :: nat where "MAX_GROUP_PAYLOAD_LEN = 8192"

lemmas payload_tags = APPLICATION_TAG_def ROSTER_TAG_def INVITATION_BOOTSTRAP_TAG_def
  INVITATION_ACCEPTANCE_TAG_def INVITATION_REVOCATION_TAG_def

datatype group_payload =
    PayloadApplication application_context
  | PayloadRoster roster
  | PayloadBootstrap invitation_bootstrap
  | PayloadAcceptance invitation_answer
  | PayloadRevocation invitation_answer

fun payload_value :: "group_payload \<Rightarrow> (byte \<times> bytes) group_result" where
  "payload_value (PayloadApplication context) =
     rbind (context_encode context) (\<lambda>value. Inr (APPLICATION_TAG, value))"
| "payload_value (PayloadRoster roster) = rbind (roster_encode roster) (\<lambda>value. Inr (ROSTER_TAG, value))"
| "payload_value (PayloadBootstrap bootstrap) =
     rbind (bootstrap_encode bootstrap) (\<lambda>value. Inr (INVITATION_BOOTSTRAP_TAG, value))"
| "payload_value (PayloadAcceptance acceptance) =
     rbind (acceptance_encode acceptance) (\<lambda>value. Inr (INVITATION_ACCEPTANCE_TAG, value))"
| "payload_value (PayloadRevocation revocation) =
     rbind (revocation_encode revocation) (\<lambda>value. Inr (INVITATION_REVOCATION_TAG, value))"

definition payload_encode :: "group_payload \<Rightarrow> bytes group_result" where
  "payload_encode p =
     rbind (payload_value p) (\<lambda>(tag, value).
     rbind (ok_or E_Malformed (u32_try_from (length value))) (\<lambda>n.
       let out = GROUP_PAYLOAD_DOMAIN @ [tag] @ u32_to_be n @ value
       in if length out > MAX_GROUP_PAYLOAD_LEN then Inl E_Malformed else Inr out))"

definition payload_of_tag :: "byte \<Rightarrow> bytes \<Rightarrow> group_payload group_result" where
  "payload_of_tag tag value =
     (if tag = APPLICATION_TAG then rbind (context_decode value) (\<lambda>c. Inr (PayloadApplication c))
      else if tag = ROSTER_TAG then rbind (roster_decode value) (\<lambda>r. Inr (PayloadRoster r))
      else if tag = INVITATION_BOOTSTRAP_TAG
      then rbind (bootstrap_decode value) (\<lambda>b. Inr (PayloadBootstrap b))
      else if tag = INVITATION_ACCEPTANCE_TAG
      then rbind (acceptance_decode value) (\<lambda>a. Inr (PayloadAcceptance a))
      else if tag = INVITATION_REVOCATION_TAG
      then rbind (revocation_decode value) (\<lambda>r. Inr (PayloadRevocation r))
      else Inl E_Malformed)"

definition payload_decode :: "bytes \<Rightarrow> group_payload group_result" where
  "payload_decode bytes =
     (if length bytes > MAX_GROUP_PAYLOAD_LEN \<or> \<not> starts_with bytes GROUP_PAYLOAD_DOMAIN
      then Inl E_Malformed
      else
        rbind (ok_or E_Malformed (split_first (drop (length GROUP_PAYLOAD_DOMAIN) bytes))) (\<lambda>(tag, c).
        rbind (ok_or E_Malformed (split_at_checked 4 c)) (\<lambda>(n, value).
          if length value \<noteq> unat (u32_from_be n) then Inl E_Malformed
          else payload_of_tag tag value)))"

section \<open>Exactness of the message codecs\<close>

definition lp16 :: "bytes \<Rightarrow> bytes" where
  "lp16 v = u16_to_be (of_nat (length v)) @ v"

lemma take_lp16_Inr: "take_lp16 i = Inr (v, rest) \<longleftrightarrow> length v < 2 ^ 16 \<and> i = lp16 v @ rest"
proof
  assume "take_lp16 i = Inr (v, rest)"
  then obtain n where "i = n @ v @ rest" "length n = 2" "length v = unat (u16_from_be n)"
    by (auto simp: take_lp16_def rbind_eq_Inr g_take_Inr)
  then show "length v < 2 ^ 16 \<and> i = lp16 v @ rest"
    by (simp add: lp16_def u16_to_from_be)
next
  assume "length v < 2 ^ 16 \<and> i = lp16 v @ rest"
  then show "take_lp16 i = Inr (v, rest)"
    by (auto simp: take_lp16_def rbind_eq_Inr g_take_Inr lp16_def unat_of_nat_u16)
qed

lemma put_lp16_Inr: "put_lp16 v = Inr out \<longleftrightarrow> length v < 2 ^ 16 \<and> out = lp16 v"
  by (auto simp: put_lp16_def rbind_eq_Inr ok_or_eq_Inr u16_try_from_def lp16_def)

lemma lp32_same: "take_u32_lp = take_lp" "put_u32_lp = put_lp"
  by (intro ext; simp add: take_u32_lp_def take_lp_def put_u32_lp_def put_lp_def g_put_u32_def rbind_def
      split: sum.split)+

definition answer_typed :: "invitation_answer \<Rightarrow> bool" where
  "answer_typed a \<longleftrightarrow> length (ans_group_id a) = GROUP_ID_LEN \<and> length (ans_invitation_id a) = 16 \<and>
     length (ans_source_digest a) = DIGEST_LEN"

lemmas take_fields = take_Inr g_take_Inr take_lp16_Inr group_id_try_from_def digest_try_from_def
  invitation_id_try_from_def

lemma take_written [simp]:
  "length v = n \<Longrightarrow> g_take n (v @ rest) = Inr (v, rest)"
  "length v = n \<Longrightarrow> g_take n v = Inr (v, [])"
  "length w < 2 ^ 16 \<Longrightarrow> take_lp16 (lp16 w @ rest) = Inr (w, rest)"
  "length x < 2 ^ 32 \<Longrightarrow> take_u32_lp (lp x) = Inr (x, [])"
  by (simp_all add: take_fields lp32_same)

lemma acceptance_exact: "acceptance_decode bytes = Inr a \<longleftrightarrow> answer_typed a \<and> acceptance_encode a = Inr bytes"
proof
  assume "acceptance_decode bytes = Inr a"
  then show "answer_typed a \<and> acceptance_encode a = Inr bytes"
    by (auto simp: acceptance_decode_def acceptance_encode_def acceptance_new_def rbind_eq_Inr
      take_fields answer_typed_def split: if_splits)
next
  assume "answer_typed a \<and> acceptance_encode a = Inr bytes"
  then show "acceptance_decode bytes = Inr a"
    by (cases a) (auto simp: acceptance_decode_def acceptance_encode_def acceptance_new_def answer_typed_def
        group_id_try_from_def digest_try_from_def invitation_id_try_from_def split: if_splits)
qed

lemma revocation_exact: "revocation_decode bytes = Inr a \<longleftrightarrow> answer_typed a \<and> revocation_encode a = Inr bytes"
proof
  assume "revocation_decode bytes = Inr a"
  then show "answer_typed a \<and> revocation_encode a = Inr bytes"
    by (auto simp: revocation_decode_def revocation_encode_def revocation_new_def rbind_eq_Inr
      take_fields answer_typed_def split: if_splits)
next
  assume "answer_typed a \<and> revocation_encode a = Inr bytes"
  then show "revocation_decode bytes = Inr a"
    by (cases a) (auto simp: revocation_decode_def revocation_encode_def revocation_new_def answer_typed_def
        group_id_try_from_def digest_try_from_def invitation_id_try_from_def split: if_splits)
qed

definition invitation_typed :: "invitation \<Rightarrow> bool" where
  "invitation_typed i \<longleftrightarrow> length (inv_id i) = 16 \<and> length (inv_group_id i) = GROUP_ID_LEN \<and>
     length (inv_source_digest i) = DIGEST_LEN"

definition bootstrap_typed :: "invitation_bootstrap \<Rightarrow> bool" where
  "bootstrap_typed b \<longleftrightarrow> invitation_typed (boot_invitation b) \<and> roster_typed (boot_source_roster b)"

definition invitation_valid :: "invitation \<Rightarrow> bool" where
  "invitation_valid i \<longleftrightarrow> inv_source_revision i \<noteq> RESERVED_REVISION \<and> inv_policy i = POLICY_VERSION_V1 \<and>
     member_ok (inv_target i)"

lemma invitation_validate_Inr: "invitation_validate i = Inr u \<longleftrightarrow> invitation_valid i"
  by (simp add: invitation_validate_def invitation_valid_def)

lemma rbind_invitation_validate [simp]: "invitation_valid i \<Longrightarrow> rbind (invitation_validate i) f = f ()"
  by (metis invitation_validate_Inr rbind_Inr)

lemma member_fits16: "member_ok m \<Longrightarrow> length (mem_identity m) < 2 ^ 16 \<and> length (mem_device m) < 2 ^ 16"
  by (simp add: member_ok_def group_bounds)

text \<open>The fields an invitation is written with, between its group and its status.\<close>

definition source_bytes :: "invitation \<Rightarrow> bytes" where
  "source_bytes i = lp16 (mem_identity (inv_target i)) @ lp16 (mem_device (inv_target i))
     @ u64_to_be (inv_source_revision i) @ inv_source_digest i @ u32_to_be (inv_policy i)
     @ u64_to_be (inv_expires_at i)"

lemma put_lp16_member:
  "member_ok m \<Longrightarrow> put_lp16 (mem_identity m) = Inr (lp16 (mem_identity m))"
  "member_ok m \<Longrightarrow> put_lp16 (mem_device m) = Inr (lp16 (mem_device m))"
  using member_fits16 [of m] by (simp_all add: put_lp16_Inr)

definition bootstrap_ok :: "invitation_bootstrap \<Rightarrow> bool" where
  "bootstrap_ok b \<longleftrightarrow> invitation_valid (boot_invitation b) \<and> roster_valid (boot_source_roster b) \<and>
     check_binding (boot_invitation b) (boot_source_roster b) = Inr ()"

definition bootstrap_bytes :: "invitation_bootstrap \<Rightarrow> bytes" where
  "bootstrap_bytes b = INVITATION_BOOTSTRAP_DOMAIN @ inv_id (boot_invitation b)
     @ inv_group_id (boot_invitation b) @ source_bytes (boot_invitation b)
     @ lp (roster_bytes (boot_source_roster b))"

lemma roster_fits: "roster_typed r \<Longrightarrow> roster_valid r \<Longrightarrow> length (roster_bytes r) < 2 ^ 32"
  by (simp add: length_roster_bytes roster_valid_def MAX_ROSTER_LEN_def)

lemma bootstrap_encode_Inr:
  assumes "bootstrap_typed b"
  shows "bootstrap_encode b = Inr out \<longleftrightarrow> bootstrap_ok b \<and> out = bootstrap_bytes b"
proof (cases "bootstrap_ok b")
  case True
  have "put_u32_lp (roster_bytes (boot_source_roster b)) = Inr (lp (roster_bytes (boot_source_roster b)))"
    using True assms roster_fits by (simp add: lp32_same put_lp_Inr bootstrap_ok_def bootstrap_typed_def)
  moreover have "roster_encode (boot_source_roster b) = Inr (roster_bytes (boot_source_roster b))"
    using True assms by (simp add: roster_encode_Inr bootstrap_ok_def bootstrap_typed_def)
  moreover have "member_ok (inv_target (boot_invitation b))"
    using True by (simp add: bootstrap_ok_def invitation_valid_def)
  ultimately show ?thesis
    using True by (auto simp: bootstrap_encode_def bootstrap_ok_def put_lp16_member Let_def bootstrap_bytes_def
        source_bytes_def)
next
  case False
  then show ?thesis
    using assms by (auto simp: bootstrap_encode_def rbind_eq_Inr roster_encode_Inr bootstrap_typed_def
        bootstrap_ok_def invitation_validate_Inr)
qed

lemma bootstrap_exact:
  "bootstrap_decode bytes = Inr b \<longleftrightarrow> bootstrap_typed b \<and> bootstrap_encode b = Inr bytes"
proof
  assume "bootstrap_decode bytes = Inr b"
  then have "bootstrap_typed b \<and> bootstrap_ok b \<and> bytes = bootstrap_bytes b"
    by (auto simp: bootstrap_decode_def rbind_eq_Inr take_fields lp32_same roster_decode_exact
        invitation_new_def bootstrap_new_def Let_def invitation_validate_Inr bootstrap_typed_def
        invitation_typed_def bootstrap_ok_def bootstrap_bytes_def source_bytes_def roster_encode_Inr
        split: if_splits)
  then show "bootstrap_typed b \<and> bootstrap_encode b = Inr bytes" by (simp add: bootstrap_encode_Inr)
next
  assume enc: "bootstrap_typed b \<and> bootstrap_encode b = Inr bytes"
  then have b: "bootstrap_typed b" "bootstrap_ok b" "bytes = bootstrap_bytes b"
    using bootstrap_encode_Inr by auto
  let ?i = "boot_invitation b" and ?r = "boot_source_roster b"
  have r: "roster_decode (roster_bytes ?r) = Inr ?r" "roster_encode ?r = Inr (roster_bytes ?r)"
    "length (roster_bytes ?r) < 2 ^ 32"
    using b roster_fits by (simp_all add: roster_decode_exact roster_encode_Inr bootstrap_typed_def bootstrap_ok_def)
  have new: "invitation_new (inv_id ?i) (inv_group_id ?i) (Member (mem_identity (inv_target ?i))
      (mem_device (inv_target ?i))) (inv_source_revision ?i) (inv_source_digest ?i) (inv_policy ?i)
      (inv_expires_at ?i) = Inr ?i"
    using b(2) by (cases ?i) (auto simp: invitation_new_def Let_def bootstrap_ok_def check_binding_def
        invitation_valid_def split: if_splits)
  have "bootstrap_new ?i ?r = Inr b"
    using b(2) r(2) by (cases b) (simp add: bootstrap_new_def bootstrap_ok_def)
  then show "bootstrap_decode bytes = Inr b"
    using b(1,2) r new member_fits16 [of "inv_target ?i"]
    by (simp add: bootstrap_decode_def b(3) bootstrap_bytes_def source_bytes_def bootstrap_typed_def
        invitation_typed_def group_id_try_from_def digest_try_from_def invitation_id_try_from_def
        bootstrap_ok_def invitation_valid_def)
qed

section \<open>Exactness of the payload codec\<close>

fun payload_typed :: "group_payload \<Rightarrow> bool" where
  "payload_typed (PayloadApplication c) = context_typed c"
| "payload_typed (PayloadRoster r) = roster_typed r"
| "payload_typed (PayloadBootstrap b) = bootstrap_typed b"
| "payload_typed (PayloadAcceptance a) = answer_typed a"
| "payload_typed (PayloadRevocation a) = answer_typed a"

lemma payload_of_tag_Inr:
  "payload_of_tag tag value = Inr p \<longleftrightarrow> payload_typed p \<and> payload_value p = Inr (tag, value)"
  by (cases p) (auto simp: payload_of_tag_def payload_tags rbind_eq_Inr context_decode_exact
      roster_decode_exact bootstrap_exact acceptance_exact revocation_exact)

lemma payload_encode_Inr:
  "payload_encode p = Inr bytes \<longleftrightarrow>
    (\<exists>tag value. payload_value p = Inr (tag, value) \<and> length value < 2 ^ 32 \<and>
       bytes = GROUP_PAYLOAD_DOMAIN @ [tag] @ u32_to_be (of_nat (length value)) @ value \<and>
       length bytes \<le> MAX_GROUP_PAYLOAD_LEN)"
  by (cases "payload_value p") (auto simp: payload_encode_def u32_try_from_def Let_def split: if_splits)

lemma payload_decode_Inr:
  "payload_decode bytes = Inr p \<longleftrightarrow>
    (\<exists>tag value. payload_of_tag tag value = Inr p \<and> length value < 2 ^ 32 \<and>
       bytes = GROUP_PAYLOAD_DOMAIN @ [tag] @ u32_to_be (of_nat (length value)) @ value \<and>
       length bytes \<le> MAX_GROUP_PAYLOAD_LEN)"
proof
  assume "payload_decode bytes = Inr p"
  then obtain tag n v where v: "bytes = GROUP_PAYLOAD_DOMAIN @ tag # n @ v" "length n = 4"
    "length v = unat (u32_from_be n)" "payload_of_tag tag v = Inr p" "length bytes \<le> MAX_GROUP_PAYLOAD_LEN"
    by (auto simp: payload_decode_def starts_with_iff rbind_eq_Inr ok_or_eq_Inr split_at_checked_Some
        split_first_Some split: if_splits)
  have "n = u32_to_be (of_nat (length v))" using v(2) by (simp add: v(3) u32_to_from_be)
  then have "bytes = GROUP_PAYLOAD_DOMAIN @ [tag] @ u32_to_be (of_nat (length v)) @ v" using v(1) by simp
  moreover have "length v < 2 ^ 32" by (simp add: v(3))
  ultimately show "\<exists>tag value. payload_of_tag tag value = Inr p \<and> length value < 2 ^ 32 \<and>
       bytes = GROUP_PAYLOAD_DOMAIN @ [tag] @ u32_to_be (of_nat (length value)) @ value \<and>
       length bytes \<le> MAX_GROUP_PAYLOAD_LEN"
    using v(4,5) by blast
qed (auto simp: payload_decode_def split_at_checked_def unat_of_nat_u32)

text \<open>
  The group payload codec is exact: a buffer decodes to a payload (an application context, a
  roster, an invitation, its acceptance or its revocation) exactly when it is the encoding of that
  payload.  So the tag alone selects the parser, no buffer has two readings, and what one device
  encodes another decodes unchanged.
\<close>

theorem payload_decode_iff:
  "payload_decode bytes = Inr p \<longleftrightarrow> payload_typed p \<and> payload_encode p = Inr bytes"
  unfolding payload_decode_Inr payload_encode_Inr payload_of_tag_Inr by blast

section \<open>The checkpoint of a book\<close>

definition status_ok :: "invitation_status \<Rightarrow> bool" where
  "status_ok s \<longleftrightarrow> s \<noteq> InvAdmitted RESERVED_REVISION"

definition status_bytes :: "invitation_status \<Rightarrow> bytes" where
  "status_bytes s = fst (status_code s) # (case s of InvAdmitted revision \<Rightarrow> u64_to_be revision | _ \<Rightarrow> [])"

lemma take_status_bytes [simp]: "status_ok s \<Longrightarrow> take_status (status_bytes s @ rest) = Inr (s, rest)"
  by (cases s) (auto simp: take_status_def status_bytes_def status_ok_def)

definition record_ok :: "bytes \<Rightarrow> invitation \<Rightarrow> bool" where
  "record_ok group_id i \<longleftrightarrow> invitation_typed i \<and> invitation_valid i \<and> status_ok (inv_status i) \<and>
     inv_group_id i = group_id"

definition record_bytes :: "invitation \<Rightarrow> bytes" where
  "record_bytes i = inv_id i @ source_bytes i @ status_bytes (inv_status i)"

lemma put_invitation_ok:
  assumes "record_ok group_id i"
  shows "put_invitation i = Inr (record_bytes i)"
proof -
  have "member_ok (inv_target i)" "invitation_valid i" "status_ok (inv_status i)"
    using assms by (simp_all add: record_ok_def invitation_valid_def)
  then show ?thesis
    by (cases "inv_status i") (simp_all add: put_invitation_def put_lp16_member record_bytes_def source_bytes_def
        status_bytes_def status_ok_def)
qed

lemma take_invitations_ok:
  assumes "list_all (record_ok group_id) is"
    and "sorted_wrt (<) (case previous of None \<Rightarrow> map inv_id is | Some p \<Rightarrow> p # map inv_id is)"
  shows "take_invitations group_id (length is) previous (concat (map record_bytes is) @ rest) = Inr (is, rest)"
  using assms
proof (induction "is" arbitrary: previous)
  case (Cons i "is")
  have i: "length (inv_id i) = 16" "length (inv_source_digest i) = DIGEST_LEN" "status_ok (inv_status i)"
    "length (mem_identity (inv_target i)) < 2 ^ 16" "length (mem_device (inv_target i)) < 2 ^ 16"
    "inv_group_id i = group_id"
    using Cons.prems(1) member_fits16 by (auto simp: record_ok_def invitation_typed_def invitation_valid_def)
  have "invitation_new (inv_id i) group_id (Member (mem_identity (inv_target i)) (mem_device (inv_target i)))
      (inv_source_revision i) (inv_source_digest i) (inv_policy i) (inv_expires_at i) =
      Inr (i\<lparr>inv_status := InvPending\<rparr>)"
    using Cons.prems(1) by (cases i) (auto simp: invitation_new_def Let_def record_ok_def invitation_valid_def
        invitation_validate_def)
  moreover have "\<not> (case previous of None \<Rightarrow> False | Some p \<Rightarrow> p \<ge> inv_id i)"
    using Cons.prems(2) by (auto split: option.splits)
  moreover have "take_invitations group_id (length is) (Some (inv_id i)) (concat (map record_bytes is) @ rest) =
      Inr (is, rest)"
    using Cons.prems by (intro Cons.IH) (auto split: option.splits)
  ultimately show ?case
    using i by (simp add: record_bytes_def [of i] source_bytes_def [of i] invitation_id_try_from_def
        digest_try_from_def)
qed simp

lemma book_restore:
  assumes "book_ok b" "length (book_group_id b) = GROUP_ID_LEN"
    and "\<forall>i \<in> set (book_invitations b). record_ok (book_group_id b) i"
  shows "\<exists>bytes. book_encode_state b = Inr bytes \<and>
    book_decode_state bytes (book_group_id b) = Inr (b\<lparr>book_invitations := sort_key inv_id (book_invitations b)\<rparr>)"
proof -
  let ?is = "sort_key inv_id (book_invitations b)"
  let ?out = "INVITATION_BOOK_STATE_DOMAIN @ book_group_id b @ [of_nat (length ?is)] @ concat (map record_bytes ?is)"
  have n: "length ?is \<le> 32" using assms(1) by (simp add: book_ok_def MAX_INVITATION_RECORDS_def)
  then have un: "unat (of_nat (length ?is) :: byte) = length ?is" by (simp add: unat_of_nat)
  have "distinct (map inv_id ?is)" using assms(1) by (simp add: book_ok_def distinct_map)
  then have sorted: "sorted_wrt (<) (map inv_id ?is)" using sorted_sort_key strict_sorted_iff by blast
  have ok: "list_all (record_ok (book_group_id b)) ?is" using assms(3) by (simp add: list_all_iff)
  have "rput_many put_invitation ?is = Inr (concat (map record_bytes ?is))"
    using assms(3) put_invitation_ok by (intro rput_many_bytes) auto
  then have "book_encode_state b = Inr ?out"
    using n un by (simp add: book_encode_state_def u8_try_from_def MAX_INVITATION_RECORDS_def)
  moreover have "take_invitations (book_group_id b) (length ?is) None (concat (map record_bytes ?is) @ []) = Inr (?is, [])"
    using take_invitations_ok [OF ok, of None "[]"] sorted by simp
  then have "book_decode_state ?out (book_group_id b) = Inr (b\<lparr>book_invitations := ?is\<rparr>)"
    using assms(2) n un by (simp add: book_decode_state_def group_id_try_from_def MAX_INVITATION_RECORDS_def)
  ultimately show ?thesis by blast
qed

text \<open>What the authority's records say when each was made by \<open>Invitation::new\<close>.\<close>

primrec creates_ok :: "bytes \<Rightarrow> book_op \<Rightarrow> bool" where
  "creates_ok group_id (Create auth authority members i now) =
     (invitation_typed i \<and> invitation_valid i \<and> inv_status i = InvPending)"
| "creates_ok group_id (AcceptInvitation ident target revision digest now) = True"
| "creates_ok group_id (RevokeInvitation ident auth authority now) = True"
| "creates_ok group_id (Admit ident auth authority revision now) = True"

lemma record_ok_change:
  assumes "record_ok group_id i" "invitation_le i i'" "status_ok (inv_status i')"
  shows "record_ok group_id i'"
  using assms by (auto simp: record_ok_def invitation_le_def inv_same_immutable_fields_def invitation_typed_def
      invitation_valid_def)

lemma find_mut_records:
  assumes "\<forall>i \<in> set (book_invitations b). record_ok group_id i" "\<And>i. invitation_le i (snd (f i))"
    and "\<And>i. status_ok (inv_status i) \<Longrightarrow> status_ok (inv_status (snd (f i)))"
  shows "\<forall>i \<in> set (book_invitations (snd (find_mut ident f b))). record_ok group_id i"
proof (cases rule: find_mut_cases [of ident f b])
  case (found as i bs)
  then have "record_ok group_id (snd (f i))"
    using assms(1) by (intro record_ok_change [OF _ assms(2) assms(3)]) (auto simp: record_ok_def)
  then show ?thesis using found assms(1) by auto
qed (use assms(1) in simp)

lemma changes_status_ok:
  "status_ok (inv_status i) \<Longrightarrow> status_ok (inv_status (snd (accept_invitation target revision digest now i)))"
  "status_ok (inv_status i) \<Longrightarrow> status_ok (inv_status (snd (revoke_invitation now i)))"
  "status_ok (inv_status i) \<Longrightarrow> revision \<noteq> RESERVED_REVISION \<Longrightarrow>
   status_ok (inv_status (snd (admit_invitation revision now i)))"
  by (cases "inv_status i"; auto simp: invitation_changes status_ok_def)+

lemma book_step_records:
  assumes "\<forall>i \<in> set (book_invitations b). record_ok (book_group_id b) i" "creates_ok group_id x"
  shows "\<forall>i \<in> set (book_invitations (snd (book_step x b))). record_ok (book_group_id b) i"
proof (cases x)
  case (Create auth authority members i now)
  then show ?thesis
    using assms book_create_cases [of auth authority members i now b] by (auto simp: record_ok_def status_ok_def)
next
  case (AcceptInvitation ident target revision digest now)
  then show ?thesis
    using find_mut_records [OF assms(1) accept_invitation_le changes_status_ok(1)] by (simp add: book_accept_def)
next
  case (RevokeInvitation ident auth authority now)
  then show ?thesis
    using find_mut_records [OF assms(1) revoke_invitation_le changes_status_ok(2)] assms(1)
    by (simp add: book_revoke_def)
next
  case (Admit ident auth authority revision now)
  then show ?thesis
    using find_mut_records [OF assms(1) admit_invitation_le changes_status_ok(3)] assms(1)
    by (simp add: book_admit_def)
qed

text \<open>
  C28.  An invitation book survives a restart.  The checkpoint of a book whose invitations were made by
  \<open>Invitation::new\<close> for its 16-byte group encodes, and decodes for its group to the same records in the order of their
  identifiers, so the checkpoint does not depend on the order of arrival.
\<close>

theorem book_restart:
  assumes "list_all (creates_ok group_id) xs" "length group_id = GROUP_ID_LEN"
    and "b = final book_step xs (book_new group_id)"
  shows "\<exists>bytes. book_encode_state b = Inr bytes \<and>
    book_decode_state bytes group_id = Inr (b\<lparr>book_invitations := sort_key inv_id (book_invitations b)\<rparr>)"
proof -
  have new: "book_ok (book_new group_id)" by (simp add: book_ok_def book_new_def)
  have gid: "book_group_id (final book_step ys (book_new group_id)) = group_id" for ys
    using invitations.run_le [OF new, of ys] by (simp add: book_le_def book_new_def)
  have "list_all (creates_ok group_id) ys \<Longrightarrow>
      \<forall>i \<in> set (book_invitations (final book_step ys (book_new group_id))). record_ok group_id i" for ys
  proof (induction ys rule: rev_induct)
    case (snoc y ys)
    then show ?case
      using book_step_records [of "final book_step ys (book_new group_id)" group_id y] gid [of ys]
      by (simp add: final_append)
  qed (simp add: book_new_def)
  then show ?thesis
    using book_restore [of b] invitations.run_inv [OF new, of xs] gid [of xs] assms by simp
qed

theorem book_restart_witness:
  "\<exists>bytes. book_encode_state (final book_step ex_book_ops (book_new (replicate 16 9))) = Inr bytes \<and>
    book_decode_state bytes (replicate 16 9) =
      Inr \<lparr>book_group_id = replicate 16 9, book_invitations = [ex_invitation\<lparr>inv_status := InvAdmitted 1\<rparr>]\<rparr>"
proof -
  let ?b = "final book_step ex_book_ops (book_new (replicate 16 9))"
  have "list_all (creates_ok (replicate 16 9)) ex_book_ops" by code_simp
  moreover have "?b\<lparr>book_invitations := sort_key inv_id (book_invitations ?b)\<rparr> =
      \<lparr>book_group_id = replicate 16 9, book_invitations = [ex_invitation\<lparr>inv_status := InvAdmitted 1\<rparr>]\<rparr>"
    by code_simp
  ultimately show ?thesis
    using book_restart [of "replicate 16 9" ex_book_ops ?b] by (simp add: GROUP_ID_LEN_def)
qed

end
