(* ===== verification/Group_Receive.thy ===== *)
theory Group_Receive
  imports Roster_View
begin

text \<open>
  Crate \<^verbatim>\<open>tacenta-group\<close>, \<^verbatim>\<open>receive.rs\<close>: the receiver of one group on one device.  It decides, for
  each authenticated application context, whether it is a new event, a duplicate, to be held until a
  later roster arrives, or refused; it numbers the events, and it carries its state across restarts.

  The two commitments (of a roster's and of a context's bytes) are computed by the core library and
  are parameters here.
\<close>

section \<open>State and dispositions\<close>

definition DEDUP_WINDOW :: u64 where "DEDUP_WINDOW = 64"

definition FUTURE_REVISIONS :: u64 where "FUTURE_REVISIONS = 2"

definition MAX_DEFERRED :: nat where "MAX_DEFERRED = 4"

definition MAX_DEFERRED_UNLISTED :: nat where "MAX_DEFERRED_UNLISTED = 2"

definition RECEIVER_STATE_DOMAIN :: bytes where
  "RECEIVER_STATE_DOMAIN = ascii ''Tacenta Group Receiver State v1''"

definition MAX_RECEIVER_STATE_LEN :: nat where "MAX_RECEIVER_STATE_LEN = 262144"

datatype receive_refusal =
    R_Malformed | R_WrongPeer | R_WrongGroup | R_WrongRecipient | R_NotActive | R_OldRevision
  | R_InvalidRoster | R_FutureOutOfRange | R_SequenceExpired | R_Conflict | R_DeferredFull

datatype receive_disposition =
    Accepted u64
  | Duplicate u64
  | Deferred
  | Rejected receive_refusal

datatype receiver_status = Active | NotMember | Closed

record recv_key =
  key_group :: bytes
  key_revision :: u64
  key_sender :: member
  key_sequence :: u64

record accepted_item =
  acc_key :: recv_key
  acc_commitment :: bytes
  acc_event_id :: u64

record deferred_item =
  def_context :: application_context
  def_commitment :: bytes

record group_receiver =
  recv_roster :: roster
  recv_digest :: bytes
  recv_local :: member
  recv_accepted :: "accepted_item list"
  recv_deferred :: "deferred_item list"
  recv_next_event :: u64

definition receiver_new :: "roster \<Rightarrow> bytes \<Rightarrow> member \<Rightarrow> group_receiver" where
  "receiver_new r digest local =
     \<lparr>recv_roster = r, recv_digest = digest, recv_local = local, recv_accepted = [],
      recv_deferred = [], recv_next_event = 0\<rparr>"

definition recv_is_active :: "group_receiver \<Rightarrow> member \<Rightarrow> bool" where
  "recv_is_active g m =
     (\<not> ros_closed (recv_roster g) \<and> list_ex (\<lambda>known. known = m) (ros_members (recv_roster g)))"

definition receiver_status :: "group_receiver \<Rightarrow> receiver_status" where
  "receiver_status g =
     (if ros_closed (recv_roster g) then Closed
      else if recv_is_active g (recv_local g) then Active else NotMember)"

section \<open>Receiving\<close>

text \<open>\<open>Iterator::max\<close>.\<close>

fun iter_max :: "u64 list \<Rightarrow> u64 option" where
  "iter_max [] = None"
| "iter_max (x # xs) = (case iter_max xs of None \<Rightarrow> Some x | Some y \<Rightarrow> Some (max x y))"

definition accept_current ::
  "recv_key \<Rightarrow> bytes \<Rightarrow> group_receiver \<Rightarrow> receive_disposition \<times> group_receiver" where
  "accept_current key commitment g =
     (case find (\<lambda>item. acc_key item = key) (recv_accepted g) of
        Some existing \<Rightarrow>
          (if acc_commitment existing = commitment then Duplicate (acc_event_id existing)
           else Rejected R_Conflict, g)
      | None \<Rightarrow>
          let same = (\<lambda>item. key_sender (acc_key item) = key_sender key
                             \<and> key_revision (acc_key item) = key_revision key);
              newest = iter_max (map (\<lambda>item. key_sequence (acc_key item)) (filter same (recv_accepted g)))
          in if (case newest of None \<Rightarrow> False
                 | Some sequence \<Rightarrow> saturating_add (key_sequence key) DEDUP_WINDOW \<le> sequence)
             then (Rejected R_SequenceExpired, g)
             else
               let event_id = recv_next_event g;
                   item = \<lparr>acc_key = key, acc_commitment = commitment, acc_event_id = event_id\<rparr>;
                   newest_sequence = max (case newest of None \<Rightarrow> key_sequence key | Some s \<Rightarrow> s) (key_sequence key)
               in (Accepted event_id,
                   g\<lparr>recv_next_event := saturating_add event_id 1,
                     recv_accepted := filter (\<lambda>i. \<not> same i
                         \<or> saturating_add (key_sequence (acc_key i)) DEDUP_WINDOW > newest_sequence)
                       (recv_accepted g @ [item])\<rparr>))"

fun unlisted_slot_loop :: "group_receiver \<Rightarrow> member \<Rightarrow> nat \<Rightarrow> deferred_item list \<Rightarrow> bool" where
  "unlisted_slot_loop g sender held [] = (held < MAX_DEFERRED_UNLISTED)"
| "unlisted_slot_loop g sender held (item # items) =
     (if recv_is_active g (ctx_sender (def_context item)) then unlisted_slot_loop g sender held items
      else if mem_identity (ctx_sender (def_context item)) = mem_identity sender then False
      else unlisted_slot_loop g sender (held + 1) items)"

definition unlisted_slot_is_open_to :: "group_receiver \<Rightarrow> member \<Rightarrow> bool" where
  "unlisted_slot_is_open_to g sender = unlisted_slot_loop g sender 0 (recv_deferred g)"

definition context_key :: "application_context \<Rightarrow> recv_key" where
  "context_key c = \<lparr>key_group = ctx_group_id c, key_revision = ctx_revision c,
     key_sender = ctx_sender c, key_sequence = ctx_sequence c\<rparr>"

definition defer_context ::
  "application_context \<Rightarrow> bytes \<Rightarrow> group_receiver \<Rightarrow> receive_disposition \<times> group_receiver" where
  "defer_context context commitment g =
     (case find (\<lambda>item. context_key (def_context item) = context_key context) (recv_deferred g) of
        Some existing \<Rightarrow>
          (if def_commitment existing = commitment then Deferred else Rejected R_Conflict, g)
      | None \<Rightarrow>
          if length (recv_deferred g) = MAX_DEFERRED then (Rejected R_DeferredFull, g)
          else if \<not> recv_is_active g (ctx_sender context)
                  \<and> \<not> unlisted_slot_is_open_to g (ctx_sender context)
          then (Rejected R_DeferredFull, g)
          else (Deferred, g\<lparr>recv_deferred := recv_deferred g
                  @ [\<lparr>def_context = context, def_commitment = commitment\<rparr>]\<rparr>))"

definition receive ::
  "application_context \<Rightarrow> member \<Rightarrow> bytes \<Rightarrow> group_receiver \<Rightarrow> receive_disposition \<times> group_receiver" where
  "receive context peer commitment g =
     (let r = recv_roster g in
      if peer \<noteq> ctx_sender context then (Rejected R_WrongPeer, g)
      else if ctx_group_id context \<noteq> ros_group_id r then (Rejected R_WrongGroup, g)
      else if ctx_recipient context \<noteq> recv_local g then (Rejected R_WrongRecipient, g)
      else if \<not> recv_is_active g (recv_local g) then (Rejected R_NotActive, g)
      else if ctx_revision context > ros_revision r then
        (if ctx_revision context > saturating_add (ros_revision r) FUTURE_REVISIONS
         then (Rejected R_FutureOutOfRange, g)
         else defer_context context commitment g)
      else if \<not> recv_is_active g (ctx_sender context) then (Rejected R_NotActive, g)
      else if ctx_revision context < ros_revision r then (Rejected R_OldRevision, g)
      else if ctx_roster_digest context \<noteq> recv_digest g then (Rejected R_InvalidRoster, g)
      else accept_current (context_key context) commitment g)"

text \<open>A deferred context with what became of it.\<close>

record revalidated =
  rev_context :: application_context
  rev_commitment :: bytes
  rev_disposition :: receive_disposition

fun revalidate :: "deferred_item list \<Rightarrow> group_receiver \<Rightarrow> revalidated list \<times> group_receiver" where
  "revalidate [] g = ([], g)"
| "revalidate (item # items) g =
     (case receive (def_context item) (ctx_sender (def_context item)) (def_commitment item) g of
        (d, g1) \<Rightarrow>
          (case revalidate items g1 of
             (rs, g2) \<Rightarrow> (\<lparr>rev_context = def_context item, rev_commitment = def_commitment item,
                          rev_disposition = d\<rparr> # rs, g2)))"

definition install_accepted_roster ::
  "roster \<Rightarrow> bytes \<Rightarrow> group_receiver \<Rightarrow> (receive_refusal + revalidated list) \<times> group_receiver" where
  "install_accepted_roster r digest g =
     (if ros_group_id r \<noteq> ros_group_id (recv_roster g) then (Inl R_WrongGroup, g)
      else
        let deferred = recv_deferred g;
            g1 = g\<lparr>recv_roster := r, recv_digest := digest, recv_accepted := [], recv_deferred := []\<rparr>
        in case revalidate deferred g1 of (rs, g2) \<Rightarrow> (Inr rs, g2))"

section \<open>The receiver as a machine\<close>

datatype receiver_op =
    Receive application_context member bytes
  | Install roster bytes

text \<open>The answer of a step: the dispositions it reports, in order.\<close>

primrec receiver_step :: "receiver_op \<Rightarrow> group_receiver \<Rightarrow> receive_disposition list \<times> group_receiver" where
  "receiver_step (Receive c p m) g = (case receive c p m g of (d, g') \<Rightarrow> ([d], g'))"
| "receiver_step (Install r d) g =
     (case install_accepted_roster r d g of
        (Inl e, g') \<Rightarrow> ([], g') | (Inr rs, g') \<Rightarrow> (map rev_disposition rs, g'))"

section \<open>The duplicate window\<close>

lemma iter_max_None [simp]: "iter_max xs = None \<longleftrightarrow> xs = []"
  by (cases xs) (auto split: option.splits)

lemma iter_max_Some: "iter_max xs = Some n \<Longrightarrow> n \<in> set xs \<and> (\<forall>x \<in> set xs. x \<le> n)"
proof (induction xs arbitrary: n)
  case (Cons x xs)
  show ?case
  proof (cases "iter_max xs")
    case (Some a)
    then have "n = max x a" "a \<in> set xs" "\<forall>y \<in> set xs. y \<le> a" using Cons by auto
    then show ?thesis by (auto simp: le_max_iff_disj max_def [of x a])
  qed (use Cons.prems in simp)
qed simp

text \<open>What the saturating comparison with the window means: at \<open>u64::MAX\<close> nothing is within it.\<close>

lemma within_window:
  "saturating_add s DEDUP_WINDOW > n \<longleftrightarrow> n \<noteq> u64_max \<and> unat n < unat s + 64"
proof (cases "n = u64_max")
  case True
  then show ?thesis using unat_u64_max by (simp add: word_less_nat_alt not_less)
next
  case False
  then have "unat n < 18446744073709551615" by (rule less_u64_max)
  then show ?thesis
    using False by (auto simp: word_less_nat_alt unat_saturating_add DEDUP_WINDOW_def)
qed

definition same_stream :: "recv_key \<Rightarrow> accepted_item \<Rightarrow> bool" where
  "same_stream key item \<longleftrightarrow>
     key_sender (acc_key item) = key_sender key \<and> key_revision (acc_key item) = key_revision key"

text \<open>The three outcomes of a context at the accepted revision.\<close>

lemma accept_current_cases:
  obtains (known) item where "item \<in> set (recv_accepted g)" "acc_key item = key"
      "accept_current key m g =
         (if acc_commitment item = m then Duplicate (acc_event_id item) else Rejected R_Conflict, g)"
  | (expired) item where "item \<in> set (recv_accepted g)" "same_stream key item"
      "\<forall>i \<in> set (recv_accepted g). acc_key i \<noteq> key"
      "\<not> saturating_add (key_sequence key) DEDUP_WINDOW > key_sequence (acc_key item)"
      "accept_current key m g = (Rejected R_SequenceExpired, g)"
  | (new) n L where "\<forall>i \<in> set (recv_accepted g). acc_key i \<noteq> key"
      "\<forall>i \<in> set (recv_accepted g). same_stream key i \<longrightarrow> key_sequence (acc_key i) \<le> n" "key_sequence key \<le> n"
      "n = key_sequence key \<or> (\<exists>i \<in> set (recv_accepted g). same_stream key i \<and>
         key_sequence (acc_key i) = n \<and> saturating_add (key_sequence key) DEDUP_WINDOW > n)"
      "accept_current key m g = (Accepted (recv_next_event g), g\<lparr>
         recv_next_event := saturating_add (recv_next_event g) 1,
         recv_accepted := filter (\<lambda>i. \<not> same_stream key i \<or>
             saturating_add (key_sequence (acc_key i)) DEDUP_WINDOW > n) L\<rparr>)"
      "L = recv_accepted g @ [\<lparr>acc_key = key, acc_commitment = m, acc_event_id = recv_next_event g\<rparr>]"
proof (cases "find (\<lambda>item. acc_key item = key) (recv_accepted g)")
  case (Some item)
  then have "item \<in> set (recv_accepted g)" "acc_key item = key" by (auto simp: find_Some_iff)
  then show thesis using known [of item] Some by (simp add: accept_current_def)
next
  case None
  then have no: "\<forall>i \<in> set (recv_accepted g). acc_key i \<noteq> key" by (auto simp: find_None_iff)
  let ?seqs = "map (\<lambda>item. key_sequence (acc_key item)) (filter (same_stream key) (recv_accepted g))"
  have same: "(\<lambda>item. key_sender (acc_key item) = key_sender key \<and>
      key_revision (acc_key item) = key_revision key) = same_stream key"
    by (auto simp: same_stream_def)
  show thesis
  proof (cases "iter_max ?seqs")
    case None
    then have "\<forall>i \<in> set (recv_accepted g). \<not> same_stream key i" by (auto simp: filter_empty_conv)
    then show thesis
      using new [OF no _ _ _ _ refl, of "key_sequence key"] \<open>find _ _ = None\<close> None
      by (simp add: accept_current_def Let_def same)
  next
    case (Some s)
    obtain item where item: "item \<in> set (recv_accepted g)" "same_stream key item" "key_sequence (acc_key item) = s"
      using iter_max_Some [OF Some] by auto
    have le: "\<forall>i \<in> set (recv_accepted g). same_stream key i \<longrightarrow> key_sequence (acc_key i) \<le> s"
      using iter_max_Some [OF Some] by auto
    show thesis
    proof (cases "saturating_add (key_sequence key) DEDUP_WINDOW \<le> s")
      case True
      then show thesis
        using expired [OF item(1,2) no] item(3) \<open>find _ _ = None\<close> Some
        by (simp add: accept_current_def Let_def same not_less)
    next
      case False
      show thesis
      proof (rule new [OF no _ _ _ _ refl, of "max s (key_sequence key)"])
        show "max s (key_sequence key) = key_sequence key \<or> (\<exists>i \<in> set (recv_accepted g). same_stream key i \<and>
           key_sequence (acc_key i) = max s (key_sequence key) \<and>
           saturating_add (key_sequence key) DEDUP_WINDOW > max s (key_sequence key))"
          using item False by (auto simp: max_def not_le)
      qed (use le \<open>find _ _ = None\<close> Some False in
          \<open>auto simp: accept_current_def Let_def same intro: le_max_iff_disj [THEN iffD2]\<close>)
    qed
  qed
qed

text \<open>
  A key that has been accepted stays known: either its entry is still there, or a context of the
  same stream at least \<^term>\<open>64 :: nat\<close> sequence numbers later is.
\<close>

definition known :: "recv_key \<Rightarrow> bytes \<Rightarrow> u64 \<Rightarrow> group_receiver \<Rightarrow> bool" where
  "known key m e g \<longleftrightarrow>
     (\<forall>i \<in> set (recv_accepted g). acc_key i = key \<longrightarrow> acc_commitment i = m \<and> acc_event_id i = e) \<and>
     ((\<exists>i \<in> set (recv_accepted g). acc_key i = key) \<or>
      (\<exists>i \<in> set (recv_accepted g). same_stream key i \<and>
         unat (key_sequence key) + 64 \<le> unat (key_sequence (acc_key i))))"

lemma known_refuses:
  assumes "known key m e g" and "key_sequence key \<noteq> u64_max"
  shows "fst (accept_current key m g) \<in> {Duplicate e, Rejected R_SequenceExpired} \<and>
    snd (accept_current key m g) = g"
proof (cases rule: accept_current_cases [of g key m])
  case (new n L)
  from assms(1) new(1) obtain i where i: "i \<in> set (recv_accepted g)" "same_stream key i"
    "unat (key_sequence key) + 64 \<le> unat (key_sequence (acc_key i))"
    by (auto simp: known_def)
  then have "unat (key_sequence key) + 64 \<le> unat n" using new(2) by (fastforce simp: word_le_nat_alt)
  then show ?thesis using new(4) by (auto simp: within_window)
qed (use assms(1) in \<open>auto simp: known_def\<close>)

lemma known_accept:
  assumes k: "known key m e g" and s: "key_sequence key' \<noteq> u64_max"
    and old: "\<forall>i \<in> set (recv_accepted g). key_sequence (acc_key i) \<noteq> u64_max"
    and g': "accept_current key' m' g = (d, g')"
  shows "known key m e g' \<and> (\<forall>i \<in> set (recv_accepted g'). key_sequence (acc_key i) \<noteq> u64_max)"
  using assms
proof (cases rule: accept_current_cases [of g key' m'])
  case (new n L)
  have n: "n \<noteq> u64_max" using new(4) s old by auto
  let ?item = "\<lparr>acc_key = key', acc_commitment = m', acc_event_id = recv_next_event g\<rparr>"
  have "recv_accepted g' = filter (\<lambda>i. \<not> same_stream key' i \<or>
      saturating_add (key_sequence (acc_key i)) DEDUP_WINDOW > n) L"
    using g' new(5) by auto
  then have "set (recv_accepted g') = {i \<in> set L. \<not> same_stream key' i \<or> unat n < unat (key_sequence (acc_key i)) + 64}"
    using n by (simp add: within_window)
  then have acc: "i \<in> set (recv_accepted g') \<longleftrightarrow> (i \<in> set (recv_accepted g) \<or> i = ?item) \<and>
      (\<not> same_stream key' i \<or> unat n < unat (key_sequence (acc_key i)) + 64)" for i
    by (auto simp: new(6))
  have newest: "\<exists>i \<in> set (recv_accepted g'). same_stream key' i \<and> key_sequence (acc_key i) = n"
  proof (cases "n = key_sequence key'")
    case True
    then have "?item \<in> set (recv_accepted g')" unfolding acc by (simp add: same_stream_def)
    then show ?thesis using True by (force simp: same_stream_def)
  next
    case False
    then obtain i where "i \<in> set (recv_accepted g)" "same_stream key' i" "key_sequence (acc_key i) = n"
      using new(4) by blast
    then have "i \<in> set (recv_accepted g')" unfolding acc by simp
    then show ?thesis using \<open>same_stream key' i\<close> \<open>key_sequence (acc_key i) = n\<close> by blast
  qed
  have fresh: "key' \<noteq> key"
  proof
    assume "key' = key"
    then obtain i where "i \<in> set (recv_accepted g)" "same_stream key i"
      "unat (key_sequence key) + 64 \<le> unat (key_sequence (acc_key i))"
      using k new(1) by (auto simp: known_def)
    then have "unat (key_sequence key') + 64 \<le> unat n"
      using new(2) \<open>key' = key\<close> by (fastforce simp: word_le_nat_alt)
    then show False using new(4) by (auto simp: within_window)
  qed
  obtain j where j: "j \<in> set (recv_accepted g)" "same_stream key j"
    "acc_key j = key \<or> unat (key_sequence key) + 64 \<le> unat (key_sequence (acc_key j))"
    using k by (force simp: known_def same_stream_def)
  have "(\<exists>i \<in> set (recv_accepted g'). acc_key i = key) \<or> (\<exists>i \<in> set (recv_accepted g').
      same_stream key i \<and> unat (key_sequence key) + 64 \<le> unat (key_sequence (acc_key i)))"
  proof (cases "j \<in> set (recv_accepted g')")
    case False
    then have far: "same_stream key' j" "unat (key_sequence (acc_key j)) + 64 \<le> unat n"
      using j(1) acc by auto
    obtain i where i: "i \<in> set (recv_accepted g')" "same_stream key' i" "key_sequence (acc_key i) = n"
      using newest by blast
    have "same_stream key i" using far(1) i(2) j(2) by (simp add: same_stream_def)
    moreover have "unat (key_sequence key) + 64 \<le> unat n" using far(2) j(3) by auto
    ultimately show ?thesis using i by blast
  qed (use j in auto)
  moreover have "\<forall>i \<in> set (recv_accepted g'). acc_key i = key \<longrightarrow> acc_commitment i = m \<and> acc_event_id i = e"
    using k fresh acc by (auto simp: known_def)
  moreover have "\<forall>i \<in> set (recv_accepted g'). key_sequence (acc_key i) \<noteq> u64_max"
    using old s acc by auto
  ultimately show ?thesis by (simp add: known_def)
qed auto

lemma accept_current_new:
  assumes "key_sequence key \<noteq> u64_max"
    and "\<forall>i \<in> set (recv_accepted g). key_sequence (acc_key i) \<noteq> u64_max"
    and "accept_current key m g = (Accepted e, g')"
  shows "known key m e g' \<and> (\<forall>i \<in> set (recv_accepted g'). key_sequence (acc_key i) \<noteq> u64_max)"
  using assms
proof (cases rule: accept_current_cases [of g key m])
  case (new n L)
  have n: "n \<noteq> u64_max" "unat n < unat (key_sequence key) + 64"
    using new(4) assms(1,2) by (auto simp: within_window)
  have g': "recv_accepted g' = filter (\<lambda>i. \<not> same_stream key i \<or>
      saturating_add (key_sequence (acc_key i)) DEDUP_WINDOW > n) L" "e = recv_next_event g"
    using assms(3) new(5) by auto
  have L: "i \<in> set L \<longleftrightarrow> i \<in> set (recv_accepted g) \<or>
      i = \<lparr>acc_key = key, acc_commitment = m, acc_event_id = e\<rparr>" for i
    by (auto simp: new(6) g'(2))
  have "\<lparr>acc_key = key, acc_commitment = m, acc_event_id = e\<rparr> \<in> set (recv_accepted g')"
    using n L by (simp add: g'(1) within_window)
  then have "\<exists>i \<in> set (recv_accepted g'). acc_key i = key" by (rule rev_bexI) simp
  moreover have uniq: "i = \<lparr>acc_key = key, acc_commitment = m, acc_event_id = e\<rparr>"
    if "i \<in> set (recv_accepted g')" "acc_key i = key" for i
    using that L new(1) by (auto simp: g'(1))
  moreover have "\<forall>i \<in> set (recv_accepted g'). key_sequence (acc_key i) \<noteq> u64_max"
    using L assms(1,2) by (auto simp: g'(1))
  moreover have "acc_commitment i = m \<and> acc_event_id i = e" if "i \<in> set (recv_accepted g')" "acc_key i = key" for i
    using uniq [OF that] by simp
  ultimately show ?thesis unfolding known_def by blast
qed (auto split: if_splits)

text \<open>Receiving at the accepted revision, and everything else, seen from the accepted entries.\<close>

lemma receive_cases:
  obtains (current) "ctx_revision c = ros_revision (recv_roster g)" "ctx_group_id c = ros_group_id (recv_roster g)"
      "ctx_roster_digest c = recv_digest g" "p = ctx_sender c" "ctx_recipient c = recv_local g"
      "recv_is_active g (ctx_sender c)" "recv_is_active g (recv_local g)"
      "receive c p m g = accept_current (context_key c) m g"
  | (future) "recv_is_active g (recv_local g)" "ctx_group_id c = ros_group_id (recv_roster g)"
      "p = ctx_sender c" "ctx_recipient c = recv_local g" "ros_revision (recv_roster g) < ctx_revision c"
      "\<not> ctx_revision c > saturating_add (ros_revision (recv_roster g)) FUTURE_REVISIONS"
      "receive c p m g = defer_context c m g"
  | (refused) e where "receive c p m g = (Rejected e, g)"
proof (cases "p \<noteq> ctx_sender c \<or> ctx_group_id c \<noteq> ros_group_id (recv_roster g) \<or>
    ctx_recipient c \<noteq> recv_local g \<or> \<not> recv_is_active g (recv_local g)")
  case True
  then have "\<exists>e. receive c p m g = (Rejected e, g)" by (auto simp: receive_def Let_def)
  then show thesis using refused by blast
next
  case False
  show thesis
  proof (cases "ros_revision (recv_roster g) < ctx_revision c")
    case True
    then show thesis
      using False future refused
      by (cases "ctx_revision c > saturating_add (ros_revision (recv_roster g)) FUTURE_REVISIONS")
        (simp_all add: receive_def)
  next
    case nf: False
    show thesis
    proof (cases "\<not> recv_is_active g (ctx_sender c) \<or> ctx_revision c < ros_revision (recv_roster g) \<or>
        ctx_roster_digest c \<noteq> recv_digest g")
      case True
      then have "\<exists>e. receive c p m g = (Rejected e, g)" using False nf by (auto simp: receive_def Let_def)
      then show thesis using refused by blast
    next
      case ok: False
      then have "ctx_revision c = ros_revision (recv_roster g)" using nf by auto
      then show thesis using False ok current by (simp add: receive_def)
    qed
  qed
qed

lemma defer_context_cases:
  "(\<exists>d. defer_context c m g = (d, g) \<and> d \<in> {Deferred, Rejected R_Conflict, Rejected R_DeferredFull}) \<or>
   defer_context c m g = (Deferred, g\<lparr>recv_deferred := recv_deferred g
     @ [\<lparr>def_context = c, def_commitment = m\<rparr>]\<rparr>) \<and>
   length (recv_deferred g) \<noteq> MAX_DEFERRED \<and>
   (\<forall>i \<in> set (recv_deferred g). context_key (def_context i) \<noteq> context_key c) \<and>
   (recv_is_active g (ctx_sender c) \<or> unlisted_slot_is_open_to g (ctx_sender c))"
  by (auto simp: defer_context_def find_None_iff split: option.splits)

lemma defer_context_frame [simp]:
  "recv_accepted (snd (defer_context c m g)) = recv_accepted g"
  "recv_roster (snd (defer_context c m g)) = recv_roster g"
  "recv_digest (snd (defer_context c m g)) = recv_digest g"
  "recv_local (snd (defer_context c m g)) = recv_local g"
  "recv_next_event (snd (defer_context c m g)) = recv_next_event g"
  "fst (defer_context c m g) \<noteq> Accepted e"
  using defer_context_cases [of c m g] by auto

lemma accept_current_frame [simp]:
  "recv_deferred (snd (accept_current key m g)) = recv_deferred g"
  "recv_roster (snd (accept_current key m g)) = recv_roster g"
  "recv_digest (snd (accept_current key m g)) = recv_digest g"
  "recv_local (snd (accept_current key m g)) = recv_local g"
  by (auto simp: accept_current_def Let_def split: option.splits)

lemma receive_frame [simp]:
  "recv_roster (snd (receive c p m g)) = recv_roster g"
  "recv_digest (snd (receive c p m g)) = recv_digest g"
  "recv_local (snd (receive c p m g)) = recv_local g"
  by (cases rule: receive_cases [of c g p m]; simp)+

lemma revalidate_Cons:
  "revalidate (item # items) g =
    (let g1 = snd (receive (def_context item) (ctx_sender (def_context item)) (def_commitment item) g)
     in (\<lparr>rev_context = def_context item, rev_commitment = def_commitment item, rev_disposition =
          fst (receive (def_context item) (ctx_sender (def_context item)) (def_commitment item) g)\<rparr>
         # fst (revalidate items g1), snd (revalidate items g1)))"
  by (simp add: case_prod_beta Let_def)

lemma revalidate_frame [simp]:
  "recv_roster (snd (revalidate items g)) = recv_roster g"
  "recv_digest (snd (revalidate items g)) = recv_digest g"
  "recv_local (snd (revalidate items g)) = recv_local g"
proof (induction items arbitrary: g)
  case (Cons item items)
  case 1 show ?case using Cons.IH by (simp add: case_prod_beta)
  case 2 show ?case using Cons.IH by (simp add: case_prod_beta)
  case 3 show ?case using Cons.IH by (simp add: case_prod_beta)
qed simp_all

lemma revalidate_induct:
  assumes "P g" and "\<And>g item. item \<in> set items \<Longrightarrow> P g \<Longrightarrow>
    P (snd (receive (def_context item) (ctx_sender (def_context item)) (def_commitment item) g))"
  shows "P (snd (revalidate items g))"
  using assms
proof (induction items arbitrary: g)
  case (Cons item items)
  let ?g = "snd (receive (def_context item) (ctx_sender (def_context item)) (def_commitment item) g)"
  have "P (snd (revalidate items ?g))" using Cons.IH [of ?g] Cons.prems by simp
  then show ?case by (simp add: case_prod_beta)
qed simp

text \<open>The sequence numbers the window can tell apart: all but \<open>u64::MAX\<close>.\<close>

definition no_max :: "group_receiver \<Rightarrow> bool" where
  "no_max g \<longleftrightarrow> (\<forall>i \<in> set (recv_accepted g). key_sequence (acc_key i) \<noteq> u64_max) \<and>
     (\<forall>i \<in> set (recv_deferred g). ctx_sequence (def_context i) \<noteq> u64_max)"

primrec op_below_max :: "receiver_op \<Rightarrow> bool" where
  "op_below_max (Receive c p m) = (ctx_sequence c \<noteq> u64_max)"
| "op_below_max (Install r d) = True"

lemma accept_current_accepted:
  "i \<in> set (recv_accepted (snd (accept_current key m g))) \<Longrightarrow>
   i \<in> set (recv_accepted g) \<or> i = \<lparr>acc_key = key, acc_commitment = m, acc_event_id = recv_next_event g\<rparr>"
proof (cases rule: accept_current_cases [of g key m])
  case (new n L)
  assume "i \<in> set (recv_accepted (snd (accept_current key m g)))"
  then have "i \<in> set L" using new(5) by simp
  then show ?thesis using new(6) by auto
qed auto

lemma receive_no_max:
  assumes "no_max g" "ctx_sequence c \<noteq> u64_max"
  shows "no_max (snd (receive c p m g))"
proof (cases rule: receive_cases [of c g p m])
  case current
  then show ?thesis
    using assms by (auto simp: no_max_def context_key_def dest!: accept_current_accepted)
next
  case future
  then show ?thesis using assms defer_context_cases [of c m g] by (auto simp: no_max_def)
qed (simp add: assms)

lemma step_no_max:
  assumes "no_max g" "op_below_max x"
  shows "no_max (snd (receiver_step x g))"
proof (cases x)
  case (Install r d)
  let ?g = "g\<lparr>recv_roster := r, recv_digest := d, recv_accepted := [], recv_deferred := []\<rparr>"
  have "no_max (snd (revalidate (recv_deferred g) ?g))"
  proof (rule revalidate_induct [where P = no_max])
    show "no_max ?g" by (simp add: no_max_def)
    show "no_max (snd (receive (def_context item) (ctx_sender (def_context item)) (def_commitment item) g'))"
      if "item \<in> set (recv_deferred g)" "no_max g'" for g' item
      using that assms(1) receive_no_max by (auto simp: no_max_def [of g])
  qed
  then show ?thesis
    using assms(1) Install by (simp add: install_accepted_roster_def Let_def case_prod_beta)
qed (use assms in \<open>simp add: receive_no_max case_prod_beta\<close>)

section \<open>At most one event per logical message\<close>

definition settled :: "recv_key \<Rightarrow> bytes \<Rightarrow> u64 \<Rightarrow> group_receiver \<Rightarrow> bool" where
  "settled key m e g \<longleftrightarrow> key_revision key < ros_revision (recv_roster g) \<or>
     key_revision key = ros_revision (recv_roster g) \<and> known key m e g"

lemma settled_receive:
  assumes "settled key m e g" "no_max g" "ctx_sequence c \<noteq> u64_max"
  shows "settled key m e (snd (receive c p m' g))"
proof (cases rule: receive_cases [of c g p m'])
  case current
  have "known key m e g \<Longrightarrow> known key m e (snd (receive c p m' g))"
    using known_accept [of key m e g "context_key c" m'] assms(2,3) current(8)
    by (simp add: no_max_def context_key_def prod_eq_iff)
  then show ?thesis using assms(1) by (auto simp: settled_def)
next
  case future
  then show ?thesis using assms(1) by (auto simp: settled_def known_def)
qed (simp add: assms)

lemma settled_refuses:
  assumes "settled (context_key c) m e g" "ctx_sequence c \<noteq> u64_max"
  shows "fst (receive c p m g) = Duplicate e \<or> (\<exists>r. fst (receive c p m g) = Rejected r)"
proof (cases rule: receive_cases [of c g p m])
  case current
  then have "known (context_key c) m e g" using assms(1) by (simp add: settled_def context_key_def)
  then show ?thesis
    using known_refuses [of "context_key c" m e g] assms(2) current(8) by (auto simp: context_key_def)
next
  case future
  then show ?thesis using assms(1) by (auto simp: settled_def context_key_def)
qed simp

text \<open>The revisions of the rosters a sequence of operations installs.\<close>

fun installed :: "receiver_op list \<Rightarrow> u64 list" where
  "installed [] = []"
| "installed (Install r d # xs) = ros_revision r # installed xs"
| "installed (Receive c p m # xs) = installed xs"

lemma step_roster:
  "recv_roster (snd (receiver_step x g)) =
    (case x of Receive c p m \<Rightarrow> recv_roster g
     | Install r d \<Rightarrow> if ros_group_id r = ros_group_id (recv_roster g) then r else recv_roster g)"
  by (cases x) (simp_all add: case_prod_beta install_accepted_roster_def Let_def)

lemma settled_run:
  assumes "settled key m e g" "no_max g" "list_all op_below_max xs"
    and "sorted_wrt (<) (ros_revision (recv_roster g) # installed xs)"
  shows "settled key m e (final receiver_step xs g)"
  using assms
proof (induction xs arbitrary: g)
  case (Cons x xs)
  let ?g = "snd (receiver_step x g)"
  have "settled key m e ?g"
  proof (cases x)
    case (Install r d)
    show ?thesis
    proof (cases "ros_group_id r = ros_group_id (recv_roster g)")
      case True
      then have "recv_roster ?g = r" using step_roster [of x g] Install by simp
      moreover have "key_revision key < ros_revision r"
        using Cons.prems(1,4) Install by (auto simp: settled_def)
      ultimately show ?thesis by (simp add: settled_def)
    next
      case False
      then show ?thesis using Cons.prems(1) Install by (simp add: install_accepted_roster_def)
    qed
  qed (use Cons.prems settled_receive in \<open>simp add: case_prod_beta\<close>)
  moreover have "no_max ?g" using Cons.prems step_no_max by simp
  moreover have "sorted_wrt (<) (ros_revision (recv_roster ?g) # installed xs)"
    using Cons.prems(4) step_roster [of x g] by (cases x) (auto simp del: receiver_step.simps split: if_splits)
  ultimately show ?case using Cons.IH Cons.prems(3) by simp
qed simp

lemma receive_Accepted:
  assumes "receive c p m g = (Accepted e, g')"
  shows "accept_current (context_key c) m g = (Accepted e, g')" "p = ctx_sender c"
    "ctx_recipient c = recv_local g" "recv_is_active g (ctx_sender c)" "recv_is_active g (recv_local g)"
    "ctx_revision c = ros_revision (recv_roster g)" "ctx_group_id c = ros_group_id (recv_roster g)"
    "ctx_roster_digest c = recv_digest g"
proof -
  have "accept_current (context_key c) m g = (Accepted e, g') \<and> p = ctx_sender c \<and>
    ctx_recipient c = recv_local g \<and> recv_is_active g (ctx_sender c) \<and> recv_is_active g (recv_local g) \<and>
    ctx_revision c = ros_revision (recv_roster g) \<and> ctx_group_id c = ros_group_id (recv_roster g) \<and>
    ctx_roster_digest c = recv_digest g"
  proof (cases rule: receive_cases [of c g p m])
    case future
    then have "fst (defer_context c m g) = Accepted e" using assms by simp
    then show ?thesis by simp
  qed (use assms in simp_all)
  then show "accept_current (context_key c) m g = (Accepted e, g')" "p = ctx_sender c"
    "ctx_recipient c = recv_local g" "recv_is_active g (ctx_sender c)" "recv_is_active g (recv_local g)"
    "ctx_revision c = ros_revision (recv_roster g)" "ctx_group_id c = ros_group_id (recv_roster g)"
    "ctx_roster_digest c = recv_digest g"
    by blast+
qed

lemma accepted_settled:
  assumes "receive c p m g = (Accepted e, g')" "no_max g" "ctx_sequence c \<noteq> u64_max"
  shows "settled (context_key c) m e g'"
proof -
  have "known (context_key c) m e g'"
    using accept_current_new [OF _ _ receive_Accepted(1) [OF assms(1)]] assms(2,3)
    by (simp add: no_max_def context_key_def)
  moreover have "recv_roster g' = recv_roster g" using receive_frame(1) [of c p m g] assms(1) by simp
  ultimately show ?thesis
    using receive_Accepted(6) [OF assms(1)] by (simp add: settled_def context_key_def)
qed

text \<open>
  C9.  At most one event per logical message.  Once a receiver has accepted a context as event
  \<open>e\<close>, then whatever it receives and whatever later rosters it installs, the same context with the
  same commitment is never accepted or deferred again: it is answered as the duplicate of \<open>e\<close>, or
  refused.  Sequence numbers stay below \<open>u64::MAX\<close>, and installed revisions go up.
\<close>

theorem receiver_exactly_once:
  assumes "g = final receiver_step ys (receiver_new r d local)" and "list_all op_below_max (ys @ xs)"
    and "ctx_sequence c \<noteq> u64_max" and "receive c p m g = (Accepted e, g')"
    and "sorted_wrt (<) (ros_revision (recv_roster g) # installed xs)"
  shows "fst (receive c q m (final receiver_step xs g')) = Duplicate e \<or>
    (\<exists>why. fst (receive c q m (final receiver_step xs g')) = Rejected why)"
proof -
  have "no_max (receiver_new r d local)" by (simp add: no_max_def receiver_new_def)
  then have "no_max g"
    unfolding assms(1) using assms(2)
    by (induction ys rule: rev_induct) (auto simp: final_append step_no_max)
  moreover have "no_max g'" using receive_no_max [OF \<open>no_max g\<close> assms(3), of p m] assms(4) by simp
  moreover have "recv_roster g' = recv_roster g" using receive_frame(1) [of c p m g] assms(4) by simp
  ultimately have "settled (context_key c) m e (final receiver_step xs g')"
    using settled_run accepted_settled assms by simp
  then show ?thesis using settled_refuses assms(3) by blast
qed

definition ex_receiver :: group_receiver where
  "ex_receiver = receiver_new ex_second (replicate 32 7) ex_alice"

definition ex_context :: "u64 \<Rightarrow> application_context" where
  "ex_context n = \<lparr>ctx_group_id = ros_group_id ex_second, ctx_revision = ros_revision ex_second,
     ctx_roster_digest = replicate 32 7, ctx_sender = ex_bob, ctx_recipient = ex_alice,
     ctx_sequence = n, ctx_payload = [1, 2, 3]\<rparr>"

text \<open>A first message, a hundred numbers later a second, then the first again.\<close>

lemma ex_first:
  "receive (ex_context 5) ex_bob [9] ex_receiver = (Accepted 0, snd (receive (ex_context 5) ex_bob [9] ex_receiver))"
  by code_simp

theorem receiver_exactly_once_witness:
  "let g' = final receiver_step [Receive (ex_context 105) ex_bob [8]]
        (snd (receive (ex_context 5) ex_bob [9] ex_receiver))
   in fst (receive (ex_context 5) ex_bob [9] g') = Duplicate 0 \<or>
     (\<exists>why. fst (receive (ex_context 5) ex_bob [9] g') = Rejected why)"
  unfolding Let_def
  by (rule receiver_exactly_once [OF _ _ _ ex_first, where ys = "[]" and r = ex_second
        and d = "replicate 32 7" and local = ex_alice])
    (simp_all add: ex_receiver_def ex_context_def)

section \<open>Event numbers\<close>

definition accepted_ids :: "receive_disposition list \<Rightarrow> u64 list" where
  "accepted_ids ds = concat (map (\<lambda>d. case d of Accepted e \<Rightarrow> [e] | _ \<Rightarrow> []) ds)"

definition bump :: "u64 \<Rightarrow> u64" where "bump n = saturating_add n 1"

text \<open>The identifiers \<open>ids\<close> are the ones counted up from \<open>n\<close>, and the next one is \<open>n'\<close>.\<close>

definition counted :: "u64 \<Rightarrow> u64 list \<Rightarrow> u64 \<Rightarrow> bool" where
  "counted n ids n' \<longleftrightarrow>
     ids = map (\<lambda>i. (bump ^^ i) n) [0..<length ids] \<and> n' = (bump ^^ length ids) n"

lemma counted_Nil [simp]: "counted n [] n' \<longleftrightarrow> n' = n"
  by (auto simp: counted_def)

lemma counted_append:
  assumes "counted n ids n1" "counted n1 ids' n2"
  shows "counted n (ids @ ids') n2"
proof -
  have "map (\<lambda>i. (bump ^^ i) n) [0..<length ids + length ids'] =
      map (\<lambda>i. (bump ^^ i) n) [0..<length ids] @ map (\<lambda>i. (bump ^^ (i + length ids)) n) [0..<length ids']"
    using map_add_upt [of "length ids" "length ids'", symmetric]
    by (simp add: upt_add_eq_append [of 0] add.commute comp_def)
  also have "\<dots> = ids @ ids'" using assms by (simp add: counted_def funpow_add)
  finally have "ids @ ids' = map (\<lambda>i. (bump ^^ i) n) [0..<length (ids @ ids')]" by simp
  moreover have "n2 = (bump ^^ (length ids' + length ids)) n" using assms by (simp add: counted_def funpow_add)
  ultimately show ?thesis unfolding counted_def by (metis add.commute length_append)
qed

lemma receive_counted:
  "counted (recv_next_event g) (accepted_ids [fst (receive c p m g)]) (recv_next_event (snd (receive c p m g)))"
proof (cases rule: receive_cases [of c g p m])
  case current
  show ?thesis
    unfolding current(8)
    by (cases rule: accept_current_cases [of g "context_key c" m])
      (simp_all add: accepted_ids_def counted_def bump_def)
next
  case future
  show ?thesis unfolding future(7)
    using defer_context_frame(6) [of c m g] by (cases "fst (defer_context c m g)") (simp_all add: accepted_ids_def)
qed (simp add: accepted_ids_def)

lemma accepted_ids_append: "accepted_ids (xs @ ys) = accepted_ids xs @ accepted_ids ys"
  by (simp add: accepted_ids_def)

lemma revalidate_counted:
  "counted (recv_next_event g) (accepted_ids (map rev_disposition (fst (revalidate items g))))
     (recv_next_event (snd (revalidate items g)))"
proof (induction items arbitrary: g)
  case (Cons item items)
  let ?c = "def_context item" and ?m = "def_commitment item"
  let ?g = "snd (receive ?c (ctx_sender ?c) ?m g)"
  have "accepted_ids (map rev_disposition (fst (revalidate (item # items) g))) =
      accepted_ids [fst (receive ?c (ctx_sender ?c) ?m g)]
      @ accepted_ids (map rev_disposition (fst (revalidate items ?g)))"
    by (simp add: case_prod_beta accepted_ids_def)
  moreover have "snd (revalidate (item # items) g) = snd (revalidate items ?g)"
    by (simp add: case_prod_beta)
  ultimately show ?case using counted_append [OF receive_counted Cons.IH] by metis
qed (simp add: accepted_ids_def)

lemma step_counted:
  "counted (recv_next_event g) (accepted_ids (fst (receiver_step x g))) (recv_next_event (snd (receiver_step x g)))"
proof (cases x)
  case (Install r d)
  then show ?thesis
    using revalidate_counted [of "g\<lparr>recv_roster := r, recv_digest := d, recv_accepted := [], recv_deferred := []\<rparr>"]
    by (simp add: install_accepted_roster_def Let_def case_prod_beta accepted_ids_def)
qed (simp add: case_prod_beta receive_counted)

lemma run_counted:
  "counted (recv_next_event g) (accepted_ids (concat (answers receiver_step xs g)))
     (recv_next_event (final receiver_step xs g))"
proof (induction xs arbitrary: g)
  case (Cons x xs)
  show ?case using counted_append [OF step_counted Cons.IH] by (simp add: accepted_ids_append)
qed (simp add: accepted_ids_def)

lemma unat_bump_funpow: "unat ((bump ^^ i) 0) = min i 18446744073709551615"
  by (induction i) (simp_all add: bump_def unat_saturating_add min_def)

text \<open>
  Event identifiers are stable counters: over any operations on a new receiver, received or
  revalidated contexts alike, the accepted contexts get the identifiers 0, 1, 2, and so on, in the
  order the receiver reports them, up to the last \<open>u64\<close>, where the counter stays.
\<close>

theorem receiver_events:
  "map unat (accepted_ids (concat (answers receiver_step xs (receiver_new r d local)))) =
   map (\<lambda>i. min i (2 ^ 64 - 1))
     [0..<length (accepted_ids (concat (answers receiver_step xs (receiver_new r d local))))]"
proof -
  let ?ids = "accepted_ids (concat (answers receiver_step xs (receiver_new r d local)))"
  have "?ids = map (\<lambda>i. (bump ^^ i) 0) [0..<length ?ids]"
    using run_counted [of "receiver_new r d local" xs] by (simp add: counted_def receiver_new_def)
  then have "map unat ?ids = map unat (map (\<lambda>i. (bump ^^ i) 0) [0..<length ?ids])" by (rule arg_cong)
  also have "\<dots> = map (\<lambda>i. min i (2 ^ 64 - 1)) [0..<length ?ids]" by (simp add: unat_bump_funpow)
  finally show ?thesis .
qed

section \<open>The last sequence number\<close>

text \<open>
  The duplicate window does not hold at \<open>u64::MAX\<close>: a new context with that sequence number is
  accepted and its entry is dropped at once with every other entry of its sender, so the receiver
  accepts the same context again, as another event.
\<close>

theorem receiver_accepts_max_again:
  assumes "receive c p m g = (Accepted e, g')" and "ctx_sequence c = u64_max"
  shows "fst (receive c p m g') = Accepted (recv_next_event g') \<and>
    (\<forall>i \<in> set (recv_accepted g'). \<not> (key_sender (acc_key i) = ctx_sender c \<and>
       key_revision (acc_key i) = ctx_revision c))"
proof -
  note acc = receive_Accepted [OF assms(1)]
  let ?key = "context_key c"
  have gone: "\<forall>i \<in> set (recv_accepted g'). \<not> same_stream ?key i"
  proof (cases rule: accept_current_cases [of g ?key m])
    case (new n L)
    have "n = u64_max" using new(3) assms(2) word_order.extremum_uniqueI by (simp add: context_key_def)
    then have "recv_accepted g' = filter (\<lambda>i. \<not> same_stream ?key i) L"
      using new(5) acc(1) by (simp add: within_window)
    then show ?thesis by simp
  qed (use acc(1) in \<open>auto split: if_splits\<close>)
  have "fst (accept_current ?key m g') = Accepted (recv_next_event g')"
  proof (cases rule: accept_current_cases [of g' ?key m])
    case (known item)
    then show ?thesis using gone by (auto simp: same_stream_def)
  next
    case (expired item)
    then show ?thesis using gone by auto
  qed simp
  moreover have "receive c p m g' = accept_current ?key m g'"
    using acc receive_frame [of c p m g] assms(1) by (simp add: receive_def recv_is_active_def)
  ultimately show ?thesis using gone by (simp add: same_stream_def context_key_def)
qed

theorem receiver_accepts_max_again_witness:
  "fst (receive (ex_context u64_max) ex_bob [9] (snd (receive (ex_context u64_max) ex_bob [9] ex_receiver))) =
     Accepted 1"
proof -
  have "receive (ex_context u64_max) ex_bob [9] ex_receiver =
      (Accepted 0, snd (receive (ex_context u64_max) ex_bob [9] ex_receiver))" by code_simp
  moreover have "recv_next_event (snd (receive (ex_context u64_max) ex_bob [9] ex_receiver)) = 1" by code_simp
  ultimately show ?thesis using receiver_accepts_max_again by (simp add: ex_context_def)
qed

end
