(* ===== verification/Group_Send.thy ===== *)
theory Group_Send
  imports Group_Payload Group_Receive
begin

text \<open>
  Crate \<^verbatim>\<open>tacenta-group\<close>, \<^verbatim>\<open>send.rs\<close>: the durable record of logical sends.  A send has a fixed set of
  recipients, each with its own ciphertext and progress; the outbox bounds the unfinished sends,
  orders their sequence numbers, cancels what a newer roster makes obsolete, and is rebuilt after a
  restart from a transcript of records.

  The commitment of a context's bytes is computed by the core library and is a parameter.
\<close>

section \<open>Logical sends\<close>

definition LOGICAL_SEND_DOMAIN :: bytes where
  "LOGICAL_SEND_DOMAIN = ascii ''Tacenta Group Logical Send v1''"

record logical_id =
  lid_group_id :: bytes
  lid_revision :: u64
  lid_sender :: member
  lid_sequence :: u64

definition logical_id_new :: "bytes \<Rightarrow> u64 \<Rightarrow> member \<Rightarrow> u64 \<Rightarrow> logical_id group_result" where
  "logical_id_new group_id revision sender sequence =
     (if revision = RESERVED_REVISION then Inl E_ReservedRevision
      else Inr \<lparr>lid_group_id = group_id, lid_revision = revision, lid_sender = sender,
                lid_sequence = sequence\<rparr>)"

datatype recipient_disposition =
    RecipientPending
  | Prepared
  | HandedOff
  | RelayAccepted
  | Cancelled
  | CancelledAfterHandoff
  | ExhaustedUnknown

record recipient_progress =
  prog_recipient :: member
  prog_disposition :: recipient_disposition
  prog_commitment :: "bytes option"
  prog_ciphertext :: "bytes option"
  prog_attempts :: byte

record logical_send =
  send_id :: logical_id
  send_digest :: bytes
  send_payload :: bytes
  send_recipients :: "recipient_progress list"

text \<open>The progress a recipient starts with, in \<open>new\<close> and in \<open>decode_intent\<close>.\<close>

definition fresh_progress :: "member \<Rightarrow> recipient_progress" where
  "fresh_progress recipient =
     \<lparr>prog_recipient = recipient, prog_disposition = RecipientPending, prog_commitment = None,
      prog_ciphertext = None, prog_attempts = 0\<rparr>"

fun validate_recipients_loop ::
  "roster \<Rightarrow> member option \<Rightarrow> bytes set \<Rightarrow> member list \<Rightarrow> unit group_result" where
  "validate_recipients_loop r previous identities [] = Inr ()"
| "validate_recipients_loop r previous identities (recipient # recipients) =
     (if \<not> list_ex (\<lambda>m. m = recipient) (ros_members r) then Inl E_NotMember
      else if (case previous of None \<Rightarrow> False | Some p \<Rightarrow> \<not> p < recipient) then Inl E_NonCanonical
      else if mem_identity recipient \<in> identities then Inl E_NonCanonical
      else validate_recipients_loop r (Some recipient) (insert (mem_identity recipient) identities) recipients)"

definition validate_recipients :: "roster \<Rightarrow> member list \<Rightarrow> unit group_result" where
  "validate_recipients r recipients = validate_recipients_loop r None {} recipients"

fun validate_recovery_recipients_loop :: "member option \<Rightarrow> bytes set \<Rightarrow> member list \<Rightarrow> unit group_result" where
  "validate_recovery_recipients_loop previous identities [] = Inr ()"
| "validate_recovery_recipients_loop previous identities (recipient # recipients) =
     (if (case previous of None \<Rightarrow> False | Some p \<Rightarrow> \<not> p < recipient) then Inl E_NonCanonical
      else if mem_identity recipient \<in> identities then Inl E_NonCanonical
      else validate_recovery_recipients_loop (Some recipient) (insert (mem_identity recipient) identities) recipients)"

definition validate_recovery_recipients :: "member list \<Rightarrow> unit group_result" where
  "validate_recovery_recipients recipients = validate_recovery_recipients_loop None {} recipients"

definition logical_send_new ::
  "roster \<Rightarrow> bytes \<Rightarrow> member \<Rightarrow> u64 \<Rightarrow> member list \<Rightarrow> bytes \<Rightarrow> logical_send group_result" where
  "logical_send_new r roster_digest sender sequence recipients payload =
     (if ros_closed r then Inl E_Closed
      else if ros_revision r = RESERVED_REVISION then Inl E_ReservedRevision
      else if \<not> list_ex (\<lambda>m. m = sender) (ros_members r) then Inl E_NotMember
      else if recipients = [] then Inl E_EmptyRecipients
      else if length payload > MAX_PAYLOAD_LEN then Inl E_PayloadTooLarge
      else
        rbind (validate_recipients r recipients) (\<lambda>_.
        rbind (logical_id_new (ros_group_id r) (ros_revision r) sender sequence) (\<lambda>ident.
          Inr \<lparr>send_id = ident, send_digest = roster_digest, send_payload = payload,
               send_recipients = map fresh_progress recipients\<rparr>)))"

definition is_terminal :: "logical_send \<Rightarrow> bool" where
  "is_terminal s = list_all (\<lambda>p. prog_disposition p
      \<in> {RelayAccepted, Cancelled, CancelledAfterHandoff, ExhaustedUnknown}) (send_recipients s)"

definition send_same_immutable_fields :: "logical_send \<Rightarrow> logical_send \<Rightarrow> bool" where
  "send_same_immutable_fields s candidate \<longleftrightarrow>
     send_id s = send_id candidate \<and> send_digest s = send_digest candidate \<and>
     send_payload s = send_payload candidate \<and>
     length (send_recipients s) = length (send_recipients candidate) \<and>
     list_all (\<lambda>(left, right). prog_recipient left = prog_recipient right)
       (zip (send_recipients s) (send_recipients candidate))"

section \<open>The intent codec\<close>

fun validate_all :: "member list \<Rightarrow> unit group_result" where
  "validate_all [] = Inr ()"
| "validate_all (m # ms) = rbind (member_validate m) (\<lambda>_. validate_all ms)"

definition validate_intent :: "logical_send \<Rightarrow> unit group_result" where
  "validate_intent s =
     rbind (member_validate (lid_sender (send_id s))) (\<lambda>_.
       if length (send_payload s) > MAX_PAYLOAD_LEN then Inl E_PayloadTooLarge
       else if send_recipients s = [] then Inl E_EmptyRecipients
       else if length (send_recipients s) > MAX_MEMBERS then Inl E_TooManyMembers
       else
         rbind (validate_all (map prog_recipient (send_recipients s))) (\<lambda>_.
         rbind (validate_recovery_recipients (map prog_recipient (send_recipients s))) (\<lambda>_.
           if lid_revision (send_id s) = RESERVED_REVISION then Inl E_ReservedRevision else Inr ())))"

definition encode_intent :: "logical_send \<Rightarrow> bytes group_result" where
  "encode_intent s =
     rbind (validate_intent s) (\<lambda>_.
     rbind (g_put_u32 (length (send_recipients s))) (\<lambda>recipient_count.
     rbind (put_lp (lid_group_id (send_id s))) (\<lambda>group_id.
     rbind (put_member (lid_sender (send_id s))) (\<lambda>sender.
     rbind (put_lp (send_digest s)) (\<lambda>digest.
     rbind (put_lp (send_payload s)) (\<lambda>payload.
     rbind (rput_many (\<lambda>p. put_member (prog_recipient p)) (send_recipients s)) (\<lambda>recipients.
       Inr (LOGICAL_SEND_DOMAIN @ group_id @ u64_to_be (lid_revision (send_id s)) @ sender
            @ u64_to_be (lid_sequence (send_id s)) @ digest @ payload @ recipient_count @ recipients))))))))"

definition decode_intent :: "bytes \<Rightarrow> logical_send group_result" where
  "decode_intent bytes =
     (if \<not> starts_with bytes LOGICAL_SEND_DOMAIN then Inl E_Malformed
      else
        rbind (take_lp (drop (length LOGICAL_SEND_DOMAIN) bytes)) (\<lambda>(group_id, c).
        rbind (group_id_try_from group_id) (\<lambda>group_id.
        rbind (g_take_u64 c) (\<lambda>(revision, c).
        rbind (take_member c) (\<lambda>(sender, c).
        rbind (g_take_u64 c) (\<lambda>(sequence, c).
        rbind (take_lp c) (\<lambda>(digest, c).
        rbind (digest_try_from digest) (\<lambda>roster_digest.
        rbind (take_lp c) (\<lambda>(payload, c).
        if length payload > MAX_PAYLOAD_LEN then Inl E_PayloadTooLarge else
        rbind (g_take_u32 c) (\<lambda>(count, c).
        if unat count = 0 then Inl E_EmptyRecipients
        else if unat count > MAX_MEMBERS then Inl E_TooManyMembers else
        rbind (rtake_many take_member (unat count) c) (\<lambda>(recipients, c).
        if c \<noteq> [] then Inl E_Malformed else
        rbind (validate_recovery_recipients recipients) (\<lambda>_.
        rbind (logical_id_new group_id revision sender sequence) (\<lambda>ident.
          Inr \<lparr>send_id = ident, send_digest = roster_digest, send_payload = payload,
               send_recipients = map fresh_progress recipients\<rparr>)))))))))))))"

section \<open>Progress of one recipient\<close>

text \<open>\<open>progress\<close>, and \<open>progress_mut\<close> with the operation its caller goes on with.\<close>

definition progress :: "logical_send \<Rightarrow> member \<Rightarrow> recipient_progress group_result" where
  "progress s recipient =
     ok_or E_NotMember (find (\<lambda>p. prog_recipient p = recipient) (send_recipients s))"

definition progress_mut ::
  "member \<Rightarrow> (recipient_progress \<Rightarrow> recipient_progress group_result \<times> recipient_progress)
     \<Rightarrow> logical_send \<Rightarrow> recipient_progress group_result \<times> logical_send" where
  "progress_mut recipient f s =
     (case with_first (\<lambda>p. prog_recipient p = recipient) f (send_recipients s) of
        None \<Rightarrow> (Inl E_NotMember, s)
      | Some (r, recipients) \<Rightarrow> (r, s\<lparr>send_recipients := recipients\<rparr>))"

definition send_application_context :: "logical_send \<Rightarrow> member \<Rightarrow> application_context group_result" where
  "send_application_context s recipient =
     rbind (progress s recipient) (\<lambda>_.
       context_new (lid_group_id (send_id s)) (lid_revision (send_id s)) (send_digest s)
         (lid_sender (send_id s)) recipient (lid_sequence (send_id s)) (send_payload s))"

definition prepare_progress ::
  "bytes \<Rightarrow> bytes \<Rightarrow> recipient_progress \<Rightarrow> recipient_progress group_result \<times> recipient_progress" where
  "prepare_progress commitment ciphertext p =
     (case prog_disposition p of
        RecipientPending \<Rightarrow>
          let p = p\<lparr>prog_commitment := Some commitment, prog_ciphertext := Some ciphertext,
                    prog_disposition := Prepared\<rparr>
          in (Inr p, p)
      | Prepared \<Rightarrow>
          (if prog_commitment p = Some commitment \<and> prog_ciphertext p = Some ciphertext
           then Inr p else Inl E_Conflict, p)
      | HandedOff \<Rightarrow>
          (if prog_commitment p = Some commitment \<and> prog_ciphertext p = Some ciphertext
           then Inr p else Inl E_Conflict, p)
      | RelayAccepted \<Rightarrow> (Inl E_WrongDisposition, p)
      | Cancelled \<Rightarrow> (Inl E_WrongDisposition, p)
      | CancelledAfterHandoff \<Rightarrow> (Inl E_WrongDisposition, p)
      | ExhaustedUnknown \<Rightarrow> (Inl E_WrongDisposition, p))"

definition record_prepared ::
  "member \<Rightarrow> bytes \<Rightarrow> bytes \<Rightarrow> logical_send \<Rightarrow> recipient_progress group_result \<times> logical_send" where
  "record_prepared recipient commitment ciphertext s =
     progress_mut recipient (prepare_progress commitment ciphertext) s"

definition reserve_attempt ::
  "recipient_progress \<Rightarrow> recipient_progress group_result \<times> recipient_progress" where
  "reserve_attempt p =
     (if prog_ciphertext p = None then (Inl E_WrongDisposition, p)
      else if prog_attempts p \<ge> 3 then
        (Inl E_RetryExhausted, p\<lparr>prog_disposition := ExhaustedUnknown\<rparr>)
      else
        let p = p\<lparr>prog_attempts := prog_attempts p + 1\<rparr>;
            p = p\<lparr>prog_disposition := if prog_attempts p = 3 then ExhaustedUnknown else HandedOff\<rparr>
        in (Inr p, p))"

definition reserve_progress ::
  "recipient_progress \<Rightarrow> recipient_progress group_result \<times> recipient_progress" where
  "reserve_progress p =
     (case prog_disposition p of
        Prepared \<Rightarrow> reserve_attempt p
      | HandedOff \<Rightarrow> reserve_attempt p
      | RecipientPending \<Rightarrow> (Inl E_WrongDisposition, p)
      | RelayAccepted \<Rightarrow> (Inl E_WrongDisposition, p)
      | Cancelled \<Rightarrow> (Inl E_WrongDisposition, p)
      | CancelledAfterHandoff \<Rightarrow> (Inl E_WrongDisposition, p)
      | ExhaustedUnknown \<Rightarrow> (Inl E_RetryExhausted, p))"

definition reserve_handoff :: "member \<Rightarrow> logical_send \<Rightarrow> recipient_progress group_result \<times> logical_send" where
  "reserve_handoff recipient s = progress_mut recipient reserve_progress s"

definition accept_progress ::
  "recipient_progress \<Rightarrow> recipient_progress group_result \<times> recipient_progress" where
  "accept_progress p =
     (if prog_disposition p \<in> {HandedOff, ExhaustedUnknown}
      then let p = p\<lparr>prog_disposition := RelayAccepted\<rparr> in (Inr p, p)
      else (Inl E_WrongDisposition, p))"

definition record_relay_accepted ::
  "member \<Rightarrow> logical_send \<Rightarrow> recipient_progress group_result \<times> logical_send" where
  "record_relay_accepted recipient s = progress_mut recipient accept_progress s"

definition cancel_progress :: "recipient_progress \<Rightarrow> recipient_progress" where
  "cancel_progress p =
     (case prog_disposition p of
        RecipientPending \<Rightarrow> p\<lparr>prog_disposition := Cancelled\<rparr>
      | Prepared \<Rightarrow> p\<lparr>prog_disposition := Cancelled\<rparr>
      | HandedOff \<Rightarrow> p\<lparr>prog_disposition := CancelledAfterHandoff\<rparr>
      | RelayAccepted \<Rightarrow> p
      | Cancelled \<Rightarrow> p
      | CancelledAfterHandoff \<Rightarrow> p
      | ExhaustedUnknown \<Rightarrow> p)"

definition cancel_for_roster_change ::
  "member \<Rightarrow> logical_send \<Rightarrow> recipient_progress group_result \<times> logical_send" where
  "cancel_for_roster_change removed s =
     progress_mut removed (\<lambda>p. let p = cancel_progress p in (Inr p, p)) s"

definition send_cancel_for_newer_roster :: "u64 \<Rightarrow> logical_send \<Rightarrow> logical_send" where
  "send_cancel_for_newer_roster revision s =
     (if lid_revision (send_id s) \<ge> revision then s
      else s\<lparr>send_recipients := map cancel_progress (send_recipients s)\<rparr>)"

section \<open>The outbox\<close>

record group_outbox =
  out_group_id :: bytes
  out_sends :: "logical_send list"
  out_applied_revision :: u64

datatype outbox_disposition = Inserted | OutboxDuplicate

definition outbox_new :: "bytes \<Rightarrow> group_outbox" where
  "outbox_new group_id = \<lparr>out_group_id = group_id, out_sends = [], out_applied_revision = 0\<rparr>"

definition highest_sequence :: "group_outbox \<Rightarrow> u64 \<Rightarrow> member \<Rightarrow> u64 option" where
  "highest_sequence ob revision sender =
     iter_max (map (\<lambda>s. lid_sequence (send_id s))
       (filter (\<lambda>s. lid_revision (send_id s) = revision \<and> lid_sender (send_id s) = sender) (out_sends ob)))"

definition next_sequence :: "group_outbox \<Rightarrow> u64 \<Rightarrow> member \<Rightarrow> u64 group_result" where
  "next_sequence ob revision sender =
     (case highest_sequence ob revision sender of
        None \<Rightarrow> Inr 0
      | Some highest \<Rightarrow> ok_or E_SequenceExhausted (checked_add highest 1))"

definition send_of :: "group_outbox \<Rightarrow> logical_id \<Rightarrow> logical_send group_result" where
  "send_of ob ident = ok_or E_Malformed (find (\<lambda>s. send_id s = ident) (out_sends ob))"

text \<open>\<open>send_mut\<close>, and the operation its caller goes on with.\<close>

definition send_mut ::
  "logical_id \<Rightarrow> (logical_send \<Rightarrow> 'r group_result \<times> logical_send) \<Rightarrow> group_outbox
     \<Rightarrow> 'r group_result \<times> group_outbox" where
  "send_mut ident f ob =
     (case with_first (\<lambda>s. send_id s = ident) f (out_sends ob) of
        None \<Rightarrow> (Inl E_Malformed, ob)
      | Some (r, sends) \<Rightarrow> (r, ob\<lparr>out_sends := sends\<rparr>))"

definition stays_live :: "u64 option \<Rightarrow> logical_send \<Rightarrow> bool" where
  "stays_live cancelled_below s =
     (case cancelled_below of None \<Rightarrow> True | Some revision \<Rightarrow> lid_revision (send_id s) \<ge> revision)"

definition outbox_insert ::
  "logical_send \<Rightarrow> u64 option \<Rightarrow> group_outbox \<Rightarrow> outbox_disposition group_result \<times> group_outbox" where
  "outbox_insert s cancelled_below ob =
     (if lid_group_id (send_id s) \<noteq> out_group_id ob then (Inl E_Conflict, ob)
      else case find (\<lambda>known. send_id known = send_id s) (out_sends ob) of
        Some existing \<Rightarrow>
          (if send_same_immutable_fields existing s then Inr OutboxDuplicate else Inl E_Conflict, ob)
      | None \<Rightarrow>
          if lid_revision (send_id s) < out_applied_revision ob then (Inl E_StaleRevision, ob)
          else if (case highest_sequence ob (lid_revision (send_id s)) (lid_sender (send_id s)) of
                     None \<Rightarrow> False | Some highest \<Rightarrow> lid_sequence (send_id s) \<le> highest)
          then (Inl E_SequenceOrder, ob)
          else if stays_live cancelled_below s
                  \<and> length (filter (\<lambda>known. \<not> is_terminal known \<and> stays_live cancelled_below known) (out_sends ob))
                    \<ge> MAX_LIVE_LOGICAL_SENDS
          then (Inl E_OutboxFull, ob)
          else (Inr Inserted, ob\<lparr>out_sends := out_sends ob @ [s]\<rparr>))"

definition outbox_record :: "logical_send \<Rightarrow> group_outbox \<Rightarrow> outbox_disposition group_result \<times> group_outbox" where
  "outbox_record s ob = outbox_insert s None ob"

definition outbox_cancel_for_newer_roster :: "u64 \<Rightarrow> group_outbox \<Rightarrow> group_outbox" where
  "outbox_cancel_for_newer_roster revision ob =
     ob\<lparr>out_applied_revision := max (out_applied_revision ob) revision,
       out_sends := map (send_cancel_for_newer_roster revision) (out_sends ob)\<rparr>"

section \<open>The outbox as a machine\<close>

datatype outbox_op =
    RecordSend logical_send
  | RecordPrepared logical_id member bytes bytes
  | ReserveHandoff logical_id member
  | RecordRelayAccepted logical_id member
  | CancelRecipient logical_id member
  | CancelForNewerRoster u64

text \<open>The answer is the refusal, or the progress the operation returns where it returns one.\<close>

primrec outbox_step :: "outbox_op \<Rightarrow> group_outbox \<Rightarrow> recipient_progress option group_result \<times> group_outbox" where
  "outbox_step (RecordSend s) ob = map_prod (map_sum id (\<lambda>_. None)) id (outbox_record s ob)"
| "outbox_step (RecordPrepared ident recipient commitment ciphertext) ob =
     map_prod (map_sum id Some) id (send_mut ident (record_prepared recipient commitment ciphertext) ob)"
| "outbox_step (ReserveHandoff ident recipient) ob =
     map_prod (map_sum id Some) id (send_mut ident (reserve_handoff recipient) ob)"
| "outbox_step (RecordRelayAccepted ident recipient) ob =
     map_prod (map_sum id Some) id (send_mut ident (record_relay_accepted recipient) ob)"
| "outbox_step (CancelRecipient ident recipient) ob =
     map_prod (map_sum id Some) id (send_mut ident (cancel_for_roster_change recipient) ob)"
| "outbox_step (CancelForNewerRoster revision) ob = (Inr None, outbox_cancel_for_newer_roster revision ob)"

subsection \<open>How a recipient's progress develops\<close>

text \<open>
  A recipient keeps its ciphertext and commitment once it has them, its attempts are only counted
  up, and its disposition only goes forward: a cancelled or accepted recipient stays so, and an
  exhausted one may still be accepted.
\<close>

fun disposition_le :: "recipient_disposition \<Rightarrow> recipient_disposition \<Rightarrow> bool" where
  "disposition_le RecipientPending d = True"
| "disposition_le Prepared d = (d \<noteq> RecipientPending)"
| "disposition_le HandedOff d = (d \<notin> {RecipientPending, Prepared, Cancelled})"
| "disposition_le ExhaustedUnknown d = (d \<in> {ExhaustedUnknown, RelayAccepted})"
| "disposition_le d d' = (d = d')"

definition progress_le :: "recipient_progress \<Rightarrow> recipient_progress \<Rightarrow> bool" where
  "progress_le p q \<longleftrightarrow> prog_recipient p = prog_recipient q \<and>
     disposition_le (prog_disposition p) (prog_disposition q) \<and>
     prog_attempts p \<le> prog_attempts q \<and>
     (prog_disposition p = RecipientPending \<or>
      prog_ciphertext p = prog_ciphertext q \<and> prog_commitment p = prog_commitment q)"

definition send_le :: "logical_send \<Rightarrow> logical_send \<Rightarrow> bool" where
  "send_le s t \<longleftrightarrow> send_id s = send_id t \<and> send_digest s = send_digest t \<and>
     send_payload s = send_payload t \<and> list_all2 progress_le (send_recipients s) (send_recipients t)"

definition outbox_le :: "group_outbox \<Rightarrow> group_outbox \<Rightarrow> bool" where
  "outbox_le ob ob' \<longleftrightarrow> out_group_id ob' = out_group_id ob \<and>
     out_applied_revision ob \<le> out_applied_revision ob' \<and> extends send_le (out_sends ob) (out_sends ob')"

lemma disposition_le_refl [simp]: "disposition_le d d"
  by (cases d) auto

lemma disposition_le_trans: "disposition_le a b \<Longrightarrow> disposition_le b c \<Longrightarrow> disposition_le a c"
  by (cases a; cases b; cases c) auto

lemma progress_le_refl [simp]: "progress_le p p"
  by (simp add: progress_le_def)

lemma progress_le_trans:
  assumes "progress_le p q" "progress_le q r"
  shows "progress_le p r"
proof -
  have "prog_disposition p \<noteq> RecipientPending \<Longrightarrow> prog_disposition q \<noteq> RecipientPending"
    using assms(1) by (cases "prog_disposition p") (auto simp: progress_le_def)
  then show ?thesis using assms disposition_le_trans by (auto simp: progress_le_def)
qed

lemma send_le_refl [simp]: "send_le s s"
  by (simp add: send_le_def list_all2_refl)

lemma send_le_trans: "send_le s t \<Longrightarrow> send_le t u \<Longrightarrow> send_le s u"
  unfolding send_le_def by (auto elim: list_all2_trans [rotated] intro: progress_le_trans)

lemma outbox_le_refl [simp]: "outbox_le ob ob"
  by (simp add: outbox_le_def extends_refl)

lemma outbox_le_trans: "outbox_le a b \<Longrightarrow> outbox_le b c \<Longrightarrow> outbox_le a c"
  using extends_trans [OF send_le_trans] by (auto simp: outbox_le_def)

text \<open>The progress of a recipient as the operations leave it.\<close>

definition progress_ok :: "recipient_progress \<Rightarrow> bool" where
  "progress_ok p \<longleftrightarrow>
     (case prog_disposition p of
        RecipientPending \<Rightarrow> prog_ciphertext p = None \<and> prog_commitment p = None \<and> prog_attempts p = 0
      | Prepared \<Rightarrow> prog_ciphertext p \<noteq> None \<and> prog_commitment p \<noteq> None \<and> prog_attempts p = 0
      | HandedOff \<Rightarrow> prog_ciphertext p \<noteq> None \<and> prog_commitment p \<noteq> None \<and> prog_attempts p \<in> {1, 2}
      | RelayAccepted \<Rightarrow> prog_ciphertext p \<noteq> None \<and> prog_commitment p \<noteq> None \<and> prog_attempts p \<in> {1, 2, 3}
      | Cancelled \<Rightarrow> prog_attempts p = 0
      | CancelledAfterHandoff \<Rightarrow>
          prog_ciphertext p \<noteq> None \<and> prog_commitment p \<noteq> None \<and> prog_attempts p \<in> {1, 2}
      | ExhaustedUnknown \<Rightarrow> prog_ciphertext p \<noteq> None \<and> prog_commitment p \<noteq> None \<and> prog_attempts p = 3)"

lemma prepare_progress_ok:
  assumes "progress_ok p"
  shows "progress_le p (snd (prepare_progress commitment ciphertext p)) \<and>
    progress_ok (snd (prepare_progress commitment ciphertext p))"
  using assms
  by (cases "prog_disposition p") (simp_all add: progress_ok_def progress_le_def prepare_progress_def Let_def)

lemma reserve_attempt_ok:
  assumes "prog_ciphertext p \<noteq> None" "prog_commitment p \<noteq> None" "prog_attempts p \<in> {0, 1, 2}"
    "prog_disposition p = Prepared \<or> prog_disposition p = HandedOff"
  shows "progress_le p (snd (reserve_attempt p)) \<and> progress_ok (snd (reserve_attempt p))"
  using assms by (auto simp: progress_ok_def progress_le_def reserve_attempt_def Let_def word_le_nat_alt)

lemma reserve_progress_ok:
  assumes "progress_ok p"
  shows "progress_le p (snd (reserve_progress p)) \<and> progress_ok (snd (reserve_progress p))"
  using assms reserve_attempt_ok [of p]
  by (cases "prog_disposition p") (auto simp: progress_ok_def reserve_progress_def)

lemma accept_progress_ok:
  assumes "progress_ok p"
  shows "progress_le p (snd (accept_progress p)) \<and> progress_ok (snd (accept_progress p))"
  using assms
  by (cases "prog_disposition p") (auto simp: progress_ok_def progress_le_def accept_progress_def Let_def)

lemma cancel_progress_ok:
  assumes "progress_ok p"
  shows "progress_le p (cancel_progress p) \<and> progress_ok (cancel_progress p)"
  using assms by (cases "prog_disposition p") (simp_all add: progress_ok_def progress_le_def cancel_progress_def)

subsection \<open>The invariant of an outbox\<close>

lemma progress_mut_cases:
  obtains (none) "progress_mut recipient f s = (Inl E_NotMember, s)"
      "\<forall>p \<in> set (send_recipients s). prog_recipient p \<noteq> recipient"
  | (found) as p bs where "send_recipients s = as @ p # bs" "prog_recipient p = recipient"
      "\<forall>q \<in> set as. prog_recipient q \<noteq> recipient"
      "progress_mut recipient f s = (fst (f p), s\<lparr>send_recipients := as @ snd (f p) # bs\<rparr>)"
proof (rule with_first_cases [of "\<lambda>p. prog_recipient p = recipient" f "send_recipients s"], goal_cases)
  case 1
  then show thesis using none by (simp add: progress_mut_def)
next
  case (2 as p bs)
  then show thesis using found [of as p bs] by (simp add: progress_mut_def)
qed

lemma send_mut_cases:
  obtains (none) "send_mut ident f ob = (Inl E_Malformed, ob)" "\<forall>s \<in> set (out_sends ob). send_id s \<noteq> ident"
  | (found) as s bs where "out_sends ob = as @ s # bs" "send_id s = ident" "\<forall>t \<in> set as. send_id t \<noteq> ident"
      "send_mut ident f ob = (fst (f s), ob\<lparr>out_sends := as @ snd (f s) # bs\<rparr>)"
proof (rule with_first_cases [of "\<lambda>s. send_id s = ident" f "out_sends ob"], goal_cases)
  case 1
  then show thesis using none by (simp add: send_mut_def)
next
  case (2 as s bs)
  then show thesis using found [of as s bs] by (simp add: send_mut_def)
qed

definition send_ok :: "logical_send \<Rightarrow> bool" where
  "send_ok s \<longleftrightarrow> list_all progress_ok (send_recipients s)"

text \<open>What every operation on one send keeps.\<close>

definition send_change_ok :: "(logical_send \<Rightarrow> 'r \<times> logical_send) \<Rightarrow> bool" where
  "send_change_ok f \<longleftrightarrow> (\<forall>s. send_ok s \<longrightarrow> send_le s (snd (f s)) \<and> send_ok (snd (f s)))"

lemma progress_mut_change:
  assumes "\<And>p. progress_ok p \<Longrightarrow> progress_le p (snd (f p)) \<and> progress_ok (snd (f p))"
  shows "send_change_ok (progress_mut recipient f)"
  unfolding send_change_ok_def
proof (intro allI impI)
  fix s assume s: "send_ok s"
  show "send_le s (snd (progress_mut recipient f s)) \<and> send_ok (snd (progress_mut recipient f s))"
  proof (cases rule: progress_mut_cases [of recipient f s])
    case (found as p bs)
    then have "progress_le p (snd (f p)) \<and> progress_ok (snd (f p))" using s assms by (simp add: send_ok_def)
    then show ?thesis
      using s found by (auto simp: send_le_def send_ok_def list_all2_refl intro!: list_all2_appendI)
  qed (use s in simp)
qed

lemma send_changes_ok:
  "send_change_ok (record_prepared recipient commitment ciphertext)"
  "send_change_ok (reserve_handoff recipient)"
  "send_change_ok (record_relay_accepted recipient)"
  "send_change_ok (cancel_for_roster_change recipient)"
  unfolding record_prepared_def reserve_handoff_def record_relay_accepted_def cancel_for_roster_change_def
  by (intro progress_mut_change prepare_progress_ok reserve_progress_ok accept_progress_ok;
      simp add: cancel_progress_ok Let_def)+

lemma send_cancel_ok:
  "send_ok s \<Longrightarrow> send_le s (send_cancel_for_newer_roster revision s) \<and>
   send_ok (send_cancel_for_newer_roster revision s)"
  by (auto simp: send_cancel_for_newer_roster_def send_le_def send_ok_def list_all2_map2 list_all_iff
      list_all2_same cancel_progress_ok)

lemma disposition_le_terminal:
  "disposition_le d d' \<Longrightarrow> d \<in> {RelayAccepted, Cancelled, CancelledAfterHandoff, ExhaustedUnknown} \<Longrightarrow>
   d' \<in> {RelayAccepted, Cancelled, CancelledAfterHandoff, ExhaustedUnknown}"
  by (cases d) auto

lemma terminal_stays:
  assumes "send_le s t" "is_terminal s"
  shows "is_terminal t"
proof -
  have "list_all2 progress_le (send_recipients s) (send_recipients t)" using assms(1) by (simp add: send_le_def)
  then show ?thesis
    using assms(2) unfolding is_terminal_def
  proof (induction rule: list_all2_induct)
    case (Cons p ps q qs)
    then show ?case using disposition_le_terminal [of "prog_disposition p" "prog_disposition q"]
      by (simp add: progress_le_def)
  qed simp
qed

definition ordered :: "logical_send list \<Rightarrow> bool" where
  "ordered = sorted_wrt (\<lambda>s t. lid_revision (send_id s) = lid_revision (send_id t) \<and>
     lid_sender (send_id s) = lid_sender (send_id t) \<longrightarrow> lid_sequence (send_id s) < lid_sequence (send_id t))"

definition outbox_ok :: "group_outbox \<Rightarrow> bool" where
  "outbox_ok ob \<longleftrightarrow>
     (\<forall>s \<in> set (out_sends ob). send_ok s \<and> lid_group_id (send_id s) = out_group_id ob \<and>
        (is_terminal s \<or> out_applied_revision ob \<le> lid_revision (send_id s))) \<and>
     distinct (map send_id (out_sends ob)) \<and> ordered (out_sends ob) \<and>
     length (filter (\<lambda>s. \<not> is_terminal s) (out_sends ob)) \<le> MAX_LIVE_LOGICAL_SENDS"

lemma ordered_ids: "map send_id xs = map send_id ys \<Longrightarrow> ordered xs = ordered ys"
proof -
  let ?R = "\<lambda>i j. lid_revision i = lid_revision j \<and> lid_sender i = lid_sender j \<longrightarrow> lid_sequence i < lid_sequence j"
  have "ordered zs = sorted_wrt ?R (map send_id zs)" for zs by (simp add: ordered_def sorted_wrt_map)
  then show "map send_id xs = map send_id ys \<Longrightarrow> ordered xs = ordered ys" by simp
qed

text \<open>Sends that develop in place keep the invariant.\<close>

lemma outbox_ok_develop:
  assumes "outbox_ok ob" "list_all2 (\<lambda>s t. send_le s t \<and> send_ok t) (out_sends ob) ts"
  shows "outbox_ok (ob\<lparr>out_sends := ts\<rparr>)"
proof -
  have ids: "map send_id ts = map send_id (out_sends ob)"
    using assms(2) by (induction rule: list_all2_induct) (auto simp: send_le_def)
  have "list_all2 (\<lambda>s t. send_le s t \<and> send_ok t) xs ys \<Longrightarrow>
      length (filter (\<lambda>s. \<not> is_terminal s) ys) \<le> length (filter (\<lambda>s. \<not> is_terminal s) xs)" for xs ys
    by (induction rule: list_all2_induct) (auto dest: terminal_stays)
  then have "length (filter (\<lambda>s. \<not> is_terminal s) ts) \<le> MAX_LIVE_LOGICAL_SENDS"
    using assms le_trans by (fastforce simp: outbox_ok_def)
  moreover have "\<forall>t \<in> set ts. \<exists>s \<in> set (out_sends ob). send_le s t \<and> send_ok t"
    using assms(2) by (metis (no_types, lifting) list_all2_conv_all_nth in_set_conv_nth)
  then have "\<forall>t \<in> set ts. send_ok t \<and> lid_group_id (send_id t) = out_group_id ob \<and>
      (is_terminal t \<or> out_applied_revision ob \<le> lid_revision (send_id t))"
    using assms(1) terminal_stays unfolding outbox_ok_def send_le_def by (metis (no_types, lifting) send_le_def)
  ultimately show ?thesis using assms(1) ids ordered_ids [OF ids] by (simp add: outbox_ok_def)
qed

lemma send_mut_ok:
  assumes "outbox_ok ob" "send_change_ok f"
  shows "outbox_ok (snd (send_mut ident f ob))" "outbox_le ob (snd (send_mut ident f ob))"
proof -
  have "outbox_ok (snd (send_mut ident f ob)) \<and> outbox_le ob (snd (send_mut ident f ob))"
  proof (cases rule: send_mut_cases [of ident f ob])
    case (found as s bs)
    have ok: "\<forall>t \<in> set (as @ s # bs). send_ok t" using assms(1) found(1) by (simp add: outbox_ok_def)
    then have f: "send_le s (snd (f s)) \<and> send_ok (snd (f s))" using assms(2) by (simp add: send_change_ok_def)
    have "list_all2 (\<lambda>s t. send_le s t \<and> send_ok t) xs xs" if "\<forall>t \<in> set xs. send_ok t" for xs
      using that by (auto simp: list_all2_same)
    then have "list_all2 (\<lambda>s t. send_le s t \<and> send_ok t) (out_sends ob) (as @ snd (f s) # bs)"
      using ok f found(1) by (auto intro!: list_all2_appendI)
    then show ?thesis
      using outbox_ok_develop [OF assms(1)] found f by (simp add: outbox_le_def extends_update)
  qed (simp add: assms(1))
  then show "outbox_ok (snd (send_mut ident f ob))" "outbox_le ob (snd (send_mut ident f ob))" by blast+
qed

lemma highest_sequence_bound:
  assumes "\<not> (case highest_sequence ob r m of None \<Rightarrow> False | Some h \<Rightarrow> q \<le> h)"
    and "s \<in> set (out_sends ob)" "lid_revision (send_id s) = r" "lid_sender (send_id s) = m"
  shows "lid_sequence (send_id s) < q"
proof (cases "highest_sequence ob r m")
  case None
  then have "filter (\<lambda>s. lid_revision (send_id s) = r \<and> lid_sender (send_id s) = m) (out_sends ob) = []"
    by (simp add: highest_sequence_def)
  then show ?thesis using assms(2-4) by (auto simp: filter_empty_conv)
next
  case (Some h)
  then have "lid_sequence (send_id s) \<le> h"
    using assms(2-4) iter_max_Some unfolding highest_sequence_def by fastforce
  then show ?thesis using assms(1) Some by simp
qed

lemma outbox_insert_cases:
  "(\<exists>r. outbox_insert s c ob = (r, ob) \<and> r \<noteq> Inr Inserted) \<or>
   outbox_insert s c ob = (Inr Inserted, ob\<lparr>out_sends := out_sends ob @ [s]\<rparr>) \<and>
   lid_group_id (send_id s) = out_group_id ob \<and> (\<forall>t \<in> set (out_sends ob). send_id t \<noteq> send_id s) \<and>
   out_applied_revision ob \<le> lid_revision (send_id s) \<and>
   \<not> (case highest_sequence ob (lid_revision (send_id s)) (lid_sender (send_id s)) of
        None \<Rightarrow> False | Some h \<Rightarrow> lid_sequence (send_id s) \<le> h) \<and>
   (stays_live c s \<longrightarrow> length (filter (\<lambda>t. \<not> is_terminal t \<and> stays_live c t) (out_sends ob)) < MAX_LIVE_LOGICAL_SENDS)"
proof (cases "find (\<lambda>t. send_id t = send_id s) (out_sends ob)")
  case None
  then have "\<forall>t \<in> set (out_sends ob). send_id t \<noteq> send_id s" by (auto simp: find_None_iff)
  then show ?thesis by (simp add: outbox_insert_def None not_less not_le)
next
  case (Some t)
  then show ?thesis by (simp add: outbox_insert_def)
qed

lemma outbox_record_ok:
  assumes "outbox_ok ob" "send_ok s"
  shows "outbox_ok (snd (outbox_record s ob))" "outbox_le ob (snd (outbox_record s ob))"
proof -
  consider "snd (outbox_record s ob) = ob"
    | "snd (outbox_record s ob) = ob\<lparr>out_sends := out_sends ob @ [s]\<rparr>"
      "lid_group_id (send_id s) = out_group_id ob" "\<forall>t \<in> set (out_sends ob). send_id t \<noteq> send_id s"
      "out_applied_revision ob \<le> lid_revision (send_id s)"
      "\<not> (case highest_sequence ob (lid_revision (send_id s)) (lid_sender (send_id s)) of
        None \<Rightarrow> False | Some h \<Rightarrow> lid_sequence (send_id s) \<le> h)"
      "length (filter (\<lambda>t. \<not> is_terminal t) (out_sends ob)) < MAX_LIVE_LOGICAL_SENDS"
    using outbox_insert_cases [of s None ob] by (auto simp: outbox_record_def stays_live_def)
  then have "outbox_ok (snd (outbox_record s ob)) \<and> outbox_le ob (snd (outbox_record s ob))"
  proof cases
    case 2
    have "ordered (out_sends ob @ [s])"
      using assms(1) highest_sequence_bound [OF 2(5)] by (auto simp: outbox_ok_def ordered_def sorted_wrt_append)
    then show ?thesis
      using assms 2 by (auto simp: outbox_ok_def outbox_le_def extends_append)
  qed (simp add: assms(1))
  then show "outbox_ok (snd (outbox_record s ob))" "outbox_le ob (snd (outbox_record s ob))" by blast+
qed

lemma cancelled_terminal: "is_terminal (s\<lparr>send_recipients := map cancel_progress (send_recipients s)\<rparr>)"
  by (auto simp: is_terminal_def list_all_iff cancel_progress_def split: recipient_disposition.split)

lemma outbox_cancel_ok:
  assumes "outbox_ok ob"
  shows "outbox_ok (outbox_cancel_for_newer_roster revision ob)" "outbox_le ob (outbox_cancel_for_newer_roster revision ob)"
proof -
  let ?c = "send_cancel_for_newer_roster revision"
  have s: "send_le t (?c t) \<and> send_ok (?c t)" if "t \<in> set (out_sends ob)" for t
    using that assms send_cancel_ok by (auto simp: outbox_ok_def)
  then have "outbox_ok (ob\<lparr>out_sends := map ?c (out_sends ob)\<rparr>)"
    by (intro outbox_ok_develop [OF assms]) (auto simp: list_all2_map2 list_all2_same)
  moreover have "is_terminal (?c t) \<or> revision \<le> lid_revision (send_id (?c t))" for t
    using cancelled_terminal by (simp add: send_cancel_for_newer_roster_def)
  ultimately show "outbox_ok (outbox_cancel_for_newer_roster revision ob)"
    by (auto simp: outbox_ok_def outbox_cancel_for_newer_roster_def max_def)
  show "outbox_le ob (outbox_cancel_for_newer_roster revision ob)"
    using s by (auto simp: outbox_le_def outbox_cancel_for_newer_roster_def intro!: extends_map)
qed

primrec records_fresh :: "outbox_op \<Rightarrow> bool" where
  "records_fresh (RecordSend s) = list_all (\<lambda>p. p = fresh_progress (prog_recipient p)) (send_recipients s)"
| "records_fresh (RecordPrepared ident recipient commitment ciphertext) = True"
| "records_fresh (ReserveHandoff ident recipient) = True"
| "records_fresh (RecordRelayAccepted ident recipient) = True"
| "records_fresh (CancelRecipient ident recipient) = True"
| "records_fresh (CancelForNewerRoster revision) = True"

lemma fresh_ok: "list_all (\<lambda>p. p = fresh_progress (prog_recipient p)) (send_recipients s) \<Longrightarrow> send_ok s"
proof -
  have "progress_ok (fresh_progress m)" for m by (simp add: progress_ok_def fresh_progress_def)
  then show "list_all (\<lambda>p. p = fresh_progress (prog_recipient p)) (send_recipients s) \<Longrightarrow> send_ok s"
    unfolding send_ok_def list_all_iff by metis
qed

lemma outbox_step_ok:
  assumes "outbox_ok ob" "records_fresh x"
  shows "outbox_ok (snd (outbox_step x ob)) \<and> outbox_le ob (snd (outbox_step x ob))"
  using assms by (cases x) (simp_all add: outbox_record_ok fresh_ok send_mut_ok send_changes_ok outbox_cancel_ok)

lemma outbox_run_ok:
  "outbox_ok ob \<Longrightarrow> list_all records_fresh xs \<Longrightarrow>
   outbox_ok (final outbox_step xs ob) \<and> outbox_le ob (final outbox_step xs ob)"
proof (induction xs arbitrary: ob)
  case (Cons x xs)
  then show ?case using outbox_step_ok [of ob x] outbox_le_trans by auto
qed simp

text \<open>Alice sends Bob one message: recorded, prepared, handed off.\<close>

definition ex_send_id :: logical_id where
  "ex_send_id = \<lparr>lid_group_id = replicate 16 9, lid_revision = 1, lid_sender = ex_alice, lid_sequence = 0\<rparr>"

definition ex_send :: logical_send where
  "ex_send = \<lparr>send_id = ex_send_id, send_digest = replicate 32 7, send_payload = [1, 2],
     send_recipients = [fresh_progress ex_bob]\<rparr>"

definition ex_send_ops :: "outbox_op list" where
  "ex_send_ops = [RecordSend ex_send, RecordPrepared ex_send_id ex_bob [4] [5], ReserveHandoff ex_send_id ex_bob]"

lemma ex_send_fresh: "list_all records_fresh (ex_send_ops @ [ReserveHandoff ex_send_id ex_bob])"
  "list_all records_fresh ex_send_ops"
  by code_simp+

text \<open>
  C17.  The outbox keeps its bounds and its order.  Over any operations on a new outbox,
  where a send is recorded as \<open>LogicalSend::new\<close> builds it, with no progress yet, at most eight sends are unfinished, and none of them is older than the newest roster applied; the sends of
  one sender at one revision are kept in the order of strictly increasing sequence numbers; and no
  recipient has more than three attempts reserved, or any attempt without a stored ciphertext.
\<close>

theorem outbox_bounded:
  assumes "list_all records_fresh xs"
  shows "let ob = final outbox_step xs (outbox_new group_id)
    in length (filter (\<lambda>s. \<not> is_terminal s) (out_sends ob)) \<le> MAX_LIVE_LOGICAL_SENDS \<and>
       list_all (\<lambda>s. is_terminal s \<or> out_applied_revision ob \<le> lid_revision (send_id s)) (out_sends ob) \<and>
       sorted_wrt (\<lambda>s t. lid_revision (send_id s) = lid_revision (send_id t) \<and>
           lid_sender (send_id s) = lid_sender (send_id t) \<longrightarrow>
           lid_sequence (send_id s) < lid_sequence (send_id t)) (out_sends ob) \<and>
       list_all (\<lambda>s. list_all (\<lambda>p. prog_attempts p \<le> 3 \<and>
           (prog_attempts p = 0 \<or> prog_ciphertext p \<noteq> None)) (send_recipients s)) (out_sends ob)"
proof -
  have "outbox_ok (outbox_new group_id)" by (simp add: outbox_ok_def outbox_new_def ordered_def)
  then have ok: "outbox_ok (final outbox_step xs (outbox_new group_id))" using outbox_run_ok assms by blast
  have "progress_ok p \<Longrightarrow> prog_attempts p \<le> 3 \<and> (prog_attempts p = 0 \<or> prog_ciphertext p \<noteq> None)" for p
    by (cases "prog_disposition p") (auto simp: progress_ok_def word_le_nat_alt)
  then show ?thesis
    using ok by (auto simp: Let_def outbox_ok_def ordered_def send_ok_def list_all_iff)
qed

theorem outbox_bounded_witness:
  "length (filter (\<lambda>s. \<not> is_terminal s) (out_sends (final outbox_step ex_send_ops (outbox_new (replicate 16 9)))))
     \<le> MAX_LIVE_LOGICAL_SENDS \<and>
   length (filter (\<lambda>s. \<not> is_terminal s) (out_sends (final outbox_step ex_send_ops (outbox_new (replicate 16 9))))) = 1"
proof -
  have "length (filter (\<lambda>s. \<not> is_terminal s) (out_sends (final outbox_step ex_send_ops (outbox_new (replicate 16 9))))) = 1"
    by code_simp
  then show ?thesis
    using outbox_bounded [OF ex_send_fresh(2), of "replicate 16 9"] by (simp add: Let_def)
qed

text \<open>
  C16.  A ciphertext is never replaced and a finished send stays finished.  Whatever happens to an
  outbox later, where a send is recorded as \<open>LogicalSend::new\<close> builds it, with no progress yet, its sends keep their places, identifiers, payloads and recipients; a recipient that has
  a ciphertext keeps it and its commitment byte for byte, its reserved attempts are never taken
  back, and its disposition only goes forward: cancelled and relay-accepted recipients stay so, and an
  exhausted recipient can only be accepted.
\<close>

theorem outbox_monotone:
  assumes "list_all records_fresh (xs @ ys)"
  shows "let ob = final outbox_step xs (outbox_new group_id); ob' = final outbox_step ys ob
    in extends (\<lambda>s t. send_id s = send_id t \<and> send_digest s = send_digest t \<and> send_payload s = send_payload t \<and>
         list_all2 (\<lambda>p q. prog_recipient p = prog_recipient q \<and>
            disposition_le (prog_disposition p) (prog_disposition q) \<and> prog_attempts p \<le> prog_attempts q \<and>
            (prog_ciphertext p = None \<or> prog_ciphertext p = prog_ciphertext q \<and> prog_commitment p = prog_commitment q))
          (send_recipients s) (send_recipients t)) (out_sends ob) (out_sends ob')"
proof -
  let ?ob = "final outbox_step xs (outbox_new group_id)"
  let ?le = "\<lambda>p q. prog_recipient p = prog_recipient q \<and>
    disposition_le (prog_disposition p) (prog_disposition q) \<and> prog_attempts p \<le> prog_attempts q \<and>
    (prog_ciphertext p = None \<or> prog_ciphertext p = prog_ciphertext q \<and> prog_commitment p = prog_commitment q)"
  have "outbox_ok (outbox_new group_id)" by (simp add: outbox_ok_def outbox_new_def ordered_def)
  then have ok: "outbox_ok ?ob" using outbox_run_ok assms by simp
  then have le: "extends send_le (out_sends ?ob) (out_sends (final outbox_step ys ?ob))"
    using outbox_run_ok [of ?ob ys] assms by (simp add: outbox_le_def)
  have p: "?le p q" if "progress_le p q" "progress_ok p" for p q
    using that by (cases "prog_disposition p") (auto simp: progress_le_def progress_ok_def)
  have s: "list_all2 ?le ps qs" if "list_all2 progress_le ps qs" "list_all progress_ok ps" for ps qs
    using that by (induction rule: list_all2_induct) (use p in auto)
  show ?thesis
    unfolding Let_def
    by (rule extends_mono [OF le]) (use ok s in \<open>auto simp: outbox_ok_def send_le_def send_ok_def\<close>)
qed

theorem outbox_monotone_witness:
  "let ob = final outbox_step ex_send_ops (outbox_new (replicate 16 9))
   in extends (\<lambda>s t. send_id s = send_id t) (out_sends ob)
     (out_sends (final outbox_step [ReserveHandoff ex_send_id ex_bob] ob))"
  using outbox_monotone [OF ex_send_fresh(1), of "replicate 16 9"]
  unfolding Let_def by (rule extends_mono) blast

end
