(* ===== verification/Group_Recovery.thy ===== *)
theory Group_Recovery
  imports Group_Send
begin

text \<open>
  Crate \<^verbatim>\<open>tacenta-group\<close>, \<^verbatim>\<open>send.rs\<close>: rebuilding the outbox from the transcript of its records, and the
  client's writers of those records (crate \<^verbatim>\<open>tacenta-client\<close>, \<^verbatim>\<open>group_operations.rs\<close>).  A record is a tag
  of four bytes and a body: \<open>TCGI\<close> an intent, \<open>TCGP\<close> a prepared ciphertext, \<open>TCGH\<close> a reserved handoff,
  \<open>TCGA\<close> the relay's acceptance.
\<close>

section \<open>Reading the records\<close>

definition decode_intent_record :: "bytes \<Rightarrow> logical_send group_result" where
  "decode_intent_record bytes =
     rbind (ok_or E_Malformed (split_at_checked 4 bytes)) (\<lambda>(n, intent).
       if length intent \<noteq> unat (u32_from_be n) then Inl E_Malformed else decode_intent intent)"

definition logical_id_from_context :: "application_context \<Rightarrow> logical_id group_result" where
  "logical_id_from_context context =
     logical_id_new (ctx_group_id context) (ctx_revision context) (ctx_sender context) (ctx_sequence context)"

record progress_record =
  rec_context :: application_context
  rec_commitment :: bytes
  rec_ciphertext :: bytes
  rec_rest :: bytes

definition decode_progress_record :: "bytes \<Rightarrow> progress_record group_result" where
  "decode_progress_record bytes =
     rbind (take_lp bytes) (\<lambda>(context_bytes, c).
     rbind (context_decode context_bytes) (\<lambda>context.
     rbind (g_take DIGEST_LEN c) (\<lambda>(digest, c).
     rbind (digest_try_from digest) (\<lambda>commitment.
     rbind (take_lp c) (\<lambda>(ciphertext, c).
       Inr \<lparr>rec_context = context, rec_commitment = commitment, rec_ciphertext = ciphertext, rec_rest = c\<rparr>)))))"

definition decode_handoff_suffix :: "bytes \<Rightarrow> (byte \<times> recipient_disposition) group_result" where
  "decode_handoff_suffix bytes =
     (case bytes of
        [attempts, code] \<Rightarrow>
          if code = 0 then Inr (attempts, HandedOff)
          else if code = 1 then Inr (attempts, ExhaustedUnknown)
          else Inl E_Malformed
      | _ \<Rightarrow> Inl E_Malformed)"

text \<open>A change of one send, where the replay stops at its refusal.\<close>

definition try_send ::
  "logical_id \<Rightarrow> (logical_send \<Rightarrow> 'r group_result \<times> logical_send) \<Rightarrow> group_outbox \<Rightarrow> group_outbox group_result" where
  "try_send ident f ob = (case send_mut ident f ob of (r, ob') \<Rightarrow> rbind r (\<lambda>_. Inr ob'))"

lemma try_send_Inr: "try_send ident f ob = Inr ob' \<longleftrightarrow> (\<exists>r. send_mut ident f ob = (Inr r, ob'))"
  by (auto simp: try_send_def rbind_eq_Inr split: prod.split)

text \<open>What \<open>apply_recovered_preparation\<close> does to the send it found.\<close>

definition prepare_recovered ::
  "application_context \<Rightarrow> bytes \<Rightarrow> bytes \<Rightarrow> bool \<Rightarrow> logical_send \<Rightarrow> unit group_result \<times> logical_send" where
  "prepare_recovered context commitment ciphertext after_final_attempt s =
     (case send_application_context s (ctx_recipient context) of
        Inl e \<Rightarrow> (Inl e, s)
      | Inr own \<Rightarrow>
          if own \<noteq> context then (Inl E_Conflict, s)
          else
            let prepare = (case record_prepared (ctx_recipient context) commitment ciphertext s of
                  (r, s') \<Rightarrow> (rbind r (\<lambda>_. Inr ()), s'))
            in if after_final_attempt then
                 (case progress s (ctx_recipient context) of
                    Inl e \<Rightarrow> (Inl e, s)
                  | Inr stored \<Rightarrow>
                      if prog_disposition stored = ExhaustedUnknown then
                        (if prog_commitment stored = Some commitment \<and> prog_ciphertext stored = Some ciphertext
                         then Inr () else Inl E_Conflict, s)
                      else prepare)
               else prepare)"

definition apply_recovered_preparation ::
  "bytes \<Rightarrow> progress_record \<Rightarrow> (bytes \<Rightarrow> bytes) \<Rightarrow> bool \<Rightarrow> group_outbox \<Rightarrow> group_outbox group_result" where
  "apply_recovered_preparation group_id record payload_commitment after_final_attempt ob =
     (let context = rec_context record in
      if ctx_group_id context \<noteq> group_id then Inr ob
      else
        rbind (context_encode context) (\<lambda>context_bytes.
        if rec_commitment record \<noteq> payload_commitment context_bytes then Inl E_Conflict
        else
        rbind (logical_id_from_context context) (\<lambda>ident.
          try_send ident
            (prepare_recovered context (rec_commitment record) (rec_ciphertext record) after_final_attempt) ob)))"

definition reserve_recovered :: "member \<Rightarrow> byte \<Rightarrow> recipient_disposition \<Rightarrow> logical_send \<Rightarrow> unit group_result \<times> logical_send" where
  "reserve_recovered recipient attempts disposition s =
     (case progress s recipient of
        Inl e \<Rightarrow> (Inl e, s)
      | Inr prior \<Rightarrow>
          if prog_attempts prior = 255 \<or> attempts \<noteq> prog_attempts prior + 1 then (Inl E_Malformed, s)
          else
            case reserve_handoff recipient s of
              (r, s') \<Rightarrow>
                (rbind r (\<lambda>p. if prog_attempts p \<noteq> attempts \<or> prog_disposition p \<noteq> disposition
                              then Inl E_Malformed else Inr ()), s'))"

definition recover_intent :: "bytes \<Rightarrow> u64 option \<Rightarrow> bytes \<Rightarrow> group_outbox \<Rightarrow> group_outbox group_result" where
  "recover_intent group_id applied_revision body ob =
     rbind (decode_intent_record body) (\<lambda>s.
       if lid_group_id (send_id s) \<noteq> group_id then Inr ob
       else case outbox_insert s applied_revision ob of
         (r, ob') \<Rightarrow> rbind r (\<lambda>disposition. if disposition \<noteq> Inserted then Inl E_Conflict else Inr ob'))"

definition recover_prepared :: "bytes \<Rightarrow> (bytes \<Rightarrow> bytes) \<Rightarrow> bytes \<Rightarrow> group_outbox \<Rightarrow> group_outbox group_result" where
  "recover_prepared group_id payload_commitment body ob =
     rbind (decode_progress_record body) (\<lambda>record.
       if rec_rest record \<noteq> [] then Inl E_Malformed
       else apply_recovered_preparation group_id record payload_commitment False ob)"

definition recover_handoff :: "bytes \<Rightarrow> (bytes \<Rightarrow> bytes) \<Rightarrow> bytes \<Rightarrow> group_outbox \<Rightarrow> group_outbox group_result" where
  "recover_handoff group_id payload_commitment body ob =
     rbind (decode_progress_record body) (\<lambda>record.
     rbind (decode_handoff_suffix (rec_rest record)) (\<lambda>(attempts, disposition).
       if ctx_group_id (rec_context record) \<noteq> group_id then Inr ob
       else
     rbind (apply_recovered_preparation group_id record payload_commitment False ob) (\<lambda>ob.
     rbind (logical_id_from_context (rec_context record)) (\<lambda>ident.
       try_send ident (reserve_recovered (ctx_recipient (rec_context record)) attempts disposition) ob))))"

definition recover_acceptance :: "bytes \<Rightarrow> (bytes \<Rightarrow> bytes) \<Rightarrow> bytes \<Rightarrow> group_outbox \<Rightarrow> group_outbox group_result" where
  "recover_acceptance group_id payload_commitment body ob =
     rbind (decode_progress_record body) (\<lambda>record.
       if rec_rest record \<noteq> [] then Inl E_Malformed
       else if ctx_group_id (rec_context record) \<noteq> group_id then Inr ob
       else
     rbind (apply_recovered_preparation group_id record payload_commitment True ob) (\<lambda>ob.
     rbind (logical_id_from_context (rec_context record)) (\<lambda>ident.
       try_send ident (record_relay_accepted (ctx_recipient (rec_context record))) ob)))"

definition recover_entry ::
  "bytes \<Rightarrow> u64 option \<Rightarrow> (bytes \<Rightarrow> bytes) \<Rightarrow> bytes \<Rightarrow> group_outbox \<Rightarrow> group_outbox group_result" where
  "recover_entry group_id applied_revision payload_commitment entry ob =
     (if length entry < 4 then
        (if starts_with entry (ascii ''TCG'') then Inl E_Malformed else Inr ob)
      else
        let tag = take 4 entry; body = drop 4 entry
        in if tag = ascii ''TCGI'' then recover_intent group_id applied_revision body ob
           else if tag = ascii ''TCGP'' then recover_prepared group_id payload_commitment body ob
           else if tag = ascii ''TCGH'' then recover_handoff group_id payload_commitment body ob
           else if tag = ascii ''TCGA'' then recover_acceptance group_id payload_commitment body ob
           else if starts_with tag (ascii ''TCG'') then Inl E_Malformed
           else Inr ob)"

fun recover_loop ::
  "bytes \<Rightarrow> u64 option \<Rightarrow> (bytes \<Rightarrow> bytes) \<Rightarrow> bytes list \<Rightarrow> group_outbox \<Rightarrow> group_outbox group_result" where
  "recover_loop group_id applied_revision payload_commitment [] ob = Inr ob"
| "recover_loop group_id applied_revision payload_commitment (entry # entries) ob =
     rbind (recover_entry group_id applied_revision payload_commitment entry ob)
       (recover_loop group_id applied_revision payload_commitment entries)"

definition recover_from_transcript_at_revision ::
  "bytes \<Rightarrow> bytes list \<Rightarrow> u64 option \<Rightarrow> (bytes \<Rightarrow> bytes) \<Rightarrow> group_outbox group_result" where
  "recover_from_transcript_at_revision group_id entries applied_revision payload_commitment =
     rbind (recover_loop group_id applied_revision payload_commitment entries (outbox_new group_id)) (\<lambda>ob.
       Inr (case applied_revision of None \<Rightarrow> ob | Some revision \<Rightarrow> outbox_cancel_for_newer_roster revision ob))"

definition recover_from_transcript ::
  "bytes \<Rightarrow> bytes list \<Rightarrow> (bytes \<Rightarrow> bytes) \<Rightarrow> group_outbox group_result" where
  "recover_from_transcript group_id entries payload_commitment =
     recover_from_transcript_at_revision group_id entries None payload_commitment"

section \<open>Intents survive the transcript\<close>

definition intent_typed :: "logical_send \<Rightarrow> bool" where
  "intent_typed s \<longleftrightarrow> length (lid_group_id (send_id s)) = GROUP_ID_LEN \<and> length (send_digest s) = DIGEST_LEN"

definition intent_fresh :: "logical_send \<Rightarrow> bool" where
  "intent_fresh s \<longleftrightarrow> send_recipients s = map fresh_progress (map prog_recipient (send_recipients s))"

definition intent_bytes :: "logical_send \<Rightarrow> bytes" where
  "intent_bytes s = LOGICAL_SEND_DOMAIN @ lp (lid_group_id (send_id s)) @ u64_to_be (lid_revision (send_id s))
     @ member_bytes (lid_sender (send_id s)) @ u64_to_be (lid_sequence (send_id s)) @ lp (send_digest s)
     @ lp (send_payload s) @ u32_to_be (of_nat (length (send_recipients s)))
     @ concat (map member_bytes (map prog_recipient (send_recipients s)))"

definition intent_valid :: "logical_send \<Rightarrow> bool" where
  "intent_valid s \<longleftrightarrow> member_ok (lid_sender (send_id s)) \<and> length (send_payload s) \<le> MAX_PAYLOAD_LEN \<and>
     send_recipients s \<noteq> [] \<and> length (send_recipients s) \<le> MAX_MEMBERS \<and>
     list_all member_ok (map prog_recipient (send_recipients s)) \<and>
     validate_recovery_recipients (map prog_recipient (send_recipients s)) = Inr () \<and>
     lid_revision (send_id s) \<noteq> RESERVED_REVISION"

lemma validate_all_Inr: "validate_all ms = Inr u \<longleftrightarrow> list_all member_ok ms"
  by (induction ms) (auto simp: rbind_eq_Inr)

lemma validate_intent_Inr: "validate_intent s = Inr u \<longleftrightarrow> intent_valid s"
  by (auto simp: validate_intent_def intent_valid_def rbind_eq_Inr validate_all_Inr)

lemma rput_many_recipients:
  "list_all member_ok (map prog_recipient ps) \<Longrightarrow>
   rput_many (\<lambda>p. put_member (prog_recipient p)) ps = Inr (concat (map member_bytes (map prog_recipient ps)))"
proof (induction ps)
  case (Cons p ps)
  then show ?case using put_member_ok [of "prog_recipient p" "member_bytes (prog_recipient p)"] by simp
qed simp

lemma encode_intent_Inr:
  assumes "intent_typed s"
  shows "encode_intent s = Inr out \<longleftrightarrow> intent_valid s \<and> out = intent_bytes s"
proof (cases "intent_valid s")
  case True
  then have "rput_many (\<lambda>p. put_member (prog_recipient p)) (send_recipients s)
      = Inr (concat (map member_bytes (map prog_recipient (send_recipients s))))"
    "g_put_u32 (length (send_recipients s)) = Inr (u32_to_be (of_nat (length (send_recipients s))))"
    using rput_many_recipients by (auto simp: intent_valid_def g_put_u32_Inr group_bounds)
  then show ?thesis
    using True assms put_member_ok [of "lid_sender (send_id s)"]
    by (auto simp: encode_intent_def rbind_eq_Inr validate_intent_Inr put_lp_Inr intent_bytes_def
        intent_typed_def intent_valid_def group_bounds)
qed (auto simp: encode_intent_def rbind_eq_Inr validate_intent_Inr)

lemma decode_intent_exact:
  "decode_intent bytes = Inr s \<longleftrightarrow> intent_typed s \<and> intent_fresh s \<and> encode_intent s = Inr bytes"
proof
  assume "decode_intent bytes = Inr s"
  then have "intent_typed s \<and> intent_fresh s \<and> intent_valid s \<and> bytes = intent_bytes s"
    by (auto simp: decode_intent_def starts_with_iff rbind_eq_Inr take_Inr rtake_many_members
        logical_id_new_def intent_typed_def intent_fresh_def intent_valid_def intent_bytes_def
        fresh_progress_def o_def group_id_try_from_def digest_try_from_def split: if_splits)
  then show "intent_typed s \<and> intent_fresh s \<and> encode_intent s = Inr bytes" by (simp add: encode_intent_Inr)
next
  assume "intent_typed s \<and> intent_fresh s \<and> encode_intent s = Inr bytes"
  then have s: "intent_typed s" "intent_fresh s" "intent_valid s" "bytes = intent_bytes s"
    using encode_intent_Inr by auto
  let ?ms = "map prog_recipient (send_recipients s)"
  have "rtake_many take_member (length ?ms) (concat (map member_bytes ?ms)) = Inr (?ms, [])"
    using s(3) by (simp only: rtake_many_members) (simp add: intent_valid_def)
  moreover have "\<lparr>send_id = \<lparr>lid_group_id = lid_group_id (send_id s), lid_revision = lid_revision (send_id s),
      lid_sender = lid_sender (send_id s), lid_sequence = lid_sequence (send_id s)\<rparr>, send_digest = send_digest s,
      send_payload = send_payload s, send_recipients = map fresh_progress ?ms\<rparr> = s"
    using s(2) by (simp add: intent_fresh_def)
  ultimately show "decode_intent bytes = Inr s"
    using s(1,3) by (simp add: decode_intent_def s(4) intent_bytes_def intent_typed_def intent_valid_def
        group_bounds unat_of_nat_u32 group_id_try_from_def digest_try_from_def logical_id_new_def)
qed

section \<open>What a replay rebuilds\<close>

text \<open>
  Every send of a replayed outbox is well formed, belongs to the group, and the commitments it stores
  are those of its own contexts.
\<close>

definition context_commitment :: "(bytes \<Rightarrow> bytes) \<Rightarrow> logical_send \<Rightarrow> member \<Rightarrow> bytes group_result" where
  "context_commitment pc s recipient =
     rbind (send_application_context s recipient) (\<lambda>c. rbind (context_encode c) (\<lambda>b. Inr (pc b)))"

definition replayed_send :: "(bytes \<Rightarrow> bytes) \<Rightarrow> logical_send \<Rightarrow> bool" where
  "replayed_send pc s \<longleftrightarrow> send_ok s \<and> intent_typed s \<and>
     (\<forall>p \<in> set (send_recipients s). \<forall>k. prog_commitment p = Some k \<longrightarrow>
        context_commitment pc s (prog_recipient p) = Inr k)"

definition replayed :: "(bytes \<Rightarrow> bytes) \<Rightarrow> group_outbox \<Rightarrow> bool" where
  "replayed pc ob \<longleftrightarrow> out_applied_revision ob = 0 \<and>
     (\<forall>s \<in> set (out_sends ob). replayed_send pc s \<and> lid_group_id (send_id s) = out_group_id ob)"

lemma send_le_names:
  assumes "send_le s t"
  shows "map prog_recipient (send_recipients t) = map prog_recipient (send_recipients s)"
proof -
  have "list_all2 progress_le (send_recipients s) (send_recipients t)" using assms by (simp add: send_le_def)
  then show ?thesis by (induction rule: list_all2_induct) (auto simp: progress_le_def)
qed

lemma progress_absent: "progress s m = Inl E_NotMember \<longleftrightarrow> m \<notin> set (map prog_recipient (send_recipients s))"
proof -
  have "find (\<lambda>p. prog_recipient p = m) ps = None \<longleftrightarrow> m \<notin> set (map prog_recipient ps)" for ps
    by (induction ps) auto
  then have "find (\<lambda>p. prog_recipient p = m) (send_recipients s) = None \<longleftrightarrow>
      m \<notin> set (map prog_recipient (send_recipients s))" .
  then show ?thesis by (cases "find (\<lambda>p. prog_recipient p = m) (send_recipients s)") (simp_all add: progress_def)
qed

lemma progress_Inl: "progress s m = Inl e \<Longrightarrow> e = E_NotMember"
  by (simp add: progress_def ok_or_def split: option.splits)

lemma send_le_context:
  assumes "send_le s t"
  shows "send_application_context t m = send_application_context s m"
proof (cases "progress s m")
  case (Inl e)
  then have "progress s m = Inl E_NotMember" "progress t m = Inl E_NotMember"
    using progress_Inl [of s m] progress_absent send_le_names [OF assms] by metis+
  then show ?thesis by (simp add: send_application_context_def rbind_def)
next
  case (Inr p)
  then have "progress t m \<noteq> Inl E_NotMember"
    using progress_absent [of s m] progress_absent [of t m] send_le_names [OF assms] by (metis Inl_Inr_False)
  then obtain q where "progress t m = Inr q" using progress_Inl by (cases "progress t m") auto
  then show ?thesis using Inr assms by (simp add: send_application_context_def send_le_def)
qed

lemma send_le_commitment: "send_le s t \<Longrightarrow> context_commitment pc t m = context_commitment pc s m"
  by (simp add: context_commitment_def send_le_context)

text \<open>An operation that keeps the stored commitments keeps the invariant of a send.\<close>

lemma replayed_send_develop:
  assumes "replayed_send pc s" "send_change_ok f"
    "\<And>q k. q \<in> set (send_recipients (snd (f s))) \<Longrightarrow> prog_commitment q = Some k \<Longrightarrow>
       (\<exists>p \<in> set (send_recipients s). prog_recipient p = prog_recipient q \<and> prog_commitment p = Some k) \<or>
       context_commitment pc s (prog_recipient q) = Inr k"
  shows "replayed_send pc (snd (f s)) \<and> send_id (snd (f s)) = send_id s"
proof -
  have f: "send_le s (snd (f s))" "send_ok (snd (f s))"
    using assms(1,2) by (auto simp: replayed_send_def send_change_ok_def)
  have "context_commitment pc (snd (f s)) (prog_recipient q) = Inr k"
    if "q \<in> set (send_recipients (snd (f s)))" "prog_commitment q = Some k" for q k
    using assms(1) assms(3) [OF that] send_le_commitment [OF f(1)] by (auto simp: replayed_send_def)
  then show ?thesis using assms(1) f by (auto simp: replayed_send_def send_le_def intent_typed_def)
qed

lemma progress_mut_commitments:
  assumes "\<And>p. prog_recipient (snd (f p)) = prog_recipient p"
    "q \<in> set (send_recipients (snd (progress_mut m f s)))" "prog_commitment q = Some k"
  shows "(\<exists>p \<in> set (send_recipients s). prog_recipient p = prog_recipient q \<and> prog_commitment p = Some k) \<or>
    (\<exists>p \<in> set (send_recipients s). prog_recipient p = m \<and> q = snd (f p))"
proof (cases rule: progress_mut_cases [of m f s])
  case (found as p bs)
  then show ?thesis using assms by auto
qed (use assms in auto)

lemma record_prepared_replayed:
  assumes "replayed_send pc s" "context_commitment pc s m = Inr k"
  shows "replayed_send pc (snd (record_prepared m k ct s)) \<and> send_id (snd (record_prepared m k ct s)) = send_id s"
proof (rule replayed_send_develop [OF assms(1) send_changes_ok(1)])
  have f: "prog_recipient (snd (prepare_progress k ct p)) = prog_recipient p" for p
    by (simp add: prepare_progress_def Let_def split: recipient_disposition.split)
  have k: "prog_commitment (snd (prepare_progress k ct p)) \<in> {Some k, prog_commitment p}" for p
    by (simp add: prepare_progress_def Let_def split: recipient_disposition.split)
  fix q x assume q: "q \<in> set (send_recipients (snd (record_prepared m k ct s)))" "prog_commitment q = Some x"
  show "(\<exists>p \<in> set (send_recipients s). prog_recipient p = prog_recipient q \<and> prog_commitment p = Some x) \<or>
      context_commitment pc s (prog_recipient q) = Inr x"
    using progress_mut_commitments [OF f q(1) [unfolded record_prepared_def] q(2)] f k assms(2) q(2)
    by (metis insertE option.inject singletonD)
qed

lemma reserve_accept_replayed:
  assumes "replayed_send pc s"
  shows "replayed_send pc (snd (reserve_handoff m s)) \<and> send_id (snd (reserve_handoff m s)) = send_id s"
    "replayed_send pc (snd (record_relay_accepted m s)) \<and> send_id (snd (record_relay_accepted m s)) = send_id s"
proof -
  have r: "prog_recipient (snd (reserve_progress p)) = prog_recipient p \<and>
      prog_commitment (snd (reserve_progress p)) = prog_commitment p" for p
    by (simp add: reserve_progress_def reserve_attempt_def Let_def split: recipient_disposition.split)
  have a: "prog_recipient (snd (accept_progress p)) = prog_recipient p \<and>
      prog_commitment (snd (accept_progress p)) = prog_commitment p" for p
    by (simp add: accept_progress_def Let_def)
  show "replayed_send pc (snd (reserve_handoff m s)) \<and> send_id (snd (reserve_handoff m s)) = send_id s"
    by (rule replayed_send_develop [OF assms send_changes_ok(2)])
      (use progress_mut_commitments [of reserve_progress _ m s] r in \<open>metis reserve_handoff_def\<close>)
  show "replayed_send pc (snd (record_relay_accepted m s)) \<and> send_id (snd (record_relay_accepted m s)) = send_id s"
    by (rule replayed_send_develop [OF assms send_changes_ok(3)])
      (use progress_mut_commitments [of accept_progress _ m s] a in \<open>metis record_relay_accepted_def\<close>)
qed

lemma try_send_replayed:
  assumes "try_send ident f ob = Inr ob'" "replayed pc ob"
    "\<And>s. replayed_send pc s \<Longrightarrow> replayed_send pc (snd (f s)) \<and> send_id (snd (f s)) = send_id s"
  shows "replayed pc ob' \<and> out_group_id ob' = out_group_id ob"
proof (cases rule: send_mut_cases [of ident f ob])
  case (found as s bs)
  then have "replayed_send pc (snd (f s)) \<and> send_id (snd (f s)) = send_id s"
    using assms(2,3) by (auto simp: replayed_def)
  moreover have "ob' = ob\<lparr>out_sends := as @ snd (f s) # bs\<rparr>" using assms(1) found(4) by (auto simp: try_send_Inr)
  ultimately show ?thesis using assms(2) found by (auto simp: replayed_def)
qed (use assms(1) in \<open>simp add: try_send_Inr\<close>)

lemma prepare_recovered_replayed:
  assumes "replayed_send pc s" "context_encode context = Inr b"
  shows "replayed_send pc (snd (prepare_recovered context (pc b) ct after s)) \<and>
    send_id (snd (prepare_recovered context (pc b) ct after s)) = send_id s"
proof (cases "send_application_context s (ctx_recipient context) = Inr context")
  case True
  then have "context_commitment pc s (ctx_recipient context) = Inr (pc b)"
    using assms(2) by (simp add: context_commitment_def)
  then show ?thesis
    using True assms(1) record_prepared_replayed [OF assms(1), of "ctx_recipient context" "pc b" ct]
    by (auto simp: prepare_recovered_def Let_def split: prod.split sum.split)
next
  case False
  then show ?thesis using assms(1) by (simp add: prepare_recovered_def split: sum.split)
qed

lemma apply_recovered_replayed:
  assumes "apply_recovered_preparation gid record pc after ob = Inr ob'" "replayed pc ob"
  shows "replayed pc ob' \<and> out_group_id ob' = out_group_id ob"
proof (cases "ctx_group_id (rec_context record) = gid")
  case True
  then obtain b ident where b: "context_encode (rec_context record) = Inr b"
    "try_send ident (prepare_recovered (rec_context record) (pc b) (rec_ciphertext record) after) ob = Inr ob'"
    using assms(1) by (auto simp: apply_recovered_preparation_def Let_def rbind_eq_Inr split: if_splits)
  show ?thesis by (rule try_send_replayed [OF b(2) assms(2) prepare_recovered_replayed [OF _ b(1)]])
qed (use assms in \<open>simp add: apply_recovered_preparation_def Let_def\<close>)

lemma reserve_recovered_replayed:
  "replayed_send pc s \<Longrightarrow>
   replayed_send pc (snd (reserve_recovered m n d s)) \<and> send_id (snd (reserve_recovered m n d s)) = send_id s"
  using reserve_accept_replayed(1) [of pc s m]
  by (auto simp: reserve_recovered_def split: sum.split prod.split)

lemma map_fresh: "ps = map fresh_progress (map prog_recipient ps) \<Longrightarrow> p \<in> set ps \<Longrightarrow> p = fresh_progress (prog_recipient p)"
  by (induction ps) auto

lemma decode_intent_replayed:
  assumes "decode_intent bytes = Inr s"
  shows "replayed_send pc s"
proof -
  have s: "intent_typed s" "intent_fresh s" using assms by (simp_all add: decode_intent_exact)
  then have "\<forall>p \<in> set (send_recipients s). p = fresh_progress (prog_recipient p)"
    using map_fresh unfolding intent_fresh_def by blast
  moreover from this have "send_ok s" by (intro fresh_ok) (simp add: list_all_iff)
  moreover have "prog_commitment (fresh_progress m) = None" for m by (simp add: fresh_progress_def)
  ultimately show ?thesis using s(1) unfolding replayed_send_def by (metis option.distinct(1))
qed

lemma recover_intent_replayed:
  assumes "recover_intent gid c body ob = Inr ob'" "replayed pc ob"
  shows "replayed pc ob' \<and> out_group_id ob' = out_group_id ob"
proof -
  obtain s where s: "decode_intent_record body = Inr s" using assms(1) by (auto simp: recover_intent_def rbind_eq_Inr)
  then have ok: "replayed_send pc s"
    by (auto simp: decode_intent_record_def rbind_eq_Inr decode_intent_replayed split: if_splits)
  show ?thesis
    using outbox_insert_cases [of s c ob] assms ok s
    by (auto simp: recover_intent_def rbind_eq_Inr replayed_def split: if_splits)
qed

lemma apply_try_replayed:
  assumes "apply_recovered_preparation gid record pc after ob = Inr ob1" "try_send ident f ob1 = Inr ob'" "replayed pc ob"
    "\<And>s. replayed_send pc s \<Longrightarrow> replayed_send pc (snd (f s)) \<and> send_id (snd (f s)) = send_id s"
  shows "replayed pc ob' \<and> out_group_id ob' = out_group_id ob"
  using apply_recovered_replayed [OF assms(1,3)] try_send_replayed [OF assms(2) _ assms(4)] by simp

lemma recover_entry_cases:
  assumes "recover_entry gid c pc e ob = Inr ob'"
  obtains "ob' = ob" | "recover_intent gid c (drop 4 e) ob = Inr ob'" | "recover_prepared gid pc (drop 4 e) ob = Inr ob'"
    | "recover_handoff gid pc (drop 4 e) ob = Inr ob'" | "recover_acceptance gid pc (drop 4 e) ob = Inr ob'"
proof -
  have "recover_entry gid c pc e ob \<in> {Inl E_Malformed, Inr ob, recover_intent gid c (drop 4 e) ob,
      recover_prepared gid pc (drop 4 e) ob, recover_handoff gid pc (drop 4 e) ob, recover_acceptance gid pc (drop 4 e) ob}"
    unfolding recover_entry_def Let_def by (simp only: insert_iff if_bool_eq_disj split: if_split) blast
  then show thesis using that assms by fastforce
qed

lemma recover_entry_replayed:
  assumes "recover_entry gid c pc e ob = Inr ob'" "replayed pc ob"
  shows "replayed pc ob' \<and> out_group_id ob' = out_group_id ob"
proof -
  have prepared: "replayed pc ob' \<and> out_group_id ob' = out_group_id ob" if "recover_prepared gid pc body ob = Inr ob'" for body
    using that assms(2) apply_recovered_replayed by (auto simp: recover_prepared_def rbind_eq_Inr split: if_splits)
  have handoff: "replayed pc ob' \<and> out_group_id ob' = out_group_id ob" if r: "recover_handoff gid pc body ob = Inr ob'" for body
  proof -
    consider "ob' = ob"
      | rcd ob1 ident m n d where "apply_recovered_preparation gid rcd pc False ob = Inr ob1"
          "try_send ident (reserve_recovered m n d) ob1 = Inr ob'"
      using r by (auto simp: recover_handoff_def rbind_eq_Inr split: if_splits)
    then show ?thesis using assms(2) apply_try_replayed [OF _ _ _ reserve_recovered_replayed] by cases auto
  qed
  have acceptance: "replayed pc ob' \<and> out_group_id ob' = out_group_id ob" if r: "recover_acceptance gid pc body ob = Inr ob'" for body
  proof -
    consider "ob' = ob"
      | rcd ob1 ident m where "apply_recovered_preparation gid rcd pc True ob = Inr ob1"
          "try_send ident (record_relay_accepted m) ob1 = Inr ob'"
      using r by (auto simp: recover_acceptance_def rbind_eq_Inr split: if_splits)
    then show ?thesis using assms(2) apply_try_replayed [OF _ _ _ reserve_accept_replayed(2)] by cases auto
  qed
  show ?thesis
    using assms(1)
  proof (cases rule: recover_entry_cases)
    case 2
    then show ?thesis using recover_intent_replayed assms(2) by blast
  qed (use assms(2) prepared handoff acceptance in blast)+
qed

lemma recover_loop_replayed:
  "recover_loop gid c pc es ob = Inr ob' \<Longrightarrow> replayed pc ob \<Longrightarrow> replayed pc ob' \<and> out_group_id ob' = out_group_id ob"
proof (induction es arbitrary: ob)
  case (Cons e es)
  then obtain ob1 where ob1: "recover_entry gid c pc e ob = Inr ob1" "recover_loop gid c pc es ob1 = Inr ob'"
    by (auto simp: rbind_eq_Inr)
  show ?case using recover_entry_replayed [OF ob1(1) Cons.prems(2)] Cons.IH [OF ob1(2)] by simp
qed simp

lemma recover_loop_append:
  "recover_loop gid c pc (es @ fs) ob = rbind (recover_loop gid c pc es ob) (recover_loop gid c pc fs)"
proof (induction es arbitrary: ob)
  case (Cons e es)
  then show ?case by (cases "recover_entry gid c pc e ob") (simp_all add: rbind_def)
qed simp

text \<open>Replaying under a newer applied revision counts fewer sends as live, and refuses nothing more.\<close>

lemma length_filter_mono: "(\<And>x. P x \<Longrightarrow> Q x) \<Longrightarrow> length (filter P xs) \<le> length (filter Q xs)"
  by (induction xs) (auto simp: le_SucI)

lemma recover_entry_widen:
  assumes "recover_entry gid c pc e ob = Inr ob'" "\<And>s. stays_live c' s \<Longrightarrow> stays_live c s"
  shows "recover_entry gid c' pc e ob = Inr ob'"
proof -
  have "recover_intent gid c' body ob = Inr ob'" if r: "recover_intent gid c body ob = Inr ob'" for body
  proof -
    obtain s where s: "decode_intent_record body = Inr s" using r by (auto simp: recover_intent_def rbind_eq_Inr)
    have "length (filter (\<lambda>t. \<not> is_terminal t \<and> stays_live c' t) (out_sends ob))
        \<le> length (filter (\<lambda>t. \<not> is_terminal t \<and> stays_live c t) (out_sends ob))"
      using assms(2) by (auto intro: length_filter_mono)
    then have "outbox_insert s c ob = (Inr Inserted, x) \<Longrightarrow> outbox_insert s c' ob = (Inr Inserted, x)" for x
      using assms(2) [of s] by (auto simp: outbox_insert_def split: if_splits option.splits)
    moreover have "recover_intent gid d body ob = Inr ob' \<longleftrightarrow>
        (if lid_group_id (send_id s) \<noteq> gid then ob' = ob else outbox_insert s d ob = (Inr Inserted, ob'))" for d
      using s by (cases "outbox_insert s d ob") (auto simp: recover_intent_def rbind_eq_Inr)
    ultimately show ?thesis using r by (cases "lid_group_id (send_id s) = gid") simp_all
  qed
  moreover have "recover_entry gid c' pc e ob = recover_entry gid c pc e ob \<or>
      recover_entry gid c pc e ob = recover_intent gid c (drop 4 e) ob \<and>
      recover_entry gid c' pc e ob = recover_intent gid c' (drop 4 e) ob"
    unfolding recover_entry_def Let_def
    by (cases "length e < 4"; cases "take 4 e = ascii ''TCGI''") (simp_all only: if_True if_False simp_thms)
  ultimately show ?thesis using assms(1) by metis
qed

lemma recover_loop_widen:
  assumes "\<And>s. stays_live c' s \<Longrightarrow> stays_live c s"
  shows "recover_loop gid c pc es ob = Inr ob' \<Longrightarrow> recover_loop gid c' pc es ob = Inr ob'"
proof (induction es arbitrary: ob)
  case (Cons e es)
  then obtain ob1 where ob1: "recover_entry gid c pc e ob = Inr ob1" "recover_loop gid c pc es ob1 = Inr ob'"
    by (auto simp: rbind_eq_Inr)
  show ?case using recover_entry_widen [OF ob1(1) assms] Cons.IH [OF ob1(2)] by simp
qed simp

section \<open>The running outbox and its replay\<close>

text \<open>
  The running outbox is the replayed one with the newest applied roster's cancellations on top.  An
  operation that succeeds on the running outbox succeeds on the replayed one, and cancelling
  afterwards gives the same result.
\<close>

definition cancel_send :: "u64 option \<Rightarrow> logical_send \<Rightarrow> logical_send" where
  "cancel_send c s = (case c of None \<Rightarrow> s | Some r \<Rightarrow> send_cancel_for_newer_roster r s)"

definition cancel_to :: "u64 option \<Rightarrow> group_outbox \<Rightarrow> group_outbox" where
  "cancel_to c ob = (case c of None \<Rightarrow> ob | Some r \<Rightarrow> outbox_cancel_for_newer_roster r ob)"

lemma recover_at_revision_Inr:
  "recover_from_transcript_at_revision gid es c pc = Inr live \<longleftrightarrow>
   (\<exists>ob. recover_loop gid c pc es (outbox_new gid) = Inr ob \<and> live = cancel_to c ob)"
  by (auto simp: recover_from_transcript_at_revision_def cancel_to_def rbind_eq_Inr)

lemma cancel_to_fields [simp]:
  "out_sends (cancel_to c ob) = map (cancel_send c) (out_sends ob)"
  "out_group_id (cancel_to c ob) = out_group_id ob"
  by (simp_all add: cancel_to_def cancel_send_def outbox_cancel_for_newer_roster_def map_idI split: option.split)

lemma cancel_to_sends: "cancel_to c (ob\<lparr>out_sends := ss\<rparr>) = (cancel_to c ob)\<lparr>out_sends := map (cancel_send c) ss\<rparr>"
  by (simp add: cancel_to_def cancel_send_def outbox_cancel_for_newer_roster_def map_idI split: option.split)

lemma cancel_send_id [simp]: "send_id (cancel_send c s) = send_id s"
  by (simp add: cancel_send_def send_cancel_for_newer_roster_def split: option.split)

lemma cancel_send_live: "stays_live c s \<Longrightarrow> cancel_send c s = s"
  by (auto simp: cancel_send_def stays_live_def send_cancel_for_newer_roster_def split: option.splits)

lemma cancel_send_old:
  "\<not> stays_live c s \<Longrightarrow> cancel_send c s = s\<lparr>send_recipients := map cancel_progress (send_recipients s)\<rparr>"
  by (auto simp: cancel_send_def stays_live_def send_cancel_for_newer_roster_def split: option.splits)

lemma cancel_send_le: "send_ok s \<Longrightarrow> send_le s (cancel_send c s)"
  using send_cancel_ok by (simp add: cancel_send_def split: option.split)

lemma replayed_new: "replayed pc (outbox_new gid)"
  by (simp add: replayed_def outbox_new_def)

lemma with_first_map:
  assumes "with_first P f (map h xs) = Some (r, ys)" "\<And>x. P (h x) = P x"
  obtains as x bs where "xs = as @ x # bs" "P x" "\<forall>y \<in> set as. \<not> P y" "r = fst (f (h x))"
    "ys = map h as @ snd (f (h x)) # map h bs"
proof (rule with_first_cases [of P f "map h xs"], goal_cases)
  case 1
  then show thesis using assms(1) by simp
next
  case (2 as y bs)
  then obtain as' x bs' where xs: "xs = as' @ x # bs'" "as = map h as'" "y = h x" "bs = map h bs'"
    by (auto simp: map_eq_append_conv map_eq_Cons_conv)
  moreover have "P x" "\<forall>y \<in> set as'. \<not> P y" using 2 xs assms(2) by auto
  ultimately show thesis using that [of as' x bs'] 2 assms(1) by simp
qed

lemma try_send_at:
  "out_sends ob = as @ s # bs \<Longrightarrow> send_id s = ident \<Longrightarrow> \<forall>t \<in> set as. send_id t \<noteq> ident \<Longrightarrow> g s = (Inr u, t) \<Longrightarrow>
   try_send ident g ob = Inr (ob\<lparr>out_sends := as @ t # bs\<rparr>)"
  using with_first_at [of as "\<lambda>s. send_id s = ident" s g bs] by (simp add: try_send_def send_mut_def)

lemma send_mut_replay:
  assumes "send_mut ident f (cancel_to c ob) = (Inr r, live)"
  obtains as s bs where "out_sends ob = as @ s # bs" "send_id s = ident" "\<forall>t \<in> set as. send_id t \<noteq> ident"
    "fst (f (cancel_send c s)) = Inr r"
    "\<And>t. cancel_send c t = snd (f (cancel_send c s)) \<Longrightarrow> live = cancel_to c (ob\<lparr>out_sends := as @ t # bs\<rparr>)"
proof -
  obtain ss where ss: "with_first (\<lambda>s. send_id s = ident) f (map (cancel_send c) (out_sends ob)) = Some (Inr r, ss)"
    "live = (cancel_to c ob)\<lparr>out_sends := ss\<rparr>"
    using assms by (auto simp: send_mut_def split: option.splits)
  from ss(1) obtain as s bs where s: "out_sends ob = as @ s # bs" "send_id s = ident" "\<forall>t \<in> set as. send_id t \<noteq> ident"
    "Inr r = fst (f (cancel_send c s))" "ss = map (cancel_send c) as @ snd (f (cancel_send c s)) # map (cancel_send c) bs"
    by (rule with_first_map) simp_all
  show thesis
    by (rule that [OF s(1-3)]) (use s(4,5) ss(2) in \<open>simp_all add: cancel_to_sends\<close>)
qed

text \<open>A cancelled recipient takes no preparation and no handoff, and is accepted only when exhausted.\<close>

lemma cancel_progress_cases:
  "prog_disposition (cancel_progress p) \<notin> {RecipientPending, Prepared, HandedOff}"
  "prog_disposition (cancel_progress p) = ExhaustedUnknown \<Longrightarrow> cancel_progress p = p"
  "prog_recipient (cancel_progress p) = prog_recipient p"
  by (simp_all add: cancel_progress_def split: recipient_disposition.splits)

lemma progress_mut_old:
  assumes "\<not> stays_live c s" "fst (progress_mut m f (cancel_send c s)) = Inr r"
  obtains as p bs where "send_recipients s = as @ p # bs" "prog_recipient p = m" "\<forall>q \<in> set as. prog_recipient q \<noteq> m"
    "fst (f (cancel_progress p)) = Inr r"
    "snd (progress_mut m f (cancel_send c s))
       = s\<lparr>send_recipients := map cancel_progress as @ snd (f (cancel_progress p)) # map cancel_progress bs\<rparr>"
proof -
  obtain ps where ps: "with_first (\<lambda>p. prog_recipient p = m) f (map cancel_progress (send_recipients s)) = Some (Inr r, ps)"
    "snd (progress_mut m f (cancel_send c s)) = s\<lparr>send_recipients := ps\<rparr>"
    using assms by (auto simp: progress_mut_def cancel_send_old split: option.splits)
  from ps(1) show thesis
    by (rule with_first_map) (use ps(2) that in \<open>simp_all add: cancel_progress_cases(3)\<close>)
qed

lemma prepare_stays_live:
  assumes "fst (record_prepared m k ct (cancel_send c s)) = Inr p"
  shows "stays_live c s"
proof (rule ccontr)
  assume "\<not> stays_live c s"
  then obtain q where "fst (prepare_progress k ct (cancel_progress q)) = Inr p"
    using assms unfolding record_prepared_def by (rule progress_mut_old)
  then show False using cancel_progress_cases(1) [of q]
    by (auto simp: prepare_progress_def split: recipient_disposition.splits)
qed

lemma reserve_stays_live:
  assumes "fst (reserve_handoff m (cancel_send c s)) = Inr p"
  shows "stays_live c s"
proof (rule ccontr)
  assume "\<not> stays_live c s"
  then obtain q where "fst (reserve_progress (cancel_progress q)) = Inr p"
    using assms unfolding reserve_handoff_def by (rule progress_mut_old)
  then show False using cancel_progress_cases(1) [of q]
    by (auto simp: reserve_progress_def split: recipient_disposition.splits)
qed

definition first_progress :: "logical_send \<Rightarrow> member \<Rightarrow> recipient_progress list \<Rightarrow> recipient_progress \<Rightarrow> recipient_progress list \<Rightarrow> bool" where
  "first_progress s m as q bs \<longleftrightarrow>
     send_recipients s = as @ q # bs \<and> prog_recipient q = m \<and> (\<forall>p \<in> set as. prog_recipient p \<noteq> m)"

lemma first_progress_at:
  assumes "first_progress s m as q bs"
  shows "progress s m = Inr q" "progress_mut m f s = (fst (f q), s\<lparr>send_recipients := as @ snd (f q) # bs\<rparr>)"
    "s\<lparr>send_recipients := as @ q # bs\<rparr> = s"
proof -
  have "\<forall>p \<in> set as. prog_recipient p \<noteq> m \<Longrightarrow> prog_recipient q = m \<Longrightarrow>
      find (\<lambda>p. prog_recipient p = m) (as @ q # bs) = Some q" for as
    by (induction as) auto
  then show "progress s m = Inr q" using assms by (simp add: progress_def first_progress_def)
  show "progress_mut m f s = (fst (f q), s\<lparr>send_recipients := as @ snd (f q) # bs\<rparr>)"
    using assms with_first_at [of as "\<lambda>p. prog_recipient p = m" q f bs] by (simp add: progress_mut_def first_progress_def)
  show "s\<lparr>send_recipients := as @ q # bs\<rparr> = s" using assms by (cases s) (simp add: first_progress_def)
qed

lemma progress_mut_first:
  assumes "fst (progress_mut m f s) = Inr r"
  obtains as q bs where "first_progress s m as q bs" "fst (f q) = Inr r"
  using assms
proof (cases rule: progress_mut_cases [of m f s])
  case (found as p bs)
  then show thesis using that [of as p bs] assms by (simp add: first_progress_def)
qed simp

text \<open>A preparation that repeats what is stored changes nothing.\<close>

lemma prepare_recovered_repeat:
  assumes "first_progress s m as q bs" "send_application_context s m = Inr ctx" "ctx_recipient ctx = m"
    "prog_commitment q = Some k" "prog_ciphertext q = Some ct"
    "prog_disposition q \<in> {Prepared, HandedOff} \<or> after \<and> prog_disposition q = ExhaustedUnknown"
  shows "prepare_recovered ctx k ct after s = (Inr (), s)"
  using assms(2-6) first_progress_at [OF assms(1)]
  by (auto simp: prepare_recovered_def record_prepared_def prepare_progress_def Let_def
      split: recipient_disposition.splits)

lemma cancel_send_same_id: "stays_live c s \<Longrightarrow> send_id t = send_id s \<Longrightarrow> cancel_send c t = t"
  by (rule cancel_send_live) (simp add: stays_live_def split: option.splits)

lemma prepared_replay:
  assumes "fst (record_prepared m k ct (cancel_send c s)) = Inr p" "send_application_context s m = Inr ctx"
    "ctx_recipient ctx = m"
  shows "\<exists>t. prepare_recovered ctx k ct False s = (Inr (), t) \<and> cancel_send c t = snd (record_prepared m k ct (cancel_send c s))"
proof -
  have live: "cancel_send c s = s" using prepare_stays_live [OF assms(1)] by (rule cancel_send_live)
  obtain as q bs where q: "first_progress s m as q bs"
    using assms(1) live unfolding record_prepared_def by (metis progress_mut_first)
  let ?t = "snd (record_prepared m k ct s)"
  have "send_id ?t = send_id s" using first_progress_at(2) [OF q] by (simp add: record_prepared_def)
  then have "cancel_send c ?t = ?t" using cancel_send_same_id prepare_stays_live [OF assms(1)] by blast
  moreover have "prepare_recovered ctx k ct False s = (Inr (), ?t)"
    using assms live by (cases "record_prepared m k ct s") (simp add: prepare_recovered_def Let_def)
  ultimately show ?thesis using live by auto
qed

lemma handoff_replay:
  assumes "fst (reserve_handoff m (cancel_send c s)) = Inr p" "send_application_context s m = Inr ctx"
    "ctx_recipient ctx = m" "prog_commitment p = Some k" "prog_ciphertext p = Some ct"
  shows "prepare_recovered ctx k ct False s = (Inr (), s)"
    "\<exists>t. reserve_recovered m (prog_attempts p) (prog_disposition p) s = (Inr (), t) \<and>
       cancel_send c t = snd (reserve_handoff m (cancel_send c s))"
    "\<exists>q \<in> set (send_recipients s). prog_recipient q = m \<and> prog_commitment q = Some k"
    "prog_disposition p \<in> {HandedOff, ExhaustedUnknown}"
proof -
  have live: "cancel_send c s = s" using reserve_stays_live [OF assms(1)] by (rule cancel_send_live)
  obtain as q bs where q: "first_progress s m as q bs" "fst (reserve_progress q) = Inr p"
    using assms(1) live unfolding reserve_handoff_def by (metis progress_mut_first)
  then have d: "prog_disposition q \<in> {Prepared, HandedOff}" "prog_commitment q = Some k" "prog_ciphertext q = Some ct"
    "prog_attempts q < 3" "prog_attempts p = prog_attempts q + 1" "prog_disposition p \<in> {HandedOff, ExhaustedUnknown}"
    using assms(4,5) by (auto simp: reserve_progress_def reserve_attempt_def Let_def split: recipient_disposition.splits if_splits)
  show "prepare_recovered ctx k ct False s = (Inr (), s)"
    by (rule prepare_recovered_repeat [OF q(1) assms(2,3) d(2,3)]) (use d(1) in blast)
  let ?t = "snd (reserve_handoff m s)"
  have "send_id ?t = send_id s" using first_progress_at(2) [OF q(1)] by (simp add: reserve_handoff_def)
  then have "cancel_send c ?t = ?t" using cancel_send_same_id reserve_stays_live [OF assms(1)] by blast
  moreover have "prog_attempts q \<noteq> 255" using d(4) by auto
  then have "reserve_recovered m (prog_attempts p) (prog_disposition p) s = (Inr (), ?t)"
    using assms(1) live d(5) first_progress_at(1) [OF q(1)]
    by (cases "reserve_handoff m s") (simp add: reserve_recovered_def)
  ultimately show "\<exists>t. reserve_recovered m (prog_attempts p) (prog_disposition p) s = (Inr (), t) \<and>
      cancel_send c t = snd (reserve_handoff m (cancel_send c s))" using live by auto
  show "\<exists>q \<in> set (send_recipients s). prog_recipient q = m \<and> prog_commitment q = Some k"
    using q(1) d(2) by (auto simp: first_progress_def)
  show "prog_disposition p \<in> {HandedOff, ExhaustedUnknown}" by (rule d(6))
qed

lemma accept_first:
  assumes "fst (record_relay_accepted m (cancel_send c s)) = Inr p"
  obtains as q bs where "first_progress s m as q bs" "prog_disposition q \<in> {HandedOff, ExhaustedUnknown}"
    "p = q\<lparr>prog_disposition := RelayAccepted\<rparr>"
    "cancel_send c (s\<lparr>send_recipients := as @ p # bs\<rparr>) = snd (record_relay_accepted m (cancel_send c s))"
proof (cases "stays_live c s")
  case True
  then have live: "cancel_send c s = s" by (rule cancel_send_live)
  obtain as q bs where q: "first_progress s m as q bs" "fst (accept_progress q) = Inr p"
    using assms live unfolding record_relay_accepted_def by (metis progress_mut_first)
  then have d: "prog_disposition q \<in> {HandedOff, ExhaustedUnknown}" "p = q\<lparr>prog_disposition := RelayAccepted\<rparr>"
    "snd (accept_progress q) = p"
    by (auto simp: accept_progress_def Let_def split: if_splits)
  have "cancel_send c (s\<lparr>send_recipients := as @ p # bs\<rparr>) = s\<lparr>send_recipients := as @ p # bs\<rparr>"
    by (rule cancel_send_same_id [OF True]) simp
  then show thesis
    using that [OF q(1) d(1,2)] live d(3) first_progress_at(2) [OF q(1)] by (simp add: record_relay_accepted_def)
next
  case False
  from False assms [unfolded record_relay_accepted_def]
  obtain as q bs where q: "send_recipients s = as @ q # bs" "prog_recipient q = m" "\<forall>r \<in> set as. prog_recipient r \<noteq> m"
    "fst (accept_progress (cancel_progress q)) = Inr p"
    "snd (progress_mut m accept_progress (cancel_send c s))
       = s\<lparr>send_recipients := map cancel_progress as @ snd (accept_progress (cancel_progress q)) # map cancel_progress bs\<rparr>"
    by (rule progress_mut_old)
  then have "prog_disposition (cancel_progress q) = ExhaustedUnknown"
    using cancel_progress_cases(1) [of q] by (auto simp: accept_progress_def split: if_splits)
  then have same: "cancel_progress q = q" "prog_disposition q = ExhaustedUnknown"
    using cancel_progress_cases(2) [of q] by simp_all
  then have p: "p = q\<lparr>prog_disposition := RelayAccepted\<rparr>" "snd (accept_progress q) = p" "cancel_progress p = p"
    using q(4) by (auto simp: accept_progress_def Let_def cancel_progress_def)
  have old: "\<not> stays_live c (s\<lparr>send_recipients := as @ p # bs\<rparr>)" using False by (simp add: stays_live_def split: option.splits)
  show thesis
    by (rule that [of as q bs])
      (use q same p old in \<open>simp_all add: first_progress_def record_relay_accepted_def cancel_send_old\<close>)
qed

lemma acceptance_replay:
  assumes "fst (record_relay_accepted m (cancel_send c s)) = Inr p" "send_application_context s m = Inr ctx"
    "ctx_recipient ctx = m" "prog_commitment p = Some k" "prog_ciphertext p = Some ct"
  shows "prepare_recovered ctx k ct True s = (Inr (), s)"
    "\<exists>t. record_relay_accepted m s = (Inr p, t) \<and> cancel_send c t = snd (record_relay_accepted m (cancel_send c s))"
    "\<exists>q \<in> set (send_recipients s). prog_recipient q = m \<and> prog_commitment q = Some k"
proof -
  from assms(1) obtain as q bs where q: "first_progress s m as q bs" "prog_disposition q \<in> {HandedOff, ExhaustedUnknown}"
    "p = q\<lparr>prog_disposition := RelayAccepted\<rparr>"
    "cancel_send c (s\<lparr>send_recipients := as @ p # bs\<rparr>) = snd (record_relay_accepted m (cancel_send c s))"
    by (rule accept_first)
  have k: "prog_commitment q = Some k" "prog_ciphertext q = Some ct" using assms(4,5) q(3) by simp_all
  show "prepare_recovered ctx k ct True s = (Inr (), s)"
    by (rule prepare_recovered_repeat [OF q(1) assms(2,3) k]) (use q(2) in blast)
  have "accept_progress q = (Inr p, p)" using q(2,3) by (simp add: accept_progress_def Let_def)
  then have "record_relay_accepted m s = (Inr p, s\<lparr>send_recipients := as @ p # bs\<rparr>)"
    using first_progress_at(2) [OF q(1)] by (simp add: record_relay_accepted_def)
  then show "\<exists>t. record_relay_accepted m s = (Inr p, t) \<and>
      cancel_send c t = snd (record_relay_accepted m (cancel_send c s))"
    using q(4) by blast
  show "\<exists>q \<in> set (send_recipients s). prog_recipient q = m \<and> prog_commitment q = Some k"
    using q(1) k(1) by (auto simp: first_progress_def)
qed

text \<open>Recording an intent on the running outbox inserts it into the replayed one.\<close>

lemma intent_replay:
  assumes "replayed pc ob" "outbox_record s (cancel_to c ob) = (Inr Inserted, live)"
  shows "outbox_insert s c ob = (Inr Inserted, ob\<lparr>out_sends := out_sends ob @ [s]\<rparr>)"
    "live = cancel_to c (ob\<lparr>out_sends := out_sends ob @ [s]\<rparr>)"
proof -
  let ?live = "map (cancel_send c) (out_sends ob)"
  have ins: "live = (cancel_to c ob)\<lparr>out_sends := ?live @ [s]\<rparr>" "lid_group_id (send_id s) = out_group_id ob"
    "\<forall>t \<in> set (out_sends ob). send_id t \<noteq> send_id s" "out_applied_revision (cancel_to c ob) \<le> lid_revision (send_id s)"
    "\<not> (case highest_sequence (cancel_to c ob) (lid_revision (send_id s)) (lid_sender (send_id s)) of
        None \<Rightarrow> False | Some h \<Rightarrow> lid_sequence (send_id s) \<le> h)"
    "length (filter (\<lambda>t. \<not> is_terminal t) ?live) < MAX_LIVE_LOGICAL_SENDS"
    using outbox_insert_cases [of s None "cancel_to c ob"] assms(2) by (auto simp: outbox_record_def stays_live_def)
  have live_s: "stays_live c s"
    using ins(4) assms(1)
    by (auto simp: stays_live_def cancel_to_def replayed_def outbox_cancel_for_newer_roster_def split: option.splits)
  then show "live = cancel_to c (ob\<lparr>out_sends := out_sends ob @ [s]\<rparr>)"
    using ins(1) by (simp add: cancel_to_sends cancel_send_live)
  have "highest_sequence (cancel_to c ob) r m = highest_sequence ob r m" for r m
    by (simp add: highest_sequence_def filter_map o_def)
  moreover have "length (filter (\<lambda>t. \<not> is_terminal t \<and> stays_live c t) (out_sends ob))
      \<le> length (filter (\<lambda>t. \<not> is_terminal t) ?live)"
    unfolding filter_map length_map by (intro length_filter_mono) (simp add: cancel_send_live)
  ultimately show "outbox_insert s c ob = (Inr Inserted, ob\<lparr>out_sends := out_sends ob @ [s]\<rparr>)"
    using ins assms(1) find_None_iff [of "\<lambda>t. send_id t = send_id s" "out_sends ob"]
    by (auto simp: outbox_insert_def replayed_def)
qed


end
