(* ===== verification/Group_Receive_State.thy ===== *)
theory Group_Receive_State
  imports Group_Receive
begin

text \<open>
  Crate \<^verbatim>\<open>tacenta-group\<close>, \<^verbatim>\<open>receive.rs\<close>, the checkpoint of a receiver: its codec, the invariant
  every reachable receiver keeps, the bound on what it holds, and that a restart loses nothing.
  The two commitment functions of the caller are the parameters \<open>roster_commitment\<close> and
  \<open>payload_commitment\<close>.
\<close>

section \<open>The checkpoint codec\<close>

definition put_accepted :: "accepted_item \<Rightarrow> bytes group_result" where
  "put_accepted accepted =
     rbind (put_member (key_sender (acc_key accepted))) (\<lambda>sender.
       Inr (u64_to_be (key_revision (acc_key accepted)) @ sender
            @ u64_to_be (key_sequence (acc_key accepted)) @ acc_commitment accepted
            @ u64_to_be (acc_event_id accepted)))"

definition put_deferred :: "deferred_item \<Rightarrow> bytes group_result" where
  "put_deferred deferred =
     rbind (context_encode (def_context deferred)) (\<lambda>bytes.
     rbind (put_lp bytes) (\<lambda>context. Inr (context @ def_commitment deferred)))"

definition receiver_encode_state :: "group_receiver \<Rightarrow> bytes group_result" where
  "receiver_encode_state g =
     rbind (roster_encode (recv_roster g)) (\<lambda>roster.
     rbind (member_validate (recv_local g)) (\<lambda>_.
     rbind (put_lp roster) (\<lambda>roster_lp.
     rbind (put_member (recv_local g)) (\<lambda>local.
     rbind (g_put_u32 (length (recv_accepted g))) (\<lambda>accepted_count.
     rbind (rput_many put_accepted (recv_accepted g)) (\<lambda>accepted.
     rbind (g_put_u32 (length (recv_deferred g))) (\<lambda>deferred_count.
     rbind (rput_many put_deferred (recv_deferred g)) (\<lambda>deferred.
       let out = RECEIVER_STATE_DOMAIN @ roster_lp @ recv_digest g @ local @ u64_to_be (recv_next_event g)
                 @ accepted_count @ accepted @ deferred_count @ deferred
       in if length out > MAX_RECEIVER_STATE_LEN then Inl E_Malformed else Inr out))))))))"

fun take_accepted ::
  "roster \<Rightarrow> u64 \<Rightarrow> nat \<Rightarrow> accepted_item list \<Rightarrow> bytes \<Rightarrow> (accepted_item list \<times> bytes) group_result" where
  "take_accepted r next_event_id 0 accepted i = Inr (accepted, i)"
| "take_accepted r next_event_id (Suc n) accepted i =
     rbind (g_take_u64 i) (\<lambda>(revision, i).
     rbind (take_member i) (\<lambda>(sender, i).
     rbind (g_take_u64 i) (\<lambda>(sequence, i).
     rbind (g_take DIGEST_LEN i) (\<lambda>(digest, i).
     rbind (digest_try_from digest) (\<lambda>commitment.
     rbind (g_take_u64 i) (\<lambda>(event_id, i).
       if revision \<noteq> ros_revision r \<or> \<not> list_ex (\<lambda>m. m = sender) (ros_members r)
          \<or> event_id \<ge> next_event_id
       then Inl E_Malformed
       else
         let key = \<lparr>key_group = ros_group_id r, key_revision = revision, key_sender = sender,
                    key_sequence = sequence\<rparr>
         in if list_ex (\<lambda>item. acc_key item = key) accepted
               \<or> list_ex (\<lambda>item. acc_event_id item = event_id) accepted
            then Inl E_Conflict
            else take_accepted r next_event_id n
              (accepted @ [\<lparr>acc_key = key, acc_commitment = commitment, acc_event_id = event_id\<rparr>]) i))))))"

fun take_deferred ::
  "roster \<Rightarrow> member \<Rightarrow> (bytes \<Rightarrow> bytes) \<Rightarrow> nat \<Rightarrow> deferred_item list \<Rightarrow> bytes
     \<Rightarrow> (deferred_item list \<times> bytes) group_result" where
  "take_deferred r local payload_commitment 0 deferred i = Inr (deferred, i)"
| "take_deferred r local payload_commitment (Suc n) deferred i =
     rbind (take_lp i) (\<lambda>(context_bytes, i).
       if length context_bytes > MAX_APPLICATION_CONTEXT_LEN then Inl E_ContextTooLarge
       else
     rbind (context_decode context_bytes) (\<lambda>context.
     rbind (g_take DIGEST_LEN i) (\<lambda>(digest, i).
     rbind (digest_try_from digest) (\<lambda>commitment.
       if ctx_group_id context \<noteq> ros_group_id r \<or> ctx_recipient context \<noteq> local
          \<or> ctx_revision context \<le> ros_revision r
          \<or> ctx_revision context > saturating_add (ros_revision r) FUTURE_REVISIONS
          \<or> commitment \<noteq> payload_commitment context_bytes
       then Inl E_Conflict
       else if list_ex (\<lambda>item. ctx_group_id (def_context item) = ctx_group_id context
                 \<and> ctx_revision (def_context item) = ctx_revision context
                 \<and> ctx_sender (def_context item) = ctx_sender context
                 \<and> ctx_sequence (def_context item) = ctx_sequence context) deferred
       then Inl E_Conflict
       else take_deferred r local payload_commitment n
              (deferred @ [\<lparr>def_context = context, def_commitment = commitment\<rparr>]) i))))"

definition one_each :: "deferred_item list \<Rightarrow> bool" where
  "one_each unlisted =
     list_all (\<lambda>(index, item). list_all (\<lambda>earlier. mem_identity (ctx_sender (def_context earlier))
           \<noteq> mem_identity (ctx_sender (def_context item))) (take index unlisted))
       (zip [0..<length unlisted] unlisted)"

definition receiver_decode_state ::
  "bytes \<Rightarrow> (bytes \<Rightarrow> bytes) \<Rightarrow> (bytes \<Rightarrow> bytes) \<Rightarrow> group_receiver group_result" where
  "receiver_decode_state bytes roster_commitment payload_commitment =
     (if length bytes > MAX_RECEIVER_STATE_LEN \<or> \<not> starts_with bytes RECEIVER_STATE_DOMAIN
      then Inl E_Malformed
      else
        rbind (take_lp (drop (length RECEIVER_STATE_DOMAIN) bytes)) (\<lambda>(roster_bytes, i).
        if length roster_bytes > MAX_ROSTER_LEN then Inl E_RosterTooLarge else
        rbind (roster_decode roster_bytes) (\<lambda>roster.
        rbind (g_take DIGEST_LEN i) (\<lambda>(digest, i).
        rbind (digest_try_from digest) (\<lambda>roster_digest.
        if roster_digest \<noteq> roster_commitment roster_bytes then Inl E_Conflict else
        rbind (take_member i) (\<lambda>(local, i).
        let terminal = ros_closed roster \<or> \<not> list_ex (\<lambda>m. m = local) (ros_members roster) in
        rbind (g_take_u64 i) (\<lambda>(next_event_id, i).
        rbind (g_take_u32 i) (\<lambda>(accepted_count, i).
        if unat accepted_count > MAX_MEMBERS * unat DEDUP_WINDOW then Inl E_Malformed
        else if terminal \<and> unat accepted_count \<noteq> 0 then Inl E_NonCanonical else
        rbind (take_accepted roster next_event_id (unat accepted_count) [] i) (\<lambda>(accepted, i).
        rbind (g_take_u32 i) (\<lambda>(deferred_count, i).
        if unat deferred_count > MAX_DEFERRED then Inl E_Malformed
        else if terminal \<and> unat deferred_count \<noteq> 0 then Inl E_NonCanonical else
        rbind (take_deferred roster local payload_commitment (unat deferred_count) [] i) (\<lambda>(deferred, i).
        let unlisted = filter (\<lambda>item. ros_closed roster
               \<or> \<not> list_ex (\<lambda>m. m = ctx_sender (def_context item)) (ros_members roster)) deferred
        in if length unlisted > MAX_DEFERRED_UNLISTED \<or> \<not> one_each unlisted then Inl E_Conflict
           else if i \<noteq> [] then Inl E_Malformed
           else Inr \<lparr>recv_roster = roster, recv_digest = roster_digest, recv_local = local,
                     recv_accepted = accepted, recv_deferred = deferred,
                     recv_next_event = next_event_id\<rparr>)))))))))))"

section \<open>What the codec accepts\<close>

definition accepted_bytes :: "accepted_item \<Rightarrow> bytes" where
  "accepted_bytes item = u64_to_be (key_revision (acc_key item)) @ member_bytes (key_sender (acc_key item))
     @ u64_to_be (key_sequence (acc_key item)) @ acc_commitment item @ u64_to_be (acc_event_id item)"

definition accepted_ok :: "roster \<Rightarrow> accepted_item \<Rightarrow> bool" where
  "accepted_ok r item \<longleftrightarrow> key_group (acc_key item) = ros_group_id r \<and>
     key_revision (acc_key item) = ros_revision r \<and> key_sender (acc_key item) \<in> set (ros_members r) \<and>
     member_ok (key_sender (acc_key item)) \<and> length (acc_commitment item) = DIGEST_LEN"

definition deferred_bytes :: "deferred_item \<Rightarrow> bytes" where
  "deferred_bytes item = lp (context_bytes (def_context item)) @ def_commitment item"

definition deferred_ok :: "(bytes \<Rightarrow> bytes) \<Rightarrow> roster \<Rightarrow> member \<Rightarrow> deferred_item \<Rightarrow> bool" where
  "deferred_ok payload_commitment r local item \<longleftrightarrow>
     (let c = def_context item
      in context_typed c \<and> context_valid c \<and> ctx_group_id c = ros_group_id r \<and> ctx_recipient c = local \<and>
         ros_revision r < ctx_revision c \<and>
         ctx_revision c \<le> saturating_add (ros_revision r) FUTURE_REVISIONS \<and>
         def_commitment item = payload_commitment (context_bytes c) \<and>
         length (def_commitment item) = DIGEST_LEN)"

lemma ex_length_Suc: "(\<exists>xs. length xs = Suc n \<and> P xs) \<longleftrightarrow> (\<exists>x xs. length xs = n \<and> P (x # xs))"
  by (metis length_Suc_conv)

lemma take_accepted_step:
  "take_accepted r nxt (Suc n) acc i = Inr out \<longleftrightarrow>
    (\<exists>item rest. accepted_ok r item \<and> acc_event_id item < nxt \<and>
       (\<forall>j \<in> set acc. acc_key j \<noteq> acc_key item \<and> acc_event_id j \<noteq> acc_event_id item) \<and> i = accepted_bytes item @ rest \<and>
       take_accepted r nxt n (acc @ [item]) rest = Inr out)"
proof
  assume "take_accepted r nxt (Suc n) acc i = Inr out"
  then show "\<exists>item rest. accepted_ok r item \<and> acc_event_id item < nxt \<and>
       (\<forall>j \<in> set acc. acc_key j \<noteq> acc_key item \<and> acc_event_id j \<noteq> acc_event_id item) \<and> i = accepted_bytes item @ rest \<and>
       take_accepted r nxt n (acc @ [item]) rest = Inr out"
    apply (clarsimp simp: rbind_eq_Inr take_Inr g_take_Inr digest_try_from_def Let_def list_ex_iff
        split: if_splits)
    subgoal for sender sequence commitment event_id rest
      by (rule exI [of _ "\<lparr>acc_key = \<lparr>key_group = ros_group_id r, key_revision = ros_revision r,
            key_sender = sender, key_sequence = sequence\<rparr>, acc_commitment = commitment, acc_event_id = event_id\<rparr>"])
        (auto simp: accepted_ok_def accepted_bytes_def)
    done
next
  assume "\<exists>item rest. accepted_ok r item \<and> acc_event_id item < nxt \<and>
       (\<forall>j \<in> set acc. acc_key j \<noteq> acc_key item \<and> acc_event_id j \<noteq> acc_event_id item) \<and> i = accepted_bytes item @ rest \<and>
       take_accepted r nxt n (acc @ [item]) rest = Inr out"
  then obtain item rest where item: "accepted_ok r item" "acc_event_id item < nxt"
    "\<forall>j \<in> set acc. acc_key j \<noteq> acc_key item \<and> acc_event_id j \<noteq> acc_event_id item"
    "i = accepted_bytes item @ rest" "take_accepted r nxt n (acc @ [item]) rest = Inr out" by blast
  have "g_take DIGEST_LEN (acc_commitment item @ rest') = Inr (acc_commitment item, rest')" for rest'
    using item(1) by (simp add: g_take_Inr accepted_ok_def)
  then show "take_accepted r nxt (Suc n) acc i = Inr out"
    using item by (cases item; cases "acc_key item")
      (auto simp: accepted_bytes_def accepted_ok_def digest_try_from_def list_ex_iff Let_def)
qed

lemma take_accepted_Inr:
  assumes "distinct (map acc_key acc)" "distinct (map acc_event_id acc)"
  shows "take_accepted r nxt n acc i = Inr (out, rest) \<longleftrightarrow>
    (\<exists>new. length new = n \<and> out = acc @ new \<and> (\<forall>item \<in> set new. accepted_ok r item \<and> acc_event_id item < nxt) \<and>
       distinct (map acc_key out) \<and> distinct (map acc_event_id out) \<and>
       i = concat (map accepted_bytes new) @ rest)"
  using assms
proof (induction n arbitrary: acc i)
  case (Suc n)
  let ?Q = "\<lambda>acc new i. out = acc @ new \<and>
    (\<forall>item \<in> set new. accepted_ok r item \<and> acc_event_id item < nxt) \<and>
    distinct (map acc_key out) \<and> distinct (map acc_event_id out) \<and> i = concat (map accepted_bytes new) @ rest"
  let ?fresh = "\<lambda>item. \<forall>j \<in> set acc. acc_key j \<noteq> acc_key item \<and> acc_event_id j \<noteq> acc_event_id item"
  have IH: "take_accepted r nxt n (acc @ [item]) i' = Inr (out, rest) \<longleftrightarrow> (\<exists>new. length new = n \<and> ?Q (acc @ [item]) new i')"
    if "?fresh item" for item i'
    by (rule Suc.IH) (use Suc.prems that in fastforce)+
  have "take_accepted r nxt (Suc n) acc i = Inr (out, rest) \<longleftrightarrow>
     (\<exists>item rest'. accepted_ok r item \<and> acc_event_id item < nxt \<and> ?fresh item \<and>
       i = accepted_bytes item @ rest' \<and> (\<exists>new. length new = n \<and> ?Q (acc @ [item]) new rest'))"
    unfolding take_accepted_step by (intro ex_cong1 conj_cong refl IH)
  also have "\<dots> \<longleftrightarrow> (\<exists>item new. length new = n \<and> ?Q acc (item # new) i)" by auto (metis imageI)+
  finally show ?case unfolding ex_length_Suc .
qed auto

lemma take_deferred_step:
  assumes "\<And>b. length (pc b) = DIGEST_LEN"
  shows "take_deferred r local pc (Suc n) acc i = Inr out \<longleftrightarrow>
    (\<exists>item rest. deferred_ok pc r local item \<and>
       (\<forall>j \<in> set acc. context_key (def_context j) \<noteq> context_key (def_context item)) \<and>
       i = deferred_bytes item @ rest \<and> take_deferred r local pc n (acc @ [item]) rest = Inr out)"
  (is "?lhs \<longleftrightarrow> ?rhs")
proof
  assume ?lhs
  then show ?rhs
    apply (clarsimp simp: rbind_eq_Inr take_Inr g_take_Inr digest_try_from_def list_ex_iff not_le
        not_less context_decode_exact split: if_splits)
    subgoal for bytes rest c
      by (rule exI [of _ "\<lparr>def_context = c, def_commitment = pc (context_bytes c)\<rparr>"])
        (auto simp: deferred_ok_def deferred_bytes_def context_key_def context_encode_Inr)
    done
next
  assume ?rhs
  then obtain item rest where item: "deferred_ok pc r local item"
    "\<forall>j \<in> set acc. context_key (def_context j) \<noteq> context_key (def_context item)"
    "i = deferred_bytes item @ rest" "take_deferred r local pc n (acc @ [item]) rest = Inr out" by blast
  have c: "context_typed (def_context item)" "context_valid (def_context item)"
    using item(1) by (simp_all add: deferred_ok_def Let_def)
  then have dec: "context_decode (context_bytes (def_context item)) = Inr (def_context item)"
    "length (context_bytes (def_context item)) \<le> MAX_APPLICATION_CONTEXT_LEN"
    by (simp_all add: context_decode_exact context_encode_Inr length_context_bytes context_valid_def)
  have "g_take DIGEST_LEN (def_commitment item @ rest) = Inr (def_commitment item, rest)"
    using item(1) by (auto simp: g_take_Inr deferred_ok_def Let_def)
  then show ?lhs
    using item dec by (cases item)
      (auto simp: deferred_bytes_def deferred_ok_def Let_def digest_try_from_def list_ex_iff context_key_def
        MAX_APPLICATION_CONTEXT_LEN_def)
qed

lemma take_deferred_Inr:
  assumes pc: "\<And>b. length (pc b) = DIGEST_LEN"
    and "distinct (map (context_key o def_context) acc)"
  shows "take_deferred r local pc n acc i = Inr (out, rest) \<longleftrightarrow>
    (\<exists>new. length new = n \<and> out = acc @ new \<and> (\<forall>item \<in> set new. deferred_ok pc r local item) \<and>
       distinct (map (context_key o def_context) out) \<and> i = concat (map deferred_bytes new) @ rest)"
  using assms(2)
proof (induction n arbitrary: acc i)
  case (Suc n)
  let ?Q = "\<lambda>acc new i. out = acc @ new \<and> (\<forall>item \<in> set new. deferred_ok pc r local item) \<and>
    distinct (map (context_key o def_context) out) \<and> i = concat (map deferred_bytes new) @ rest"
  let ?fresh = "\<lambda>item. \<forall>j \<in> set acc. context_key (def_context j) \<noteq> context_key (def_context item)"
  have IH: "take_deferred r local pc n (acc @ [item]) i' = Inr (out, rest) \<longleftrightarrow> (\<exists>new. length new = n \<and> ?Q (acc @ [item]) new i')"
    if "?fresh item" for item i'
    by (rule Suc.IH) (use Suc.prems that in fastforce)+
  have "take_deferred r local pc (Suc n) acc i = Inr (out, rest) \<longleftrightarrow>
     (\<exists>item rest'. deferred_ok pc r local item \<and> ?fresh item \<and>
       i = deferred_bytes item @ rest' \<and> (\<exists>new. length new = n \<and> ?Q (acc @ [item]) new rest'))"
    unfolding take_deferred_step [OF pc] by (intro ex_cong1 conj_cong refl IH)
  also have "\<dots> \<longleftrightarrow> (\<exists>item new. length new = n \<and> ?Q acc (item # new) i)" by auto (metis imageI)+
  finally show ?case unfolding ex_length_Suc .
qed auto

lemma one_each_iff: "one_each items \<longleftrightarrow> distinct (map (\<lambda>i. mem_identity (ctx_sender (def_context i))) items)"
proof -
  let ?f = "\<lambda>i. mem_identity (ctx_sender (def_context (items ! i)))"
  have "one_each items \<longleftrightarrow> (\<forall>i < length items. \<forall>j < i. ?f j \<noteq> ?f i)"
    by (auto simp: one_each_def list_all_length)
  also have "\<dots> \<longleftrightarrow> (\<forall>i < length items. \<forall>j < length items. i \<noteq> j \<longrightarrow> ?f i \<noteq> ?f j)"
    by (metis less_trans nat_neq_iff)
  finally show ?thesis by (simp add: distinct_conv_nth)
qed

definition unlisted :: "group_receiver \<Rightarrow> deferred_item list" where
  "unlisted g = filter (\<lambda>item. \<not> recv_is_active g (ctx_sender (def_context item))) (recv_deferred g)"

definition state_bytes :: "group_receiver \<Rightarrow> bytes" where
  "state_bytes g = RECEIVER_STATE_DOMAIN @ lp (roster_bytes (recv_roster g)) @ recv_digest g
     @ member_bytes (recv_local g) @ u64_to_be (recv_next_event g)
     @ u32_to_be (of_nat (length (recv_accepted g))) @ concat (map accepted_bytes (recv_accepted g))
     @ u32_to_be (of_nat (length (recv_deferred g))) @ concat (map deferred_bytes (recv_deferred g))"

text \<open>The fixed part of a receiver: a well-formed committed roster and a well-formed local member.\<close>

definition roster_ok :: "(bytes \<Rightarrow> bytes) \<Rightarrow> group_receiver \<Rightarrow> bool" where
  "roster_ok rc g \<longleftrightarrow> roster_typed (recv_roster g) \<and> roster_valid (recv_roster g) \<and>
     recv_digest g = rc (roster_bytes (recv_roster g)) \<and> member_ok (recv_local g)"

definition deferred_part_ok :: "(bytes \<Rightarrow> bytes) \<Rightarrow> group_receiver \<Rightarrow> bool" where
  "deferred_part_ok pc g \<longleftrightarrow> length (recv_deferred g) \<le> MAX_DEFERRED \<and>
     (\<forall>item \<in> set (recv_deferred g). deferred_ok pc (recv_roster g) (recv_local g) item) \<and>
     distinct (map (context_key o def_context) (recv_deferred g)) \<and>
     length (unlisted g) \<le> MAX_DEFERRED_UNLISTED \<and>
     distinct (map (\<lambda>i. mem_identity (ctx_sender (def_context i))) (unlisted g))"

definition state_ok :: "(bytes \<Rightarrow> bytes) \<Rightarrow> (bytes \<Rightarrow> bytes) \<Rightarrow> group_receiver \<Rightarrow> bool" where
  "state_ok rc pc g \<longleftrightarrow> roster_ok rc g \<and> deferred_part_ok pc g \<and>
     (recv_is_active g (recv_local g) \<or> recv_accepted g = [] \<and> recv_deferred g = []) \<and>
     length (recv_accepted g) \<le> MAX_MEMBERS * unat DEDUP_WINDOW \<and>
     (\<forall>item \<in> set (recv_accepted g). accepted_ok (recv_roster g) item \<and> acc_event_id item < recv_next_event g) \<and>
     distinct (map acc_key (recv_accepted g)) \<and> distinct (map acc_event_id (recv_accepted g)) \<and>
     length (state_bytes g) \<le> MAX_RECEIVER_STATE_LEN"

lemma put_accepted_ok: "accepted_ok r item \<Longrightarrow> put_accepted item = Inr (accepted_bytes item)"
  using put_member_ok [of "key_sender (acc_key item)" "member_bytes (key_sender (acc_key item))"]
  by (simp add: put_accepted_def accepted_ok_def accepted_bytes_def)

lemma context_bytes_fit:
  "context_typed c \<Longrightarrow> context_valid c \<Longrightarrow> length (context_bytes c) \<le> 2048"
  by (simp add: length_context_bytes context_valid_def MAX_APPLICATION_CONTEXT_LEN_def)

lemma roster_bytes_fit: "roster_typed r \<Longrightarrow> roster_valid r \<Longrightarrow> length (roster_bytes r) \<le> 4096"
  by (simp add: length_roster_bytes roster_valid_def MAX_ROSTER_LEN_def)

lemma put_lp_fits: "length v < 2 ^ 32 \<Longrightarrow> put_lp v = Inr (lp v)"
  by (simp add: put_lp_Inr)

lemma put_deferred_ok:
  assumes "deferred_ok pc r local item"
  shows "put_deferred item = Inr (deferred_bytes item)"
proof -
  have c: "context_typed (def_context item)" "context_valid (def_context item)"
    using assms by (simp_all add: deferred_ok_def Let_def)
  then have "context_encode (def_context item) = Inr (context_bytes (def_context item))"
    by (simp add: context_encode_Inr)
  moreover have "put_lp (context_bytes (def_context item)) = Inr (lp (context_bytes (def_context item)))"
    using context_bytes_fit [OF c] by (intro put_lp_fits) simp
  ultimately show ?thesis by (simp add: put_deferred_def deferred_bytes_def)
qed

lemma encode_state_ok:
  assumes "state_ok rc pc g"
  shows "receiver_encode_state g = Inr (state_bytes g)"
proof -
  have r: "roster_typed (recv_roster g)" "roster_valid (recv_roster g)" and m: "member_ok (recv_local g)"
    using assms by (simp_all add: state_ok_def roster_ok_def)
  have "roster_encode (recv_roster g) = Inr (roster_bytes (recv_roster g))"
    using r by (simp add: roster_encode_Inr)
  moreover have "put_lp (roster_bytes (recv_roster g)) = Inr (lp (roster_bytes (recv_roster g)))"
    using roster_bytes_fit [OF r] by (intro put_lp_fits) simp
  moreover have "put_member (recv_local g) = Inr (member_bytes (recv_local g))" using m by (simp add: put_member_ok)
  moreover have "rput_many put_accepted (recv_accepted g) = Inr (concat (map accepted_bytes (recv_accepted g)))"
    using assms by (intro rput_many_bytes put_accepted_ok) (auto simp: state_ok_def)
  moreover have "rput_many put_deferred (recv_deferred g) = Inr (concat (map deferred_bytes (recv_deferred g)))"
    using assms by (intro rput_many_bytes put_deferred_ok) (auto simp: state_ok_def deferred_part_ok_def)
  moreover have "g_put_u32 (length (recv_accepted g)) = Inr (u32_to_be (of_nat (length (recv_accepted g))))"
    "g_put_u32 (length (recv_deferred g)) = Inr (u32_to_be (of_nat (length (recv_deferred g))))"
    using assms by (auto simp: g_put_u32_Inr state_ok_def deferred_part_ok_def MAX_MEMBERS_def
        DEDUP_WINDOW_def MAX_DEFERRED_def)
  ultimately show ?thesis
    using assms m by (simp add: receiver_encode_state_def state_ok_def state_bytes_def)
qed

lemma decode_state_ok:
  assumes "state_ok rc pc g" and rc: "\<And>b. length (rc b) = DIGEST_LEN" and pc: "\<And>b. length (pc b) = DIGEST_LEN"
  shows "receiver_decode_state (state_bytes g) rc pc = Inr g"
proof -
  let ?r = "recv_roster g"
  let ?tail = "u32_to_be (of_nat (length (recv_deferred g))) @ concat (map deferred_bytes (recv_deferred g))"
  have r: "roster_typed ?r" "roster_valid ?r" and digest: "recv_digest g = rc (roster_bytes ?r)"
    and m: "member_ok (recv_local g)" and d: "deferred_part_ok pc g"
    using assms(1) by (simp_all add: state_ok_def roster_ok_def)
  have dec: "roster_decode (roster_bytes ?r) = Inr ?r"
    using r by (simp add: roster_decode_exact roster_encode_Inr)
  have digest_take: "g_take DIGEST_LEN (recv_digest g @ rest) = Inr (recv_digest g, rest)" for rest
    by (simp add: g_take_Inr digest rc)
  have length_digest: "length (recv_digest g) = DIGEST_LEN" by (simp add: digest rc)
  have acc: "take_accepted ?r (recv_next_event g) (length (recv_accepted g)) []
      (concat (map accepted_bytes (recv_accepted g)) @ rest) = Inr (recv_accepted g, rest)" for rest
    using assms(1) by (auto simp: take_accepted_Inr state_ok_def)
  have def: "take_deferred ?r (recv_local g) pc (length (recv_deferred g)) []
      (concat (map deferred_bytes (recv_deferred g))) = Inr (recv_deferred g, [])"
    using d by (auto simp: take_deferred_Inr [where pc = pc, OF pc] deferred_part_ok_def)
  have counts: "unat (of_nat (length (recv_accepted g)) :: u32) = length (recv_accepted g)"
    "unat (of_nat (length (recv_deferred g)) :: u32) = length (recv_deferred g)"
    "length (recv_accepted g) \<le> MAX_MEMBERS * unat DEDUP_WINDOW" "length (recv_deferred g) \<le> MAX_DEFERRED"
    using assms(1) d by (auto simp: unat_of_nat_u32 state_ok_def deferred_part_ok_def MAX_MEMBERS_def
        DEDUP_WINDOW_def MAX_DEFERRED_def)
  have terminal: "(ros_closed ?r \<or> \<not> list_ex (\<lambda>m. m = recv_local g) (ros_members ?r)) \<longleftrightarrow>
      \<not> recv_is_active g (recv_local g)"
    by (simp add: recv_is_active_def)
  have un: "filter (\<lambda>item. ros_closed ?r \<or> \<not> list_ex (\<lambda>m. m = ctx_sender (def_context item)) (ros_members ?r))
      (recv_deferred g) = unlisted g"
    by (simp add: unlisted_def recv_is_active_def)
  have "length (roster_bytes ?r) < 2 ^ 32" "length (roster_bytes ?r) \<le> MAX_ROSTER_LEN"
    using roster_bytes_fit [OF r] by (simp_all add: MAX_ROSTER_LEN_def)
  moreover have "(\<not> recv_is_active g (recv_local g) \<and> recv_accepted g \<noteq> []) = False"
    "(\<not> recv_is_active g (recv_local g) \<and> recv_deferred g \<noteq> []) = False"
    "length (state_bytes g) \<le> MAX_RECEIVER_STATE_LEN"
    using assms(1) by (auto simp: state_ok_def)
  moreover have "g_take_u32 (u32_to_be w) = Inr (w, [])" for w by (simp add: g_take_u32_Inr)
  moreover have "length (unlisted g) \<le> MAX_DEFERRED_UNLISTED" "one_each (unlisted g)"
    using d by (simp_all add: deferred_part_ok_def one_each_iff)
  ultimately show ?thesis
    unfolding receiver_decode_state_def
    by (simp add: state_bytes_def dec digest_take digest_try_from_def length_digest m acc def counts un Let_def
        terminal not_less flip: digest)
qed

section \<open>The invariant of a receiver\<close>

definition accepted_part_ok :: "group_receiver \<Rightarrow> bool" where
  "accepted_part_ok g \<longleftrightarrow>
     (\<forall>i \<in> set (recv_accepted g). accepted_ok (recv_roster g) i) \<and> distinct (map acc_key (recv_accepted g)) \<and>
     (\<forall>i \<in> set (recv_accepted g). \<forall>j \<in> set (recv_accepted g).
        key_sender (acc_key i) = key_sender (acc_key j) \<longrightarrow>
        unat (key_sequence (acc_key i)) < unat (key_sequence (acc_key j)) + 64)"

text \<open>Event identifiers are distinct and below the next one, until the counter is used up.\<close>

definition events_ok :: "group_receiver \<Rightarrow> bool" where
  "events_ok g \<longleftrightarrow> recv_next_event g = u64_max \<or>
     (\<forall>i \<in> set (recv_accepted g). acc_event_id i < recv_next_event g) \<and>
     distinct (map acc_event_id (recv_accepted g))"

definition recv_inv :: "(bytes \<Rightarrow> bytes) \<Rightarrow> (bytes \<Rightarrow> bytes) \<Rightarrow> group_receiver \<Rightarrow> bool" where
  "recv_inv rc pc g \<longleftrightarrow> roster_ok rc g \<and> accepted_part_ok g \<and> deferred_part_ok pc g \<and> events_ok g \<and>
     (recv_is_active g (recv_local g) \<or> recv_accepted g = [] \<and> recv_deferred g = [])"

definition context_ok :: "(bytes \<Rightarrow> bytes) \<Rightarrow> application_context \<Rightarrow> bytes \<Rightarrow> bool" where
  "context_ok pc c m \<longleftrightarrow> context_typed c \<and> context_valid c \<and> m = pc (context_bytes c) \<and> length m = DIGEST_LEN"

lemma distinct_filter_snoc:
  "distinct (map f xs) \<Longrightarrow> \<forall>y \<in> set xs. f y \<noteq> f x \<Longrightarrow> distinct (map f (filter P (xs @ [x])))"
  by (rule distinct_map_filter) auto

lemma accept_current_part:
  assumes "accepted_part_ok g" "context_key c = key" "ctx_group_id c = ros_group_id (recv_roster g)"
    and "ctx_revision c = ros_revision (recv_roster g)" "recv_is_active g (ctx_sender c)"
    and "context_valid c" "length m = DIGEST_LEN"
  shows "accepted_part_ok (snd (accept_current key m g))"
proof (cases rule: accept_current_cases [of g key m])
  case (new n L)
  let ?item = "\<lparr>acc_key = key, acc_commitment = m, acc_event_id = recv_next_event g\<rparr>"
  let ?A = "filter (\<lambda>i. \<not> same_stream key i \<or> saturating_add (key_sequence (acc_key i)) DEDUP_WINDOW > n) L"
  have key: "key_group key = ros_group_id (recv_roster g)" "key_revision key = ros_revision (recv_roster g)"
    "key_sender key = ctx_sender c" "ctx_sender c \<in> set (ros_members (recv_roster g))"
    "member_ok (ctx_sender c)"
    using assms(2-6) by (auto simp: context_key_def recv_is_active_def list_ex_iff context_valid_def)
  have ok: "accepted_ok (recv_roster g) i" if "i \<in> set L" for i
    using that new(6) assms(1,7) key by (auto simp: accepted_part_ok_def accepted_ok_def)
  have "distinct (map acc_key ?A)"
    unfolding new(6) by (rule distinct_filter_snoc) (use assms(1) new(1) in \<open>auto simp: accepted_part_ok_def\<close>)
  moreover have "unat (key_sequence (acc_key i)) < unat (key_sequence (acc_key j)) + 64"
    if ij: "i \<in> set ?A" "j \<in> set ?A" "key_sender (acc_key i) = key_sender (acc_key j)" for i j
  proof (cases "key_sender (acc_key j) = key_sender key")
    case True
    have "same_stream key i" "same_stream key j"
      using ij True ok [of i] ok [of j] key(2) by (auto simp: same_stream_def accepted_ok_def)
    moreover have "\<forall>i \<in> set L. same_stream key i \<longrightarrow> key_sequence (acc_key i) \<le> n"
      using new(2,3) by (auto simp: new(6))
    ultimately have "unat n < unat (key_sequence (acc_key j)) + 64" "key_sequence (acc_key i) \<le> n"
      using ij(1,2) by (auto simp: within_window)
    then show ?thesis by (simp add: word_le_nat_alt)
  next
    case False
    have "i \<in> set L" "j \<in> set L" using ij(1,2) by auto
    then have "i \<in> set (recv_accepted g)" "j \<in> set (recv_accepted g)" using False ij(3) by (auto simp: new(6))
    then show ?thesis using assms(1) ij(3) by (auto simp: accepted_part_ok_def)
  qed
  ultimately have "accepted_part_ok (g\<lparr>recv_accepted := ?A\<rparr>)" using ok by (simp add: accepted_part_ok_def)
  then show ?thesis using new(5) by (simp add: accepted_part_ok_def)
qed (use assms(1) in auto)

lemma accept_current_events:
  assumes "events_ok g"
  shows "events_ok (snd (accept_current key m g))"
proof (cases rule: accept_current_cases [of g key m])
  case (new n L)
  show ?thesis
  proof (cases "saturating_add (recv_next_event g) 1 = u64_max")
    case True
    then show ?thesis using new(5) by (simp add: events_ok_def)
  next
    case False
    then have next_ok: "recv_next_event g < saturating_add (recv_next_event g) 1" "recv_next_event g \<noteq> u64_max"
      by (auto simp: word_less_nat_alt word_unat_eq_iff unat_saturating_add unat_u64_max)
    have below: "\<forall>i \<in> set (recv_accepted g). acc_event_id i < recv_next_event g"
      "distinct (map acc_event_id (recv_accepted g))"
      using assms next_ok(2) by (auto simp: events_ok_def)
    have "distinct (map acc_event_id (filter P L))" for P
      unfolding new(6) by (rule distinct_filter_snoc) (use below in auto)
    moreover have "\<forall>i \<in> set L. acc_event_id i < saturating_add (recv_next_event g) 1"
      using new(6) below(1) next_ok(1) by (auto intro: less_trans)
    ultimately show ?thesis using new(5) by (simp add: events_ok_def)
  qed
qed (use assms in auto)

lemma unlisted_slot_loop_iff:
  "unlisted_slot_loop g sender held items \<longleftrightarrow>
    (let us = filter (\<lambda>i. \<not> recv_is_active g (ctx_sender (def_context i))) items
     in held + length us < MAX_DEFERRED_UNLISTED \<and>
        (\<forall>i \<in> set us. mem_identity (ctx_sender (def_context i)) \<noteq> mem_identity sender))"
  by (induction items arbitrary: held) (auto simp: Let_def)

lemma defer_context_part:
  assumes "deferred_part_ok pc g" "context_ok pc c m" "ctx_group_id c = ros_group_id (recv_roster g)"
    and "ctx_recipient c = recv_local g" "ros_revision (recv_roster g) < ctx_revision c"
    and "\<not> ctx_revision c > saturating_add (ros_revision (recv_roster g)) FUTURE_REVISIONS"
  shows "deferred_part_ok pc (snd (defer_context c m g))"
  using defer_context_cases [of c m g]
proof (elim disjE)
  let ?item = "\<lparr>def_context = c, def_commitment = m\<rparr>"
  let ?g = "g\<lparr>recv_deferred := recv_deferred g @ [?item]\<rparr>"
  assume new: "defer_context c m g = (Deferred, ?g) \<and> length (recv_deferred g) \<noteq> MAX_DEFERRED \<and>
    (\<forall>i \<in> set (recv_deferred g). context_key (def_context i) \<noteq> context_key c) \<and>
    (recv_is_active g (ctx_sender c) \<or> unlisted_slot_is_open_to g (ctx_sender c))"
  have un: "unlisted ?g = unlisted g @ (if recv_is_active g (ctx_sender c) then [] else [?item])"
    by (simp add: unlisted_def recv_is_active_def)
  have "deferred_ok pc (recv_roster g) (recv_local g) ?item"
    using assms(2-6) by (auto simp: deferred_ok_def context_ok_def Let_def not_less)
  moreover have "length (unlisted ?g) \<le> MAX_DEFERRED_UNLISTED \<and>
      distinct (map (\<lambda>i. mem_identity (ctx_sender (def_context i))) (unlisted ?g))"
    using assms(1) new unfolding un
    by (auto simp: deferred_part_ok_def unlisted_slot_is_open_to_def unlisted_slot_loop_iff Let_def unlisted_def)
  moreover have "distinct (map (context_key o def_context) (recv_deferred g @ [?item]))"
    using assms(1) new by (auto simp: deferred_part_ok_def)
  ultimately show ?thesis using assms(1) new by (auto simp: deferred_part_ok_def)
qed (use assms(1) in auto)

lemma deferred_part_cong:
  assumes "recv_deferred g' = recv_deferred g" "recv_roster g' = recv_roster g" "recv_local g' = recv_local g"
  shows "deferred_part_ok pc g' = deferred_part_ok pc g"
  using assms by (simp add: deferred_part_ok_def unlisted_def recv_is_active_def)

lemma receive_inv:
  assumes "recv_inv rc pc g" "context_ok pc c m"
  shows "recv_inv rc pc (snd (receive c p m g))"
proof (cases rule: receive_cases [of c g p m])
  case current
  have "accepted_part_ok (snd (accept_current (context_key c) m g))"
    using assms current by (intro accept_current_part [of g c]) (auto simp: recv_inv_def context_ok_def)
  moreover have "deferred_part_ok pc (snd (accept_current (context_key c) m g))"
    using assms(1) deferred_part_cong [of "snd (accept_current (context_key c) m g)" g pc]
    by (simp add: recv_inv_def)
  moreover have "events_ok (snd (accept_current (context_key c) m g))"
    using assms(1) accept_current_events by (auto simp: recv_inv_def)
  ultimately show ?thesis
    using assms(1) current(7,8) by (simp add: recv_inv_def roster_ok_def recv_is_active_def)
next
  case future
  have "deferred_part_ok pc (snd (defer_context c m g))"
    using assms future by (intro defer_context_part) (auto simp: recv_inv_def)
  then show ?thesis
    using assms(1) future(1,7)
    by (simp add: recv_inv_def roster_ok_def recv_is_active_def accepted_part_ok_def events_ok_def)
qed (simp add: assms)

primrec op_ok :: "(bytes \<Rightarrow> bytes) \<Rightarrow> (bytes \<Rightarrow> bytes) \<Rightarrow> receiver_op \<Rightarrow> bool" where
  "op_ok rc pc (Receive c p m) = context_ok pc c m"
| "op_ok rc pc (Install r d) = (roster_typed r \<and> roster_valid r \<and> d = rc (roster_bytes r))"

lemma receiver_step_inv:
  assumes "recv_inv rc pc g" "op_ok rc pc x"
  shows "recv_inv rc pc (snd (receiver_step x g))"
proof (cases x)
  case (Install r d)
  let ?g = "g\<lparr>recv_roster := r, recv_digest := d, recv_accepted := [], recv_deferred := []\<rparr>"
  have "recv_inv rc pc ?g"
    using assms Install by (simp add: recv_inv_def roster_ok_def accepted_part_ok_def deferred_part_ok_def
        events_ok_def unlisted_def)
  moreover have "\<forall>i \<in> set (recv_deferred g). context_ok pc (def_context i) (def_commitment i)"
    using assms(1) by (auto simp: recv_inv_def deferred_part_ok_def deferred_ok_def context_ok_def Let_def)
  ultimately have "recv_inv rc pc (snd (revalidate (recv_deferred g) ?g))"
    using receive_inv by (intro revalidate_induct [where P = "recv_inv rc pc"]) auto
  then show ?thesis
    using assms(1) Install by (simp add: install_accepted_roster_def Let_def case_prod_beta)
qed (use assms receive_inv in \<open>simp add: case_prod_beta\<close>)

lemma receiver_new_inv:
  "roster_typed r \<Longrightarrow> roster_valid r \<Longrightarrow> member_ok local \<Longrightarrow> recv_inv rc pc (receiver_new r (rc (roster_bytes r)) local)"
  by (simp add: recv_inv_def receiver_new_def roster_ok_def accepted_part_ok_def deferred_part_ok_def
      events_ok_def unlisted_def)

lemma receiver_run_inv:
  "recv_inv rc pc g \<Longrightarrow> list_all (op_ok rc pc) xs \<Longrightarrow> recv_inv rc pc (final receiver_step xs g)"
  by (induction xs arbitrary: g) (auto simp: receiver_step_inv)

section \<open>Bounds and restart\<close>

lemma window_card:
  fixes S :: "nat set"
  assumes "finite S" "\<forall>x \<in> S. \<forall>y \<in> S. x < y + 64"
  shows "card S \<le> 64"
proof (cases "S = {}")
  case False
  have "S \<subseteq> {Min S..<Min S + 64}" using assms False Min_in [OF assms(1)] by fastforce
  then show ?thesis using card_mono [of "{Min S..<Min S + 64}" S] by simp
qed simp

lemma accepted_bounded:
  assumes "accepted_part_ok g" "length (ros_members (recv_roster g)) \<le> MAX_MEMBERS"
  shows "length (recv_accepted g) \<le> MAX_MEMBERS * 64"
proof -
  let ?K = "acc_key ` set (recv_accepted g)" and ?M = "set (ros_members (recv_roster g))"
  have ok: "\<forall>k \<in> ?K. key_group k = ros_group_id (recv_roster g) \<and> key_revision k = ros_revision (recv_roster g) \<and>
      key_sender k \<in> ?M"
    using assms(1) by (auto simp: accepted_part_ok_def accepted_ok_def)
  have one: "card {k \<in> ?K. key_sender k = m} \<le> 64" for m
  proof -
    let ?S = "{k \<in> ?K. key_sender k = m}"
    have "inj_on (\<lambda>k. unat (key_sequence k)) ?S" using ok by (auto simp: inj_on_def word_unat_eq_iff intro!: recv_key.equality)
    moreover have "card ((\<lambda>k. unat (key_sequence k)) ` ?S) \<le> 64"
      using assms(1) by (intro window_card) (auto simp: accepted_part_ok_def)
    ultimately show ?thesis by (simp add: card_image)
  qed
  have "length (recv_accepted g) = card ?K"
    using assms(1) distinct_card [of "map acc_key (recv_accepted g)"] by (simp add: accepted_part_ok_def)
  also have "?K = (\<Union>m \<in> ?M. {k \<in> ?K. key_sender k = m})" using ok by auto
  also have "card \<dots> \<le> (\<Sum>m \<in> ?M. card {k \<in> ?K. key_sender k = m})" by (rule card_UN_le) simp
  also have "\<dots> \<le> (\<Sum>m \<in> ?M. 64)" by (rule sum_mono) (rule one)
  also have "\<dots> \<le> MAX_MEMBERS * 64" using assms(2) card_length [of "ros_members (recv_roster g)"] by simp
  finally show ?thesis .
qed

lemma length_concat_le:
  assumes "length xs \<le> n" "\<And>x. x \<in> set xs \<Longrightarrow> length (f x) \<le> k"
  shows "length (concat (map f xs)) \<le> n * k"
proof -
  have "length (concat (map f xs)) \<le> length xs * k"
    using assms(2) by (induction xs) (auto simp: add_mono)
  then show ?thesis using mult_le_mono1 [OF assms(1)] le_trans by blast
qed

lemma member_len_le: "member_ok m \<Longrightarrow> member_len m \<le> 328"
  by (simp add: member_ok_def member_len_def lp_len_def group_bounds)

lemma inv_state_ok:
  assumes "recv_inv rc pc g" "recv_next_event g \<noteq> u64_max" and rc: "\<And>b. length (rc b) = DIGEST_LEN"
  shows "state_ok rc pc g"
proof -
  let ?r = "recv_roster g"
  have r: "roster_typed ?r" "roster_valid ?r" "recv_digest g = rc (roster_bytes ?r)" and m: "member_ok (recv_local g)"
    and a: "accepted_part_ok g" and d: "deferred_part_ok pc g" and e: "events_ok g"
    using assms(1) by (simp_all add: recv_inv_def roster_ok_def)
  have n: "length (recv_accepted g) \<le> 512"
    using accepted_bounded [OF a] r(2) by (simp add: roster_valid_def MAX_MEMBERS_def)
  have k: "length (recv_deferred g) \<le> 4" using d by (auto simp: deferred_part_ok_def MAX_DEFERRED_def)
  have "length (accepted_bytes i) \<le> 384" if "i \<in> set (recv_accepted g)" for i
    using that a member_len_le [of "key_sender (acc_key i)"]
    by (auto simp: accepted_part_ok_def accepted_ok_def accepted_bytes_def DIGEST_LEN_def)
  then have "length (concat (map accepted_bytes (recv_accepted g))) \<le> 512 * 384"
    using length_concat_le [OF n] by blast
  moreover have "length (deferred_bytes i) \<le> 2084" if "i \<in> set (recv_deferred g)" for i
    using that d context_bytes_fit [of "def_context i"]
    by (auto simp: deferred_part_ok_def deferred_ok_def deferred_bytes_def Let_def DIGEST_LEN_def lp_len_def)
  then have "length (concat (map deferred_bytes (recv_deferred g))) \<le> 4 * 2084"
    using length_concat_le [OF k] by blast
  moreover have "length RECEIVER_STATE_DOMAIN = 31" by (simp add: RECEIVER_STATE_DOMAIN_def ascii_def)
  ultimately have "length (state_bytes g) \<le> MAX_RECEIVER_STATE_LEN"
    using roster_bytes_fit [OF r(1,2)] member_len_le [OF m]
    by (simp add: state_bytes_def r(3) rc DIGEST_LEN_def lp_len_def MAX_RECEIVER_STATE_LEN_def)
  then show ?thesis
    using assms(1,2) n a e by (simp add: state_ok_def recv_inv_def events_ok_def accepted_part_ok_def
        MAX_MEMBERS_def DEDUP_WINDOW_def)
qed

text \<open>Alice's receiver in the small group gets a message of Bob's and one of a later revision.\<close>

definition ex_ops :: "receiver_op list" where
  "ex_ops =
     (let c = (ex_context 5)\<lparr>ctx_roster_digest := ex_commit (roster_bytes ex_second)\<rparr>;
          later = (ex_context 6)\<lparr>ctx_revision := 2\<rparr>
      in [Receive c ex_bob (ex_commit (context_bytes c)),
          Receive later ex_bob (ex_commit (context_bytes later))])"

lemma ex_ops_ok:
  "roster_typed ex_second" "roster_valid ex_second" "member_ok ex_alice"
  "list_all (op_ok ex_commit ex_commit) ex_ops"
  by code_simp+

lemma length_ex_commit: "length (ex_commit b) = DIGEST_LEN"
  by (simp add: ex_commit_def DIGEST_LEN_def)

text \<open>
  C25.  A receiver holds a bounded amount, whatever it is sent.  From a well-formed roster and a local
  member of legal size, over any contexts the codec accepts, each with the commitment of its bytes, and
  any well-formed rosters, each with its digest, it remembers at most 64 accepted contexts per member of an
  eight-member roster and at most four deferred ones, at most two of them, of different identities,
  from senders the roster does not list; and a receiver that is not active holds none.
\<close>

theorem receiver_bounded:
  assumes "roster_typed r" "roster_valid r" "member_ok local" "list_all (op_ok rc pc) xs"
  shows "let g = final receiver_step xs (receiver_new r (rc (roster_bytes r)) local);
             outside = filter (\<lambda>i. \<not> recv_is_active g (ctx_sender (def_context i))) (recv_deferred g)
         in length (recv_accepted g) \<le> MAX_MEMBERS * unat DEDUP_WINDOW \<and>
            length (recv_deferred g) \<le> MAX_DEFERRED \<and> length outside \<le> MAX_DEFERRED_UNLISTED \<and>
            distinct (map (\<lambda>i. mem_identity (ctx_sender (def_context i))) outside) \<and>
            (receiver_status g = Active \<or> recv_accepted g = [] \<and> recv_deferred g = [])"
proof -
  let ?g = "final receiver_step xs (receiver_new r (rc (roster_bytes r)) local)"
  have inv: "recv_inv rc pc ?g" using receiver_run_inv [OF receiver_new_inv] assms by blast
  moreover have "length (recv_accepted ?g) \<le> MAX_MEMBERS * 64"
    using inv by (intro accepted_bounded) (auto simp: recv_inv_def roster_ok_def roster_valid_def)
  ultimately show ?thesis
    by (auto simp: Let_def recv_inv_def deferred_part_ok_def unlisted_def DEDUP_WINDOW_def
        receiver_status_def recv_is_active_def)
qed

theorem receiver_bounded_witness:
  "length (recv_deferred (final receiver_step ex_ops
     (receiver_new ex_second (ex_commit (roster_bytes ex_second)) ex_alice))) \<le> MAX_DEFERRED"
  using receiver_bounded [OF ex_ops_ok] by (simp add: Let_def)

text \<open>
  C26.  A receiver survives a restart.  As long as its event counter is not used up, the checkpoint of
  a receiver reached over inputs as before (well-formed rosters with their digests, contexts the codec
  accepts with their commitments) encodes within its size limit and decodes, under the same two 32-byte
  commitments, to exactly that receiver.
\<close>

theorem receiver_restart:
  assumes "roster_typed r" "roster_valid r" "member_ok local" "list_all (op_ok rc pc) xs"
    and "\<And>b. length (rc b) = DIGEST_LEN" "\<And>b. length (pc b) = DIGEST_LEN"
    and "g = final receiver_step xs (receiver_new r (rc (roster_bytes r)) local)"
    and "recv_next_event g \<noteq> u64_max"
  shows "\<exists>bytes. receiver_encode_state g = Inr bytes \<and> receiver_decode_state bytes rc pc = Inr g"
proof -
  have "recv_inv rc pc g" using receiver_run_inv [OF receiver_new_inv] assms by blast
  then have "state_ok rc pc g" using inv_state_ok assms(5,8) by blast
  then show ?thesis using encode_state_ok decode_state_ok assms(5,6) by blast
qed

theorem receiver_restart_witness:
  "let g = final receiver_step ex_ops (receiver_new ex_second (ex_commit (roster_bytes ex_second)) ex_alice)
   in length (recv_accepted g) = 1 \<and> length (recv_deferred g) = 1 \<and>
      (\<exists>bytes. receiver_encode_state g = Inr bytes \<and> receiver_decode_state bytes ex_commit ex_commit = Inr g)"
proof -
  let ?g = "final receiver_step ex_ops (receiver_new ex_second (ex_commit (roster_bytes ex_second)) ex_alice)"
  have "recv_next_event ?g \<noteq> u64_max" by code_simp
  then have "\<exists>bytes. receiver_encode_state ?g = Inr bytes \<and> receiver_decode_state bytes ex_commit ex_commit = Inr ?g"
    by (intro receiver_restart [OF ex_ops_ok length_ex_commit length_ex_commit refl])
  moreover have "length (recv_accepted ?g) = 1 \<and> length (recv_deferred ?g) = 1" by code_simp
  ultimately show ?thesis by (simp add: Let_def)
qed

end
