(* ===== verification/Operation_Store.thy ===== *)
theory Operation_Store
  imports Tacenta_Prelude
begin

text \<open>
  Crate \<^verbatim>\<open>tacenta-client\<close>, \<^verbatim>\<open>operation_store.rs\<close>: the combined snapshot of the group coordinator and its
  codec, the store port, the latching handle a coordinator holds, and the native file store.

  The port is the trait \<^verbatim>\<open>OperationStore\<close> as a record of its methods over a state of the
  implementation's own.  The file store's state is the content of its file and which of its system
  calls fail; every write under its lock is one step.
\<close>

section \<open>Snapshots\<close>

definition OPERATION_SNAPSHOT_VERSION :: byte where "OPERATION_SNAPSHOT_VERSION = 2"

record operation_snapshot =
  snap_version :: byte
  snap_generation :: u64
  snap_provider_state :: bytes
  snap_application_state :: bytes
  snap_outbox :: "bytes list"
  snap_inbox :: "bytes list"
  snap_dedup :: "bytes list"
  snap_group_controls :: "bytes list"
  snap_delivery_cursor :: u64

definition snapshot_empty :: "u64 \<Rightarrow> operation_snapshot" where
  "snapshot_empty generation =
     \<lparr>snap_version = OPERATION_SNAPSHOT_VERSION, snap_generation = generation, snap_provider_state = [],
      snap_application_state = [], snap_outbox = [], snap_inbox = [], snap_dedup = [],
      snap_group_controls = [], snap_delivery_cursor = 0\<rparr>"

definition snap_put_bytes :: "bytes \<Rightarrow> bytes option" where
  "snap_put_bytes bs = do { n \<leftarrow> u32_try_from (length bs); Some (u32_to_be n @ bs) }"

definition snap_put_many :: "bytes list \<Rightarrow> bytes option" where
  "snap_put_many entries =
     do { n \<leftarrow> u32_try_from (length entries); out \<leftarrow> put_many snap_put_bytes entries; Some (u32_to_be n @ out) }"

definition snapshot_encode :: "operation_snapshot \<Rightarrow> bytes option" where
  "snapshot_encode s = do {
     provider_state \<leftarrow> snap_put_bytes (snap_provider_state s);
     application_state \<leftarrow> snap_put_bytes (snap_application_state s);
     outbox \<leftarrow> snap_put_many (snap_outbox s);
     inbox \<leftarrow> snap_put_many (snap_inbox s);
     dedup \<leftarrow> snap_put_many (snap_dedup s);
     group_controls \<leftarrow> snap_put_many (snap_group_controls s);
     Some (ascii ''TCOP'' @ [snap_version s] @ u64_to_be (snap_generation s) @ provider_state @ application_state
       @ outbox @ inbox @ dedup @ group_controls @ u64_to_be (snap_delivery_cursor s)) }"

definition snap_take_u32 :: "bytes \<Rightarrow> (u32 \<times> bytes) option" where
  "snap_take_u32 i = do { (b, i) \<leftarrow> split_at_checked 4 i; Some (u32_from_be b, i) }"

definition snap_take_u64 :: "bytes \<Rightarrow> (u64 \<times> bytes) option" where
  "snap_take_u64 i = do { (b, i) \<leftarrow> split_at_checked 8 i; Some (u64_from_be b, i) }"

definition snap_take_bytes :: "bytes \<Rightarrow> (bytes \<times> bytes) option" where
  "snap_take_bytes i = do { (n, i) \<leftarrow> snap_take_u32 i; split_at_checked (unat n) i }"

definition snap_take_many :: "bytes \<Rightarrow> (bytes list \<times> bytes) option" where
  "snap_take_many i = do { (n, i) \<leftarrow> snap_take_u32 i; take_many snap_take_bytes (unat n) i }"

definition snapshot_decode :: "bytes \<Rightarrow> operation_snapshot option" where
  "snapshot_decode bytes = do {
     (tag, i) \<leftarrow> split_at_checked 4 bytes;
     if tag \<noteq> ascii ''TCOP'' then None else do {
     (version, i) \<leftarrow> split_first i;
     if version \<noteq> 1 \<and> version \<noteq> OPERATION_SNAPSHOT_VERSION then None else do {
     (generation, i) \<leftarrow> snap_take_u64 i;
     (provider_state, i) \<leftarrow> snap_take_bytes i;
     (application_state, i) \<leftarrow> snap_take_bytes i;
     (outbox, i) \<leftarrow> snap_take_many i;
     (inbox, i) \<leftarrow> snap_take_many i;
     (dedup, i) \<leftarrow> snap_take_many i;
     (group_controls, i) \<leftarrow> (if version = 1 then Some ([], i) else snap_take_many i);
     (delivery_cursor, i) \<leftarrow> snap_take_u64 i;
     if i \<noteq> [] then None
     else Some \<lparr>snap_version = OPERATION_SNAPSHOT_VERSION, snap_generation = generation,
       snap_provider_state = provider_state, snap_application_state = application_state,
       snap_outbox = outbox, snap_inbox = inbox, snap_dedup = dedup,
       snap_group_controls = group_controls, snap_delivery_cursor = delivery_cursor\<rparr> } } }"

section \<open>The store port\<close>

datatype commit_outcome = Committed | CommitFailed | CommitUnknown

text \<open>The error of a store carries nothing.\<close>

datatype store_error = StoreError

record 's operation_store =
  st_commit :: "operation_snapshot \<Rightarrow> 's \<Rightarrow> commit_outcome \<times> 's"
  st_recover :: "'s \<Rightarrow> (store_error + operation_snapshot option) \<times> 's"
  st_is_frozen :: "'s \<Rightarrow> bool"
  st_next_generation :: "'s \<Rightarrow> u64 \<Rightarrow> u64 option"
  st_durable_generation :: "'s \<Rightarrow> (store_error + u64 option) \<times> 's"
  st_commit_after :: "u64 option \<Rightarrow> operation_snapshot \<Rightarrow> 's \<Rightarrow> commit_outcome \<times> 's"

text \<open>The methods the trait provides, from \<open>commit\<close> and \<open>recover\<close>.\<close>

definition default_is_frozen :: "'s \<Rightarrow> bool" where
  "default_is_frozen s = False"

definition default_next_generation :: "'s \<Rightarrow> u64 \<Rightarrow> u64 option" where
  "default_next_generation s current = checked_add current 1"

definition default_durable_generation ::
  "('s \<Rightarrow> (store_error + operation_snapshot option) \<times> 's) \<Rightarrow> 's \<Rightarrow> (store_error + u64 option) \<times> 's" where
  "default_durable_generation recover s =
     (case recover s of (r, s) \<Rightarrow> (rbind r (\<lambda>snapshot. Inr (map_option snap_generation snapshot)), s))"

definition default_commit_after ::
  "('s \<Rightarrow> (store_error + u64 option) \<times> 's) \<Rightarrow> (operation_snapshot \<Rightarrow> 's \<Rightarrow> commit_outcome \<times> 's)
     \<Rightarrow> u64 option \<Rightarrow> operation_snapshot \<Rightarrow> 's \<Rightarrow> commit_outcome \<times> 's" where
  "default_commit_after durable_generation commit expected snapshot s =
     (case durable_generation s of
        (Inr current, s) \<Rightarrow> if current = expected then commit snapshot s else (CommitFailed, s)
      | (Inl e, s) \<Rightarrow> (CommitFailed, s))"

section \<open>The latching handle\<close>

record 's durable_store =
  ds_inner :: 's
  ds_frozen :: bool
  ds_high_water :: u64
  ds_observed :: "u64 option"
  ds_committed :: "u64 option"

datatype recover_error = Unreadable | RolledBack

definition durable_new :: "'s \<Rightarrow> 's durable_store" where
  "durable_new inner =
     \<lparr>ds_inner = inner, ds_frozen = False, ds_high_water = 0, ds_observed = None, ds_committed = None\<rparr>"

text \<open>\<open>Option<u64>::max\<close>, where \<open>None\<close> is below every \<open>Some\<close>.\<close>

definition opt_max :: "u64 option \<Rightarrow> u64 \<Rightarrow> u64 option" where
  "opt_max c g = Some (case c of None \<Rightarrow> g | Some x \<Rightarrow> max x g)"

definition adopt :: "operation_snapshot option \<Rightarrow> 's durable_store \<Rightarrow> 's durable_store" where
  "adopt recovered d =
     (case recovered of
        None \<Rightarrow> d\<lparr>ds_observed := None, ds_frozen := False\<rparr>
      | Some snapshot \<Rightarrow>
          d\<lparr>ds_high_water := max (ds_high_water d) (snap_generation snapshot),
            ds_committed := opt_max (ds_committed d) (snap_generation snapshot),
            ds_observed := Some (snap_generation snapshot), ds_frozen := False\<rparr>)"

definition recover_not_behind ::
  "'s operation_store \<Rightarrow> 's durable_store \<Rightarrow> (recover_error + operation_snapshot option) \<times> 's durable_store" where
  "recover_not_behind inner d =
     (case st_recover inner (ds_inner d) of
        (Inl e, i) \<Rightarrow> (Inl Unreadable, d\<lparr>ds_inner := i\<rparr>)
      | (Inr recovered, i) \<Rightarrow>
          if (case (ds_committed d, recovered) of
                (Some committed, Some snapshot) \<Rightarrow> snap_generation snapshot < committed
              | _ \<Rightarrow> False)
          then (Inl RolledBack, d\<lparr>ds_inner := i, ds_frozen := True\<rparr>)
          else (Inr recovered, adopt recovered (d\<lparr>ds_inner := i\<rparr>)))"

definition durable_commit ::
  "'s operation_store \<Rightarrow> operation_snapshot \<Rightarrow> 's durable_store \<Rightarrow> commit_outcome \<times> 's durable_store" where
  "durable_commit inner snapshot d =
     (if ds_frozen d then (CommitFailed, d)
      else
        let d = d\<lparr>ds_high_water := max (ds_high_water d) (snap_generation snapshot)\<rparr>
        in case st_commit_after inner (ds_observed d) snapshot (ds_inner d) of
             (outcome, i) \<Rightarrow>
               (outcome,
                if outcome = Committed then
                  d\<lparr>ds_inner := i, ds_observed := Some (snap_generation snapshot),
                    ds_committed := opt_max (ds_committed d) (snap_generation snapshot)\<rparr>
                else d\<lparr>ds_inner := i, ds_frozen := True\<rparr>))"

definition durable_recover ::
  "'s operation_store \<Rightarrow> 's durable_store \<Rightarrow> (store_error + operation_snapshot option) \<times> 's durable_store" where
  "durable_recover inner d =
     (case st_recover inner (ds_inner d) of
        (Inl e, i) \<Rightarrow> (Inl e, d\<lparr>ds_inner := i\<rparr>)
      | (Inr recovered, i) \<Rightarrow> (Inr recovered, adopt recovered (d\<lparr>ds_inner := i\<rparr>)))"

definition durable_next_generation :: "'s durable_store \<Rightarrow> u64 \<Rightarrow> u64 option" where
  "durable_next_generation d current = checked_add (max current (ds_high_water d)) 1"

definition durable_port :: "'s operation_store \<Rightarrow> 's durable_store operation_store" where
  "durable_port inner =
     \<lparr>st_commit = durable_commit inner,
      st_recover = durable_recover inner,
      st_is_frozen = ds_frozen,
      st_next_generation = durable_next_generation,
      st_durable_generation = default_durable_generation (durable_recover inner),
      st_commit_after =
        default_commit_after (default_durable_generation (durable_recover inner)) (durable_commit inner)\<rparr>"

section \<open>The native file store\<close>

text \<open>
  The file, and the system calls that fail at the moment: opening and reading it, taking the lock,
  staging and renaming the temporary file, and syncing the directory after the rename.
\<close>

record file_store =
  fs_file :: "bytes option"
  fs_read_fails :: bool
  fs_lock_fails :: bool
  fs_stage_fails :: bool
  fs_dirsync_fails :: bool

definition header_generation :: "file_store \<Rightarrow> store_error + u64 option" where
  "header_generation s =
     (case fs_file s of
        None \<Rightarrow> if fs_read_fails s then Inl StoreError else Inr None
      | Some bytes \<Rightarrow>
          if fs_read_fails s \<or> length bytes < 13 then Inl StoreError
          else
            let header = take 13 bytes
            in if take 4 header \<noteq> ascii ''TCOP'' \<or> (header ! 4 \<noteq> 1 \<and> header ! 4 \<noteq> OPERATION_SNAPSHOT_VERSION)
               then Inl StoreError
               else Inr (Some (u64_from_be (drop 5 header))))"

text \<open>\<open>write_atomically\<close>: a failure after the rename has replaced the file.\<close>

definition write_atomically :: "bytes \<Rightarrow> file_store \<Rightarrow> bool \<times> file_store" where
  "write_atomically bytes s =
     (if fs_stage_fails s then (False, s)
      else (\<not> fs_dirsync_fails s, s\<lparr>fs_file := Some bytes\<rparr>))"

definition file_write :: "operation_snapshot \<Rightarrow> file_store \<Rightarrow> commit_outcome \<times> file_store" where
  "file_write snapshot s =
     (case snapshot_encode snapshot of
        None \<Rightarrow> (CommitFailed, s)
      | Some bytes \<Rightarrow>
          (case write_atomically bytes s of (ok, s) \<Rightarrow> (if ok then Committed else CommitFailed, s)))"

definition file_locked ::
  "(file_store \<Rightarrow> commit_outcome \<times> file_store) \<Rightarrow> file_store \<Rightarrow> commit_outcome \<times> file_store" where
  "file_locked action s = (if fs_lock_fails s then (CommitFailed, s) else action s)"

definition file_commit :: "operation_snapshot \<Rightarrow> file_store \<Rightarrow> commit_outcome \<times> file_store" where
  "file_commit snapshot = file_locked (file_write snapshot)"

definition file_commit_after ::
  "u64 option \<Rightarrow> operation_snapshot \<Rightarrow> file_store \<Rightarrow> commit_outcome \<times> file_store" where
  "file_commit_after expected snapshot =
     file_locked (\<lambda>s. if header_generation s = Inr expected then file_write snapshot s else (CommitFailed, s))"

definition file_recover :: "file_store \<Rightarrow> (store_error + operation_snapshot option) \<times> file_store" where
  "file_recover s =
     ((if fs_read_fails s then Inl StoreError
       else case fs_file s of
         None \<Rightarrow> Inr None
       | Some bytes \<Rightarrow> rbind (ok_or StoreError (snapshot_decode bytes)) (\<lambda>snapshot. Inr (Some snapshot))), s)"

definition file_port :: "file_store operation_store" where
  "file_port =
     \<lparr>st_commit = file_commit, st_recover = file_recover, st_is_frozen = default_is_frozen,
      st_next_generation = default_next_generation,
      st_durable_generation = (\<lambda>s. (header_generation s, s)), st_commit_after = file_commit_after\<rparr>"

section \<open>The snapshot codec is exact\<close>

lemma snap_take_u32_iff: "snap_take_u32 i = Some (w, rest) \<longleftrightarrow> i = u32_to_be w @ rest"
  by (auto simp: snap_take_u32_def option_bind_simps split_at_checked_Some u32_to_from_be)

lemma snap_take_u64_iff: "snap_take_u64 i = Some (w, rest) \<longleftrightarrow> i = u64_to_be w @ rest"
  by (auto simp: snap_take_u64_def option_bind_simps split_at_checked_Some u64_to_from_be)

interpretation snap_bytes_codec: prefix_codec snap_put_bytes snap_take_bytes "\<lambda>_. True"
proof unfold_locales
  fix i v rest
  show "snap_take_bytes i = Some (v, rest) \<longleftrightarrow> True \<and> (\<exists>out. snap_put_bytes v = Some out \<and> i = out @ rest)"
    by (auto simp: snap_take_bytes_def snap_put_bytes_def option_bind_simps snap_take_u32_iff
        split_at_checked_Some u32_try_from_Some)
qed

interpretation snap_many_codec: prefix_codec snap_put_many snap_take_many "\<lambda>_. True"
proof unfold_locales
  fix i v rest
  show "snap_take_many i = Some (v, rest) \<longleftrightarrow> True \<and> (\<exists>out. snap_put_many v = Some out \<and> i = out @ rest)"
    using snap_bytes_codec.counted_iff [of i v rest]
    by (auto simp: snap_take_many_def snap_put_many_def option_bind_simps snap_take_u32_iff list.pred_True)
qed

text \<open>The bytes of a snapshot under version one, which has no group controls.\<close>

definition snapshot_encode_v1 :: "operation_snapshot \<Rightarrow> bytes option" where
  "snapshot_encode_v1 s = do {
     provider_state \<leftarrow> snap_put_bytes (snap_provider_state s);
     application_state \<leftarrow> snap_put_bytes (snap_application_state s);
     outbox \<leftarrow> snap_put_many (snap_outbox s);
     inbox \<leftarrow> snap_put_many (snap_inbox s);
     dedup \<leftarrow> snap_put_many (snap_dedup s);
     Some (ascii ''TCOP'' @ [1] @ u64_to_be (snap_generation s) @ provider_state @ application_state
       @ outbox @ inbox @ dedup @ u64_to_be (snap_delivery_cursor s)) }"

lemmas snap_dec = snap_take_u64_iff snap_bytes_codec.dec_iff snap_many_codec.dec_iff

lemma snapshot_decode_fwd:
  assumes "snapshot_decode bytes = Some s"
  shows "snap_version s = OPERATION_SNAPSHOT_VERSION \<and>
    (snapshot_encode s = Some bytes \<or> snap_group_controls s = [] \<and> snapshot_encode_v1 s = Some bytes)"
proof -
  obtain version i where v: "bytes = ascii ''TCOP'' @ version # i" "version = 1 \<or> version = OPERATION_SNAPSHOT_VERSION"
    using assms by (auto simp: snapshot_decode_def option_bind_simps split_at_checked_Some split_first_Some split: if_splits)
  then show ?thesis
    using assms
    by (auto simp: snapshot_decode_def option_bind_simps split_at_checked_Some snap_dec snapshot_encode_def snapshot_encode_v1_def
        OPERATION_SNAPSHOT_VERSION_def split: if_splits)
qed

lemma snap_take_written:
  "snap_take_u64 (u64_to_be w @ rest) = Some (w, rest)"
  "snap_take_u64 (u64_to_be w) = Some (w, [])"
  "snap_put_bytes v = Some out \<Longrightarrow> snap_take_bytes (out @ rest) = Some (v, rest)"
  "snap_put_many vs = Some outs \<Longrightarrow> snap_take_many (outs @ rest) = Some (vs, rest)"
  by (simp_all add: snap_dec)

lemma snapshot_decode_v2:
  assumes "snapshot_encode s = Some bytes" "snap_version s = OPERATION_SNAPSHOT_VERSION"
  shows "snapshot_decode bytes = Some s"
proof -
  obtain p a ob ib dd gc where "snap_put_bytes (snap_provider_state s) = Some p"
    "snap_put_bytes (snap_application_state s) = Some a" "snap_put_many (snap_outbox s) = Some ob"
    "snap_put_many (snap_inbox s) = Some ib" "snap_put_many (snap_dedup s) = Some dd"
    "snap_put_many (snap_group_controls s) = Some gc"
    "bytes = ascii ''TCOP'' @ [snap_version s] @ u64_to_be (snap_generation s) @ p @ a @ ob @ ib @ dd @ gc
       @ u64_to_be (snap_delivery_cursor s)"
    using assms(1) by (auto simp: snapshot_encode_def option_bind_simps)
  then show ?thesis
    using assms(2) by (simp add: snapshot_decode_def snap_take_written OPERATION_SNAPSHOT_VERSION_def)
qed

lemma snapshot_decode_v1:
  assumes "snapshot_encode_v1 s = Some bytes" "snap_version s = OPERATION_SNAPSHOT_VERSION" "snap_group_controls s = []"
  shows "snapshot_decode bytes = Some s"
proof -
  obtain p a ob ib dd where "snap_put_bytes (snap_provider_state s) = Some p"
    "snap_put_bytes (snap_application_state s) = Some a" "snap_put_many (snap_outbox s) = Some ob"
    "snap_put_many (snap_inbox s) = Some ib" "snap_put_many (snap_dedup s) = Some dd"
    "bytes = ascii ''TCOP'' @ [1] @ u64_to_be (snap_generation s) @ p @ a @ ob @ ib @ dd
       @ u64_to_be (snap_delivery_cursor s)"
    using assms(1) by (auto simp: snapshot_encode_v1_def option_bind_simps)
  then show ?thesis
    using assms(2,3) by (simp add: snapshot_decode_def snap_take_written OPERATION_SNAPSHOT_VERSION_def)
qed

text \<open>
  The snapshot codec is exact: a file decodes to a snapshot exactly when it is that snapshot's
  encoding, or the version-one encoding of it without group controls, which an old file may still
  hold; every decoded snapshot carries the current version, so it is written back under a tag that
  decodes again.
\<close>

theorem snapshot_decode_iff:
  "snapshot_decode bytes = Some s \<longleftrightarrow>
   snap_version s = OPERATION_SNAPSHOT_VERSION \<and>
   (snapshot_encode s = Some bytes \<or> snap_group_controls s = [] \<and> snapshot_encode_v1 s = Some bytes)"
  using snapshot_decode_fwd snapshot_decode_v2 snapshot_decode_v1 by blast

lemma header_of_snapshot:
  assumes "snapshot_encode s = Some bytes" "snap_version s = OPERATION_SNAPSHOT_VERSION"
    "fs_file f = Some bytes" "\<not> fs_read_fails f"
  shows "header_generation f = Inr (Some (snap_generation s))"
proof -
  obtain rest where b: "bytes = ascii ''TCOP'' @ [OPERATION_SNAPSHOT_VERSION] @ u64_to_be (snap_generation s) @ rest"
    using assms(1,2) by (auto simp: snapshot_encode_def option_bind_simps)
  then have h: "take 13 bytes = ascii ''TCOP'' @ [OPERATION_SNAPSHOT_VERSION] @ u64_to_be (snap_generation s)"
    "13 \<le> length bytes"
    by simp_all
  then show ?thesis
    using assms(3,4) by (simp add: header_generation_def nth_append)
qed

section \<open>Several coordinators on one file\<close>

text \<open>
  Handles of any number of coordinators share the file.  Each coordinator holds the snapshot it last
  recovered or published, and publishes a changed copy under the generation its handle gives; the
  environment decides which system calls fail.
\<close>

record coordinator =
  co_store :: "file_store durable_store"
  co_held :: "operation_snapshot option"

record fleet =
  fl_file :: file_store
  fl_coordinators :: "coordinator list"

datatype fleet_op =
    Publish nat operation_snapshot
  | Recover nat
  | Faults bool bool bool bool

definition coordinator_new :: coordinator where
  "coordinator_new =
     \<lparr>co_store = durable_new \<lparr>fs_file = None, fs_read_fails = False, fs_lock_fails = False,
        fs_stage_fails = False, fs_dirsync_fails = False\<rparr>, co_held = None\<rparr>"

definition fleet_new :: "nat \<Rightarrow> fleet" where
  "fleet_new n =
     \<lparr>fl_file = \<lparr>fs_file = None, fs_read_fails = False, fs_lock_fails = False, fs_stage_fails = False,
        fs_dirsync_fails = False\<rparr>, fl_coordinators = replicate n coordinator_new\<rparr>"

text \<open>One publication: the candidate under the next generation, and the held value replaced if it committed.\<close>

definition publish :: "file_store \<Rightarrow> operation_snapshot \<Rightarrow> coordinator \<Rightarrow> commit_outcome \<times> coordinator" where
  "publish file content c =
     (let d = (co_store c)\<lparr>ds_inner := file\<rparr>;
          current = (case co_held c of None \<Rightarrow> 0 | Some s \<Rightarrow> snap_generation s)
      in if ds_frozen d then (CommitFailed, c\<lparr>co_store := d\<rparr>)
         else case durable_next_generation d current of
           None \<Rightarrow> (CommitFailed, c\<lparr>co_store := d\<rparr>)
         | Some g \<Rightarrow>
             let candidate = content\<lparr>snap_version := OPERATION_SNAPSHOT_VERSION, snap_generation := g\<rparr>
             in case durable_commit file_port candidate d of
                  (outcome, d) \<Rightarrow>
                    (outcome, c\<lparr>co_store := d, co_held := (if outcome = Committed then Some candidate else co_held c)\<rparr>))"

definition refresh :: "file_store \<Rightarrow> coordinator \<Rightarrow> coordinator" where
  "refresh file c =
     (case recover_not_behind file_port ((co_store c)\<lparr>ds_inner := file\<rparr>) of
        (Inl e, d) \<Rightarrow> c\<lparr>co_store := d\<rparr>
      | (Inr recovered, d) \<Rightarrow> c\<lparr>co_store := d, co_held := recovered\<rparr>)"

primrec fleet_step :: "fleet_op \<Rightarrow> fleet \<Rightarrow> commit_outcome option \<times> fleet" where
  "fleet_step (Publish i content) w =
     (if i < length (fl_coordinators w) then
        case publish (fl_file w) content (fl_coordinators w ! i) of
          (outcome, c) \<Rightarrow>
            (Some outcome, \<lparr>fl_file = ds_inner (co_store c), fl_coordinators = (fl_coordinators w)[i := c]\<rparr>)
      else (None, w))"
| "fleet_step (Recover i) w =
     (if i < length (fl_coordinators w) then
        (None, w\<lparr>fl_coordinators := (fl_coordinators w)[i := refresh (fl_file w) (fl_coordinators w ! i)]\<rparr>)
      else (None, w))"
| "fleet_step (Faults read lock stage dirsync) w =
     (None, w\<lparr>fl_file := (fl_file w)\<lparr>fs_read_fails := read, fs_lock_fails := lock, fs_stage_fails := stage,
        fs_dirsync_fails := dirsync\<rparr>\<rparr>)"

text \<open>What a publication does: nothing to the file, or it replaces what the handle had observed.\<close>

definition same_view :: "coordinator \<Rightarrow> coordinator \<Rightarrow> bool" where
  "same_view c c' \<longleftrightarrow> co_held c' = co_held c \<and> ds_observed (co_store c') = ds_observed (co_store c) \<and>
     ds_committed (co_store c') = ds_committed (co_store c) \<and> ds_high_water (co_store c) \<le> ds_high_water (co_store c')"

definition replaces :: "file_store \<Rightarrow> coordinator \<Rightarrow> operation_snapshot \<Rightarrow> coordinator \<Rightarrow> bool" where
  "replaces f c candidate c' \<longleftrightarrow>
     (\<exists>b. snapshot_encode candidate = Some b \<and> fs_file (ds_inner (co_store c')) = Some b) \<and>
     snap_version candidate = OPERATION_SNAPSHOT_VERSION \<and> header_generation f = Inr (ds_observed (co_store c)) \<and>
     ds_high_water (co_store c) < snap_generation candidate \<and>
     ds_high_water (co_store c') = snap_generation candidate"

lemma next_generation_above:
  assumes "durable_next_generation d current = Some g"
  shows "ds_high_water d < g" "current < g"
proof -
  have "unat g = unat (max current (ds_high_water d)) + 1"
    using assms by (simp add: durable_next_generation_def checked_add_Some)
  then show "ds_high_water d < g" "current < g" by (auto simp: word_less_nat_alt word_le_nat_alt max_def split: if_splits)
qed

lemma file_commit_after_cases:
  "(\<exists>r. file_commit_after expected s f = (r, f) \<and> r \<noteq> Committed) \<or>
   (\<exists>r b. file_commit_after expected s f = (r, f\<lparr>fs_file := Some b\<rparr>) \<and> snapshot_encode s = Some b \<and>
      header_generation f = Inr expected)"
  by (auto simp: file_commit_after_def file_locked_def file_write_def write_atomically_def split: option.split)

lemma publish_cases:
  assumes "publish f content c = (outcome, c')"
  obtains (unchanged) "fs_file (ds_inner (co_store c')) = fs_file f" "outcome \<noteq> Committed" "same_view c c'"
  | (failed) candidate where "replaces f c candidate c'" "outcome \<noteq> Committed" "same_view c c'"
  | (committed) candidate where "replaces f c candidate c'" "outcome = Committed" "co_held c' = Some candidate"
      "ds_observed (co_store c') = Some (snap_generation candidate)"
      "ds_committed (co_store c') = opt_max (ds_committed (co_store c)) (snap_generation candidate)"
proof -
  let ?d = "(co_store c)\<lparr>ds_inner := f\<rparr>" and ?current = "case co_held c of None \<Rightarrow> 0 | Some s \<Rightarrow> snap_generation s"
  show thesis
  proof (cases "ds_frozen (co_store c) \<or> durable_next_generation ?d ?current = None")
    case True
    then have "outcome = CommitFailed" "c' = c\<lparr>co_store := ?d\<rparr>"
      using assms by (auto simp: publish_def Let_def split: if_splits)
    then show thesis using unchanged by (simp add: same_view_def)
  next
    case False
    then obtain g where g: "durable_next_generation ?d ?current = Some g" "\<not> ds_frozen (co_store c)" by auto
    define s where "s = content\<lparr>snap_version := OPERATION_SNAPSHOT_VERSION, snap_generation := g\<rparr>"
    have s: "snap_generation s = g" "snap_version s = OPERATION_SNAPSHOT_VERSION" by (simp_all add: s_def)
    have above: "ds_high_water (co_store c) < g" using next_generation_above(1) [OF g(1)] by simp
    then have m: "max (ds_high_water (co_store c)) g = g" by (intro max_absorb2 less_imp_le)
    obtain r i where r: "file_commit_after (ds_observed (co_store c)) s f = (r, i)" by fastforce
    then have c': "outcome = r" "c' = c\<lparr>co_store := (if r = Committed
        then ?d\<lparr>ds_high_water := g, ds_inner := i, ds_observed := Some g, ds_committed := opt_max (ds_committed (co_store c)) g\<rparr>
        else ?d\<lparr>ds_high_water := g, ds_inner := i, ds_frozen := True\<rparr>),
        co_held := if r = Committed then Some s else co_held c\<rparr>"
      using assms g m by (auto simp: publish_def Let_def durable_commit_def file_port_def s_def [symmetric] s)
    have "replaces f c s c'" if "snapshot_encode s = Some b" "i = f\<lparr>fs_file := Some b\<rparr>"
      "header_generation f = Inr (ds_observed (co_store c))" for b
      using that c' s above by (simp add: replaces_def)
    then show thesis
      using file_commit_after_cases [of "ds_observed (co_store c)" s f] r c' above s
      by (cases "r = Committed") (auto intro: unchanged failed committed simp: same_view_def)
  qed
qed


definition stored :: "file_store \<Rightarrow> operation_snapshot option" where
  "stored f = (case fs_file f of None \<Rightarrow> None | Some b \<Rightarrow> snapshot_decode b)"

definition file_ok :: "file_store \<Rightarrow> bool" where
  "file_ok f \<longleftrightarrow> (\<forall>b. fs_file f = Some b \<longrightarrow>
     (\<exists>s. snapshot_encode s = Some b \<and> snap_version s = OPERATION_SNAPSHOT_VERSION))"

text \<open>
  A coordinator's handle has observed the generation of the held snapshot; the file is at least as
  new, and at the same generation it holds that very snapshot.
\<close>

definition coordinator_ok :: "file_store \<Rightarrow> coordinator \<Rightarrow> bool" where
  "coordinator_ok f c \<longleftrightarrow>
     ds_observed (co_store c) = map_option snap_generation (co_held c) \<and>
     (\<forall>s. co_held c = Some s \<longrightarrow> snap_generation s \<le> ds_high_water (co_store c) \<and>
        (\<exists>cur. stored f = Some cur \<and> snap_generation s \<le> snap_generation cur \<and>
           (snap_generation s = snap_generation cur \<longrightarrow> cur = s))) \<and>
     (\<forall>g. ds_committed (co_store c) = Some g \<longrightarrow> (\<exists>cur. stored f = Some cur \<and> g \<le> snap_generation cur))"

definition fleet_ok :: "fleet \<Rightarrow> bool" where
  "fleet_ok w \<longleftrightarrow> file_ok (fl_file w) \<and> (\<forall>c \<in> set (fl_coordinators w). coordinator_ok (fl_file w) c)"

lemma stored_written:
  "snapshot_encode s = Some b \<Longrightarrow> snap_version s = OPERATION_SNAPSHOT_VERSION \<Longrightarrow> fs_file f = Some b \<Longrightarrow> stored f = Some s"
  by (simp add: stored_def snapshot_decode_v2)

lemma stored_header:
  assumes "file_ok f" "header_generation f = Inr g"
  shows "g = map_option snap_generation (stored f)"
proof (cases "fs_file f")
  case None
  then show ?thesis using assms(2) by (auto simp: header_generation_def stored_def split: if_splits)
next
  case (Some b)
  then obtain s where s: "snapshot_encode s = Some b" "snap_version s = OPERATION_SNAPSHOT_VERSION"
    using assms(1) by (auto simp: file_ok_def)
  have "\<not> fs_read_fails f" using assms(2) Some by (auto simp: header_generation_def)
  then show ?thesis using header_of_snapshot [OF s Some] assms(2) stored_written [OF s Some] by simp
qed

lemma opt_max_le: "opt_max c g = Some k \<Longrightarrow> k = g \<or> c = Some k"
  by (auto simp: opt_max_def max_def split: option.splits if_splits)

text \<open>A replacement raises the stored generation, whoever observed it before.\<close>

lemma replaces_advance:
  assumes "replaces f c s c'" "file_ok f" "coordinator_ok f c"
  shows "file_ok (ds_inner (co_store c'))" "stored (ds_inner (co_store c')) = Some s" "stored f = co_held c"
    "stored f = Some cur \<Longrightarrow> snap_generation cur < snap_generation s"
proof -
  obtain b where b: "snapshot_encode s = Some b" "fs_file (ds_inner (co_store c')) = Some b"
    "snap_version s = OPERATION_SNAPSHOT_VERSION"
    using assms(1) by (auto simp: replaces_def)
  show "file_ok (ds_inner (co_store c'))" using b by (auto simp: file_ok_def)
  show "stored (ds_inner (co_store c')) = Some s" using b stored_written by blast
  have "map_option snap_generation (co_held c) = map_option snap_generation (stored f)"
    using stored_header [OF assms(2)] assms(1,3) by (simp add: replaces_def coordinator_ok_def)
  then show held: "stored f = co_held c"
    using assms(3) by (cases "co_held c") (auto simp: coordinator_ok_def)
  show "stored f = Some cur \<Longrightarrow> snap_generation cur < snap_generation s"
    using assms(1,3) held by (auto simp: coordinator_ok_def replaces_def)
qed

lemma coordinator_ok_newer:
  assumes "coordinator_ok f c" "\<And>cur. stored f = Some cur \<Longrightarrow> snap_generation cur < snap_generation s" "stored f' = Some s"
    "same_view c c'"
  shows "coordinator_ok f' c'"
  using assms by (fastforce simp: coordinator_ok_def same_view_def)

lemma same_view_refl [simp]: "same_view c c"
  by (simp add: same_view_def)

lemma coordinator_ok_same:
  "coordinator_ok f c \<Longrightarrow> fs_file f' = fs_file f \<Longrightarrow> same_view c c' \<Longrightarrow> coordinator_ok f' c'"
  by (fastforce simp: coordinator_ok_def same_view_def stored_def)

lemma publish_ok:
  assumes "publish f content c = (outcome, c')" "file_ok f" "coordinator_ok f c"
  shows "file_ok (ds_inner (co_store c'))" "coordinator_ok (ds_inner (co_store c')) c'"
    "coordinator_ok f c'' \<Longrightarrow> coordinator_ok (ds_inner (co_store c')) c''"
  using assms(1)
proof (atomize (full), cases rule: publish_cases)
  case unchanged
  then show "file_ok (ds_inner (co_store c')) \<and> coordinator_ok (ds_inner (co_store c')) c' \<and>
      (coordinator_ok f c'' \<longrightarrow> coordinator_ok (ds_inner (co_store c')) c'')"
    using assms(2,3) coordinator_ok_same by (auto simp: file_ok_def)
next
  case (failed s)
  then show "file_ok (ds_inner (co_store c')) \<and> coordinator_ok (ds_inner (co_store c')) c' \<and>
      (coordinator_ok f c'' \<longrightarrow> coordinator_ok (ds_inner (co_store c')) c'')"
    using replaces_advance [OF failed(1) assms(2,3)] coordinator_ok_newer assms(3) same_view_refl by metis
next
  case (committed s)
  have "coordinator_ok (ds_inner (co_store c')) c'"
    using committed replaces_advance [OF committed(1) assms(2,3)] assms(3) opt_max_le
    by (fastforce simp: coordinator_ok_def replaces_def)
  then show "file_ok (ds_inner (co_store c')) \<and> coordinator_ok (ds_inner (co_store c')) c' \<and>
      (coordinator_ok f c'' \<longrightarrow> coordinator_ok (ds_inner (co_store c')) c'')"
    using replaces_advance [OF committed(1) assms(2,3)] coordinator_ok_newer same_view_refl by metis
qed

lemma file_recover_ok:
  assumes "file_ok f" "fst (file_recover f) = Inr r"
  shows "r = stored f"
  using assms by (auto simp: file_recover_def stored_def rbind_eq_Inr ok_or_eq_Inr split: if_splits option.splits)

text \<open>Recovering never finds the file behind what the handle saw committed, unless the file cannot be read.\<close>

lemma refresh_ok:
  assumes "file_ok f" "coordinator_ok f c"
  shows "coordinator_ok f (refresh f c)"
    "fst (file_recover f) = Inr r \<Longrightarrow> refresh f c = c\<lparr>co_store := adopt r ((co_store c)\<lparr>ds_inner := f\<rparr>), co_held := r\<rparr>"
proof -
  have keep: "coordinator_ok f (c\<lparr>co_store := (co_store c)\<lparr>ds_inner := f\<rparr>\<rparr>)"
    using assms(2) by (simp add: coordinator_ok_def)
  have found: "refresh f c = c\<lparr>co_store := adopt r ((co_store c)\<lparr>ds_inner := f\<rparr>), co_held := r\<rparr>"
    if "fst (file_recover f) = Inr r" for r
  proof -
    have "r = stored f" using file_recover_ok assms(1) that by blast
    then have "\<not> (case (ds_committed (co_store c), r) of (Some g, Some s) \<Rightarrow> snap_generation s < g | _ \<Rightarrow> False)"
      using assms(2) by (fastforce simp: coordinator_ok_def split: option.splits)
    moreover have "file_recover f = (Inr r, f)" using that by (simp add: file_recover_def)
    ultimately show ?thesis by (simp add: refresh_def recover_not_behind_def file_port_def)
  qed
  then show "fst (file_recover f) = Inr r \<Longrightarrow> refresh f c = c\<lparr>co_store := adopt r ((co_store c)\<lparr>ds_inner := f\<rparr>), co_held := r\<rparr>" .
  show "coordinator_ok f (refresh f c)"
  proof (cases "fst (file_recover f)")
    case (Inl e)
    then have "file_recover f = (Inl e, f)" by (simp add: file_recover_def)
    then have "refresh f c = c\<lparr>co_store := (co_store c)\<lparr>ds_inner := f\<rparr>\<rparr>"
      by (simp add: refresh_def recover_not_behind_def file_port_def)
    then show ?thesis using keep by simp
  next
    case (Inr r)
    moreover have "r = stored f" using file_recover_ok assms(1) Inr by blast
    ultimately show ?thesis
      using found [OF Inr] assms(2) opt_max_le
      by (cases r) (fastforce simp: coordinator_ok_def adopt_def)+
  qed
qed

lemma fleet_step_ok:
  assumes "fleet_ok w"
  shows "fleet_ok (snd (fleet_step x w))"
proof (cases x)
  case (Publish i content)
  show ?thesis
  proof (cases "i < length (fl_coordinators w)")
    case True
    obtain outcome c where c: "publish (fl_file w) content (fl_coordinators w ! i) = (outcome, c)" by fastforce
    have "coordinator_ok (fl_file w) (fl_coordinators w ! i)" using assms True by (simp add: fleet_ok_def)
    then show ?thesis
      using publish_ok [OF c] assms Publish True c by (auto simp: fleet_ok_def dest: set_update_subset_insert [THEN subsetD])
  qed (use assms Publish in simp)
next
  case (Recover i)
  then show ?thesis
    using assms refresh_ok(1) [of "fl_file w"]
    by (auto simp: fleet_ok_def dest!: set_update_subset_insert [THEN subsetD])
next
  case (Faults r l s d)
  then show ?thesis using assms by (auto simp: fleet_ok_def file_ok_def coordinator_ok_def stored_def)
qed

interpretation fleet: invariant_machine fleet_step fleet_ok
  by unfold_locales (rule fleet_step_ok)

lemma fleet_new_ok: "fleet_ok (fleet_new n)"
  by (auto simp: fleet_ok_def fleet_new_def file_ok_def coordinator_ok_def coordinator_new_def durable_new_def)


lemma stored_faults [simp]: "stored (f\<lparr>fs_read_fails := a, fs_lock_fails := b, fs_stage_fails := d, fs_dirsync_fails := e\<rparr>) = stored f"
  by (simp add: stored_def)

lemma publish_advance:
  assumes "publish f content c = (outcome, c')" "file_ok f" "coordinator_ok f c"
  shows "stored (ds_inner (co_store c')) = stored f \<or>
    (\<exists>s. stored (ds_inner (co_store c')) = Some s \<and> (\<forall>cur. stored f = Some cur \<longrightarrow> snap_generation cur < snap_generation s))"
  using assms(1)
proof (cases rule: publish_cases)
  case unchanged
  then show ?thesis by (simp add: stored_def)
next
  case (failed s)
  then show ?thesis using replaces_advance [OF failed(1) assms(2,3)] by blast
next
  case (committed s)
  then show ?thesis using replaces_advance [OF committed(1) assms(2,3)] by blast
qed

definition stored_le :: "fleet \<Rightarrow> fleet \<Rightarrow> bool" where
  "stored_le w w' \<longleftrightarrow> (\<forall>cur. stored (fl_file w) = Some cur \<longrightarrow>
     (\<exists>s. stored (fl_file w') = Some s \<and> snap_generation cur \<le> snap_generation s))"

interpretation fleet_order: monotone_machine fleet_step fleet_ok stored_le
proof unfold_locales
  show "stored_le w w" for w by (simp add: stored_le_def)
  show "stored_le w w' \<Longrightarrow> stored_le w' w'' \<Longrightarrow> stored_le w w''" for w w' w''
    unfolding stored_le_def by (meson order_trans)
  fix w x assume w: "fleet_ok w"
  show "stored_le w (snd (fleet_step x w))"
  proof (cases x)
    case (Publish i content)
    obtain outcome c where c: "publish (fl_file w) content (fl_coordinators w ! i) = (outcome, c)" by fastforce
    then show ?thesis
      using publish_advance [OF c] w Publish
      by (cases "i < length (fl_coordinators w)") (auto simp: stored_le_def fleet_ok_def order.strict_implies_order)
  qed (auto simp: stored_le_def)
qed

text \<open>
  C7.  No publication is lost.  Whatever any number of coordinators on one file do, and whichever
  system calls fail: a publication that reports success replaced exactly the snapshot its coordinator
  held, under a strictly higher generation, and the file then holds what the coordinator now holds;
  so a coordinator that fell behind is refused instead of overwriting another's snapshot.  The
  generation in the file never goes back.
\<close>

theorem store_fence:
  assumes "fleet_step (Publish i content) (final fleet_step xs (fleet_new n)) = (Some Committed, w')"
  shows "let w = final fleet_step xs (fleet_new n); before = stored (fl_file w); after = co_held (fl_coordinators w' ! i)
    in before = co_held (fl_coordinators w ! i) \<and> after = stored (fl_file w') \<and> after \<noteq> None \<and>
       (before = None \<or> snap_generation (the before) < snap_generation (the after)) \<and>
       (let later = stored (fl_file (final fleet_step ys w'))
        in later \<noteq> None \<and> snap_generation (the after) \<le> snap_generation (the later))"
proof -
  let ?w = "final fleet_step xs (fleet_new n)"
  have ok: "fleet_ok ?w" by (rule fleet.run_inv) (rule fleet_new_ok)
  have i: "i < length (fl_coordinators ?w)" using assms by (auto split: if_splits)
  obtain c where c: "publish (fl_file ?w) content (fl_coordinators ?w ! i) = (Committed, c)"
    "fl_file w' = ds_inner (co_store c)" "fl_coordinators w' ! i = c"
    using assms i by (auto split: prod.splits)
  have oks: "file_ok (fl_file ?w)" "coordinator_ok (fl_file ?w) (fl_coordinators ?w ! i)"
    using ok i by (auto simp: fleet_ok_def)
  from c(1) obtain s where s: "replaces (fl_file ?w) (fl_coordinators ?w ! i) s c" "co_held c = Some s"
    by (rule publish_cases) simp_all
  note adv = replaces_advance [OF s(1) oks]
  have "fleet_ok w'" using fleet_step_ok [OF ok, of "Publish i content"] assms by simp
  then have "stored_le w' (final fleet_step ys w')" by (rule fleet_order.run_le)
  then show ?thesis
    using adv s(2) c(2,3) by (cases "co_held (fl_coordinators ?w ! i)") (auto simp: Let_def stored_le_def)
qed

definition ex_fleet_ops :: "fleet_op list" where
  "ex_fleet_ops = [Recover 0, Publish 0 (snapshot_empty 0), Recover 1, Faults False False False True,
     Publish 1 (snapshot_empty 0), Faults False False False False, Recover 1]"

theorem store_fence_witness:
  "let w = final fleet_step ex_fleet_ops (fleet_new 2); w' = snd (fleet_step (Publish 1 (snapshot_empty 0)) w)
   in stored (fl_file w) = co_held (fl_coordinators w ! 1) \<and> stored (fl_file w) \<noteq> None \<and>
      fst (fleet_step (Publish 0 (snapshot_empty 0)) w') = Some CommitFailed"
proof -
  let ?w = "final fleet_step ex_fleet_ops (fleet_new 2)"
  have step: "fleet_step (Publish 1 (snapshot_empty 0)) ?w = (Some Committed, snd (fleet_step (Publish 1 (snapshot_empty 0)) ?w))"
    by code_simp
  have "stored (fl_file ?w) \<noteq> None"
    "fst (fleet_step (Publish 0 (snapshot_empty 0)) (snd (fleet_step (Publish 1 (snapshot_empty 0)) ?w))) = Some CommitFailed"
    by code_simp+
  then show ?thesis using store_fence [OF step, of "[]"] by (simp add: Let_def)
qed


lemma adopt_fields [simp]:
  "ds_frozen (adopt r d) = False" "ds_observed (adopt r d) = map_option snap_generation r"
  "ds_inner (adopt r d) = ds_inner d"
  by (simp_all add: adopt_def split: option.split)






end
