(* ===== verification/Deferred_Rosters.thy ===== *)
theory Deferred_Rosters
  imports Roster_View
begin

text \<open>
  Crate \<^verbatim>\<open>tacenta-client\<close>, \<^verbatim>\<open>group_deferred_rosters.rs\<close>: roster controls that arrived ahead of their
  predecessor.  The queue holds at most four, one per revision, in ascending revision.
\<close>

definition MAX_DEFERRED_ROSTERS :: nat where "MAX_DEFERRED_ROSTERS = 4"

definition HOLD_AHEAD :: u64 where "HOLD_AHEAD = 4"

definition DEFERRED_TAG :: bytes where "DEFERRED_TAG = ascii ''TCGQ''"

datatype hold_outcome = Held | HoldDuplicate | HoldRefused

type_synonym deferred_rosters = "roster list"

definition hold :: "roster \<Rightarrow> deferred_rosters \<Rightarrow> hold_outcome \<times> deferred_rosters" where
  "hold r q =
     (case find (\<lambda>held. ros_revision held = ros_revision r) q of
        Some existing \<Rightarrow> (if existing = r then HoldDuplicate else HoldRefused, q)
      | None \<Rightarrow>
          if length q = MAX_DEFERRED_ROSTERS then (HoldRefused, q)
          else (Held, sort_key ros_revision (q @ [r])))"

definition hold_keeping_lowest :: "roster \<Rightarrow> deferred_rosters \<Rightarrow> hold_outcome \<times> deferred_rosters" where
  "hold_keeping_lowest r q =
     hold r
       (if length q = MAX_DEFERRED_ROSTERS
           \<and> \<not> list_ex (\<lambda>held. ros_revision held = ros_revision r) q
           \<and> q \<noteq> [] \<and> ros_revision r < ros_revision (last q)
        then butlast q else q)"

definition prune_through :: "u64 \<Rightarrow> deferred_rosters \<Rightarrow> deferred_rosters" where
  "prune_through revision q = filter (\<lambda>held. ros_revision held > revision) q"

definition remove_revision :: "u64 \<Rightarrow> deferred_rosters \<Rightarrow> deferred_rosters" where
  "remove_revision revision q = filter (\<lambda>held. ros_revision held \<noteq> revision) q"

definition next_for :: "roster_view \<Rightarrow> deferred_rosters \<Rightarrow> roster option" where
  "next_for v q =
     find (\<lambda>held. Some (ros_revision held) = checked_add (ros_revision (view_roster v)) 1
                 \<and> ros_predecessor held = view_digest v) q"

definition put_preimage :: "roster \<Rightarrow> bytes group_result" where
  "put_preimage r =
     rbind (roster_encode r) (\<lambda>preimage.
     rbind (ok_or E_Malformed (u32_try_from (length preimage))) (\<lambda>n. Inr (u32_to_be n @ preimage)))"

definition deferred_encode_record :: "bytes \<Rightarrow> deferred_rosters \<Rightarrow> bytes group_result" where
  "deferred_encode_record group_id q =
     rbind (ok_or E_Malformed (u8_try_from (length q))) (\<lambda>count.
     rbind (rput_many put_preimage q) (\<lambda>rosters.
       Inr (DEFERRED_TAG @ group_id @ [count] @ rosters)))"

text \<open>The loop of \<open>decode_record\<close>, with the rosters read so far.\<close>

fun take_preimages :: "bytes \<Rightarrow> member \<Rightarrow> nat \<Rightarrow> roster list \<Rightarrow> bytes \<Rightarrow> (roster list \<times> bytes) group_result" where
  "take_preimages group_id pinned_authority 0 rosters rest = Inr (rosters, rest)"
| "take_preimages group_id pinned_authority (Suc n) rosters rest =
     rbind (ok_or E_Malformed (split_at_checked 4 rest)) (\<lambda>(len, tail).
     rbind (ok_or E_Malformed (split_at_checked (unat (u32_from_be len)) tail)) (\<lambda>(preimage, tail).
     rbind (roster_decode preimage) (\<lambda>r.
       if ros_group_id r \<noteq> group_id \<or> ros_authority r \<noteq> pinned_authority
          \<or> (rosters \<noteq> [] \<and> ros_revision (last rosters) \<ge> ros_revision r)
       then Inl E_NonCanonical
       else
     rbind (roster_encode r) (\<lambda>again.
       if again \<noteq> preimage then Inl E_NonCanonical
       else take_preimages group_id pinned_authority n (rosters @ [r]) tail))))"

definition deferred_decode_record :: "bytes \<Rightarrow> bytes \<Rightarrow> member \<Rightarrow> deferred_rosters group_result" where
  "deferred_decode_record record_bytes group_id pinned_authority =
     (if \<not> starts_with record_bytes DEFERRED_TAG then Inl E_Malformed
      else
        rbind (ok_or E_Malformed (split_at_checked GROUP_ID_LEN (drop (length DEFERRED_TAG) record_bytes))) (\<lambda>(recorded, rest).
        if recorded \<noteq> group_id then Inl E_Malformed else
        rbind (ok_or E_Malformed (split_first rest)) (\<lambda>(count, rest).
        if unat count > MAX_DEFERRED_ROSTERS then Inl E_Malformed else
        rbind (take_preimages group_id pinned_authority (unat count) [] rest) (\<lambda>(rosters, rest).
          if rest \<noteq> [] then Inl E_Malformed else Inr rosters))))"

section \<open>The queue is ordered and bounded\<close>

definition deferred_sorted :: "deferred_rosters \<Rightarrow> bool" where
  "deferred_sorted q \<longleftrightarrow> sorted_wrt (<) (map ros_revision q) \<and> length q \<le> MAX_DEFERRED_ROSTERS"

lemma sorted_wrt_less: "sorted_wrt (<) (xs :: u64 list) \<longleftrightarrow> sorted xs \<and> distinct xs"
  by (rule strict_sorted_iff)

lemma hold_None: "find (\<lambda>held. ros_revision held = n) q = None \<longleftrightarrow> n \<notin> ros_revision ` set q"
  by (auto simp: find_None_iff)

lemma hold_ok: "deferred_sorted q \<Longrightarrow> deferred_sorted (snd (hold r q))"
proof (cases "find (\<lambda>held. ros_revision held = ros_revision r) q")
  case None
  then have "ros_revision r \<notin> ros_revision ` set q" by (simp add: hold_None)
  then show "deferred_sorted q \<Longrightarrow> deferred_sorted (snd (hold r q))"
    using None by (auto simp: hold_def deferred_sorted_def sorted_wrt_less distinct_map)
qed (simp add: hold_def)

lemma deferred_sorted_sub: "deferred_sorted q \<Longrightarrow> deferred_sorted (filter P q)"
  by (auto simp: deferred_sorted_def sorted_wrt_map sorted_wrt_filter intro: le_trans [OF length_filter_le])

lemma deferred_sorted_butlast: "deferred_sorted q \<Longrightarrow> deferred_sorted (butlast q)"
  by (cases q rule: rev_cases) (auto simp: deferred_sorted_def sorted_wrt_append)

text \<open>The revisions a queue without a view holds, against a reference: the four lowest it was sent.\<close>

definition lowest_four :: "u64 set \<Rightarrow> u64 list" where
  "lowest_four A = take MAX_DEFERRED_ROSTERS (sorted_list_of_set A)"

lemma take_insort: "take k (insort x xs) = take k (insort x (take k xs))"
proof (induction xs arbitrary: k)
  case (Cons y ys)
  then show ?case by (cases k) (auto simp: take_Cons' min_def)
qed simp

lemma insort_below_last:
  "sorted xs \<Longrightarrow> xs \<noteq> [] \<Longrightarrow> x < last xs \<Longrightarrow> take (length xs) (insort x xs) = insort x (butlast xs)"
proof (induction xs)
  case (Cons y ys)
  show ?case
  proof (cases "ys = []")
    case False
    then show ?thesis using Cons by (auto simp: butlast_conv_take take_Cons')
  qed (use Cons in auto)
qed simp

lemma insort_above_last:
  assumes "sorted xs" "xs \<noteq> []" "\<not> x < last xs" "x \<notin> set xs"
  shows "take (length xs) (insort x xs) = xs"
proof -
  have "\<forall>y \<in> set xs. y \<le> last xs" using assms(1,2) by (cases xs rule: rev_cases) (auto simp: sorted_append)
  then show ?thesis using assms(1,3) sorted_insort_is_snoc [of xs x] by fastforce
qed

lemma revisions_held:
  assumes "sorted_wrt (<) (map ros_revision q)" "ros_revision r \<notin> ros_revision ` set q"
  shows "map ros_revision (sort_key ros_revision (q @ [r])) = insort (ros_revision r) (map ros_revision q)"
proof (rule sorted_distinct_set_unique)
  show "sorted (map ros_revision (sort_key ros_revision (q @ [r])))" by simp
  show "distinct (map ros_revision (sort_key ros_revision (q @ [r])))"
    using assms by (auto simp: sorted_wrt_less distinct_map)
  show "sorted (insort (ros_revision r) (map ros_revision q))" "distinct (insort (ros_revision r) (map ros_revision q))"
    using assms by (auto simp: sorted_wrt_less sorted_insort distinct_insort)
qed (simp add: set_insort_key)

lemma last_take_nth: "0 < k \<Longrightarrow> k \<le> length xs \<Longrightarrow> last (take k xs) = xs ! (k - 1)"
  by (subst last_conv_nth) auto

lemma lowest_four_insert:
  assumes "finite A"
  shows "lowest_four (insert n A) =
    (if n \<in> set (lowest_four A) then lowest_four A
     else if length (lowest_four A) < MAX_DEFERRED_ROSTERS then insort n (lowest_four A)
     else if n < last (lowest_four A) then insort n (butlast (lowest_four A))
     else lowest_four A)"
proof -
  let ?L = "sorted_list_of_set A" and ?k = MAX_DEFERRED_ROSTERS
  let ?M = "take ?k ?L"
  have M: "sorted ?M" "distinct ?M" by (simp_all add: sorted_wrt_take)
  show ?thesis
  proof (cases "n \<in> A")
    case True
    then obtain i where i: "i < length ?L" "?L ! i = n" using assms by (metis in_set_conv_nth set_sorted_list_of_set)
    have "\<not> n < last ?M \<and> length ?M = ?k" if "n \<notin> set ?M"
    proof -
      have "?k \<le> i" using that i by (metis in_set_conv_nth length_take min_less_iff_conj nth_take not_le_imp_less)
      then have "length ?M = ?k" "last ?M = ?L ! (?k - 1)"
        using i(1) last_take_nth [of ?k ?L] by (simp_all add: MAX_DEFERRED_ROSTERS_def)
      moreover have "?L ! (?k - 1) \<le> ?L ! i" using \<open>?k \<le> i\<close> i(1) by (intro sorted_nth_mono) auto
      ultimately show ?thesis using i(2) by simp
    qed
    then show ?thesis using True by (auto simp: lowest_four_def insert_absorb)
  next
    case False
    then have "sorted_list_of_set (insert n A) = insort n ?L" using assms by simp
    then have "lowest_four (insert n A) = take ?k (insort n ?M)" using take_insort [of ?k n ?L] by (simp add: lowest_four_def)
    moreover have "n \<notin> set ?M" using False assms by (auto dest: in_set_takeD)
    moreover have "length ?M < ?k \<Longrightarrow> take ?k (insort n ?M) = insort n ?M" by simp
    moreover have "length ?M = ?k \<Longrightarrow> ?M \<noteq> []" by (auto simp: MAX_DEFERRED_ROSTERS_def)
    moreover have "length ?M = ?k \<or> length ?M < ?k" by (auto simp: min_def)
    ultimately show ?thesis
      using insort_below_last [OF M(1), of n] insort_above_last [OF M(1), of n] lowest_four_def [of A] by metis
  qed
qed

lemma hold_revisions:
  assumes "sorted_wrt (<) (map ros_revision q)"
  shows "map ros_revision (snd (hold r q)) =
    (if ros_revision r \<in> set (map ros_revision q) \<or> length q = MAX_DEFERRED_ROSTERS then map ros_revision q
     else insort (ros_revision r) (map ros_revision q))"
proof (cases "find (\<lambda>held. ros_revision held = ros_revision r) q")
  case None
  then show ?thesis using revisions_held [OF assms, of r] hold_None [of "ros_revision r" q] by (auto simp: hold_def)
next
  case (Some x)
  then have "ros_revision r \<in> set (map ros_revision q)" using hold_None [of "ros_revision r" q] by auto
  then show ?thesis using Some by (simp add: hold_def)
qed

lemma keeping_lowest_step:
  assumes "finite A" "map ros_revision q = lowest_four A"
  shows "map ros_revision (snd (hold_keeping_lowest r q)) = lowest_four (insert (ros_revision r) A)"
proof -
  let ?n = "ros_revision r"
  have len: "length q = length (lowest_four A)" "length q \<le> MAX_DEFERRED_ROSTERS"
    using assms(2) by (metis length_map) (metis assms(2) length_map lowest_four_def length_take min.cobounded2)
  have srt: "sorted_wrt (<) (map ros_revision q)"
    unfolding assms(2) lowest_four_def by (intro sorted_wrt_take strict_sorted_list_of_set)
  have ex: "list_ex (\<lambda>held. ros_revision held = ?n) q \<longleftrightarrow> ?n \<in> set (lowest_four A)"
    unfolding assms(2) [symmetric] by (auto simp: list_ex_iff image_iff) metis
  have last: "length q = MAX_DEFERRED_ROSTERS \<Longrightarrow> q \<noteq> [] \<and> ros_revision (last q) = last (lowest_four A)"
    unfolding assms(2) [symmetric] by (cases "q = []") (auto simp: last_map MAX_DEFERRED_ROSTERS_def)
  have btl: "map ros_revision (butlast q) = butlast (lowest_four A)" unfolding assms(2) [symmetric] by (simp add: map_butlast)
  have srtb: "sorted_wrt (<) (map ros_revision (butlast q))"
    using srt by (cases q rule: rev_cases) (auto simp: sorted_wrt_append)
  have "?n \<notin> set (lowest_four A) \<Longrightarrow> ?n \<notin> set (butlast (lowest_four A))" by (auto dest: in_set_butlastD)
  then show ?thesis
    unfolding lowest_four_insert [OF assms(1)] hold_keeping_lowest_def
    using ex last len btl hold_revisions [OF srt, of r] hold_revisions [OF srtb, of r] assms(2)
    by (auto simp: MAX_DEFERRED_ROSTERS_def)
qed


text \<open>
  C31.  A coordinator that has no roster view yet holds exactly the four lowest revisions it was sent,
  whatever the order, the repetitions and the forks: the queue agrees with the reference that sorts
  all revisions seen and takes four.
\<close>

theorem keeps_lowest_four:
  "map ros_revision (final hold_keeping_lowest rs []) = lowest_four (set (map ros_revision rs))"
proof (induction rs rule: rev_induct)
  case (snoc r rs)
  then show ?case using keeping_lowest_step [OF _ snoc, of r] by (simp add: final_append)
qed (simp add: lowest_four_def)

text \<open>The operations of a queue, as one machine.\<close>

datatype deferred_op =
    Hold roster
  | HoldKeepingLowest roster
  | PruneThrough u64
  | RemoveRevision u64

primrec deferred_step :: "deferred_op \<Rightarrow> deferred_rosters \<Rightarrow> hold_outcome option \<times> deferred_rosters" where
  "deferred_step (Hold r) q = map_prod Some id (hold r q)"
| "deferred_step (HoldKeepingLowest r) q = map_prod Some id (hold_keeping_lowest r q)"
| "deferred_step (PruneThrough revision) q = (None, prune_through revision q)"
| "deferred_step (RemoveRevision revision) q = (None, remove_revision revision q)"

interpretation deferred: invariant_machine deferred_step deferred_sorted
proof unfold_locales
  fix q x assume q: "deferred_sorted q"
  show "deferred_sorted (snd (deferred_step x q))"
  proof (cases x)
    case (HoldKeepingLowest r)
    then show ?thesis using q hold_ok deferred_sorted_butlast by (simp add: hold_keeping_lowest_def)
  qed (use q hold_ok deferred_sorted_sub in \<open>auto simp: prune_through_def remove_revision_def\<close>)
qed

section \<open>The checkpoint of a queue\<close>

definition preimage_bytes :: "roster \<Rightarrow> bytes" where
  "preimage_bytes r = lp (roster_bytes r)"

definition control_ok :: "bytes \<Rightarrow> member \<Rightarrow> roster \<Rightarrow> bool" where
  "control_ok group_id authority r \<longleftrightarrow>
     roster_typed r \<and> roster_valid r \<and> ros_group_id r = group_id \<and> ros_authority r = authority"

lemma roster_bytes_u32: "roster_typed r \<Longrightarrow> roster_valid r \<Longrightarrow> length (roster_bytes r) < 2 ^ 32"
  by (simp add: length_roster_bytes roster_valid_def MAX_ROSTER_LEN_def)

lemma put_preimage_ok: "roster_typed r \<Longrightarrow> roster_valid r \<Longrightarrow> put_preimage r = Inr (preimage_bytes r)"
  using roster_bytes_u32 [of r] by (auto simp: put_preimage_def preimage_bytes_def lp_def roster_encode_Inr
      rbind_eq_Inr u32_try_from_def ok_or_eq_Inr)

lemma take_preimages_ok:
  "list_all (control_ok group_id authority) rs \<Longrightarrow> sorted_wrt (<) (map ros_revision (seen @ rs)) \<Longrightarrow>
   take_preimages group_id authority (length rs) seen (concat (map preimage_bytes rs) @ rest) = Inr (seen @ rs, rest)"
proof (induction rs arbitrary: seen)
  case (Cons r rs)
  have r: "roster_typed r" "roster_valid r" "ros_group_id r = group_id" "ros_authority r = authority"
    using Cons.prems(1) by (simp_all add: control_ok_def)
  have codec: "roster_encode r = Inr (roster_bytes r)" "roster_decode (roster_bytes r) = Inr r"
    using r by (simp_all add: roster_encode_Inr roster_decode_exact)
  have "seen \<noteq> [] \<Longrightarrow> ros_revision (last seen) < ros_revision r"
    using Cons.prems(2) by (cases seen rule: rev_cases) (auto simp: sorted_wrt_append)
  then show ?case
    using Cons.IH [of "seen @ [r]"] Cons.prems r codec roster_bytes_u32 [of r]
    by (auto simp: preimage_bytes_def lp_def unat_of_nat_u32)
qed simp

lemma deferred_restore:
  assumes "deferred_sorted q" "list_all (control_ok group_id authority) q" "length group_id = GROUP_ID_LEN"
  shows "\<exists>b. deferred_encode_record group_id q = Inr b \<and> deferred_decode_record b group_id authority = Inr q \<and>
    starts_with b (DEFERRED_TAG @ group_id)"
proof -
  have "rput_many put_preimage q = Inr (concat (map preimage_bytes q))"
    using assms(2) by (intro rput_many_bytes) (auto simp: list_all_iff control_ok_def put_preimage_ok)
  moreover have n: "length q \<le> 4" "unat (of_nat (length q) :: byte) = length q"
    using assms(1) by (simp_all add: deferred_sorted_def MAX_DEFERRED_ROSTERS_def unat_of_nat)
  ultimately have enc: "deferred_encode_record group_id q
      = Inr (DEFERRED_TAG @ group_id @ [of_nat (length q)] @ concat (map preimage_bytes q))"
    by (simp add: deferred_encode_record_def u8_try_from_def)
  have "take_preimages group_id authority (length q) [] (concat (map preimage_bytes q)) = Inr (q, [])"
    using take_preimages_ok [of group_id authority q "[]" "[]"] assms(1,2) by (simp add: deferred_sorted_def)
  then have "deferred_decode_record (DEFERRED_TAG @ group_id @ [of_nat (length q)] @ concat (map preimage_bytes q))
      group_id authority = Inr q"
    using n assms(3) by (simp add: deferred_decode_record_def MAX_DEFERRED_ROSTERS_def)
  then show ?thesis using enc starts_with_append [of "DEFERRED_TAG @ group_id"] by simp
qed

end
