(* ===== verification/Control_Outbox.thy ===== *)
theory Control_Outbox
  imports Group_Payload Group_Receive "HOL-Library.Product_Lexorder" "HOL-Library.Multiset"
begin

text \<open>
  Crate \<^verbatim>\<open>tacenta-client\<close>, \<^verbatim>\<open>group_control_outbox.rs\<close>: the durable handoffs of roster and invitation
  controls.  At most eight are live and sixteen finished ones are kept; a handoff is sent at most
  three times, always with the ciphertext it was prepared with.

  The payload commitment is computed by the core library and is a parameter.
\<close>

section \<open>Handoffs\<close>

definition CONTROL_OUTBOX_DOMAIN :: bytes where
  "CONTROL_OUTBOX_DOMAIN = ascii ''Tacenta Group Control Outbox State v2''"

definition MAX_LIVE_HANDOFFS :: nat where "MAX_LIVE_HANDOFFS = 8"

definition MAX_TERMINAL_HANDOFFS :: nat where "MAX_TERMINAL_HANDOFFS = 16"

definition MAX_ATTEMPTS :: byte where "MAX_ATTEMPTS = 3"

datatype control_disposition =
    CtlPrepared
  | CtlHandedOff
  | CtlRelayAccepted
  | CtlExhaustedUnknown
  | CtlCancelled
  | CtlCancelledAfterHandoff

record control_handoff =
  ho_recipient :: member
  ho_payload :: bytes
  ho_ciphertext :: bytes
  ho_attempts :: byte
  ho_disposition :: control_disposition
  ho_sequence :: u64

type_synonym control_outbox = "control_handoff list"

text \<open>\<open>canonical_order\<close>: by commitment, then by the recipient's identity and device.\<close>

definition canonical_key :: "(bytes \<Rightarrow> bytes) \<Rightarrow> control_handoff \<Rightarrow> bytes \<times> member" where
  "canonical_key payload_commitment h = (payload_commitment (ho_payload h), ho_recipient h)"

definition ctl_is_terminal :: "control_handoff \<Rightarrow> bool" where
  "ctl_is_terminal h \<longleftrightarrow> ho_disposition h \<noteq> CtlPrepared \<and> ho_disposition h \<noteq> CtlHandedOff"

definition ctl_live :: "control_outbox \<Rightarrow> nat" where
  "ctl_live ob = length (filter (\<lambda>h. \<not> ctl_is_terminal h) ob)"

text \<open>\<open>Iterator::min_by_key\<close>: the first of the least.\<close>

fun min_by_key :: "('a \<Rightarrow> u64) \<Rightarrow> 'a list \<Rightarrow> 'a option" where
  "min_by_key k [] = None"
| "min_by_key k (x # xs) =
     (case min_by_key k xs of None \<Rightarrow> Some x | Some y \<Rightarrow> if k x \<le> k y then Some x else Some y)"

definition oldest_terminal :: "control_outbox \<Rightarrow> nat option" where
  "oldest_terminal ob =
     map_option fst (min_by_key (\<lambda>(i, h). ho_sequence h) (filter (\<lambda>(i, h). ctl_is_terminal h) (enumerate 0 ob)))"

lemma min_by_key_mem: "min_by_key k xs = Some x \<Longrightarrow> x \<in> set xs"
  by (induction xs arbitrary: x) (auto split: option.splits if_splits)

lemma oldest_terminal_Some:
  assumes "oldest_terminal ob = Some i"
  shows "i < length ob" "ctl_is_terminal (ob ! i)"
  using assms min_by_key_mem by (fastforce simp: oldest_terminal_def in_set_enumerate_eq)+

lemma min_by_key_None: "min_by_key k xs = None \<longleftrightarrow> xs = []"
  by (cases xs) (auto split: option.splits if_splits)

lemma oldest_terminal_exists:
  assumes "filter ctl_is_terminal ob \<noteq> []"
  shows "oldest_terminal ob \<noteq> None"
proof -
  obtain i where "i < length ob" "ctl_is_terminal (ob ! i)"
    using assms by (auto simp: filter_empty_conv in_set_conv_nth)
  then have "(i, ob ! i) \<in> set (filter (\<lambda>(i, h). ctl_is_terminal h) (enumerate 0 ob))"
    by (simp add: in_set_enumerate_eq)
  then show ?thesis
    unfolding oldest_terminal_def map_option_is_None min_by_key_None by (metis list.distinct(1) list.set_cases)
qed

text \<open>
  \<open>reclaim\<close>: the loop that drops the oldest finished handoff while there are too many.  The code
  panics if there is none to drop, which \<open>oldest_terminal_exists\<close> rules out above the bound.
\<close>

function reclaim :: "control_outbox \<Rightarrow> control_outbox" where
  "reclaim ob =
     (if length (filter ctl_is_terminal ob) \<le> MAX_TERMINAL_HANDOFFS then ob
      else case oldest_terminal ob of
        None \<Rightarrow> ob
      | Some i \<Rightarrow> reclaim (take i ob @ drop (Suc i) ob))"
  by auto
termination
proof (relation "measure length")
  fix ob i assume "oldest_terminal ob = Some i"
  then show "(take i ob @ drop (Suc i) ob, ob) \<in> measure length" using oldest_terminal_Some(1) by fastforce
qed simp

declare reclaim.simps [simp del]

definition is_control_payload :: "bytes \<Rightarrow> bool" where
  "is_control_payload payload =
     (case payload_decode payload of
        Inr (PayloadRoster r) \<Rightarrow> True
      | Inr (PayloadBootstrap b) \<Rightarrow> True
      | Inr (PayloadAcceptance a) \<Rightarrow> True
      | Inr (PayloadRevocation a) \<Rightarrow> True
      | _ \<Rightarrow> False)"

text \<open>The handoff of a recipient and a payload, as the operations look it up.\<close>

definition same_handoff :: "(bytes \<Rightarrow> bytes) \<Rightarrow> member \<Rightarrow> bytes \<Rightarrow> control_handoff \<Rightarrow> bool" where
  "same_handoff payload_commitment recipient payload h \<longleftrightarrow>
     ho_recipient h = recipient \<and> payload_commitment (ho_payload h) = payload_commitment payload"

definition ctl_record_prepared ::
  "(bytes \<Rightarrow> bytes) \<Rightarrow> member \<Rightarrow> bytes \<Rightarrow> bytes \<Rightarrow> control_outbox \<Rightarrow> unit group_result \<times> control_outbox" where
  "ctl_record_prepared payload_commitment recipient payload ciphertext ob =
     (case find (same_handoff payload_commitment recipient payload) ob of
        Some existing \<Rightarrow>
          (if ho_payload existing = payload \<and> ho_ciphertext existing = ciphertext then Inr () else Inl E_Conflict, ob)
      | None \<Rightarrow>
          if ctl_live ob \<ge> MAX_LIVE_HANDOFFS \<or> \<not> is_control_payload payload then (Inl E_OutboxFull, ob)
          else
            let sequence = (case iter_max (map ho_sequence ob) of None \<Rightarrow> 0 | Some highest \<Rightarrow> saturating_add highest 1);
                h = \<lparr>ho_recipient = recipient, ho_payload = payload, ho_ciphertext = ciphertext, ho_attempts = 0,
                     ho_disposition = CtlPrepared, ho_sequence = sequence\<rparr>
            in (Inr (), reclaim (sort_key (canonical_key payload_commitment) (ob @ [h]))))"

definition reserve_ctl :: "control_handoff \<Rightarrow> control_handoff group_result \<times> control_handoff" where
  "reserve_ctl h =
     (if ctl_is_terminal h then (Inl E_WrongDisposition, h)
      else
        let h = h\<lparr>ho_attempts := ho_attempts h + 1\<rparr>;
            h = h\<lparr>ho_disposition := if ho_attempts h = MAX_ATTEMPTS then CtlExhaustedUnknown else CtlHandedOff\<rparr>
        in (Inr h, h))"

definition accept_ctl :: "control_handoff \<Rightarrow> unit group_result \<times> control_handoff" where
  "accept_ctl h =
     (if ho_disposition h \<notin> {CtlHandedOff, CtlExhaustedUnknown} then (Inl E_WrongDisposition, h)
      else (Inr (), h\<lparr>ho_disposition := CtlRelayAccepted\<rparr>))"

text \<open>\<open>iter_mut().find\<close> of a handoff, the change of it, and \<open>reclaim\<close> when the change was made.\<close>

definition change_handoff ::
  "(bytes \<Rightarrow> bytes) \<Rightarrow> member \<Rightarrow> bytes \<Rightarrow> (control_handoff \<Rightarrow> 'r group_result \<times> control_handoff) \<Rightarrow> control_outbox
     \<Rightarrow> 'r group_result \<times> control_outbox" where
  "change_handoff payload_commitment recipient payload f ob =
     (case with_first (same_handoff payload_commitment recipient payload) f ob of
        None \<Rightarrow> (Inl E_Malformed, ob)
      | Some (Inl e, ob') \<Rightarrow> (Inl e, ob')
      | Some (Inr r, ob') \<Rightarrow> (Inr r, reclaim ob'))"

definition ctl_reserve ::
  "(bytes \<Rightarrow> bytes) \<Rightarrow> member \<Rightarrow> bytes \<Rightarrow> control_outbox \<Rightarrow> control_handoff group_result \<times> control_outbox" where
  "ctl_reserve payload_commitment recipient payload ob =
     change_handoff payload_commitment recipient payload reserve_ctl ob"

definition ctl_accept ::
  "(bytes \<Rightarrow> bytes) \<Rightarrow> member \<Rightarrow> bytes \<Rightarrow> control_outbox \<Rightarrow> unit group_result \<times> control_outbox" where
  "ctl_accept payload_commitment recipient payload ob =
     change_handoff payload_commitment recipient payload accept_ctl ob"

definition is_revocation_payload :: "bytes \<Rightarrow> bool" where
  "is_revocation_payload payload = (case payload_decode payload of Inr (PayloadRevocation a) \<Rightarrow> True | _ \<Rightarrow> False)"

definition cancel_ctl :: "control_disposition \<Rightarrow> control_disposition" where
  "cancel_ctl d =
     (case d of CtlPrepared \<Rightarrow> CtlCancelled | CtlHandedOff \<Rightarrow> CtlCancelledAfterHandoff | d \<Rightarrow> d)"

definition cancel_non_revocation_for_recipient :: "member \<Rightarrow> control_outbox \<Rightarrow> control_outbox" where
  "cancel_non_revocation_for_recipient recipient ob =
     reclaim (map (\<lambda>h. if ho_recipient h \<noteq> recipient \<or> is_revocation_payload (ho_payload h) then h
                       else h\<lparr>ho_disposition := cancel_ctl (ho_disposition h)\<rparr>) ob)"

definition ctl_handoff ::
  "(bytes \<Rightarrow> bytes) \<Rightarrow> member \<Rightarrow> bytes \<Rightarrow> control_outbox \<Rightarrow> control_handoff group_result" where
  "ctl_handoff payload_commitment recipient payload ob =
     ok_or E_Malformed (find (same_handoff payload_commitment recipient payload) ob)"

definition ctl_pending :: "control_outbox \<Rightarrow> control_outbox" where
  "ctl_pending ob = filter (\<lambda>h. \<not> ctl_is_terminal h) ob"

section \<open>The checkpoint\<close>

fun disposition_code :: "control_disposition \<Rightarrow> byte" where
  "disposition_code CtlPrepared = 0"
| "disposition_code CtlHandedOff = 1"
| "disposition_code CtlRelayAccepted = 2"
| "disposition_code CtlExhaustedUnknown = 3"
| "disposition_code CtlCancelled = 4"
| "disposition_code CtlCancelledAfterHandoff = 5"

definition disposition_of_code :: "byte \<Rightarrow> control_disposition group_result" where
  "disposition_of_code code =
     (if code = 0 then Inr CtlPrepared else if code = 1 then Inr CtlHandedOff
      else if code = 2 then Inr CtlRelayAccepted else if code = 3 then Inr CtlExhaustedUnknown
      else if code = 4 then Inr CtlCancelled else if code = 5 then Inr CtlCancelledAfterHandoff
      else Inl E_Malformed)"

definition put_handoff :: "control_handoff \<Rightarrow> bytes group_result" where
  "put_handoff h =
     rbind (put_lp (mem_identity (ho_recipient h))) (\<lambda>identity.
     rbind (put_lp (mem_device (ho_recipient h))) (\<lambda>device.
     rbind (put_lp (ho_payload h)) (\<lambda>payload.
     rbind (put_lp (ho_ciphertext h)) (\<lambda>ciphertext.
       Inr (identity @ device @ payload @ ciphertext @ [ho_attempts h, disposition_code (ho_disposition h)]
            @ u64_to_be (ho_sequence h))))))"

definition ctl_encode_state :: "(bytes \<Rightarrow> bytes) \<Rightarrow> control_outbox \<Rightarrow> bytes group_result" where
  "ctl_encode_state payload_commitment ob =
     (if ctl_live ob > MAX_LIVE_HANDOFFS \<or> length (filter ctl_is_terminal ob) > MAX_TERMINAL_HANDOFFS
      then Inl E_OutboxFull
      else
        rbind (ok_or E_Malformed (u8_try_from (length ob))) (\<lambda>count.
        rbind (rput_many put_handoff (sort_key (canonical_key payload_commitment) ob)) (\<lambda>entries.
          Inr (CONTROL_OUTBOX_DOMAIN @ [count] @ entries))))"

definition handoff_consistent :: "control_disposition \<Rightarrow> byte \<Rightarrow> bytes \<Rightarrow> bool" where
  "handoff_consistent disposition attempts payload \<longleftrightarrow>
     \<not> (attempts > MAX_ATTEMPTS
        \<or> disposition = CtlPrepared \<and> attempts \<noteq> 0
        \<or> disposition = CtlHandedOff \<and> (attempts = 0 \<or> attempts = MAX_ATTEMPTS)
        \<or> disposition = CtlExhaustedUnknown \<and> attempts \<noteq> MAX_ATTEMPTS
        \<or> disposition = CtlCancelled \<and> attempts \<noteq> 0
        \<or> disposition = CtlCancelledAfterHandoff \<and> attempts = 0
        \<or> \<not> is_control_payload payload)"

fun take_handoffs :: "(bytes \<Rightarrow> bytes) \<Rightarrow> nat \<Rightarrow> control_outbox \<Rightarrow> bytes \<Rightarrow> (control_outbox \<times> bytes) group_result" where
  "take_handoffs payload_commitment 0 ob c = Inr (ob, c)"
| "take_handoffs payload_commitment (Suc n) ob c =
     rbind (take_lp c) (\<lambda>(identity, c).
     rbind (take_lp c) (\<lambda>(device, c).
     if length identity > MAX_IDENTITY_LEN \<or> length device > MAX_DEVICE_LEN then Inl E_Malformed else
     rbind (take_lp c) (\<lambda>(payload, c).
     rbind (take_lp c) (\<lambda>(ciphertext, c).
     rbind (take_byte c) (\<lambda>(attempts, c).
     rbind (take_byte c) (\<lambda>(code, c).
     rbind (disposition_of_code code) (\<lambda>disposition.
     rbind (g_take_u64 c) (\<lambda>(sequence, c).
     if \<not> handoff_consistent disposition attempts payload then Inl E_Malformed else
     let recipient = Member identity device in
     if list_ex (\<lambda>known. ho_sequence known = sequence \<or> same_handoff payload_commitment recipient payload known) ob
     then Inl E_Malformed
     else take_handoffs payload_commitment n
       (ob @ [\<lparr>ho_recipient = recipient, ho_payload = payload, ho_ciphertext = ciphertext, ho_attempts = attempts,
               ho_disposition = disposition, ho_sequence = sequence\<rparr>]) c))))))))"

definition ctl_decode_state :: "(bytes \<Rightarrow> bytes) \<Rightarrow> bytes \<Rightarrow> control_outbox group_result" where
  "ctl_decode_state payload_commitment bytes =
     (if \<not> starts_with bytes CONTROL_OUTBOX_DOMAIN then Inl E_Malformed
      else
        rbind (take_byte (drop (length CONTROL_OUTBOX_DOMAIN) bytes)) (\<lambda>(count, c).
        if unat count > MAX_LIVE_HANDOFFS + MAX_TERMINAL_HANDOFFS then Inl E_OutboxFull else
        rbind (take_handoffs payload_commitment (unat count) [] c) (\<lambda>(ob, c).
        if c \<noteq> [] then Inl E_Malformed else
        rbind (ctl_encode_state payload_commitment ob) (\<lambda>canonical.
          if canonical \<noteq> bytes then Inl E_NonCanonical else Inr ob))))"

section \<open>Bounds of the control outbox\<close>

lemma remove_nth_cases:
  assumes "i < length xs"
  obtains as x bs where "xs = as @ x # bs" "x = xs ! i" "take i xs @ drop (Suc i) xs = as @ bs"
  using that [of "take i xs" "xs ! i" "drop (Suc i) xs"] id_take_nth_drop [OF assms] by simp

lemma reclaim_keeps:
  assumes "\<And>as x bs. P (as @ x # bs) \<Longrightarrow> P (as @ bs)"
  shows "P ob \<Longrightarrow> P (reclaim ob)"
proof (induction ob rule: reclaim.induct)
  case (1 ob)
  show ?case
  proof (cases "oldest_terminal ob")
    case (Some i)
    have "P (take i ob @ drop (Suc i) ob)"
      using oldest_terminal_Some(1) [OF Some] by (rule remove_nth_cases) (use assms 1(2) in metis)
    then show ?thesis using 1(1) [OF _ Some] 1(2) Some by (subst reclaim.simps) simp
  qed (use 1 in \<open>simp add: reclaim.simps\<close>)
qed

lemma reclaim_live: "filter (\<lambda>h. \<not> ctl_is_terminal h) (reclaim ob) = filter (\<lambda>h. \<not> ctl_is_terminal h) ob"
proof (induction ob rule: reclaim.induct)
  case (1 ob)
  show ?case
  proof (cases "oldest_terminal ob")
    case (Some i)
    have "filter (\<lambda>h. \<not> ctl_is_terminal h) (take i ob @ drop (Suc i) ob) = filter (\<lambda>h. \<not> ctl_is_terminal h) ob"
      using oldest_terminal_Some(1) [OF Some]
    proof (rule remove_nth_cases)
      fix as x bs assume "ob = as @ x # bs" "x = ob ! i" "take i ob @ drop (Suc i) ob = as @ bs"
      then show ?thesis using oldest_terminal_Some(2) [OF Some] by (metis (no_types, lifting) filter.simps(2) filter_append)
    qed
    then show ?thesis using 1 [OF _ Some] Some by (subst reclaim.simps) simp
  qed (simp add: reclaim.simps)
qed

lemma reclaim_terminal: "length (filter ctl_is_terminal (reclaim ob)) \<le> MAX_TERMINAL_HANDOFFS"
proof (induction ob rule: reclaim.induct)
  case (1 ob)
  show ?case
  proof (cases "length (filter ctl_is_terminal ob) \<le> MAX_TERMINAL_HANDOFFS")
    case False
    then have "filter ctl_is_terminal ob \<noteq> []" by auto
    then obtain i where "oldest_terminal ob = Some i" using oldest_terminal_exists by blast
    then show ?thesis using 1 [OF False] False by (subst reclaim.simps) simp
  qed (simp add: reclaim.simps)
qed

definition handoff_ok :: "control_handoff \<Rightarrow> bool" where
  "handoff_ok h \<longleftrightarrow> member_ok (ho_recipient h) \<and> length (ho_ciphertext h) < 2 ^ 32 \<and>
     handoff_consistent (ho_disposition h) (ho_attempts h) (ho_payload h)"

text \<open>What a run of the outbox keeps; \<open>n\<close> bounds the sequence numbers given so far.\<close>

definition ctl_entries :: "(bytes \<Rightarrow> bytes) \<Rightarrow> nat \<Rightarrow> control_outbox \<Rightarrow> bool" where
  "ctl_entries pc n ob \<longleftrightarrow> sorted_wrt (<) (map (canonical_key pc) ob) \<and> list_all handoff_ok ob \<and>
     distinct (map ho_sequence ob) \<and> (\<forall>h \<in> set ob. unat (ho_sequence h) < n)"

definition ctl_ok :: "(bytes \<Rightarrow> bytes) \<Rightarrow> nat \<Rightarrow> control_outbox \<Rightarrow> bool" where
  "ctl_ok pc n ob \<longleftrightarrow> ctl_entries pc n ob \<and> ctl_live ob \<le> MAX_LIVE_HANDOFFS \<and>
     length (filter ctl_is_terminal ob) \<le> MAX_TERMINAL_HANDOFFS"

lemma reclaim_entries: "ctl_entries pc n ob \<Longrightarrow> ctl_entries pc n (reclaim ob)"
  by (rule reclaim_keeps) (auto simp: ctl_entries_def sorted_wrt_append)

lemma reclaim_ok: "ctl_entries pc n ob \<Longrightarrow> ctl_live ob \<le> MAX_LIVE_HANDOFFS \<Longrightarrow> ctl_ok pc n (reclaim ob)"
  using reclaim_entries reclaim_terminal by (simp add: ctl_ok_def ctl_live_def reclaim_live)

lemma handoff_live_attempts:
  "handoff_ok h \<Longrightarrow> \<not> ctl_is_terminal h \<Longrightarrow> ho_attempts h \<in> {0, 1, 2}"
proof -
  assume h: "handoff_ok h" "\<not> ctl_is_terminal h"
  have "unat (ho_attempts h) \<le> 3" using h by (auto simp: handoff_ok_def handoff_consistent_def MAX_ATTEMPTS_def word_less_nat_alt)
  then have "unat (ho_attempts h) \<in> {0, 1, 2, 3}" by auto
  then have "ho_attempts h \<in> {0, 1, 2, 3}" by (auto simp: word_unat_eq_iff)
  then show ?thesis using h by (auto simp: handoff_ok_def handoff_consistent_def ctl_is_terminal_def MAX_ATTEMPTS_def)
qed

lemma reserve_ctl_ok:
  assumes "handoff_ok h"
  shows "handoff_ok (snd (reserve_ctl h))"
proof (cases "ctl_is_terminal h")
  case False
  have "is_control_payload (ho_payload h)" using assms by (simp add: handoff_ok_def handoff_consistent_def)
  then show ?thesis
    using handoff_live_attempts [OF assms False] assms False
    by (auto simp: reserve_ctl_def Let_def handoff_ok_def handoff_consistent_def MAX_ATTEMPTS_def)
qed (simp add: reserve_ctl_def assms)

lemma accept_ctl_ok: "handoff_ok h \<Longrightarrow> handoff_ok (snd (accept_ctl h))"
  by (auto simp: accept_ctl_def handoff_ok_def handoff_consistent_def)

lemma cancel_ctl_ok: "handoff_ok h \<Longrightarrow> handoff_ok (h\<lparr>ho_disposition := cancel_ctl (ho_disposition h)\<rparr>)"
  by (auto simp: cancel_ctl_def handoff_ok_def handoff_consistent_def split: control_disposition.splits)

datatype control_op =
    CtlRecord member bytes bytes
  | CtlReserve member bytes
  | CtlAccept member bytes
  | CtlCancel member

primrec control_step ::
  "(bytes \<Rightarrow> bytes) \<Rightarrow> control_op \<Rightarrow> control_outbox \<Rightarrow> control_handoff option group_result \<times> control_outbox" where
  "control_step pc (CtlRecord recipient payload ciphertext) ob =
     map_prod (map_sum id (\<lambda>_. None)) id (ctl_record_prepared pc recipient payload ciphertext ob)"
| "control_step pc (CtlReserve recipient payload) ob =
     map_prod (map_sum id Some) id (ctl_reserve pc recipient payload ob)"
| "control_step pc (CtlAccept recipient payload) ob =
     map_prod (map_sum id (\<lambda>_. None)) id (ctl_accept pc recipient payload ob)"
| "control_step pc (CtlCancel recipient) ob = (Inr None, cancel_non_revocation_for_recipient recipient ob)"

text \<open>Recipients and ciphertexts are within their sizes, as the caller's are.\<close>

primrec control_op_ok :: "control_op \<Rightarrow> bool" where
  "control_op_ok (CtlRecord recipient payload ciphertext) = (member_ok recipient \<and> length ciphertext < 2 ^ 32)"
| "control_op_ok (CtlReserve recipient payload) = True"
| "control_op_ok (CtlAccept recipient payload) = True"
| "control_op_ok (CtlCancel recipient) = True"

lemma ctl_entries_mono: "ctl_entries pc n ob \<Longrightarrow> n \<le> n' \<Longrightarrow> ctl_entries pc n' ob"
  by (auto simp: ctl_entries_def)

text \<open>A change that keeps the recipient, the payload and the sequence of a handoff.\<close>

definition keeps_place :: "control_handoff \<Rightarrow> control_handoff \<Rightarrow> bool" where
  "keeps_place h h' \<longleftrightarrow> ho_recipient h' = ho_recipient h \<and> ho_payload h' = ho_payload h \<and>
     ho_ciphertext h' = ho_ciphertext h \<and> ho_sequence h' = ho_sequence h \<and>
     (handoff_ok h \<longrightarrow> handoff_ok h') \<and> (ctl_is_terminal h \<longrightarrow> ctl_is_terminal h')"

lemma ctl_entries_develop:
  assumes "list_all2 keeps_place ob ob'" "ctl_entries pc n ob"
  shows "ctl_entries pc n ob'" "ctl_live ob' \<le> ctl_live ob"
proof -
  have "map (canonical_key pc) ob' = map (canonical_key pc) ob \<and> map ho_sequence ob' = map ho_sequence ob \<and>
      (list_all handoff_ok ob \<longrightarrow> list_all handoff_ok ob') \<and> ctl_live ob' \<le> ctl_live ob"
    using assms(1) by (induction rule: list_all2_induct) (auto simp: keeps_place_def canonical_key_def ctl_live_def)
  moreover from this have "\<forall>h \<in> set ob'. ho_sequence h \<in> ho_sequence ` set ob" by (metis imageI image_set)
  ultimately show "ctl_entries pc n ob'" "ctl_live ob' \<le> ctl_live ob" using assms(2) by (auto simp: ctl_entries_def)
qed

lemma ctl_ok_develop:
  assumes "list_all2 keeps_place ob ob'" "ctl_ok pc n ob"
  shows "ctl_entries pc n ob'" "ctl_live ob' \<le> MAX_LIVE_HANDOFFS"
  using ctl_entries_develop [OF assms(1)] assms(2) le_trans unfolding ctl_ok_def by blast+

lemma keeps_place_refl [simp]: "keeps_place h h"
  by (simp add: keeps_place_def)

lemma change_handoff_ok:
  assumes "ctl_ok pc n ob" "\<And>h. keeps_place h (snd (f h))" "\<And>h e. fst (f h) = Inl e \<Longrightarrow> snd (f h) = h"
  shows "ctl_ok pc n (snd (change_handoff pc recipient payload f ob))"
proof (rule with_first_cases [of "same_handoff pc recipient payload" f ob], goal_cases)
  case 1
  then show ?case using assms(1) by (simp add: change_handoff_def)
next
  case (2 as x bs)
  have "list_all2 keeps_place ob (as @ snd (f x) # bs)"
    using 2(1) assms(2) by (auto intro!: list_all2_appendI simp: list_all2_refl)
  note dev = ctl_ok_develop [OF this assms(1)]
  show ?case
  proof (cases "fst (f x)")
    case (Inl e)
    then have "as @ snd (f x) # bs = ob" using assms(3) 2(1) by simp
    then show ?thesis using 2(4) Inl assms(1) by (simp add: change_handoff_def)
  next
    case (Inr r)
    then show ?thesis using 2(4) reclaim_ok [OF dev] by (simp add: change_handoff_def)
  qed
qed

lemma record_prepared_ok:
  assumes "ctl_ok pc n ob" "n < 2 ^ 64" "member_ok recipient" "length ciphertext < 2 ^ 32"
  shows "ctl_ok pc (Suc n) (snd (ctl_record_prepared pc recipient payload ciphertext ob))"
proof (cases "find (same_handoff pc recipient payload) ob \<noteq> None \<or> ctl_live ob \<ge> MAX_LIVE_HANDOFFS \<or>
    \<not> is_control_payload payload")
  case True
  then have "snd (ctl_record_prepared pc recipient payload ciphertext ob) = ob"
    by (auto simp: ctl_record_prepared_def split: option.split)
  then show ?thesis using assms(1) ctl_entries_mono by (fastforce simp: ctl_ok_def)
next
  case False
  define sequence where "sequence = (case iter_max (map ho_sequence ob) of None \<Rightarrow> 0 | Some highest \<Rightarrow> saturating_add highest 1)"
  define h where "h = \<lparr>ho_recipient = recipient, ho_payload = payload, ho_ciphertext = ciphertext, ho_attempts = 0,
    ho_disposition = CtlPrepared, ho_sequence = sequence\<rparr>"
  have seq: "unat sequence \<le> n \<and> sequence \<notin> set (map ho_sequence ob)"
  proof (cases "iter_max (map ho_sequence ob)")
    case (Some m)
    then have m: "m \<in> set (map ho_sequence ob)" "\<forall>x \<in> set (map ho_sequence ob). x \<le> m" using iter_max_Some by blast+
    then have "unat m < n" using assms(1) by (auto simp: ctl_ok_def ctl_entries_def)
    then have "unat sequence = unat m + 1" using Some assms(2) by (simp add: sequence_def unat_saturating_add)
    then show ?thesis using \<open>unat m < n\<close> m(2) by (fastforce simp: word_le_nat_alt)
  qed (simp add: sequence_def)
  have key: "canonical_key pc h \<notin> canonical_key pc ` set ob"
    using False by (auto simp: canonical_key_def h_def find_None_iff same_handoff_def)
  let ?ob = "sort_key (canonical_key pc) (ob @ [h])"
  have "distinct (map (canonical_key pc) ob)" using assms(1) by (simp add: ctl_ok_def ctl_entries_def strict_sorted_iff)
  then have "sorted_wrt (<) (map (canonical_key pc) ?ob)"
    using key by (auto simp: strict_sorted_iff distinct_map)
  moreover have "handoff_ok h"
    using False assms(3,4) by (simp add: h_def handoff_ok_def handoff_consistent_def MAX_ATTEMPTS_def)
  moreover have hs: "ho_sequence h = sequence" "h \<notin> set ob" using seq by (auto simp: h_def rev_image_eqI)
  then have "distinct (map ho_sequence ?ob)"
    using assms(1) seq by (auto simp: ctl_ok_def ctl_entries_def distinct_map)
  ultimately have "ctl_entries pc (Suc n) ?ob"
    using assms(1) seq hs(1) by (auto simp: ctl_ok_def ctl_entries_def list_all_iff)
  moreover have "ctl_live ?ob \<le> MAX_LIVE_HANDOFFS"
  proof -
    have "ctl_live ?ob = ctl_live (ob @ [h])" unfolding ctl_live_def by (metis mset_filter mset_sort size_mset)
    then show ?thesis using False by (simp add: ctl_live_def)
  qed
  ultimately have "ctl_ok pc (Suc n) (reclaim ?ob)" by (rule reclaim_ok)
  then show ?thesis using False by (simp add: ctl_record_prepared_def sequence_def h_def Let_def)
qed

lemma control_step_ok:
  assumes "ctl_ok pc n ob" "n < 2 ^ 64" "control_op_ok x"
  shows "ctl_ok pc (Suc n) (snd (control_step pc x ob))"
proof -
  have more: "ctl_ok pc n ob' \<Longrightarrow> ctl_ok pc (Suc n) ob'" for ob'
    using ctl_entries_mono [of pc n ob' "Suc n"] by (simp add: ctl_ok_def)
  have reserve: "keeps_place h (snd (reserve_ctl h))" "fst (reserve_ctl h) = Inl e \<Longrightarrow> snd (reserve_ctl h) = h" for h e
    using reserve_ctl_ok by (auto simp: keeps_place_def reserve_ctl_def Let_def)
  have accept: "keeps_place h (snd (accept_ctl h))" "fst (accept_ctl h) = Inl e \<Longrightarrow> snd (accept_ctl h) = h" for h e
    using accept_ctl_ok by (auto simp: keeps_place_def accept_ctl_def ctl_is_terminal_def)
  have cancel: "keeps_place h (h\<lparr>ho_disposition := cancel_ctl (ho_disposition h)\<rparr>)" for h
    using cancel_ctl_ok by (auto simp: keeps_place_def ctl_is_terminal_def cancel_ctl_def split: control_disposition.split)
  show ?thesis
  proof (cases x)
    case (CtlRecord recipient payload ciphertext)
    then show ?thesis using record_prepared_ok assms by simp
  next
    case (CtlReserve recipient payload)
    then show ?thesis using change_handoff_ok [OF assms(1) reserve] more by (simp add: ctl_reserve_def)
  next
    case (CtlAccept recipient payload)
    then show ?thesis using change_handoff_ok [OF assms(1) accept] more by (simp add: ctl_accept_def)
  next
    case (CtlCancel recipient)
    have "list_all2 keeps_place ob (map (\<lambda>h. if ho_recipient h \<noteq> recipient \<or> is_revocation_payload (ho_payload h) then h
        else h\<lparr>ho_disposition := cancel_ctl (ho_disposition h)\<rparr>) ob)"
      using cancel by (simp add: list_all2_map2 list_all2_same)
    then show ?thesis
      using CtlCancel reclaim_ok [OF ctl_ok_develop [OF _ assms(1)]] more
      by (simp add: cancel_non_revocation_for_recipient_def)
  qed
qed

lemma control_run_ok:
  assumes "list_all control_op_ok xs" "length xs < 2 ^ 64"
  shows "ctl_ok pc (length xs) (final (control_step pc) xs [])"
  using assms
proof (induction xs rule: rev_induct)
  case (snoc x xs)
  then show ?case using control_step_ok [of pc "length xs" "final (control_step pc) xs []" x] by (simp add: final_append)
qed (simp add: ctl_ok_def ctl_entries_def ctl_live_def)

section \<open>The checkpoint restores the outbox\<close>

definition handoff_bytes :: "control_handoff \<Rightarrow> bytes" where
  "handoff_bytes h = lp (mem_identity (ho_recipient h)) @ lp (mem_device (ho_recipient h)) @ lp (ho_payload h)
     @ lp (ho_ciphertext h) @ [ho_attempts h, disposition_code (ho_disposition h)] @ u64_to_be (ho_sequence h)"

lemma disposition_of_code [simp]: "disposition_of_code (disposition_code d) = Inr d"
  by (cases d) (simp_all add: disposition_of_code_def)

lemma handoff_sizes:
  assumes "handoff_ok h"
  shows "length (mem_identity (ho_recipient h)) \<le> MAX_IDENTITY_LEN" "length (mem_device (ho_recipient h)) \<le> MAX_DEVICE_LEN"
    "length (mem_identity (ho_recipient h)) < 2 ^ 32" "length (mem_device (ho_recipient h)) < 2 ^ 32"
    "length (ho_payload h) < 2 ^ 32" "length (ho_ciphertext h) < 2 ^ 32"
proof -
  have "is_control_payload (ho_payload h)" using assms by (simp add: handoff_ok_def handoff_consistent_def)
  then obtain p where "payload_decode (ho_payload h) = Inr p" by (auto simp: is_control_payload_def split: sum.splits)
  then show "length (ho_payload h) < 2 ^ 32" by (auto simp: payload_decode_Inr MAX_GROUP_PAYLOAD_LEN_def)
qed (use assms member_ok_fits in \<open>auto simp: handoff_ok_def member_ok_def\<close>)

lemma put_handoff_ok: "handoff_ok h \<Longrightarrow> put_handoff h = Inr (handoff_bytes h)"
  using handoff_sizes [of h] by (simp add: put_handoff_def handoff_bytes_def put_lp_Inr [THEN iffD2])

lemma take_handoffs_ok:
  "list_all handoff_ok hs \<Longrightarrow> distinct (map ho_sequence (seen @ hs)) \<Longrightarrow> distinct (map (canonical_key pc) (seen @ hs)) \<Longrightarrow>
   take_handoffs pc (length hs) seen (concat (map handoff_bytes hs) @ rest) = Inr (seen @ hs, rest)"
proof (induction hs arbitrary: seen)
  case (Cons h hs)
  have ok: "handoff_ok h" "handoff_consistent (ho_disposition h) (ho_attempts h) (ho_payload h)"
    using Cons.prems(1) by (simp_all add: handoff_ok_def)
  have "\<not> list_ex (\<lambda>known. ho_sequence known = ho_sequence h \<or> same_handoff pc (ho_recipient h) (ho_payload h) known) seen"
    using Cons.prems(2,3) by (auto simp: list_ex_iff same_handoff_def canonical_key_def rev_image_eqI)
  moreover have eta: "\<lparr>ho_recipient = ho_recipient h, ho_payload = ho_payload h,
      ho_ciphertext = ho_ciphertext h, ho_attempts = ho_attempts h, ho_disposition = ho_disposition h,
      ho_sequence = ho_sequence h\<rparr> = h"
    by (cases h) simp
  ultimately show ?case
    using Cons.IH [of "seen @ [h]"] Cons.prems ok(2) handoff_sizes [OF ok(1)]
    by (simp add: handoff_bytes_def Let_def eta)
qed simp

lemma ctl_restore:
  assumes "ctl_ok pc n ob"
  shows "\<exists>b. ctl_encode_state pc ob = Inr b \<and> ctl_decode_state pc b = Inr ob"
proof -
  have ob: "sorted_wrt (<) (map (canonical_key pc) ob)" "list_all handoff_ok ob" "distinct (map ho_sequence ob)"
    "ctl_live ob \<le> 8" "length (filter ctl_is_terminal ob) \<le> 16"
    using assms by (simp_all add: ctl_ok_def ctl_entries_def MAX_LIVE_HANDOFFS_def MAX_TERMINAL_HANDOFFS_def)
  have keys: "sorted (map (canonical_key pc) ob)" "distinct (map (canonical_key pc) ob)"
    using ob(1) by (simp_all add: strict_sorted_iff)
  then have same: "sort_key (canonical_key pc) ob = ob" by (simp add: sort_key_id_if_sorted)
  have n: "length ob \<le> 24" "unat (of_nat (length ob) :: byte) = length ob"
    using ob(4,5) sum_length_filter_compl [of ctl_is_terminal ob] by (simp_all add: ctl_live_def unat_of_nat)
  let ?b = "CONTROL_OUTBOX_DOMAIN @ [of_nat (length ob)] @ concat (map handoff_bytes ob)"
  have "rput_many put_handoff ob = Inr (concat (map handoff_bytes ob))"
    using ob(2) by (intro rput_many_bytes) (auto simp: list_all_iff put_handoff_ok)
  then have enc: "ctl_encode_state pc ob = Inr ?b"
    using ob(4,5) same n by (simp add: ctl_encode_state_def u8_try_from_def MAX_LIVE_HANDOFFS_def MAX_TERMINAL_HANDOFFS_def)
  have "take_handoffs pc (length ob) [] (concat (map handoff_bytes ob)) = Inr (ob, [])"
    using take_handoffs_ok [of ob "[]" pc "[]"] ob(2,3) keys(2) by simp
  then have "ctl_decode_state pc ?b = Inr ob"
    using enc n by (simp add: ctl_decode_state_def MAX_LIVE_HANDOFFS_def MAX_TERMINAL_HANDOFFS_def)
  then show ?thesis using enc by blast
qed

text \<open>
  C29.  The control outbox keeps its bounds and survives a restart.  After any operations with
  recipients and ciphertexts of legal size (fewer than 2 to the 64th), at most eight handoffs are live
  and at most sixteen finished ones are kept, no handoff has more than three attempts reserved, and
  its checkpoint encodes and decodes to the same outbox.
\<close>

theorem control_outbox_restart:
  assumes "list_all control_op_ok xs" "length xs < 2 ^ 64"
  shows "let ob = final (control_step pc) xs []
    in length (ctl_pending ob) \<le> MAX_LIVE_HANDOFFS \<and> length (filter ctl_is_terminal ob) \<le> MAX_TERMINAL_HANDOFFS \<and>
       list_all (\<lambda>h. ho_attempts h \<le> MAX_ATTEMPTS) ob \<and>
       (\<exists>b. ctl_encode_state pc ob = Inr b \<and> ctl_decode_state pc b = Inr ob)"
proof -
  have ok: "ctl_ok pc (length xs) (final (control_step pc) xs [])" by (rule control_run_ok [OF assms])
  then have "list_all (\<lambda>h. ho_attempts h \<le> MAX_ATTEMPTS) (final (control_step pc) xs [])"
    by (auto simp: ctl_ok_def ctl_entries_def handoff_ok_def handoff_consistent_def list_all_iff not_less)
  then show ?thesis
    using ok ctl_restore [OF ok] by (simp add: Let_def ctl_pending_def ctl_ok_def ctl_live_def)
qed

text \<open>A roster control to one recipient, and seventeen recipients.\<close>

definition ex_control :: bytes where
  "ex_control = (case payload_encode (PayloadRoster ex_second) of Inr b \<Rightarrow> b | Inl e \<Rightarrow> [])"

definition ex_member :: "nat \<Rightarrow> member" where
  "ex_member n = Member [of_nat n] [1]"

definition ex_control_ops :: "control_op list" where
  "ex_control_ops = [CtlRecord (ex_member 0) ex_control [7], CtlReserve (ex_member 0) ex_control, CtlReserve (ex_member 0) ex_control]"

lemma ex_control_payload: "is_control_payload ex_control"
  by code_simp

theorem control_outbox_restart_witness:
  "let ob = final (control_step (\<lambda>_. [])) ex_control_ops []
   in length (ctl_pending ob) = 1 \<and> (\<exists>b. ctl_encode_state (\<lambda>_. []) ob = Inr b \<and> ctl_decode_state (\<lambda>_. []) b = Inr ob)"
proof -
  have "list_all control_op_ok ex_control_ops" "length ex_control_ops < 2 ^ 64"
    by (simp_all add: ex_control_ops_def ex_member_def member_ok_def MAX_IDENTITY_LEN_def MAX_DEVICE_LEN_def)
  moreover have "length (ctl_pending (final (control_step (\<lambda>_. [])) ex_control_ops [])) = 1"
    by code_simp
  ultimately show ?thesis using control_outbox_restart [of ex_control_ops "\<lambda>_. []"] by (simp add: Let_def)
qed

text \<open>
  A handoff's final attempt can be forgotten before it is sent.  The third reservation makes the
  handoff terminal, so the same reservation reclaims it when it is the oldest and sixteen other
  terminal handoffs are kept; the relay's acceptance of the bytes it released is then refused as
  malformed.
\<close>

lemma min_by_key_first: "\<forall>y\<in>set xs. k x \<le> k y \<Longrightarrow> min_by_key k (x # xs) = Some x"
  using min_by_key_mem by (fastforce split: option.splits)

lemma reclaim_first:
  assumes "ctl_is_terminal h" "length (filter ctl_is_terminal rest) = MAX_TERMINAL_HANDOFFS"
    "\<forall>k\<in>set rest. ho_sequence h \<le> ho_sequence k"
  shows "reclaim (h # rest) = rest"
proof -
  have "min_by_key (\<lambda>(i, h). ho_sequence h) ((0, h) # filter (\<lambda>(i, h). ctl_is_terminal h) (enumerate 1 rest)) = Some (0, h)"
    using assms(3) by (intro min_by_key_first) (auto simp: in_set_enumerate_eq)
  then have "oldest_terminal (h # rest) = Some 0"
    using assms(1) by (simp add: oldest_terminal_def del: min_by_key.simps)
  then show ?thesis using assms(1,2) by (simp add: reclaim.simps [of "h # rest"] reclaim.simps [of rest])
qed

theorem final_attempt_lost:
  assumes "same_handoff pc recipient payload h" "list_all (\<lambda>k. \<not> same_handoff pc recipient payload k) rest"
    and "ho_disposition h = CtlHandedOff" "ho_attempts h = 2" "\<forall>k\<in>set rest. ho_sequence h \<le> ho_sequence k"
    and "length (filter ctl_is_terminal rest) = MAX_TERMINAL_HANDOFFS"
  shows "let (reserved, ob) = ctl_reserve pc recipient payload (h # rest)
    in \<not> isl reserved \<and> fst (ctl_accept pc recipient payload ob) = Inl E_Malformed"
proof -
  let ?h = "h\<lparr>ho_attempts := 3, ho_disposition := CtlExhaustedUnknown\<rparr>"
  have "reserve_ctl h = (Inr ?h, ?h)"
    using assms(3,4) by (simp add: reserve_ctl_def ctl_is_terminal_def MAX_ATTEMPTS_def Let_def)
  moreover have "reclaim (?h # rest) = rest"
    using assms(5,6) by (intro reclaim_first) (simp_all add: ctl_is_terminal_def)
  moreover have "with_first (same_handoff pc recipient payload) accept_ctl rest = None"
    using assms(2) by (induction rest) auto
  ultimately show ?thesis using assms(1) by (simp add: ctl_reserve_def ctl_accept_def change_handoff_def)
qed

end
