(* ===== verification/Client_Records.thy ===== *)
theory Client_Records
  imports Group_Recovery Group_Receive_State Operation_Store Deferred_Rosters Control_Outbox "HOL-Library.Sublist"
begin

text \<open>
  Crate \<^verbatim>\<open>tacenta-client\<close>, \<^verbatim>\<open>group_operations.rs\<close>: the records the coordinator keeps in an operation
  snapshot, the bounds on them, and what a restart reads back.

  A snapshot holds the transcript of logical sends (\<open>TCGI\<close>, \<open>TCGP\<close>, \<open>TCGH\<close>, \<open>TCGA\<close>), the bounded
  receive records (\<open>TCGR\<close>, \<open>TCGM\<close>), and the control records with the latest checkpoint of each kind.
  The commitments are computed by the core library and are parameters.
\<close>

section \<open>Errors and lengths\<close>

datatype group_operation_error = OpPolicy | OpFrozen

type_synonym 'a op_result = "group_operation_error + 'a"

text \<open>\<open>map_err(|_| GroupOperationError::Policy)\<close>.\<close>

definition policy :: "'e + 'a \<Rightarrow> 'a op_result" where
  "policy r = (case r of Inl e \<Rightarrow> Inl OpPolicy | Inr x \<Rightarrow> Inr x)"

lemma policy_Inr [simp]: "policy (Inr x) = Inr x" "policy r = Inr x \<longleftrightarrow> r = Inr x"
  by (auto simp: policy_def split: sum.splits)

definition op_put_lp :: "bytes \<Rightarrow> bytes op_result" where
  "op_put_lp v = rbind (ok_or OpPolicy (u32_try_from (length v))) (\<lambda>n. Inr (u32_to_be n @ v))"

lemma op_put_lp_Inr: "op_put_lp v = Inr b \<longleftrightarrow> length v < 2 ^ 32 \<and> b = lp v"
  by (auto simp: op_put_lp_def u32_try_from_def lp_def)

text \<open>The effect of one provider operation on its state.\<close>

datatype crypto_state_effect = Unchanged | Advanced | Terminal

fun effect_code :: "crypto_state_effect \<Rightarrow> byte" where
  "effect_code Unchanged = 0"
| "effect_code Advanced = 1"
| "effect_code Terminal = 2"

section \<open>The transcript of logical sends\<close>

definition encode_intent_record :: "bytes \<Rightarrow> bytes op_result" where
  "encode_intent_record intent = rbind (op_put_lp intent) (\<lambda>body. Inr (ascii ''TCGI'' @ body))"

definition encode_prepared_record :: "bytes \<Rightarrow> bytes \<Rightarrow> bytes \<Rightarrow> bytes op_result" where
  "encode_prepared_record context commitment ciphertext =
     rbind (op_put_lp context) (\<lambda>c.
     rbind (op_put_lp ciphertext) (\<lambda>t.
       Inr (ascii ''TCGP'' @ c @ commitment @ t)))"

definition encode_handoff_record :: "bytes \<Rightarrow> bytes \<Rightarrow> bytes \<Rightarrow> recipient_progress \<Rightarrow> bytes op_result" where
  "encode_handoff_record context commitment ciphertext p =
     rbind (case prog_disposition p of HandedOff \<Rightarrow> Inr 0 | ExhaustedUnknown \<Rightarrow> Inr 1 | _ \<Rightarrow> Inl OpPolicy) (\<lambda>disposition.
     rbind (op_put_lp context) (\<lambda>c.
     rbind (op_put_lp ciphertext) (\<lambda>t.
       Inr (ascii ''TCGH'' @ c @ commitment @ t @ [prog_attempts p, disposition]))))"

definition encode_relay_acceptance_record :: "bytes \<Rightarrow> bytes \<Rightarrow> bytes \<Rightarrow> bytes op_result" where
  "encode_relay_acceptance_record context commitment ciphertext =
     rbind (op_put_lp context) (\<lambda>c.
     rbind (op_put_lp ciphertext) (\<lambda>t.
       Inr (ascii ''TCGA'' @ c @ commitment @ t)))"

text \<open>\<open>outbox_record_id\<close> and its inner \<open>length_prefixed\<close>, which allows bytes after the value.\<close>

definition length_prefixed :: "bytes \<Rightarrow> bytes op_result" where
  "length_prefixed bytes =
     rbind (ok_or OpPolicy (split_at_checked 4 bytes)) (\<lambda>(n, rest).
       let n = unat (u32_from_be n)
       in if n \<le> length rest then Inr (take n rest) else Inl OpPolicy)"

definition outbox_record_id :: "bytes \<Rightarrow> logical_id option op_result" where
  "outbox_record_id entry =
     (if length entry < 4 then (if starts_with entry (ascii ''TCG'') then Inl OpPolicy else Inr None)
      else
        let tag = take 4 entry; body = drop 4 entry
        in if tag = ascii ''TCGI'' then
             rbind (length_prefixed body) (\<lambda>v. rbind (policy (decode_intent v)) (\<lambda>s. Inr (Some (send_id s))))
           else if tag = ascii ''TCGP'' \<or> tag = ascii ''TCGH'' \<or> tag = ascii ''TCGA'' then
             rbind (length_prefixed body) (\<lambda>v.
             rbind (policy (context_decode v)) (\<lambda>c.
             rbind (policy (logical_id_new (ctx_group_id c) (ctx_revision c) (ctx_sender c) (ctx_sequence c)))
               (\<lambda>ident. Inr (Some ident))))
           else if starts_with tag (ascii ''TCG'') then Inl OpPolicy
           else Inr None)"

text \<open>The records of one group, in transcript order, with the send each belongs to.\<close>

fun group_entries :: "bytes \<Rightarrow> bytes list \<Rightarrow> (logical_id \<times> bytes) list op_result" where
  "group_entries group_id [] = Inr []"
| "group_entries group_id (entry # entries) =
     rbind (outbox_record_id entry) (\<lambda>ident.
     rbind (group_entries group_id entries) (\<lambda>rest.
       Inr (case ident of
              None \<Rightarrow> rest
            | Some ident \<Rightarrow> if lid_group_id ident = group_id then (ident, entry) # rest else rest)))"

text \<open>\<open>group_outbox_records\<close>: grouped by send, in the order each send first appears.\<close>

definition add_send_record ::
  "(logical_id \<times> bytes) \<Rightarrow> (logical_id \<times> bytes list) list \<Rightarrow> (logical_id \<times> bytes list) list" where
  "add_send_record r groups =
     (case with_first (\<lambda>(known, _). known = fst r) (\<lambda>(known, records). ((), (known, records @ [snd r]))) groups of
        Some (_, groups') \<Rightarrow> groups'
      | None \<Rightarrow> groups @ [(fst r, [snd r])])"

definition group_outbox_records :: "operation_snapshot \<Rightarrow> bytes \<Rightarrow> (logical_id \<times> bytes list) list op_result" where
  "group_outbox_records snapshot group_id =
     rbind (group_entries group_id (snap_outbox snapshot)) (\<lambda>entries. Inr (fold add_send_record entries []))"

section \<open>Control records\<close>

definition MAX_GROUP_CONTROL_RECORDS :: nat where "MAX_GROUP_CONTROL_RECORDS = 64"

definition MAX_INBOX_RECORDS :: nat where "MAX_INBOX_RECORDS = 64"

definition MAX_DEDUP_RECORDS :: nat where "MAX_DEDUP_RECORDS = 512"

definition MAX_TERMINAL_LOGICAL_SENDS :: nat where "MAX_TERMINAL_LOGICAL_SENDS = 16"

definition CHECKPOINT_TAGS :: "bytes list" where
  "CHECKPOINT_TAGS = [ascii ''TCGV'', ascii ''TCGB'', ascii ''TCGO'', ascii ''TCGX'', ascii ''TCGQ'', ascii ''TCGS'']"

text \<open>\<open>get(..scope)\<close> of a record.\<close>

definition get_to :: "nat \<Rightarrow> 'a list \<Rightarrow> 'a list option" where
  "get_to n xs = (if n \<le> length xs then Some (take n xs) else None)"

definition checkpoint_scope :: "bytes \<Rightarrow> nat" where
  "checkpoint_scope tag =
     (if tag = ascii ''TCGX'' \<or> tag = ascii ''TCGQ'' \<or> tag = ascii ''TCGS'' then 4 + GROUP_ID_LEN else 4)"

definition push_control :: "bytes \<Rightarrow> bytes list \<Rightarrow> bytes list" where
  "push_control entry controls =
     (case find (starts_with entry) CHECKPOINT_TAGS of
        None \<Rightarrow> controls
      | Some tag \<Rightarrow>
          let scope = checkpoint_scope tag
          in filter (\<lambda>known. \<not> (starts_with known tag \<and> get_to scope known = get_to scope entry)) controls)
     @ [entry]"

text \<open>\<open>Iterator::rposition\<close> and \<open>iter().rev().find\<close>.\<close>

definition rposition :: "('a \<Rightarrow> bool) \<Rightarrow> 'a list \<Rightarrow> nat option" where
  "rposition P xs = find (\<lambda>i. P (xs ! i)) (rev [0..<length xs])"

definition rfind :: "('a \<Rightarrow> bool) \<Rightarrow> 'a list \<Rightarrow> 'a option" where
  "rfind P xs = find P (rev xs)"

definition eviction :: "bytes list \<Rightarrow> nat option" where
  "eviction controls =
     (let latest = map (\<lambda>tag. rposition (\<lambda>r. starts_with r tag) controls) CHECKPOINT_TAGS
      in find (\<lambda>i. Some i \<notin> set latest) [0..<length controls])"

text \<open>The eviction loop.  The code panics if nothing can be evicted, which \<open>eviction_exists\<close> rules out.\<close>

lemma find_upt_Some: "find P [0..<n] = Some i \<Longrightarrow> i < n \<and> P i"
  by (auto simp: find_Some_iff)

function evict_controls :: "bytes list \<Rightarrow> bytes list" where
  "evict_controls controls =
     (if length controls \<le> MAX_GROUP_CONTROL_RECORDS then controls
      else case eviction controls of
        None \<Rightarrow> controls
      | Some i \<Rightarrow> evict_controls (take i controls @ drop (Suc i) controls))"
  by auto
termination
proof (relation "measure length")
  fix controls i assume "eviction controls = Some i"
  then have "i < length controls" using find_upt_Some by (fastforce simp: eviction_def Let_def)
  then show "(take i controls @ drop (Suc i) controls, controls) \<in> measure length" by simp
qed simp

declare evict_controls.simps [simp del]

definition append_controls :: "bytes list \<Rightarrow> bytes list \<Rightarrow> bytes list" where
  "append_controls records controls = evict_controls (fold push_control records controls)"

definition append_group_control_records :: "bytes list \<Rightarrow> operation_snapshot \<Rightarrow> operation_snapshot" where
  "append_group_control_records records snapshot =
     snapshot\<lparr>snap_group_controls := append_controls records (snap_group_controls snapshot)\<rparr>"

fun refusal_code :: "receive_refusal \<Rightarrow> byte" where
  "refusal_code R_Malformed = 0"
| "refusal_code R_WrongPeer = 1"
| "refusal_code R_WrongGroup = 2"
| "refusal_code R_WrongRecipient = 3"
| "refusal_code R_NotActive = 4"
| "refusal_code R_OldRevision = 5"
| "refusal_code R_InvalidRoster = 6"
| "refusal_code R_FutureOutOfRange = 7"
| "refusal_code R_SequenceExpired = 8"
| "refusal_code R_Conflict = 9"
| "refusal_code R_DeferredFull = 10"

fun roster_refusal_code :: "roster_refusal \<Rightarrow> byte" where
  "roster_refusal_code WrongAuthority = 0"
| "roster_refusal_code WrongGroup = 1"
| "roster_refusal_code InvalidGenesis = 2"
| "roster_refusal_code StaleRevision = 3"
| "roster_refusal_code MissingPredecessor = 4"
| "roster_refusal_code RosterConflict = 5"
| "roster_refusal_code AuthorityTransfer = 6"
| "roster_refusal_code PolicyChange = 7"
| "roster_refusal_code Reopened = 8"
| "roster_refusal_code MissingAuthorityMember = 9"
| "roster_refusal_code InvalidSource = 10"

definition encode_roster_record :: "bytes \<Rightarrow> bytes \<Rightarrow> roster_disposition \<Rightarrow> bytes op_result" where
  "encode_roster_record preimage commitment disposition =
     rbind (op_put_lp preimage) (\<lambda>p.
       Inr (ascii ''TCGC'' @ p @ commitment
            @ (case disposition of
                 RosterAccepted \<Rightarrow> [0]
               | RosterDuplicate \<Rightarrow> [1]
               | RosterRejected refusal \<Rightarrow> [2, roster_refusal_code refusal])))"

definition encode_control_effect_record :: "crypto_state_effect \<Rightarrow> bytes" where
  "encode_control_effect_record effect = ascii ''TCGE'' @ [effect_code effect]"

definition encode_group_outbox_cancellation_record :: "bytes \<Rightarrow> u64 \<Rightarrow> bytes" where
  "encode_group_outbox_cancellation_record group_id revision = ascii ''TCGX'' @ group_id @ u64_to_be revision"

definition encode_replaced_roster_record :: "bytes \<Rightarrow> bytes \<Rightarrow> bytes op_result" where
  "encode_replaced_roster_record group_id preimage =
     rbind (op_put_lp preimage) (\<lambda>p. Inr (ascii ''TCGS'' @ group_id @ p))"

definition encode_roster_view_record :: "bytes \<Rightarrow> bytes op_result" where
  "encode_roster_view_record state = rbind (op_put_lp state) (\<lambda>body. Inr (ascii ''TCGV'' @ body))"

definition encode_invitation_book_record :: "bytes \<Rightarrow> bytes op_result" where
  "encode_invitation_book_record state = rbind (op_put_lp state) (\<lambda>body. Inr (ascii ''TCGB'' @ body))"

definition encode_control_outbox_record :: "bytes \<Rightarrow> bytes op_result" where
  "encode_control_outbox_record state = rbind (op_put_lp state) (\<lambda>body. Inr (ascii ''TCGO'' @ body))"

text \<open>The three checkpoint readers differ in the tag only.\<close>

definition decode_checkpoint :: "bytes \<Rightarrow> bytes \<Rightarrow> bytes op_result" where
  "decode_checkpoint tag entry =
     (if \<not> starts_with entry tag then Inl OpPolicy
      else
        rbind (ok_or OpPolicy (split_at_checked 4 (drop 4 entry))) (\<lambda>(n, state).
          if length state \<noteq> unat (u32_from_be n) then Inl OpPolicy else Inr state))"

definition decode_roster_view_record :: "bytes \<Rightarrow> bytes op_result" where
  "decode_roster_view_record = decode_checkpoint (ascii ''TCGV'')"

definition decode_invitation_book_record :: "bytes \<Rightarrow> bytes op_result" where
  "decode_invitation_book_record = decode_checkpoint (ascii ''TCGB'')"

definition decode_control_outbox_record :: "bytes \<Rightarrow> bytes op_result" where
  "decode_control_outbox_record = decode_checkpoint (ascii ''TCGO'')"

section \<open>What a restart reads\<close>

text \<open>\<open>latest_group_outbox_cancellation\<close>: the loop over the control records with the newest revision so far.\<close>

fun cancellation_loop :: "bytes \<Rightarrow> bytes list \<Rightarrow> u64 option \<Rightarrow> u64 option op_result" where
  "cancellation_loop group_id [] latest = Inr latest"
| "cancellation_loop group_id (r # rs) latest =
     (if \<not> starts_with r (ascii ''TCGX'') then cancellation_loop group_id rs latest
      else
        rbind (ok_or OpPolicy (split_at_checked GROUP_ID_LEN (drop 4 r))) (\<lambda>(encoded_group, revision).
          if length revision \<noteq> 8 then Inl OpPolicy
          else
        rbind (policy (group_id_try_from encoded_group)) (\<lambda>g.
          cancellation_loop group_id rs
            (if g = group_id
             then Some (max (case latest of None \<Rightarrow> 0 | Some l \<Rightarrow> l) (u64_from_be revision))
             else latest))))"

definition latest_group_outbox_cancellation :: "operation_snapshot \<Rightarrow> bytes \<Rightarrow> u64 option op_result" where
  "latest_group_outbox_cancellation snapshot group_id =
     cancellation_loop group_id (snap_group_controls snapshot) None"

definition recover_group_outbox ::
  "(bytes \<Rightarrow> bytes) \<Rightarrow> operation_snapshot \<Rightarrow> bytes \<Rightarrow> group_outbox op_result" where
  "recover_group_outbox payload_commitment snapshot group_id =
     rbind (latest_group_outbox_cancellation snapshot group_id) (\<lambda>cancelled.
     rbind (group_entries group_id (snap_outbox snapshot)) (\<lambda>entries.
       policy (recover_from_transcript_at_revision group_id (map snd entries) cancelled payload_commitment)))"

definition recover_group_receiver ::
  "(bytes \<Rightarrow> bytes) \<Rightarrow> (bytes \<Rightarrow> bytes) \<Rightarrow> operation_snapshot \<Rightarrow> group_receiver op_result" where
  "recover_group_receiver roster_commitment payload_commitment snapshot =
     policy (receiver_decode_state (snap_application_state snapshot) roster_commitment payload_commitment)"

definition recover_group_roster_view ::
  "(bytes \<Rightarrow> bytes) \<Rightarrow> operation_snapshot \<Rightarrow> member \<Rightarrow> roster_view op_result" where
  "recover_group_roster_view roster_commitment snapshot pinned_authority =
     (case rfind (\<lambda>r. starts_with r (ascii ''TCGV'')) (snap_group_controls snapshot) of
        None \<Rightarrow> Inl OpPolicy
      | Some r \<Rightarrow>
          rbind (decode_roster_view_record r) (\<lambda>state.
            policy (view_decode_state state pinned_authority roster_commitment)))"

definition recover_group_invitation_book :: "operation_snapshot \<Rightarrow> bytes \<Rightarrow> invitation_book op_result" where
  "recover_group_invitation_book snapshot group_id =
     (case rfind (\<lambda>r. starts_with r (ascii ''TCGB'')) (snap_group_controls snapshot) of
        None \<Rightarrow> Inl OpPolicy
      | Some r \<Rightarrow>
          rbind (decode_invitation_book_record r) (\<lambda>state. policy (book_decode_state state group_id)))"

definition recover_group_control_outbox ::
  "(bytes \<Rightarrow> bytes) \<Rightarrow> operation_snapshot \<Rightarrow> control_outbox op_result" where
  "recover_group_control_outbox payload_commitment snapshot =
     (case rfind (\<lambda>r. starts_with r (ascii ''TCGO'')) (snap_group_controls snapshot) of
        None \<Rightarrow> Inr []
      | Some r \<Rightarrow>
          rbind (decode_control_outbox_record r) (\<lambda>state. policy (ctl_decode_state payload_commitment state)))"

definition recover_group_deferred_rosters :: "operation_snapshot \<Rightarrow> bytes \<Rightarrow> member \<Rightarrow> deferred_rosters op_result" where
  "recover_group_deferred_rosters snapshot group_id pinned_authority =
     (case rfind (\<lambda>r. starts_with r (ascii ''TCGQ'' @ group_id)) (snap_group_controls snapshot) of
        None \<Rightarrow> Inr []
      | Some r \<Rightarrow> policy (deferred_decode_record r group_id pinned_authority))"

text \<open>\<open>compact_group_outbox\<close>: the snapshot it leaves, and the rebuilt outbox when it dropped sends.
  Every record has an id or is foreign when the sends are dropped, since the recovery before it read them all.\<close>

definition drop_sends :: "bytes \<Rightarrow> logical_id list \<Rightarrow> bytes list \<Rightarrow> bytes list" where
  "drop_sends group_id dropped entries =
     filter (\<lambda>entry. \<not> (case outbox_record_id entry of
                           Inr (Some ident) \<Rightarrow> lid_group_id ident = group_id \<and> ident \<in> set dropped
                         | _ \<Rightarrow> False)) entries"

definition compact_group_outbox ::
  "(bytes \<Rightarrow> bytes) \<Rightarrow> bytes \<Rightarrow> operation_snapshot \<Rightarrow> (group_outbox option \<times> operation_snapshot) op_result" where
  "compact_group_outbox payload_commitment group_id snapshot =
     rbind (recover_group_outbox payload_commitment snapshot group_id) (\<lambda>ob.
     rbind (group_outbox_records snapshot group_id) (\<lambda>records.
       let terminal = filter (\<lambda>ident. case send_of ob ident of Inr s \<Rightarrow> is_terminal s | Inl e \<Rightarrow> False) (map fst records)
       in if length terminal \<le> MAX_TERMINAL_LOGICAL_SENDS then Inr (None, snapshot)
          else
            let dropped = take (length terminal - MAX_TERMINAL_LOGICAL_SENDS) terminal;
                snapshot = snapshot\<lparr>snap_outbox := drop_sends group_id dropped (snap_outbox snapshot)\<rparr>
            in rbind (recover_group_outbox payload_commitment snapshot group_id) (\<lambda>ob. Inr (Some ob, snapshot))))"

section \<open>Receive records and delivery\<close>

definition encode_receive_record ::
  "crypto_state_effect \<Rightarrow> bytes \<Rightarrow> bytes \<Rightarrow> receive_disposition \<Rightarrow> bytes op_result" where
  "encode_receive_record effect context commitment disposition =
     rbind (op_put_lp context) (\<lambda>c.
       Inr (ascii ''TCGR'' @ [effect_code effect] @ c @ commitment
            @ (case disposition of
                 Accepted event \<Rightarrow> 0 # u64_to_be event
               | Duplicate event \<Rightarrow> 1 # u64_to_be event
               | Deferred \<Rightarrow> [2]
               | Rejected refusal \<Rightarrow> [3, refusal_code refusal])))"

definition encode_malformed_record :: "(bytes \<Rightarrow> bytes) \<Rightarrow> crypto_state_effect \<Rightarrow> bytes \<Rightarrow> bytes op_result" where
  "encode_malformed_record payload_commitment effect plaintext =
     rbind (ok_or OpPolicy (u32_try_from (length plaintext))) (\<lambda>n.
       Inr (ascii ''TCGM'' @ [effect_code effect] @ u32_to_be n @ payload_commitment plaintext))"

definition push_bounded :: "'a \<Rightarrow> nat \<Rightarrow> 'a list \<Rightarrow> 'a list" where
  "push_bounded item bound collection =
     (let collection = collection @ [item]
      in if length collection > bound then drop (length collection - bound) collection else collection)"

definition record_receive ::
  "crypto_state_effect \<Rightarrow> bytes \<Rightarrow> bytes \<Rightarrow> receive_disposition \<Rightarrow> operation_snapshot \<Rightarrow> operation_snapshot op_result" where
  "record_receive effect context commitment disposition snapshot =
     (let accepted = (case disposition of Accepted event \<Rightarrow> True | _ \<Rightarrow> False)
      in rbind (encode_receive_record effect (if accepted then context else []) commitment disposition) (\<lambda>r.
           let snapshot = snapshot\<lparr>snap_inbox := push_bounded r MAX_INBOX_RECORDS (snap_inbox snapshot)\<rparr>
           in Inr (if accepted
                   then snapshot\<lparr>snap_dedup := push_bounded commitment MAX_DEDUP_RECORDS (snap_dedup snapshot)\<rparr>
                   else snapshot)))"

text \<open>
  \<open>receive_record_layout\<close>: the context is the bytes from 9 up to the first component; the second is
  the event of an accepted disposition.
\<close>

definition receive_record_layout :: "bytes \<Rightarrow> (nat \<times> u64 option) option" where
  "receive_record_layout entry =
     (if \<not> starts_with entry (ascii ''TCGR'') \<or> length entry < 9 then None
      else
        let finish = 9 + unat (u32_from_be (take 4 (drop 5 entry)))
        in if length entry < finish + 32 then None
           else case drop (finish + 32) entry of
             [] \<Rightarrow> None
           | tag # tail \<Rightarrow>
               if tag = 0 then
                 (if length tail < 8 then None else Some (finish, Some (u64_from_be (take 8 tail))))
               else Some (finish, None))"

definition undelivered_event :: "u64 \<Rightarrow> bytes \<Rightarrow> (u64 \<times> application_context) option" where
  "undelivered_event cursor entry =
     (case receive_record_layout entry of
        Some (finish, Some event) \<Rightarrow>
          if event < cursor \<or> finish = 9 then None
          else (case context_decode (drop 9 (take finish entry)) of
                  Inr context \<Rightarrow> Some (event, context)
                | Inl e \<Rightarrow> None)
      | _ \<Rightarrow> None)"

definition add_event :: "(u64 \<times> application_context) option \<Rightarrow> (u64 \<times> application_context) list \<Rightarrow> (u64 \<times> application_context) list" where
  "add_event e events =
     (case e of
        Some (event, context) \<Rightarrow>
          if list_ex (\<lambda>(known, _). known = event) events then events else events @ [(event, context)]
      | None \<Rightarrow> events)"

definition undelivered_events :: "operation_snapshot \<Rightarrow> (u64 \<times> application_context) list" where
  "undelivered_events snapshot =
     sort_key fst (fold (add_event \<circ> undelivered_event (snap_delivery_cursor snapshot)) (snap_inbox snapshot) [])"

text \<open>What \<open>commit_delivery_cursor\<close> does to one receive record.\<close>

definition scrub :: "u64 \<Rightarrow> bytes \<Rightarrow> bytes" where
  "scrub cursor entry =
     (case receive_record_layout entry of
        Some (finish, Some event) \<Rightarrow>
          if event < cursor \<and> finish \<noteq> 9 then take 5 entry @ u32_to_be 0 @ drop finish entry else entry
      | _ \<Rightarrow> entry)"

section \<open>The control records keep their checkpoints\<close>

lemma rfind_simps [simp]:
  "rfind P [] = None" "rfind P (xs @ [x]) = (if P x then Some x else rfind P xs)"
  by (simp_all add: rfind_def)

lemma rfind_append: "rfind P (xs @ ys) = (case rfind P ys of None \<Rightarrow> rfind P xs | Some y \<Rightarrow> Some y)"
  by (induction ys rule: rev_induct) (simp_all del: append_assoc add: append_assoc [symmetric])

lemma rfind_None: "rfind P xs = None \<longleftrightarrow> (\<forall>x \<in> set xs. \<not> P x)"
  by (auto simp: rfind_def find_None_iff)

lemma rfind_Some: "rfind P xs = Some x \<Longrightarrow> x \<in> set xs \<and> P x"
  by (auto simp: rfind_def find_Some_iff) (metis length_rev nth_mem set_rev)

lemma rfind_filter: "(\<And>x. P x \<Longrightarrow> Q x) \<Longrightarrow> rfind P (filter Q xs) = rfind P xs"
  by (induction xs rule: rev_induct) auto

lemma rfind_cong: "(\<And>x. x \<in> set xs \<Longrightarrow> P x = Q x) \<Longrightarrow> rfind P xs = rfind Q xs"
  by (induction xs rule: rev_induct) auto

lemma rposition_snoc: "rposition P (xs @ [x]) = (if P x then Some (length xs) else rposition P xs)"
proof -
  have "find (\<lambda>i. P ((xs @ [x]) ! i)) (rev [0..<length xs]) = find (\<lambda>i. P (xs ! i)) (rev [0..<length xs])"
    by (rule find_cong) (auto simp: nth_append)
  then show ?thesis by (simp add: rposition_def)
qed

lemma rposition_last: "P x \<Longrightarrow> \<forall>y \<in> set ys. \<not> P y \<Longrightarrow> rposition P (xs @ x # ys) = Some (length xs)"
proof (induction ys rule: rev_induct)
  case (snoc y ys)
  then show ?case using rposition_snoc [of P "xs @ x # ys" y] by simp
qed (simp add: rposition_snoc)

lemma rfind_remove:
  assumes "rposition P xs \<noteq> Some i" "i < length xs"
  shows "rfind P (take i xs @ drop (Suc i) xs) = rfind P xs"
proof -
  let ?ys = "drop (Suc i) xs"
  have xs: "xs = take i xs @ xs ! i # ?ys" using assms(2) by (rule id_take_nth_drop)
  have "rfind P xs = rfind P ((take i xs @ [xs ! i]) @ ?ys)" using xs by simp
  also have "\<dots> = (case rfind P ?ys of None \<Rightarrow> if P (xs ! i) then Some (xs ! i) else rfind P (take i xs) | Some y \<Rightarrow> Some y)"
    by (simp only: rfind_append [of P _ ?ys] rfind_simps)
  moreover have "P (xs ! i) \<Longrightarrow> rfind P ?ys \<noteq> None"
    using assms rposition_last [of P "xs ! i" ?ys "take i xs"] xs by (auto simp: rfind_None)
  ultimately show ?thesis by (auto simp: rfind_append split: option.splits)
qed

lemma eviction_exists:
  assumes "length controls > 6"
  shows "eviction controls \<noteq> None"
proof
  let ?latest = "map (\<lambda>tag. rposition (\<lambda>r. starts_with r tag) controls) CHECKPOINT_TAGS"
  assume "eviction controls = None"
  then have "Some ` {..<length controls} \<subseteq> set ?latest" by (auto simp: eviction_def Let_def find_None_iff)
  then have "card (Some ` {..<length controls}) \<le> length ?latest"
    by (meson List.finite_set card_length card_mono le_trans)
  then show False using assms by (simp add: card_image CHECKPOINT_TAGS_def)
qed

lemma eviction_Some:
  assumes "eviction controls = Some i"
  shows "i < length controls" "tag \<in> set CHECKPOINT_TAGS \<Longrightarrow> rposition (\<lambda>r. starts_with r tag) controls \<noteq> Some i"
  using find_upt_Some [OF assms [unfolded eviction_def Let_def]] by (auto intro: rev_image_eqI)

lemma evict_controls_keeps:
  assumes "tag \<in> set CHECKPOINT_TAGS"
  shows "rfind (\<lambda>r. starts_with r tag) (evict_controls controls) = rfind (\<lambda>r. starts_with r tag) controls"
proof (induction controls rule: evict_controls.induct)
  case (1 controls)
  show ?case
  proof (cases "length controls \<le> MAX_GROUP_CONTROL_RECORDS \<or> eviction controls = None")
    case False
    then obtain i where i: "eviction controls = Some i" by blast
    have "rfind (\<lambda>r. starts_with r tag) (take i controls @ drop (Suc i) controls) = rfind (\<lambda>r. starts_with r tag) controls"
      by (rule rfind_remove) (use eviction_Some [OF i] assms in auto)
    then show ?thesis using False i 1 by (simp add: evict_controls.simps [of controls])
  qed (auto simp: evict_controls.simps [of controls])
qed

lemma evict_controls_length: "length (evict_controls controls) \<le> MAX_GROUP_CONTROL_RECORDS"
proof (induction controls rule: evict_controls.induct)
  case (1 controls)
  show ?case
  proof (cases "length controls \<le> MAX_GROUP_CONTROL_RECORDS")
    case False
    then obtain i where i: "eviction controls = Some i"
      using eviction_exists [of controls] by (auto simp: MAX_GROUP_CONTROL_RECORDS_def)
    then show ?thesis using 1 False by (simp add: evict_controls.simps [of controls])
  qed (simp add: evict_controls.simps [of controls])
qed

lemma subseq_remove: "i < length xs \<Longrightarrow> subseq (take i xs @ drop (Suc i) xs) xs"
proof (induction xs arbitrary: i)
  case (Cons x xs)
  then show ?case by (cases i) auto
qed simp

lemma evict_controls_subseq: "subseq (evict_controls controls) controls"
proof (induction controls rule: evict_controls.induct)
  case (1 controls)
  show ?case
  proof (cases "length controls \<le> MAX_GROUP_CONTROL_RECORDS \<or> eviction controls = None")
    case False
    then obtain i where i: "eviction controls = Some i" by blast
    have "subseq (evict_controls (take i controls @ drop (Suc i) controls)) (take i controls @ drop (Suc i) controls)"
      using 1 False i by simp
    then have "subseq (evict_controls (take i controls @ drop (Suc i) controls)) controls"
      using subseq_remove [OF eviction_Some(1) [OF i]] by (rule subseq_order.trans)
    then show ?thesis using False i by (simp add: evict_controls.simps [of controls])
  qed (auto simp: evict_controls.simps [of controls])
qed

lemma tag_length: "tag \<in> set CHECKPOINT_TAGS \<Longrightarrow> length tag = 4"
  by (auto simp: CHECKPOINT_TAGS_def)

lemma one_tag:
  assumes "tag \<in> set CHECKPOINT_TAGS" "tag' \<in> set CHECKPOINT_TAGS" "starts_with r tag" "starts_with r tag'"
  shows "tag' = tag"
  using assms tag_length [of tag] tag_length [of tag'] by (simp add: starts_with_def)

lemma find_Some_mem: "find P xs = Some x \<Longrightarrow> x \<in> set xs \<and> P x"
  by (auto simp: find_Some_iff)

lemma push_control_tag:
  assumes "tag \<in> set CHECKPOINT_TAGS" "starts_with r tag"
  shows "push_control r ks =
    filter (\<lambda>k. \<not> (starts_with k tag \<and> get_to (checkpoint_scope tag) k = get_to (checkpoint_scope tag) r)) ks @ [r]"
proof -
  obtain tag' where t: "find (starts_with r) CHECKPOINT_TAGS = Some tag'"
    using assms by (cases "find (starts_with r) CHECKPOINT_TAGS") (auto simp: find_None_iff)
  then have "tag' = tag" using find_Some_mem [OF t] one_tag [OF assms(1) _ assms(2)] by blast
  then show ?thesis using t by (simp add: push_control_def Let_def)
qed

text \<open>A record of another kind leaves the records of this kind alone.\<close>

lemma push_control_other:
  assumes "tag \<in> set CHECKPOINT_TAGS" "\<not> starts_with r tag"
  shows "filter (\<lambda>k. starts_with k tag) (push_control r ks) = filter (\<lambda>k. starts_with k tag) ks"
proof (cases "find (starts_with r) CHECKPOINT_TAGS")
  case (Some tag')
  then have "tag' \<in> set CHECKPOINT_TAGS" "starts_with r tag'" using find_Some_mem by fast+
  then have "starts_with k tag \<Longrightarrow> \<not> starts_with k tag'" for k using one_tag assms by metis
  then show ?thesis using Some assms(2) by (auto simp: push_control_def Let_def intro!: filter_cong)
qed (use assms(2) in \<open>simp add: push_control_def\<close>)

lemma rfind_of_filter: "rfind P xs = rfind P (filter P xs)"
  by (induction xs rule: rev_induct) auto

lemma push_control_latest:
  assumes "tag \<in> set CHECKPOINT_TAGS"
  shows "rfind (\<lambda>k. starts_with k tag) (push_control r ks) = rfind (\<lambda>k. starts_with k tag) (ks @ [r])"
proof (cases "starts_with r tag")
  case True
  then show ?thesis by (simp add: push_control_tag [OF assms])
next
  case False
  then show ?thesis
    using push_control_other [OF assms False, of ks] by (simp add: rfind_of_filter [of _ "push_control r ks"] rfind_of_filter [of _ ks])
qed

lemma fold_push_latest:
  assumes "tag \<in> set CHECKPOINT_TAGS"
  shows "rfind (\<lambda>k. starts_with k tag) (fold push_control rs ks) = rfind (\<lambda>k. starts_with k tag) (ks @ rs)"
proof (induction rs rule: rev_induct)
  case (snoc r rs)
  then show ?case using push_control_latest [OF assms] by (simp add: append_assoc [symmetric] del: append_assoc)
qed simp

lemma append_controls_latest:
  assumes "tag \<in> set CHECKPOINT_TAGS"
  shows "rfind (\<lambda>k. starts_with k tag) (append_controls rs ks) = rfind (\<lambda>k. starts_with k tag) (ks @ rs)"
  using assms by (simp add: append_controls_def evict_controls_keeps fold_push_latest)

lemma push_control_subseq: "subseq (push_control r ks) (ks @ [r])"
  by (auto simp: push_control_def Let_def split: option.split)

lemma fold_push_subseq: "subseq (fold push_control rs ks) (ks @ rs)"
proof (induction rs rule: rev_induct)
  case (snoc r rs)
  have "subseq (fold push_control rs ks @ [r]) ((ks @ rs) @ [r])" using snoc by (rule list_emb_append_mono) simp
  with push_control_subseq have "subseq (push_control r (fold push_control rs ks)) ((ks @ rs) @ [r])"
    by (rule subseq_order.trans)
  then show ?case by simp
qed simp

text \<open>
  The control records of a snapshot stay bounded without losing a checkpoint.  Whatever is
  appended, at most sixty-four records remain, they are some of the old and new ones in their order,
  and the latest record of every checkpoint kind is the one that was written last; the loop that
  evicts always finds a record it may evict.
\<close>

theorem controls_keep_checkpoints:
  "length (append_controls records controls) \<le> MAX_GROUP_CONTROL_RECORDS \<and>
   subseq (append_controls records controls) (controls @ records) \<and>
   list_all (\<lambda>tag. rfind (\<lambda>r. starts_with r tag) (append_controls records controls)
       = rfind (\<lambda>r. starts_with r tag) (controls @ records)) CHECKPOINT_TAGS"
proof -
  have "subseq (append_controls records controls) (fold push_control records controls)"
    unfolding append_controls_def by (rule evict_controls_subseq)
  then have "subseq (append_controls records controls) (controls @ records)"
    using fold_push_subseq by (rule subseq_order.trans)
  then show ?thesis
    using evict_controls_length append_controls_latest by (auto simp: append_controls_def list_all_iff)
qed

lemma subseq_set: "subseq xs ys \<Longrightarrow> set xs \<subseteq> set ys"
  by (auto dest: list_emb_set)

text \<open>
  A checkpoint kind of which the snapshot holds one value.  A kind that is kept per group has one
  value as long as all its records are for the same group.
\<close>

definition single :: "bytes \<Rightarrow> bytes list \<Rightarrow> bool" where
  "single tag controls \<longleftrightarrow> (\<forall>r \<in> set controls. starts_with r tag \<longrightarrow> rfind (\<lambda>k. starts_with k tag) controls = Some r)"

lemma single_subseq:
  "single tag controls \<Longrightarrow> set controls' \<subseteq> set controls \<Longrightarrow>
   rfind (\<lambda>k. starts_with k tag) controls' = rfind (\<lambda>k. starts_with k tag) controls \<Longrightarrow> single tag controls'"
  by (auto simp: single_def)

lemma append_controls_single:
  assumes "tag \<in> set CHECKPOINT_TAGS" "single tag controls"
    and "\<forall>r \<in> set (controls @ records). starts_with r tag \<longrightarrow> get_to (checkpoint_scope tag) r = Some p"
  shows "single tag (append_controls records controls)"
proof -
  have "single tag (fold push_control rs controls)" if "set rs \<subseteq> set records" for rs
    using that
  proof (induction rs rule: rev_induct)
    case (snoc r rs)
    let ?ks = "fold push_control rs controls"
    have ks: "\<forall>k \<in> set ?ks. starts_with k tag \<longrightarrow> get_to (checkpoint_scope tag) k = Some p"
      using subseq_set [OF fold_push_subseq [of rs controls]] snoc.prems assms(3) by auto
    show ?case
    proof (cases "starts_with r tag")
      case True
      then show ?thesis using ks snoc.prems assms(3) by (auto simp: push_control_tag [OF assms(1)] single_def)
    next
      case False
      have "set (push_control r ?ks) \<subseteq> set ?ks \<union> {r}" using subseq_set [OF push_control_subseq [of r ?ks]] by auto
      then show ?thesis using snoc False push_control_latest [OF assms(1), of r ?ks] by (auto simp: single_def)
    qed
  qed (use assms(2) in simp)
  then have "single tag (fold push_control records controls)" by simp
  then show ?thesis
    unfolding append_controls_def
    using subseq_set [OF evict_controls_subseq] evict_controls_keeps [OF assms(1)] by (rule single_subseq)
qed

section \<open>Delivery\<close>

text \<open>What an acknowledged cursor leaves in a snapshot.\<close>

definition deliver_through :: "u64 \<Rightarrow> operation_snapshot \<Rightarrow> operation_snapshot" where
  "deliver_through cursor snapshot =
     snapshot\<lparr>snap_delivery_cursor := cursor, snap_inbox := map (scrub cursor) (snap_inbox snapshot)\<rparr>"

lemma drop_Cons_length: "drop n xs = y # ys \<Longrightarrow> n < length xs"
  by (rule ccontr) simp

lemma layout_accepted:
  "receive_record_layout entry = Some (finish, Some event) \<longleftrightarrow>
   take 4 entry = ascii ''TCGR'' \<and> finish = 9 + unat (u32_from_be (take 4 (drop 5 entry))) \<and>
   (\<exists>tail. drop (finish + 32) entry = 0 # tail \<and> 8 \<le> length tail \<and> event = u64_from_be (take 8 tail))"
proof -
  define n where "n = unat (u32_from_be (take 4 (drop 5 entry)))"
  have tag: "starts_with entry (ascii ''TCGR'') \<longleftrightarrow> take 4 entry = ascii ''TCGR''"
    unfolding starts_with_def length_ascii by (simp add: numeral_eq_Suc)
  show ?thesis
  proof (cases "drop (9 + n + 32) entry")
    case Nil
    then show ?thesis unfolding receive_record_layout_def Let_def tag n_def [symmetric] by auto
  next
    case (Cons x xs)
    then have "9 + n + 32 < length entry" by (rule drop_Cons_length)
    then show ?thesis
      using Cons unfolding receive_record_layout_def Let_def tag n_def [symmetric] by auto
  qed
qed

lemma layout_scrubbed:
  assumes "receive_record_layout entry = Some (finish, Some event)"
  shows "receive_record_layout (take 5 entry @ u32_to_be 0 @ drop finish entry) = Some (9, Some event)"
proof -
  obtain tail where e: "take 4 entry = ascii ''TCGR''" "9 \<le> finish" "drop (finish + 32) entry = 0 # tail"
    "8 \<le> length tail" "event = u64_from_be (take 8 tail)"
    using assms unfolding layout_accepted by auto
  then have five: "length (take 5 entry) = 5" using drop_Cons_length by fastforce
  let ?s = "take 5 entry @ u32_to_be 0 @ drop finish entry"
  have "take 4 ?s = take 4 entry" "take 4 (drop 5 ?s) = u32_to_be 0" "drop 41 ?s = drop (finish + 32) entry"
    using five by (simp_all add: add.commute)
  then show ?thesis using e unfolding layout_accepted by simp
qed

lemma undelivered_scrubbed:
  assumes "old \<le> cursor"
  shows "undelivered_event cursor (scrub cursor entry) =
    (case undelivered_event old entry of Some (event, context) \<Rightarrow> if event < cursor then None else Some (event, context) | None \<Rightarrow> None)"
proof (cases "receive_record_layout entry")
  case (Some l)
  obtain finish e where l: "l = (finish, e)" by (cases l)
  show ?thesis
  proof (cases e)
    case e: (Some event)
    then have lay: "receive_record_layout entry = Some (finish, Some event)" using Some l by simp
    show ?thesis
    proof (cases "event < cursor \<and> finish \<noteq> 9")
      case True
      then show ?thesis
        using layout_scrubbed [OF lay] lay by (simp add: scrub_def undelivered_event_def split: sum.split)
    next
      case False
      then have "scrub cursor entry = entry" using lay by (auto simp: scrub_def)
      then show ?thesis using False lay assms by (auto simp: undelivered_event_def split: sum.split)
    qed
  qed (use Some l in \<open>simp add: scrub_def undelivered_event_def\<close>)
qed (simp add: scrub_def undelivered_event_def)

lemma add_event_filter:
  "filter (\<lambda>(e, _). \<not> e < cursor) (add_event x events) =
   add_event (case x of Some (e, c) \<Rightarrow> if e < cursor then None else Some (e, c) | None \<Rightarrow> None)
     (filter (\<lambda>(e, _). \<not> e < cursor) events)"
  by (auto simp: add_event_def list_ex_iff split: option.split)

lemma fold_add_event:
  assumes "old \<le> cursor"
  shows "fold (add_event \<circ> undelivered_event cursor) (map (scrub cursor) es) (filter (\<lambda>(e, _). \<not> e < cursor) events) =
    filter (\<lambda>(e, _). \<not> e < cursor) (fold (add_event \<circ> undelivered_event old) es events)"
proof (induction es arbitrary: events)
  case (Cons e es)
  show ?case
    using Cons.IH [of "add_event (undelivered_event old e) events"] unfolding add_event_filter
    by (simp add: undelivered_scrubbed [OF assms])
qed simp

lemma layout_after_scrub:
  "receive_record_layout (scrub cursor entry) =
   (case receive_record_layout entry of
      Some (finish, Some event) \<Rightarrow> Some (if event < cursor then 9 else finish, Some event)
    | l \<Rightarrow> l)"
  by (auto simp: scrub_def layout_scrubbed split: option.split)

text \<open>
  C30.  Acknowledging delivery loses nothing that was not acknowledged and keeps no plaintext that
  was.  Advancing the cursor leaves on offer exactly the events at or above it, in the same order and
  with the same contexts; every receive record still names its event, and the record of an
  acknowledged event has no context bytes left.
\<close>

theorem delivery_scrubs_exactly:
  assumes "snap_delivery_cursor snapshot \<le> cursor"
  shows "undelivered_events (deliver_through cursor snapshot) =
      filter (\<lambda>(event, _). cursor \<le> event) (undelivered_events snapshot) \<and>
    map (\<lambda>r. map_option snd (receive_record_layout r)) (snap_inbox (deliver_through cursor snapshot)) =
      map (\<lambda>r. map_option snd (receive_record_layout r)) (snap_inbox snapshot) \<and>
    list_all (\<lambda>r. case receive_record_layout r of Some (finish, Some event) \<Rightarrow> event < cursor \<longrightarrow> finish = 9 | _ \<Rightarrow> True)
      (snap_inbox (deliver_through cursor snapshot))"
proof -
  have "(\<lambda>(event, _). cursor \<le> event) = (\<lambda>(event :: u64, _ :: application_context). \<not> event < cursor)"
    by (simp add: fun_eq_iff not_less)
  then have "undelivered_events (deliver_through cursor snapshot) =
      filter (\<lambda>(event, _). cursor \<le> event) (undelivered_events snapshot)"
    using fold_add_event [OF assms, of "snap_inbox snapshot" "[]"]
    by (simp add: undelivered_events_def deliver_through_def filter_sort)
  moreover have "map_option snd (receive_record_layout (scrub cursor r)) = map_option snd (receive_record_layout r)" for r
    by (auto simp: layout_after_scrub split: option.split)
  moreover have "case receive_record_layout (scrub cursor r) of Some (finish, Some event) \<Rightarrow> event < cursor \<longrightarrow> finish = 9 | _ \<Rightarrow> True" for r
    by (auto simp: layout_after_scrub split: option.split)
  ultimately show ?thesis by (simp add: deliver_through_def list_all_iff)
qed

definition one_event :: operation_snapshot where
  "one_event = (snapshot_empty 3)\<lparr>snap_inbox := [ascii ''TCGR'' @ [1, 0, 0, 0, 2, 7, 7] @ replicate 32 5 @ [0] @ u64_to_be 0]\<rparr>"

theorem delivery_scrubs_exactly_witness:
  "map receive_record_layout (snap_inbox one_event) = [Some (11, Some 0)] \<and>
   map receive_record_layout (snap_inbox (deliver_through 1 one_event)) = [Some (9, Some 0)]"
proof -
  have one: "map receive_record_layout (snap_inbox one_event) = [Some (11, Some 0)]" by code_simp
  then obtain r where r: "snap_inbox (deliver_through 1 one_event) = [r]"
    by (simp add: deliver_through_def one_event_def)
  have "snap_delivery_cursor one_event \<le> 1" by (simp add: one_event_def snapshot_empty_def)
  note delivery_scrubs_exactly [OF this]
  then have "map_option snd (receive_record_layout r) = Some (Some 0)"
    "case receive_record_layout r of Some (finish, Some event) \<Rightarrow> event < 1 \<longrightarrow> finish = 9 | _ \<Rightarrow> True"
    using one r by auto
  then show ?thesis using one r by (auto split: option.splits)
qed

end
