(* ===== verification/Accounts_Protocol.thy ===== *)
theory Accounts_Protocol
  imports Relay_Protocol
begin

text \<open>
  Crate \<^verbatim>\<open>tacenta-accounts\<close>, \<^verbatim>\<open>protocol.rs\<close>, and crate \<^verbatim>\<open>tacenta-transport\<close>, \<^verbatim>\<open>provisioning.rs\<close>: the messages of
  the account service and of device provisioning, and their byte encodings.  A string is its UTF-8
  bytes; a field that does not fit its length prefix panics, which is \<^const>\<open>None\<close>.
\<close>

section \<open>Account messages\<close>

datatype account_request =
    SignUpTenant bytes bytes bytes
  | SignUpUser bytes bytes bytes
  | SignIn bytes bytes bytes

datatype signup_reason = UsernameTaken | EmailTaken | InvalidUsername | InvalidEmail | WeakPassword

datatype account_response =
    TenantCreated bytes bytes
  | UserCreated bytes
  | SignedIn bytes bytes
  | SignupRefused signup_reason
  | SignInRefused
  | UnknownTenant
  | ServerError
  | RateLimited

definition put_str :: "bytes \<Rightarrow> bytes option" where
  "put_str s = do { len \<leftarrow> u32_try_from (length s); Some (u32_to_be len @ s) }"

definition take_str :: "bytes \<Rightarrow> (bytes \<times> bytes) option" where
  "take_str bytes = do {
     (len, rest) \<leftarrow> take_u32 bytes;
     (s, rest) \<leftarrow> split_at_checked (unat len) rest;
     if utf8_valid s then Some (s, rest) else None
   }"

text \<open>Three strings in a row, and the end of the bytes.\<close>

definition put_three :: "bytes \<Rightarrow> bytes \<Rightarrow> bytes \<Rightarrow> bytes option" where
  "put_three a b c = do { x \<leftarrow> put_str a; y \<leftarrow> put_str b; z \<leftarrow> put_str c; Some (x @ y @ z) }"

definition take_three :: "bytes \<Rightarrow> (bytes \<times> bytes \<times> bytes) option" where
  "take_three rest = do {
     (a, rest) \<leftarrow> take_str rest;
     (b, rest) \<leftarrow> take_str rest;
     (c, rest) \<leftarrow> take_str rest;
     if rest = [] then Some (a, b, c) else None
   }"

definition encode_account_request :: "account_request \<Rightarrow> bytes option" where
  "encode_account_request request =
     (case request of
        SignUpTenant username email password \<Rightarrow> do { body \<leftarrow> put_three username email password; Some ([1] @ body) }
      | SignUpUser api_key username password \<Rightarrow> do { body \<leftarrow> put_three api_key username password; Some ([2] @ body) }
      | SignIn api_key identifier password \<Rightarrow> do { body \<leftarrow> put_three api_key identifier password; Some ([3] @ body) })"

definition decode_account_request :: "bytes \<Rightarrow> account_request option" where
  "decode_account_request bytes = do {
     (tag, rest) \<leftarrow> split_first bytes;
     if tag = 1 then do { (username, email, password) \<leftarrow> take_three rest; Some (SignUpTenant username email password) }
     else if tag = 2 then do { (api_key, username, password) \<leftarrow> take_three rest; Some (SignUpUser api_key username password) }
     else if tag = 3 then do { (api_key, identifier, password) \<leftarrow> take_three rest; Some (SignIn api_key identifier password) }
     else None
   }"

fun reason_tag :: "signup_reason \<Rightarrow> byte" where
  "reason_tag UsernameTaken = 1"
| "reason_tag EmailTaken = 2"
| "reason_tag InvalidUsername = 3"
| "reason_tag InvalidEmail = 4"
| "reason_tag WeakPassword = 5"

definition tag_reason :: "byte \<Rightarrow> signup_reason option" where
  "tag_reason tag =
     (if tag = 1 then Some UsernameTaken
      else if tag = 2 then Some EmailTaken
      else if tag = 3 then Some InvalidUsername
      else if tag = 4 then Some InvalidEmail
      else if tag = 5 then Some WeakPassword
      else None)"

definition encode_account_response :: "account_response \<Rightarrow> bytes option" where
  "encode_account_response response =
     (case response of
        TenantCreated tenant_id api_key \<Rightarrow> do { t \<leftarrow> put_str tenant_id; k \<leftarrow> put_str api_key; Some ([1] @ t @ k) }
      | UserCreated username \<Rightarrow> do { u \<leftarrow> put_str username; Some ([2] @ u) }
      | SignedIn username token \<Rightarrow> do { u \<leftarrow> put_str username; t \<leftarrow> put_str token; Some ([3] @ u @ t) }
      | SignupRefused reason \<Rightarrow> Some [4, reason_tag reason]
      | SignInRefused \<Rightarrow> Some [5]
      | UnknownTenant \<Rightarrow> Some [6]
      | ServerError \<Rightarrow> Some [7]
      | RateLimited \<Rightarrow> Some [8])"

definition decode_account_response :: "bytes \<Rightarrow> account_response option" where
  "decode_account_response bytes = do {
     (tag, rest) \<leftarrow> split_first bytes;
     if tag = 1 then do {
       (tenant_id, rest) \<leftarrow> take_str rest;
       (api_key, rest) \<leftarrow> take_str rest;
       if rest = [] then Some (TenantCreated tenant_id api_key) else None
     }
     else if tag = 2 then do {
       (username, rest) \<leftarrow> take_str rest;
       if rest = [] then Some (UserCreated username) else None
     }
     else if tag = 3 then do {
       (username, rest) \<leftarrow> take_str rest;
       (token, rest) \<leftarrow> take_str rest;
       if rest = [] then Some (SignedIn username token) else None
     }
     else if tag = 4 then do {
       (code, rest) \<leftarrow> split_first rest;
       if rest = [] then map_option SignupRefused (tag_reason code) else None
     }
     else if tag = 5 then (if rest = [] then Some SignInRefused else None)
     else if tag = 6 then (if rest = [] then Some UnknownTenant else None)
     else if tag = 7 then (if rest = [] then Some ServerError else None)
     else if tag = 8 then (if rest = [] then Some RateLimited else None)
     else None
   }"

section \<open>Provisioning messages\<close>

record provision_request =
  pr_session_token :: bytes
  pr_device :: u32
  pr_identity :: bytes
  pr_bundle :: bytes
  pr_possession_sig :: bytes

datatype provision_outcome =
    Provisioned bytes
  | BadSession
  | PossessionFailed
  | Prov_Rejected
  | Prov_ServerError

definition encode_provision_request :: "provision_request \<Rightarrow> bytes option" where
  "encode_provision_request q = do {
     t \<leftarrow> put_bytes (pr_session_token q);
     i \<leftarrow> put_bytes (pr_identity q);
     b \<leftarrow> put_bytes (pr_bundle q);
     s \<leftarrow> put_bytes (pr_possession_sig q);
     Some (t @ put_u32 (pr_device q) @ i @ b @ s)
   }"

definition decode_provision_request :: "bytes \<Rightarrow> provision_request option" where
  "decode_provision_request bytes = do {
     (session_token, rest) \<leftarrow> take_str bytes;
     (device, rest) \<leftarrow> take_u32 rest;
     (ident, rest) \<leftarrow> take_bytes rest;
     (bundle, rest) \<leftarrow> take_bytes rest;
     (possession_sig, rest) \<leftarrow> take_bytes rest;
     if rest = [] then Some \<lparr>pr_session_token = session_token, pr_device = device, pr_identity = ident,
                             pr_bundle = bundle, pr_possession_sig = possession_sig\<rparr> else None
   }"

definition encode_provision_outcome :: "provision_outcome \<Rightarrow> bytes option" where
  "encode_provision_outcome outcome =
     (case outcome of
        Provisioned user \<Rightarrow> do { u \<leftarrow> put_bytes user; Some ([1] @ u) }
      | BadSession \<Rightarrow> Some [2]
      | PossessionFailed \<Rightarrow> Some [3]
      | Prov_Rejected \<Rightarrow> Some [4]
      | Prov_ServerError \<Rightarrow> Some [5])"

definition decode_provision_outcome :: "bytes \<Rightarrow> provision_outcome option" where
  "decode_provision_outcome bytes = do {
     (tag, rest) \<leftarrow> split_first bytes;
     if tag = 1 then do {
       (user, rest) \<leftarrow> take_str rest;
       if rest = [] then Some (Provisioned user) else None
     }
     else if tag = 2 then (if rest = [] then Some BadSession else None)
     else if tag = 3 then (if rest = [] then Some PossessionFailed else None)
     else if tag = 4 then (if rest = [] then Some Prov_Rejected else None)
     else if tag = 5 then (if rest = [] then Some Prov_ServerError else None)
     else None
   }"

section \<open>The codecs are exact\<close>

lemma put_str_bytes: "put_str = put_bytes"
  by (simp add: fun_eq_iff put_str_def put_bytes_def put_u32_def)

lemma take_str_bytes: "take_str bytes = do { (s, rest) \<leftarrow> take_bytes bytes; if utf8_valid s then Some (s, rest) else None }"
  by (auto simp: take_str_def take_bytes_def split: bind_splits)

lemma take_str_iff:
  "take_str bytes = Some (s, rest) \<longleftrightarrow> utf8_valid s \<and> (\<exists>out. put_str s = Some out \<and> bytes = out @ rest)"
  by (auto simp: take_str_bytes put_str_bytes option_bind_simps take_bytes_iff)

interpretation str_codec: prefix_codec put_str take_str utf8_valid
  by unfold_locales (auto simp: take_str_iff)

lemma take_three_iff:
  "take_three bytes = Some (a, b, c) \<longleftrightarrow> utf8_valid a \<and> utf8_valid b \<and> utf8_valid c \<and> put_three a b c = Some bytes"
  by (auto simp: take_three_def put_three_def option_bind_simps take_str_iff split: if_splits)

primrec account_request_typed :: "account_request \<Rightarrow> bool" where
  "account_request_typed (SignUpTenant u e p) \<longleftrightarrow> utf8_valid u \<and> utf8_valid e \<and> utf8_valid p"
| "account_request_typed (SignUpUser k u p) \<longleftrightarrow> utf8_valid k \<and> utf8_valid u \<and> utf8_valid p"
| "account_request_typed (SignIn k i p) \<longleftrightarrow> utf8_valid k \<and> utf8_valid i \<and> utf8_valid p"

primrec account_response_typed :: "account_response \<Rightarrow> bool" where
  "account_response_typed (TenantCreated t k) \<longleftrightarrow> utf8_valid t \<and> utf8_valid k"
| "account_response_typed (UserCreated u) \<longleftrightarrow> utf8_valid u"
| "account_response_typed (SignedIn u t) \<longleftrightarrow> utf8_valid u \<and> utf8_valid t"
| "account_response_typed (SignupRefused r) \<longleftrightarrow> True"
| "account_response_typed SignInRefused \<longleftrightarrow> True"
| "account_response_typed UnknownTenant \<longleftrightarrow> True"
| "account_response_typed ServerError \<longleftrightarrow> True"
| "account_response_typed RateLimited \<longleftrightarrow> True"

primrec provision_outcome_typed :: "provision_outcome \<Rightarrow> bool" where
  "provision_outcome_typed (Provisioned u) \<longleftrightarrow> utf8_valid u"
| "provision_outcome_typed BadSession \<longleftrightarrow> True"
| "provision_outcome_typed PossessionFailed \<longleftrightarrow> True"
| "provision_outcome_typed Prov_Rejected \<longleftrightarrow> True"
| "provision_outcome_typed Prov_ServerError \<longleftrightarrow> True"

lemma tag_reason_iff: "tag_reason tag = Some reason \<longleftrightarrow> tag = reason_tag reason"
  by (cases reason) (auto simp: tag_reason_def)

lemma account_request_iff:
  "decode_account_request bytes = Some q \<longleftrightarrow> account_request_typed q \<and> encode_account_request q = Some bytes"
  by (cases bytes; cases q)
    (auto simp: decode_account_request_def encode_account_request_def option_bind_simps split_first_def take_three_iff
      split: if_splits)

lemma account_response_iff:
  "decode_account_response bytes = Some q \<longleftrightarrow> account_response_typed q \<and> encode_account_response q = Some bytes"
  by (cases bytes; cases q)
    (auto simp: decode_account_response_def encode_account_response_def option_bind_simps split_first_def take_str_iff
      tag_reason_iff split: if_splits list.splits)

lemma provision_request_iff:
  "decode_provision_request bytes = Some q \<longleftrightarrow> utf8_valid (pr_session_token q) \<and> encode_provision_request q = Some bytes"
  by (cases q)
    (auto simp: decode_provision_request_def encode_provision_request_def option_bind_simps take_str_iff put_str_bytes
      take_bytes_iff take_u32_iff split: if_splits)

lemma provision_outcome_iff:
  "decode_provision_outcome bytes = Some q \<longleftrightarrow> provision_outcome_typed q \<and> encode_provision_outcome q = Some bytes"
  by (cases bytes; cases q)
    (auto simp: decode_provision_outcome_def encode_provision_outcome_def option_bind_simps split_first_def take_str_iff
      put_str_bytes split: if_splits)

text \<open>
  The four messages of the account and provisioning services are canonical: a decoder accepts
  exactly the bytes its encoder writes for a message whose strings are valid, so no two messages share
  an encoding and no message has two.
\<close>

theorem account_codecs_exact:
  "(decode_account_request bytes = Some req \<longleftrightarrow> account_request_typed req \<and> encode_account_request req = Some bytes) \<and>
   (decode_account_response bytes = Some resp \<longleftrightarrow> account_response_typed resp \<and> encode_account_response resp = Some bytes) \<and>
   (decode_provision_request bytes = Some preq \<longleftrightarrow> utf8_valid (pr_session_token preq) \<and> encode_provision_request preq = Some bytes) \<and>
   (decode_provision_outcome bytes = Some out \<longleftrightarrow> provision_outcome_typed out \<and> encode_provision_outcome out = Some bytes)"
  using account_request_iff account_response_iff provision_request_iff provision_outcome_iff by blast

end
