(* ===== verification/Client_State.thy ===== *)
theory Client_State
  imports Client_Records Accounts_Protocol Directory_Protocol
begin

text \<open>
  Crate \<^verbatim>\<open>tacenta-client\<close>, \<^verbatim>\<open>lib.rs\<close>: the client's error kinds, its contact list, and the state blobs it
  exports and restores, unsealed and sealed; crate \<^verbatim>\<open>tacenta-core\<close>, \<^verbatim>\<open>persist.rs\<close>: the seal.

  Error texts are dropped.  The authenticator of the seal (HMAC-SHA256) is a parameter on the key and
  the bytes it authenticates.  A panic of an encoder is the error \<open>ErrPanic\<close>.
\<close>

section \<open>Errors and their kinds\<close>

datatype io_error = Io_PermissionDenied | Io_Other

datatype relay_refusal = Refused_TooLarge | Refused_QueueFull | Refused_UnknownRecipient

datatype client_error =
    ErrIo io_error
  | ErrRelay relay_refusal
  | ErrInvalidArgument
  | ErrDirectory dir_response
  | ErrAccount account_response
  | ErrProvision provision_outcome
  | ErrCrypto
  | ErrProtocol
  | ErrSecureStore
  | ErrStoreUnavailable
  | ErrStateMismatch device_addr device_addr
  | ErrDiscovery
  | ErrPanic

type_synonym 'a client_result = "client_error + 'a"

datatype error_kind =
    KindNetwork | KindDiscovery | KindUnknownTenant | KindUsernameTaken | KindInvalidUsername | KindWeakPassword
  | KindSignUpRefused | KindSignInRefused | KindIdentityMismatch | KindNotFound | KindRateLimited | KindServerFailure
  | KindState | KindStoreUnavailable | KindInvalidArgument | KindInternal

fun error_kind_of :: "client_error \<Rightarrow> error_kind" where
  "error_kind_of (ErrIo Io_PermissionDenied) = KindIdentityMismatch"
| "error_kind_of (ErrIo Io_Other) = KindNetwork"
| "error_kind_of ErrInvalidArgument = KindInvalidArgument"
| "error_kind_of ErrDiscovery = KindDiscovery"
| "error_kind_of (ErrRelay Refused_TooLarge) = KindInvalidArgument"
| "error_kind_of (ErrRelay Refused_QueueFull) = KindRateLimited"
| "error_kind_of (ErrRelay Refused_UnknownRecipient) = KindNotFound"
| "error_kind_of (ErrAccount response) =
     (case response of
        UnknownTenant \<Rightarrow> KindUnknownTenant
      | SignupRefused reason \<Rightarrow>
          (case reason of
             UsernameTaken \<Rightarrow> KindUsernameTaken
           | InvalidUsername \<Rightarrow> KindInvalidUsername
           | WeakPassword \<Rightarrow> KindWeakPassword
           | EmailTaken \<Rightarrow> KindSignUpRefused
           | InvalidEmail \<Rightarrow> KindSignUpRefused)
      | SignInRefused \<Rightarrow> KindSignInRefused
      | RateLimited \<Rightarrow> KindRateLimited
      | ServerError \<Rightarrow> KindServerFailure
      | _ \<Rightarrow> KindInternal)"
| "error_kind_of (ErrProvision outcome) =
     (case outcome of
        Prov_Rejected \<Rightarrow> KindIdentityMismatch
      | BadSession \<Rightarrow> KindSignInRefused
      | Prov_ServerError \<Rightarrow> KindServerFailure
      | _ \<Rightarrow> KindInternal)"
| "error_kind_of (ErrDirectory response) =
     (case response of
        DResp_Rejected \<Rightarrow> KindIdentityMismatch
      | DResp_DepositRejected \<Rightarrow> KindIdentityMismatch
      | DResp_Unauthorized \<Rightarrow> KindIdentityMismatch
      | DResp_NotFound \<Rightarrow> KindNotFound
      | DResp_Unregistered \<Rightarrow> KindNotFound
      | DResp_RateLimited \<Rightarrow> KindRateLimited
      | DResp_RegistrationClosed \<Rightarrow> KindSignUpRefused
      | DResp_ReservedHandle \<Rightarrow> KindSignUpRefused
      | DResp_RolledBack \<Rightarrow> KindState
      | _ \<Rightarrow> KindInternal)"
| "error_kind_of ErrSecureStore = KindState"
| "error_kind_of ErrStoreUnavailable = KindStoreUnavailable"
| "error_kind_of (ErrStateMismatch _ _) = KindIdentityMismatch"
| "error_kind_of ErrCrypto = KindInternal"
| "error_kind_of ErrProtocol = KindInternal"
| "error_kind_of ErrPanic = KindInternal"

datatype secure_store_error = StoreUnavailable | StoreBackend

fun store_err :: "secure_store_error \<Rightarrow> client_error" where
  "store_err StoreUnavailable = ErrStoreUnavailable"
| "store_err StoreBackend = ErrSecureStore"

text \<open>\<open>map_err\<close>.\<close>

definition rmap_err :: "('e \<Rightarrow> 'f) \<Rightarrow> 'e + 'a \<Rightarrow> 'f + 'a" where
  "rmap_err f r = (case r of Inl e \<Rightarrow> Inl (f e) | Inr x \<Rightarrow> Inr x)"

section \<open>Contacts\<close>

type_synonym contacts = "device_addr list"

definition contacts_add :: "device_addr \<Rightarrow> contacts \<Rightarrow> contacts" where
  "contacts_add contact xs = (if contact \<in> set xs then xs else xs @ [contact])"

definition contacts_remove :: "bytes \<Rightarrow> contacts \<Rightarrow> contacts" where
  "contacts_remove user xs = filter (\<lambda>c. dev_user c \<noteq> user) xs"

definition contacts_get :: "bytes \<Rightarrow> contacts \<Rightarrow> device_addr option" where
  "contacts_get user xs = find (\<lambda>c. dev_user c = user) xs"

text \<open>Lengths are cast to 32 bits.\<close>

definition state_put_lp :: "bytes \<Rightarrow> bytes" where
  "state_put_lp block = u32_to_be (of_nat (length block)) @ block"

definition state_take_lp :: "bytes \<Rightarrow> (bytes \<times> bytes) option" where
  "state_take_lp b = do { (len, rest) \<leftarrow> split_at_checked 4 b; split_at_checked (unat (u32_from_be len)) rest }"

definition put_contact :: "device_addr \<Rightarrow> bytes" where
  "put_contact c = state_put_lp (dev_user c) @ u32_to_be (dev_device c)"

definition take_contact :: "bytes \<Rightarrow> (device_addr \<times> bytes) option" where
  "take_contact rest = do {
     (user, rest) \<leftarrow> state_take_lp rest;
     if \<not> utf8_valid user then None else do {
       (device, rest) \<leftarrow> take_u32 rest;
       Some (DeviceAddr user device, rest)
     }
   }"

definition contacts_to_bytes :: "contacts \<Rightarrow> bytes" where
  "contacts_to_bytes xs = u32_to_be (of_nat (length xs)) @ concat (map put_contact xs)"

definition contacts_from_bytes :: "bytes \<Rightarrow> contacts option" where
  "contacts_from_bytes bytes = do {
     (count, rest) \<leftarrow> take_u32 bytes;
     (xs, rest) \<leftarrow> take_many take_contact (unat count) rest;
     if rest = [] then Some xs else None
   }"

section \<open>State blobs\<close>

datatype session_provider = Untagged | OpenTacenta

fun provider_to_byte :: "session_provider \<Rightarrow> byte" where
  "provider_to_byte Untagged = 1"
| "provider_to_byte OpenTacenta = 2"

definition provider_from_byte :: "byte \<Rightarrow> session_provider option" where
  "provider_from_byte b = (if b = 1 then Some Untagged else if b = 2 then Some OpenTacenta else None)"

definition STATE_TAGGED :: byte where "STATE_TAGGED = 0xff"

definition STATE_VERSION_2 :: byte where "STATE_VERSION_2 = 2"

definition STATE_VERSION_3 :: byte where "STATE_VERSION_3 = 3"

definition STATE_VERSION_4 :: byte where "STATE_VERSION_4 = 4"

definition STATE_VERSION_5 :: byte where "STATE_VERSION_5 = 5"

definition STATE_VERSION_6 :: byte where "STATE_VERSION_6 = 6"

record split =
  split_provider :: session_provider
  split_identity :: bytes
  split_sessions :: bytes
  split_prekeys :: "bytes option"
  split_generation :: u64

text \<open>A blob with identity and sessions only, and the three sections of the later versions.\<close>

definition split_two :: "session_provider \<Rightarrow> bytes \<Rightarrow> split client_result" where
  "split_two provider rest =
     rbind (ok_or ErrProtocol (state_take_lp rest)) (\<lambda>(ident, sessions).
       Inr \<lparr>split_provider = provider, split_identity = ident, split_sessions = sessions, split_prekeys = None,
            split_generation = 0\<rparr>)"

definition split_three :: "bytes \<Rightarrow> (bytes \<times> bytes \<times> bytes \<times> bytes) client_result" where
  "split_three rest =
     rbind (ok_or ErrProtocol (state_take_lp rest)) (\<lambda>(ident, rest).
     rbind (ok_or ErrProtocol (state_take_lp rest)) (\<lambda>(sessions, rest).
     rbind (ok_or ErrProtocol (state_take_lp rest)) (\<lambda>(prekeys, rest).
       Inr (ident, sessions, prekeys, rest))))"

definition split_tagged :: "bytes \<Rightarrow> split client_result" where
  "split_tagged rest =
     rbind (ok_or ErrProtocol (split_first rest)) (\<lambda>(version, rest).
     rbind (ok_or ErrProtocol (split_first rest)) (\<lambda>(tag, rest).
     rbind (ok_or ErrProtocol (provider_from_byte tag)) (\<lambda>provider.
       if version = STATE_VERSION_2 then split_two provider rest
       else if version = STATE_VERSION_3 then
         rbind (split_three rest) (\<lambda>(ident, sessions, prekeys, rest).
           if rest \<noteq> [] then Inl ErrProtocol
           else Inr \<lparr>split_provider = provider, split_identity = ident, split_sessions = sessions,
                     split_prekeys = Some prekeys, split_generation = 0\<rparr>)
       else if version = STATE_VERSION_4 then
         rbind (split_three rest) (\<lambda>(ident, sessions, prekeys, rest).
         rbind (ok_or ErrProtocol (split_at_checked 8 rest)) (\<lambda>(gen_bytes, rest).
           if rest \<noteq> [] then Inl ErrProtocol
           else Inr \<lparr>split_provider = provider, split_identity = ident, split_sessions = sessions,
                     split_prekeys = Some prekeys, split_generation = u64_from_be gen_bytes\<rparr>))
       else Inl ErrProtocol)))"

definition split_state :: "bytes \<Rightarrow> split client_result" where
  "split_state state =
     (case split_first state of
        Some (b, rest) \<Rightarrow> if b = STATE_TAGGED then split_tagged rest else split_two Untagged state
      | None \<Rightarrow> split_two Untagged state)"

text \<open>
  The bytes \<open>export_body_v3\<close> assembles from its parts, and \<open>export_state\<close>, which overwrites the version
  and appends the generation.
\<close>

definition state_body_v3 :: "session_provider \<Rightarrow> bytes \<Rightarrow> bytes \<Rightarrow> bytes \<Rightarrow> bytes" where
  "state_body_v3 provider ident sessions prekeys =
     [STATE_TAGGED, STATE_VERSION_3, provider_to_byte provider] @ state_put_lp ident @ state_put_lp sessions @ state_put_lp prekeys"

definition state_v4 :: "bytes \<Rightarrow> u64 \<Rightarrow> bytes" where
  "state_v4 body generation = body[1 := STATE_VERSION_4] @ u64_to_be generation"

section \<open>The seal\<close>

definition SEAL_VERSION :: byte where "SEAL_VERSION = 1"

definition GENERATION_LEN :: nat where "GENERATION_LEN = 8"

definition TAG_LEN :: nat where "TAG_LEN = 32"

definition SEAL_OVERHEAD :: nat where "SEAL_OVERHEAD = 1 + GENERATION_LEN + TAG_LEN"

definition SEAL_LABEL :: bytes where "SEAL_LABEL = ascii ''tacenta:persisted-state:v1'' @ [0xff]"

datatype seal_error = SealUnknownVersion | SealTooShort | SealBadAuthenticator

record unsealed =
  uns_generation :: u64
  uns_payload :: bytes

definition tag_over :: "(bytes \<Rightarrow> bytes \<Rightarrow> bytes) \<Rightarrow> bytes \<Rightarrow> bytes \<Rightarrow> bytes" where
  "tag_over hmac key body = hmac key (SEAL_LABEL @ body)"

definition seal :: "(bytes \<Rightarrow> bytes \<Rightarrow> bytes) \<Rightarrow> bytes \<Rightarrow> u64 \<Rightarrow> bytes \<Rightarrow> bytes" where
  "seal hmac key generation payload =
     (let out = [SEAL_VERSION] @ u64_to_be generation @ payload in out @ tag_over hmac key out)"

definition unseal :: "(bytes \<Rightarrow> bytes \<Rightarrow> bytes) \<Rightarrow> bytes \<Rightarrow> bytes \<Rightarrow> seal_error + unsealed" where
  "unseal hmac key sealed =
     (if length sealed < SEAL_OVERHEAD then Inl SealTooShort
      else if hd sealed \<noteq> SEAL_VERSION then Inl SealUnknownVersion
      else
        let body = take (length sealed - TAG_LEN) sealed; tag = drop (length sealed - TAG_LEN) sealed
        in if tag \<noteq> tag_over hmac key body then Inl SealBadAuthenticator
           else Inr \<lparr>uns_generation = u64_from_be (take GENERATION_LEN (drop 1 body)),
                     uns_payload = drop (1 + GENERATION_LEN) body\<rparr>)"

datatype freshness = FreshCurrent | FreshRolledBack

definition freshness_of :: "u64 \<Rightarrow> u64 \<Rightarrow> freshness" where
  "freshness_of highest_seen offered = (if offered < highest_seen then FreshRolledBack else FreshCurrent)"

section \<open>Sealed state\<close>

text \<open>
  The secure store of the platform, as the operations of the trait: the wrapping key, the highest
  rollback counter it has committed, and one advance of it.
\<close>

record 'k secure_store =
  ks_wrap_key :: "'k \<Rightarrow> secure_store_error + bytes"
  ks_rollback_counter :: "'k \<Rightarrow> secure_store_error + u64"
  ks_bump :: "'k \<Rightarrow> (secure_store_error + u64) \<times> 'k"

record opened =
  opn_body :: bytes
  opn_generation :: u64
  opn_stale :: bool
  opn_bound :: "device_addr option"

definition expect_address :: "opened \<Rightarrow> device_addr \<Rightarrow> unit client_result" where
  "expect_address opn client =
     (case opn_bound opn of
        Some state \<Rightarrow> if state \<noteq> client then Inl (ErrStateMismatch state client) else Inr ()
      | None \<Rightarrow> Inr ())"

definition ends_with :: "'a list \<Rightarrow> 'a list \<Rightarrow> bool" where
  "ends_with xs ys = starts_with (rev xs) (rev ys)"

definition expect_user :: "opened \<Rightarrow> bytes \<Rightarrow> u32 \<Rightarrow> unit client_result" where
  "expect_user opn identifier device =
     (case opn_bound opn of
        Some state \<Rightarrow>
          if dev_device state \<noteq> device
             \<or> \<not> (dev_user state = identifier \<or> ends_with (dev_user state) (ascii ''/'' @ identifier))
          then Inl (ErrStateMismatch state (DeviceAddr identifier device)) else Inr ()
      | None \<Rightarrow> Inr ())"

text \<open>The address a version-six body leads with.\<close>

definition take_bound :: "bytes \<Rightarrow> (device_addr \<times> bytes) client_result" where
  "take_bound body =
     rbind (ok_or ErrSecureStore (state_take_lp body)) (\<lambda>(user, rest).
     rbind (ok_or ErrSecureStore (split_at_checked 4 rest)) (\<lambda>(device, rest).
       if \<not> utf8_valid user then Inl ErrSecureStore
       else Inr (DeviceAddr user (u32_from_be device), rest)))"

definition open_sealed :: "(bytes \<Rightarrow> bytes \<Rightarrow> bytes) \<Rightarrow> 'k secure_store \<Rightarrow> 'k \<Rightarrow> bytes \<Rightarrow> opened client_result" where
  "open_sealed hmac ks store state =
     rbind (case split_first state of
              Some (b, rest) \<Rightarrow> if b = STATE_TAGGED then Inr rest else Inl ErrSecureStore
            | None \<Rightarrow> Inl ErrSecureStore) (\<lambda>rest.
     rbind (ok_or ErrProtocol (split_first rest)) (\<lambda>(version, sealed).
       if version \<noteq> STATE_VERSION_5 \<and> version \<noteq> STATE_VERSION_6 then Inl ErrSecureStore
       else
     rbind (rmap_err store_err (ks_wrap_key ks store)) (\<lambda>key.
     rbind (rmap_err (\<lambda>_. ErrSecureStore) (unseal hmac key sealed)) (\<lambda>opn.
       if length (uns_payload opn) < 8 then Inl ErrSecureStore
       else
         let split_at = length (uns_payload opn) - 8;
             body = take split_at (uns_payload opn);
             counter = u64_from_be (drop split_at (uns_payload opn))
         in
     rbind (if version = STATE_VERSION_6
            then rbind (take_bound body) (\<lambda>(addr, rest). Inr (Some addr, rest))
            else Inr (None, body)) (\<lambda>(bound, body).
     rbind (rmap_err store_err (ks_rollback_counter ks store)) (\<lambda>highest.
       Inr \<lparr>opn_body = body, opn_generation = uns_generation opn, opn_stale = (counter < highest), opn_bound = bound\<rparr>))))))"

text \<open>What \<open>export_state_sealed\<close> builds from the body it exported.\<close>

definition sealed_state ::
  "(bytes \<Rightarrow> bytes \<Rightarrow> bytes) \<Rightarrow> bytes \<Rightarrow> u64 \<Rightarrow> device_addr \<Rightarrow> u64 \<Rightarrow> bytes \<Rightarrow> bytes" where
  "sealed_state hmac key counter me generation body =
     [STATE_TAGGED, STATE_VERSION_6]
     @ seal hmac key generation (state_put_lp (dev_user me) @ u32_to_be (dev_device me) @ body @ u64_to_be counter)"

section \<open>Exactness of the blobs\<close>

lemma state_take_bytes: "state_take_lp = take_bytes"
  by (auto simp: fun_eq_iff state_take_lp_def take_bytes_def take_u32_def split: bind_splits)

lemma put_bytes_state: "put_bytes b = (if length b < 2 ^ 32 then Some (state_put_lp b) else None)"
  by (auto simp: put_bytes_def state_put_lp_def put_u32_def u32_try_from_def)

lemma state_take_iff: "state_take_lp bs = Some (b, rest) \<longleftrightarrow> length b < 2 ^ 32 \<and> bs = state_put_lp b @ rest"
  by (auto simp: state_take_bytes take_bytes_iff put_bytes_state)

lemma take_contact_addr: "take_contact = take_addr"
  by (simp add: fun_eq_iff take_contact_def take_addr_def state_take_bytes)

lemma put_addr_contact: "put_addr a = (if length (dev_user a) < 2 ^ 32 then Some (put_contact a) else None)"
  by (simp add: put_addr_def put_bytes_state put_contact_def put_u32_def)

definition contact_typed :: "device_addr \<Rightarrow> bool" where
  "contact_typed a = (utf8_valid (dev_user a) \<and> length (dev_user a) < 2 ^ 32)"

lemma take_contact_iff:
  "take_contact bs = Some (a, rest) \<longleftrightarrow>
   contact_typed a \<and> (\<exists>out. Some (put_contact a) = Some out \<and> bs = out @ rest)"
  by (auto simp: take_contact_addr take_addr_iff put_addr_contact contact_typed_def addr_typed_def)

interpretation contact_codec: prefix_codec "\<lambda>a. Some (put_contact a)" take_contact contact_typed
  by unfold_locales (rule take_contact_iff)

lemma put_many_all: "put_many (\<lambda>a. Some (f a)) xs = Some (concat (map f xs))"
  by (induction xs) simp_all

lemma contacts_exact:
  "contacts_from_bytes bs = Some xs \<longleftrightarrow>
   list_all contact_typed xs \<and> length xs < 2 ^ 32 \<and> bs = contacts_to_bytes xs"
  using contact_codec.counted_iff [of bs xs "[]"]
  by (auto simp: contacts_from_bytes_def contacts_to_bytes_def option_bind_simps take_u32_iff put_u32_def
      put_many_all u32_try_from_def)

subsection \<open>State blobs\<close>

text \<open>The sections fit their 32-bit lengths.\<close>

definition sections_fit :: "bytes \<Rightarrow> bytes \<Rightarrow> bytes \<Rightarrow> bool" where
  "sections_fit ident sessions prekeys =
     (length ident < 2 ^ 32 \<and> length sessions < 2 ^ 32 \<and> length prekeys < 2 ^ 32)"

lemma split_three_iff:
  "split_three bs = Inr (ident, sessions, prekeys, rest) \<longleftrightarrow>
   sections_fit ident sessions prekeys \<and> bs = state_put_lp ident @ state_put_lp sessions @ state_put_lp prekeys @ rest"
  by (auto simp: split_three_def rbind_eq_Inr ok_or_eq_Inr state_take_iff sections_fit_def)

lemma provider_from_to_byte [simp]: "provider_from_byte (provider_to_byte p) = Some p"
  by (cases p) (simp_all add: provider_from_byte_def)

lemma split_state_v4:
  assumes "sections_fit ident sessions prekeys"
  shows "split_state (state_v4 (state_body_v3 provider ident sessions prekeys) generation) =
    Inr \<lparr>split_provider = provider, split_identity = ident, split_sessions = sessions, split_prekeys = Some prekeys,
         split_generation = generation\<rparr>"
proof -
  have "split_three (state_put_lp ident @ state_put_lp sessions @ state_put_lp prekeys @ u64_to_be generation) =
      Inr (ident, sessions, prekeys, u64_to_be generation)"
    using assms by (simp add: split_three_iff)
  moreover have "split_at_checked 8 (u64_to_be generation) = Some (u64_to_be generation, [])"
    by (simp add: split_at_checked_def)
  ultimately show ?thesis
    by (simp add: split_state_def state_v4_def state_body_v3_def split_tagged_def STATE_TAGGED_def STATE_VERSION_2_def
        STATE_VERSION_3_def STATE_VERSION_4_def)
qed

lemma split_state_v3:
  assumes "sections_fit ident sessions prekeys"
  shows "split_state (state_body_v3 provider ident sessions prekeys) =
    Inr \<lparr>split_provider = provider, split_identity = ident, split_sessions = sessions, split_prekeys = Some prekeys,
         split_generation = 0\<rparr>"
proof -
  have "split_three (state_put_lp ident @ state_put_lp sessions @ state_put_lp prekeys) = Inr (ident, sessions, prekeys, [])"
    using assms by (simp add: split_three_iff)
  then show ?thesis
    by (simp add: split_state_def state_body_v3_def split_tagged_def STATE_TAGGED_def STATE_VERSION_2_def STATE_VERSION_3_def)
qed

subsection \<open>The seal\<close>

text \<open>HMAC-SHA256 returns thirty-two bytes.\<close>

definition hmac_sized :: "(bytes \<Rightarrow> bytes \<Rightarrow> bytes) \<Rightarrow> bool" where
  "hmac_sized hmac = (\<forall>key body. length (hmac key body) = 32)"

lemmas seal_consts = SEAL_VERSION_def SEAL_OVERHEAD_def GENERATION_LEN_def TAG_LEN_def

lemma unseal_iff:
  assumes "hmac_sized hmac"
  shows "unseal hmac key sealed = Inr u \<longleftrightarrow> sealed = seal hmac key (uns_generation u) (uns_payload u)"
proof
  assume "unseal hmac key sealed = Inr u"
  then have len: "41 \<le> length sealed" and hd: "hd sealed = 1"
    and tag: "drop (length sealed - 32) sealed = tag_over hmac key (take (length sealed - 32) sealed)"
    and u: "uns_generation u = u64_from_be (take 8 (drop 1 (take (length sealed - 32) sealed)))"
      "uns_payload u = drop 9 (take (length sealed - 32) sealed)"
    by (auto simp: unseal_def seal_consts Let_def split: if_splits)
  let ?body = "take (length sealed - 32) sealed"
  have "?body = [1] @ take 8 (drop 1 ?body) @ drop 9 ?body"
  proof -
    have "?body = take 1 ?body @ take 8 (drop 1 ?body) @ drop 8 (drop 1 ?body)"
      by (metis append_take_drop_id)
    moreover have "take 1 ?body = [1]"
      using len hd by (cases sealed) auto
    ultimately show ?thesis by simp
  qed
  moreover have "u64_to_be (uns_generation u) = take 8 (drop 1 ?body)"
    unfolding u using len by (intro u64_to_from_be) simp
  ultimately have "?body = [1] @ u64_to_be (uns_generation u) @ uns_payload u"
    using u by simp
  then show "sealed = seal hmac key (uns_generation u) (uns_payload u)"
    using tag append_take_drop_id [of "length sealed - 32" sealed] by (simp add: seal_def seal_consts Let_def)
next
  define b where "b = 1 # u64_to_be (uns_generation u) @ uns_payload u"
  assume "sealed = seal hmac key (uns_generation u) (uns_payload u)"
  then have sealed: "sealed = b @ tag_over hmac key b"
    by (simp add: b_def seal_def seal_consts Let_def)
  have tag: "length (tag_over hmac key b) = 32"
    using assms by (simp add: tag_over_def hmac_sized_def)
  have "take (length sealed - 32) sealed = b" "drop (length sealed - 32) sealed = tag_over hmac key b"
    "41 \<le> length sealed" "hd sealed = 1"
    by (simp_all add: sealed tag) (simp_all add: b_def)
  then show "unseal hmac key sealed = Inr u"
    by (cases u) (simp add: unseal_def seal_consts Let_def, simp add: b_def)
qed

subsection \<open>Sealed state\<close>

lemma take_bound_contact: "take_bound body = ok_or ErrSecureStore (take_contact body)"
  by (auto simp: take_bound_def take_contact_def take_u32_def rbind_def ok_or_def Option.bind_def split: option.split prod.split)

lemma take_bound_iff:
  "take_bound body = Inr (a, rest) \<longleftrightarrow> contact_typed a \<and> body = put_contact a @ rest"
  by (simp add: take_bound_contact ok_or_eq_Inr take_contact_iff)

lemma rmap_err_eq_Inr [simp]: "rmap_err f r = Inr x \<longleftrightarrow> r = Inr x"
  by (cases r) (simp_all add: rmap_err_def)

lemma open_sealed_parts:
  assumes sized: "hmac_sized hmac" and key: "ks_wrap_key ks store = Inr key" and top: "ks_rollback_counter ks store = Inr highest"
  shows "open_sealed hmac ks store blob = Inr opn \<and> opn_bound opn = Some me \<longleftrightarrow>
    (\<exists>counter. contact_typed me \<and> blob = sealed_state hmac key counter me (opn_generation opn) (opn_body opn)
      \<and> opn = \<lparr>opn_body = opn_body opn, opn_generation = opn_generation opn, opn_stale = (counter < highest), opn_bound = Some me\<rparr>)"
    (is "?l \<longleftrightarrow> ?r")
proof
  assume ?r
  then obtain counter where me: "contact_typed me"
    and blob: "blob = sealed_state hmac key counter me (opn_generation opn) (opn_body opn)"
    and opn: "opn = \<lparr>opn_body = opn_body opn, opn_generation = opn_generation opn, opn_stale = (counter < highest), opn_bound = Some me\<rparr>"
    by blast
  let ?payload = "put_contact me @ opn_body opn @ u64_to_be counter"
  have "unseal hmac key (seal hmac key (opn_generation opn) ?payload) = Inr \<lparr>uns_generation = opn_generation opn, uns_payload = ?payload\<rparr>"
    by (simp add: unseal_iff [OF sized])
  moreover have "take_bound (put_contact me @ opn_body opn) = Inr (me, opn_body opn)"
    using me by (simp add: take_bound_iff)
  ultimately show ?l
    using opn by (cases opn) (simp add: open_sealed_def blob sealed_state_def put_contact_def key top Let_def rmap_err_def STATE_TAGGED_def STATE_VERSION_5_def STATE_VERSION_6_def)
next
  assume ?l
  then obtain version sealed u rest where blob: "blob = STATE_TAGGED # version # sealed" and v: "version = STATE_VERSION_6"
    and u: "unseal hmac key sealed = Inr u" and len: "8 \<le> length (uns_payload u)"
    and bound: "take_bound (take (length (uns_payload u) - 8) (uns_payload u)) = Inr (me, rest)"
    and opn: "opn = \<lparr>opn_body = rest, opn_generation = uns_generation u,
      opn_stale = (u64_from_be (drop (length (uns_payload u) - 8) (uns_payload u)) < highest), opn_bound = Some me\<rparr>"
    by (auto simp: open_sealed_def rbind_eq_Inr ok_or_eq_Inr split_first_Some key top Let_def not_less
        split: if_splits option.splits)
  define counter where "counter = u64_from_be (drop (length (uns_payload u) - 8) (uns_payload u))"
  have "drop (length (uns_payload u) - 8) (uns_payload u) = u64_to_be counter"
    using len by (simp add: counter_def u64_to_from_be)
  then have "uns_payload u = put_contact me @ rest @ u64_to_be counter"
    using bound append_take_drop_id [of "length (uns_payload u) - 8" "uns_payload u"] by (simp add: take_bound_iff)
  then have "blob = sealed_state hmac key counter me (opn_generation opn) (opn_body opn)"
    using u by (simp add: unseal_iff [OF sized] blob v opn sealed_state_def put_contact_def)
  moreover have "contact_typed me"
    using bound by (simp add: take_bound_iff)
  ultimately show ?r
    using opn by (auto simp: counter_def)
qed

end
