(* ===== verification/Client_Link.thy ===== *)
theory Client_Link
  imports Client_State
begin

text \<open>
  Crate \<^verbatim>\<open>tacenta-client\<close>, \<^verbatim>\<open>lib.rs\<close> and \<^verbatim>\<open>operations.rs\<close>: the client itself.  Its state is the crypto party, the
  connections, its address, the peers it has sessions with, and what it holds against rollback.

  What the code cannot be read of, or is input and output, is the environment: the crypto provider
  behind its trait, the connections to the servers, the platform's secure store and the
  authenticator of the seal.  The randomness of the provider is part of the party; where a party is
  created it is a seed.  A device number is eight bits at the crypto layer and thirty-two at the relay.
\<close>

section \<open>The environment\<close>

datatype address = Address (adr_user: bytes) (adr_device: byte)

record crypto_operation =
  cop_result :: "bytes option"
  cop_peer :: "bytes option"
  cop_effect :: crypto_state_effect

record 'p crypto_provider =
  pv_generate :: "bytes \<Rightarrow> byte \<Rightarrow> bytes \<Rightarrow> 'p option"
  pv_from_identity :: "bytes \<Rightarrow> byte \<Rightarrow> bytes \<Rightarrow> 'p option"
  pv_export_identity :: "'p \<Rightarrow> bytes"
  pv_identity_key :: "'p \<Rightarrow> bytes"
  pv_sign_challenge :: "'p \<Rightarrow> bytes \<Rightarrow> bytes"
  pv_publish_bundle :: "'p \<Rightarrow> bytes option \<times> 'p"
  pv_publish_one_time_batch :: "'p \<Rightarrow> bytes list option \<times> 'p"
  pv_establish_session_for :: "address \<Rightarrow> bytes \<Rightarrow> bytes \<Rightarrow> 'p \<Rightarrow> unit option \<times> 'p"
  pv_encrypt :: "address \<Rightarrow> bytes \<Rightarrow> 'p \<Rightarrow> bytes option \<times> 'p"
  pv_decrypt :: "address \<Rightarrow> bytes \<Rightarrow> 'p \<Rightarrow> bytes option \<times> 'p"
  pv_encrypt_with_outcome :: "address \<Rightarrow> bytes \<Rightarrow> 'p \<Rightarrow> crypto_operation \<times> 'p"
  pv_decrypt_with_outcome :: "address \<Rightarrow> bytes \<Rightarrow> 'p \<Rightarrow> crypto_operation \<times> 'p"
  pv_export_sessions :: "address list \<Rightarrow> 'p \<Rightarrow> bytes option"
  pv_import_sessions :: "bytes \<Rightarrow> 'p \<Rightarrow> address list option \<times> 'p"
  pv_export_prekeys :: "'p \<Rightarrow> bytes option"
  pv_import_prekeys :: "bytes \<Rightarrow> 'p \<Rightarrow> unit option \<times> 'p"
  pv_clear_sessions :: "'p \<Rightarrow> 'p"

text \<open>The connections, with the functions a client signs challenges with.\<close>

record 'n network =
  nw_dial_directory :: "'n \<Rightarrow> (io_error + unit) \<times> 'n"
  nw_dial_relay :: "device_addr \<Rightarrow> (bytes \<Rightarrow> bytes) \<Rightarrow> 'n \<Rightarrow> (io_error + unit) \<times> 'n"
  nw_reconnect :: "device_addr \<Rightarrow> (bytes \<Rightarrow> bytes) \<Rightarrow> 'n \<Rightarrow> (io_error + unit) \<times> 'n"
  nw_relay_request :: "bytes \<Rightarrow> 'n \<Rightarrow> (io_error + bytes) \<times> 'n"
  nw_lookup :: "device_addr \<Rightarrow> 'n \<Rightarrow> (io_error + dir_response) \<times> 'n"
  nw_register :: "device_addr \<Rightarrow> bytes \<Rightarrow> bytes \<Rightarrow> (bytes \<Rightarrow> bytes) \<Rightarrow> 'n \<Rightarrow> (io_error + dir_response) \<times> 'n"
  nw_deposit_prekeys :: "device_addr \<Rightarrow> bytes \<Rightarrow> bytes list \<Rightarrow> (bytes \<Rightarrow> bytes) \<Rightarrow> 'n \<Rightarrow> (io_error + dir_response) \<times> 'n"
  nw_rotate :: "device_addr \<Rightarrow> bytes \<Rightarrow> bytes \<Rightarrow> (bytes \<Rightarrow> bytes) \<Rightarrow> (bytes \<Rightarrow> bytes) \<Rightarrow> 'n \<Rightarrow> (io_error + dir_response) \<times> 'n"
  nw_witness :: "device_addr \<Rightarrow> u64 \<Rightarrow> (bytes \<Rightarrow> bytes) \<Rightarrow> 'n \<Rightarrow> (io_error + dir_response) \<times> 'n"
  nw_sign_in :: "bytes \<Rightarrow> bytes \<Rightarrow> bytes \<Rightarrow> 'n \<Rightarrow> (io_error + account_response) \<times> 'n"
  nw_provision :: "bytes \<Rightarrow> u32 \<Rightarrow> bytes \<Rightarrow> bytes \<Rightarrow> (bytes \<Rightarrow> bytes) \<Rightarrow> 'n \<Rightarrow> (io_error + provision_outcome) \<times> 'n"

record ('p, 'n, 'k) client_env =
  env_crypto :: "'p crypto_provider"
  env_network :: "'n network"
  env_store :: "'k secure_store"
  env_hmac :: "bytes \<Rightarrow> bytes \<Rightarrow> bytes"

section \<open>The client\<close>

datatype restore_outcome = RestoreFresh | RestoreResumed | RestoreSessionsDiscarded

record ('p, 'n, 'k) client =
  cl_party :: 'p
  cl_net :: 'n
  cl_me :: device_addr
  cl_sessions :: "device_addr list"
  cl_session_provider :: session_provider
  cl_state_generation :: u64
  cl_secure_store :: "'k option"
  cl_restore :: restore_outcome
  cl_counter_seen :: u64

type_synonym ('p, 'n, 'k, 'a) client_step = "('p, 'n, 'k) client \<Rightarrow> 'a client_result \<times> ('p, 'n, 'k) client"

text \<open>Sequencing with early return: the second step runs only when the first succeeded.\<close>

definition cbind :: "('s \<Rightarrow> ('e + 'a) \<times> 's) \<Rightarrow> ('a \<Rightarrow> 's \<Rightarrow> ('e + 'b) \<times> 's) \<Rightarrow> 's \<Rightarrow> ('e + 'b) \<times> 's" where
  "cbind m f s = (case m s of (Inl e, s) \<Rightarrow> (Inl e, s) | (Inr x, s) \<Rightarrow> f x s)"

text \<open>A step on the connections, and one on the party whose failure is a crypto error.\<close>

definition on_net :: "('n \<Rightarrow> (io_error + 'a) \<times> 'n) \<Rightarrow> ('p, 'n, 'k, 'a) client_step" where
  "on_net f c = (case f (cl_net c) of (r, n) \<Rightarrow> (rmap_err ErrIo r, c\<lparr>cl_net := n\<rparr>))"

definition on_party :: "('p \<Rightarrow> 'a option \<times> 'p) \<Rightarrow> ('p, 'n, 'k, 'a) client_step" where
  "on_party f c = (case f (cl_party c) of (r, p) \<Rightarrow> (ok_or ErrCrypto r, c\<lparr>cl_party := p\<rparr>))"

definition MAX_MESSAGE_BYTES :: nat where "MAX_MESSAGE_BYTES = MAX_ENVELOPE_BYTES - 1024"

definition peer_address :: "device_addr \<Rightarrow> address client_result" where
  "peer_address addr =
     rbind (ok_or ErrInvalidArgument (u8_try_from (unat (dev_device addr)))) (\<lambda>device. Inr (Address (dev_user addr) device))"

definition device_addr_of :: "address \<Rightarrow> device_addr" where
  "device_addr_of peer = DeviceAddr (adr_user peer) (ucast (adr_device peer))"

subsection \<open>State\<close>

definition export_body_v3 :: "('p, 'n, 'k) client_env \<Rightarrow> ('p, 'n, 'k) client \<Rightarrow> bytes client_result" where
  "export_body_v3 env c =
     (let peers = sort_key device_addr_of (List.map_filter (\<lambda>addr. result_ok (peer_address addr)) (cl_sessions c))
      in rbind (ok_or ErrCrypto (pv_export_sessions (env_crypto env) peers (cl_party c))) (\<lambda>sessions.
           Inr (state_body_v3 (cl_session_provider c) (pv_export_identity (env_crypto env) (cl_party c)) sessions
                  (case pv_export_prekeys (env_crypto env) (cl_party c) of None \<Rightarrow> [] | Some prekeys \<Rightarrow> prekeys))))"

definition export_state :: "('p, 'n, 'k) client_env \<Rightarrow> ('p, 'n, 'k) client \<Rightarrow> bytes client_result" where
  "export_state env c = rbind (export_body_v3 env c) (\<lambda>body. Inr (state_v4 body (cl_state_generation c)))"

definition export_state_sealed :: "('p, 'n, 'k) client_env \<Rightarrow> ('p, 'n, 'k) client \<Rightarrow> bytes client_result" where
  "export_state_sealed env c =
     rbind (ok_or ErrSecureStore (cl_secure_store c)) (\<lambda>store.
     rbind (rmap_err store_err (ks_wrap_key (env_store env) store)) (\<lambda>key.
     rbind (rmap_err store_err (ks_rollback_counter (env_store env) store)) (\<lambda>counter.
     rbind (export_body_v3 env c) (\<lambda>body.
       Inr (sealed_state (env_hmac env) key counter (cl_me c) (cl_state_generation c) body)))))"

definition restore_prekeys_into :: "('p, 'n, 'k) client_env \<Rightarrow> split \<Rightarrow> 'p \<Rightarrow> unit client_result \<times> 'p" where
  "restore_prekeys_into env sp party =
     (if split_provider sp \<noteq> OpenTacenta then (Inr (), party)
      else case split_prekeys sp of
        Some prekeys \<Rightarrow>
          if prekeys = [] then (Inr (), party)
          else (case pv_import_prekeys (env_crypto env) prekeys party of (r, party) \<Rightarrow> (ok_or ErrCrypto r, party))
      | None \<Rightarrow> (Inr (), party))"

text \<open>\<open>HashSet::insert\<close>, and the loop that inserts every restored peer.\<close>

definition add_session :: "device_addr \<Rightarrow> device_addr list \<Rightarrow> device_addr list" where
  "add_session addr xs = (if addr \<in> set xs then xs else xs @ [addr])"

definition restore_sessions :: "('p, 'n, 'k) client_env \<Rightarrow> session_provider \<Rightarrow> bytes \<Rightarrow> ('p, 'n, 'k, unit) client_step" where
  "restore_sessions env provider sessions c =
     (if provider \<noteq> OpenTacenta then (Inr (), c)
      else cbind (on_party (pv_import_sessions (env_crypto env) sessions)) (\<lambda>restored c.
             (Inr (), c\<lparr>cl_sessions := fold (\<lambda>peer. add_session (device_addr_of peer)) restored (cl_sessions c)\<rparr>)) c)"

definition state_has_this_identity :: "('p, 'n, 'k) client_env \<Rightarrow> bytes \<Rightarrow> ('p, 'n, 'k) client \<Rightarrow> bool" where
  "state_has_this_identity env state c =
     (case split_state state of
        Inl _ \<Rightarrow> False
      | Inr sp \<Rightarrow> split_identity sp = pv_export_identity (env_crypto env) (cl_party c))"

definition restore_state_in_place :: "('p, 'n, 'k) client_env \<Rightarrow> bytes \<Rightarrow> ('p, 'n, 'k, unit) client_step" where
  "restore_state_in_place env state c =
     (case split_state state of
        Inl e \<Rightarrow> (Inl e, c)
      | Inr sp \<Rightarrow>
          (case u8_try_from (unat (dev_device (cl_me c))) of
             None \<Rightarrow> (Inl ErrProtocol, c)
           | Some device \<Rightarrow>
               (case pv_from_identity (env_crypto env) (dev_user (cl_me c)) device (split_identity sp) of
                  None \<Rightarrow> (Inl ErrCrypto, c)
                | Some party \<Rightarrow>
                    (case restore_prekeys_into env sp party of
                       (Inl e, _) \<Rightarrow> (Inl e, c)
                     | (Inr _, party) \<Rightarrow>
                         cbind (restore_sessions env (split_provider sp) (split_sessions sp))
                           (\<lambda>_ c. (Inr (), c\<lparr>cl_state_generation := split_generation sp\<rparr>))
                           (c\<lparr>cl_party := party, cl_sessions := [], cl_session_provider := OpenTacenta\<rparr>)))))"

subsection \<open>Rollback protection\<close>

definition attach_secure_store :: "('p, 'n, 'k) client_env \<Rightarrow> 'k \<Rightarrow> ('p, 'n, 'k, unit) client_step" where
  "attach_secure_store env store c =
     (if cl_secure_store c \<noteq> None then (Inl ErrInvalidArgument, c)
      else case ks_rollback_counter (env_store env) store of
        Inl e \<Rightarrow> (Inl (store_err e), c)
      | Inr seen \<Rightarrow> (Inr (), c\<lparr>cl_counter_seen := seen, cl_secure_store := Some store\<rparr>))"

definition commit_ratchet_advance :: "('p, 'n, 'k) client_env \<Rightarrow> ('p, 'n, 'k, unit) client_step" where
  "commit_ratchet_advance env c =
     (case cl_secure_store c of
        None \<Rightarrow> (Inr (), c)
      | Some store \<Rightarrow>
          (case ks_bump (env_store env) store of
             (Inl e, store) \<Rightarrow> (Inl (store_err e), c\<lparr>cl_secure_store := Some store\<rparr>)
           | (Inr advanced, store) \<Rightarrow>
               let c = c\<lparr>cl_secure_store := Some store\<rparr>
               in if advanced \<le> cl_counter_seen c then (Inl ErrSecureStore, c)
                  else (Inr (), c\<lparr>cl_counter_seen := advanced\<rparr>)))"

definition discard_sessions :: "('p, 'n, 'k) client_env \<Rightarrow> ('p, 'n, 'k) client \<Rightarrow> ('p, 'n, 'k) client" where
  "discard_sessions env c =
     c\<lparr>cl_party := pv_clear_sessions (env_crypto env) (cl_party c), cl_sessions := [], cl_restore := RestoreSessionsDiscarded\<rparr>"

definition client_checkpoint :: "('p, 'n, 'k) client_env \<Rightarrow> ('p, 'n, 'k, dir_response) client_step" where
  "client_checkpoint env c =
     cbind (on_net (nw_witness (env_network env) (cl_me c) (cl_state_generation c)
              (pv_sign_challenge (env_crypto env) (cl_party c)))) (\<lambda>response c.
       (Inr response, if response = DResp_RolledBack then discard_sessions env c else c)) c"

subsection \<open>Connecting\<close>

text \<open>A client as the constructors build it, before anything is restored into it.\<close>

definition new_client :: "'p \<Rightarrow> 'n \<Rightarrow> device_addr \<Rightarrow> ('p, 'n, 'k) client" where
  "new_client party net me =
     \<lparr>cl_party = party, cl_net = net, cl_me = me, cl_sessions = [], cl_session_provider = OpenTacenta,
      cl_state_generation = 0, cl_secure_store = None, cl_restore = RestoreFresh, cl_counter_seen = 0\<rparr>"

text \<open>\<open>deposit_prekeys\<close>: best effort, so it returns nothing.\<close>

definition client_deposit_prekeys :: "('p, 'n, 'k) client_env \<Rightarrow> ('p, 'n, 'k) client \<Rightarrow> ('p, 'n, 'k) client" where
  "client_deposit_prekeys env c =
     (case pv_publish_one_time_batch (env_crypto env) (cl_party c) of
        (None, party) \<Rightarrow> c\<lparr>cl_party := party\<rparr>
      | (Some batch, party) \<Rightarrow>
          if batch = [] then c\<lparr>cl_party := party\<rparr>
          else snd (on_net (nw_deposit_prekeys (env_network env) (cl_me c) (pv_identity_key (env_crypto env) party) batch
                      (pv_sign_challenge (env_crypto env) party)) (c\<lparr>cl_party := party\<rparr>)))"

definition sign_with :: "('p, 'n, 'k) client_env \<Rightarrow> ('p, 'n, 'k) client \<Rightarrow> bytes \<Rightarrow> bytes" where
  "sign_with env c = pv_sign_challenge (env_crypto env) (cl_party c)"

text \<open>
  \<open>connect_with_party\<close>: the client under construction holds the party and the connections; a step that
  fails leaves no client.
\<close>

definition connect_with_party ::
  "('p, 'n, 'k) client_env \<Rightarrow> bytes \<Rightarrow> byte \<Rightarrow> 'p \<Rightarrow> 'n \<Rightarrow> ('p, 'n, 'k) client client_result \<times> 'n" where
  "connect_with_party env user device party net =
     (case cbind (on_party (pv_publish_bundle (env_crypto env))) (\<lambda>bundle.
           cbind (on_net (nw_dial_directory (env_network env))) (\<lambda>_.
           cbind (\<lambda>c. on_net (nw_register (env_network env) (cl_me c) (pv_identity_key (env_crypto env) (cl_party c)) bundle
                     (sign_with env c)) c) (\<lambda>outcome c.
             if outcome \<noteq> DResp_Registered \<and> outcome \<noteq> DResp_Refreshed then (Inl (ErrDirectory outcome), c)
             else
               let c = client_deposit_prekeys env c
               in on_net (nw_dial_relay (env_network env) (cl_me c) (sign_with env c)) c)))
           (new_client party net (DeviceAddr user (ucast device))) of
        (r, c) \<Rightarrow> (rbind r (\<lambda>_. Inr c), cl_net c))"

definition sign_in_with_party ::
  "('p, 'n, 'k) client_env \<Rightarrow> bytes \<Rightarrow> bytes \<Rightarrow> bytes \<Rightarrow> byte \<Rightarrow> 'p \<Rightarrow> 'n \<Rightarrow> ('p, 'n, 'k) client client_result \<times> 'n" where
  "sign_in_with_party env api_key identifier password device party net =
     (case cbind (on_net (nw_sign_in (env_network env) api_key identifier password)) (\<lambda>answer.
           cbind (\<lambda>c. (case answer of
                         SignedIn _ token \<Rightarrow> Inr token
                       | TenantCreated _ _ \<Rightarrow> Inl ErrProtocol
                       | UserCreated _ \<Rightarrow> Inl ErrProtocol
                       | other \<Rightarrow> Inl (ErrAccount other), c)) (\<lambda>token.
           cbind (on_party (pv_publish_bundle (env_crypto env))) (\<lambda>bundle.
           cbind (\<lambda>c. on_net (nw_provision (env_network env) token (ucast device)
                     (pv_identity_key (env_crypto env) (cl_party c)) bundle (sign_with env c)) c) (\<lambda>outcome.
           cbind (\<lambda>c. case outcome of
                        Provisioned user \<Rightarrow> (Inr (), c\<lparr>cl_me := DeviceAddr user (ucast device)\<rparr>)
                      | other \<Rightarrow> (Inl (ErrProvision other), c)) (\<lambda>_.
           cbind (on_net (nw_dial_directory (env_network env))) (\<lambda>_ c.
             on_net (nw_dial_relay (env_network env) (cl_me c) (sign_with env c)) c))))))
           (new_client party net (DeviceAddr [] (ucast device))) of
        (r, c) \<Rightarrow> (rbind r (\<lambda>_. Inr c), cl_net c))"

text \<open>
  A restore from a state: the party is rebuilt and given its prekeys before it publishes, the client is
  made by \<open>build\<close>, and the sessions are imported into it.
\<close>

definition restore_into ::
  "('p, 'n, 'k) client_env \<Rightarrow> bytes \<Rightarrow> byte \<Rightarrow> ('p \<Rightarrow> 'n \<Rightarrow> ('p, 'n, 'k) client client_result \<times> 'n)
     \<Rightarrow> (('p, 'n, 'k) client \<Rightarrow> unit client_result) \<Rightarrow> split \<Rightarrow> u64 \<Rightarrow> 'n \<Rightarrow> ('p, 'n, 'k) client client_result \<times> 'n" where
  "restore_into env user device build admit sp generation net =
     (case pv_from_identity (env_crypto env) user device (split_identity sp) of
        None \<Rightarrow> (Inl ErrCrypto, net)
      | Some party \<Rightarrow>
          (case restore_prekeys_into env sp party of
             (Inl e, _) \<Rightarrow> (Inl e, net)
           | (Inr _, party) \<Rightarrow>
               (case build party net of
                  (Inl e, net) \<Rightarrow> (Inl e, net)
                | (Inr c, net) \<Rightarrow>
                    (case cbind (\<lambda>c. (admit c, c)) (\<lambda>_.
                          cbind (restore_sessions env (split_provider sp) (split_sessions sp)) (\<lambda>_ c.
                            (Inr (), c\<lparr>cl_restore := RestoreResumed, cl_state_generation := generation\<rparr>))) c of
                       (r, c) \<Rightarrow> (rbind r (\<lambda>_. Inr c), cl_net c)))))"

definition connect_with_state ::
  "('p, 'n, 'k) client_env \<Rightarrow> bytes \<Rightarrow> byte \<Rightarrow> bytes \<Rightarrow> 'n \<Rightarrow> ('p, 'n, 'k) client client_result \<times> 'n" where
  "connect_with_state env user device state net =
     (case split_state state of
        Inl e \<Rightarrow> (Inl e, net)
      | Inr sp \<Rightarrow> restore_into env user device (connect_with_party env user device) (\<lambda>_. Inr ()) sp (split_generation sp) net)"

definition sign_in_with_state ::
  "('p, 'n, 'k) client_env \<Rightarrow> bytes \<Rightarrow> bytes \<Rightarrow> bytes \<Rightarrow> byte \<Rightarrow> bytes \<Rightarrow> 'n \<Rightarrow> ('p, 'n, 'k) client client_result \<times> 'n" where
  "sign_in_with_state env api_key identifier password device state net =
     (case split_state state of
        Inl e \<Rightarrow> (Inl e, net)
      | Inr sp \<Rightarrow>
          restore_into env identifier device (sign_in_with_party env api_key identifier password device) (\<lambda>_. Inr ()) sp
            (split_generation sp) net)"

text \<open>How both sealed restores end: the store is attached, a stale state loses its sessions, the directory is asked.\<close>

definition finish_sealed ::
  "('p, 'n, 'k) client_env \<Rightarrow> 'k \<Rightarrow> bool \<Rightarrow> ('p, 'n, 'k) client client_result \<times> 'n \<Rightarrow> ('p, 'n, 'k) client client_result \<times> 'n" where
  "finish_sealed env store stale result =
     (case result of
        (Inl e, net) \<Rightarrow> (Inl e, net)
      | (Inr c, _) \<Rightarrow>
          (case attach_secure_store env store c of
             (Inl e, c) \<Rightarrow> (Inl e, cl_net c)
           | (Inr _, c) \<Rightarrow>
               let c = (if stale then discard_sessions env c else c);
                   c = snd (client_checkpoint env c)
               in (Inr c, cl_net c)))"

definition connect_with_state_sealed ::
  "('p, 'n, 'k) client_env \<Rightarrow> bytes \<Rightarrow> byte \<Rightarrow> bytes \<Rightarrow> 'k \<Rightarrow> 'n \<Rightarrow> ('p, 'n, 'k) client client_result \<times> 'n" where
  "connect_with_state_sealed env user device state store net =
     (case rbind (open_sealed (env_hmac env) (env_store env) store state) (\<lambda>opn.
           rbind (expect_address opn (DeviceAddr user (ucast device))) (\<lambda>_.
           rbind (split_state (opn_body opn)) (\<lambda>sp. Inr (opn, sp)))) of
        Inl e \<Rightarrow> (Inl e, net)
      | Inr (opn, sp) \<Rightarrow>
          finish_sealed env store (opn_stale opn)
            (restore_into env user device (connect_with_party env user device) (\<lambda>_. Inr ()) sp (opn_generation opn) net))"

definition sign_in_with_state_sealed ::
  "('p, 'n, 'k) client_env \<Rightarrow> bytes \<Rightarrow> bytes \<Rightarrow> bytes \<Rightarrow> byte \<Rightarrow> bytes \<Rightarrow> 'k \<Rightarrow> 'n \<Rightarrow> ('p, 'n, 'k) client client_result \<times> 'n" where
  "sign_in_with_state_sealed env api_key identifier password device state store net =
     (case rbind (open_sealed (env_hmac env) (env_store env) store state) (\<lambda>opn.
           rbind (expect_user opn identifier (ucast device)) (\<lambda>_.
           rbind (split_state (opn_body opn)) (\<lambda>sp. Inr (opn, sp)))) of
        Inl e \<Rightarrow> (Inl e, net)
      | Inr (opn, sp) \<Rightarrow>
          finish_sealed env store (opn_stale opn)
            (restore_into env identifier device (sign_in_with_party env api_key identifier password device)
               (\<lambda>c. expect_address opn (cl_me c)) sp (opn_generation opn) net))"

subsection \<open>Reconnecting\<close>

definition client_reconnect :: "('p, 'n, 'k) client_env \<Rightarrow> ('p, 'n, 'k, unit) client_step" where
  "client_reconnect env c = on_net (nw_reconnect (env_network env) (cl_me c) (sign_with env c)) c"

text \<open>The loop of at most \<open>n\<close> further attempts, stopping at the first that succeeds.\<close>

fun reconnect_again ::
  "('p, 'n, 'k) client_env \<Rightarrow> nat \<Rightarrow> unit client_result \<times> ('p, 'n, 'k) client \<Rightarrow> unit client_result \<times> ('p, 'n, 'k) client" where
  "reconnect_again env 0 outcome = outcome"
| "reconnect_again env (Suc n) outcome =
     (case outcome of
        (Inr _, _) \<Rightarrow> outcome
      | (Inl _, c) \<Rightarrow> reconnect_again env n (client_reconnect env c))"

definition reconnect_with_patience :: "('p, 'n, 'k) client_env \<Rightarrow> ('p, 'n, 'k, unit) client_step" where
  "reconnect_with_patience env c = reconnect_again env 4 (client_reconnect env c)"

text \<open>A step that is tried again once, after a reconnect, when the connection failed.\<close>

definition retry_io :: "('p, 'n, 'k) client_env \<Rightarrow> ('p, 'n, 'k, 'a) client_step \<Rightarrow> ('p, 'n, 'k, 'a) client_step" where
  "retry_io env f c =
     (case f c of
        (Inl (ErrIo _), c) \<Rightarrow> cbind (reconnect_with_patience env) (\<lambda>_. f) c
      | other \<Rightarrow> other)"

section \<open>Sending\<close>

definition fetch_bundle :: "('p, 'n, 'k) client_env \<Rightarrow> device_addr \<Rightarrow> ('p, 'n, 'k, bytes \<times> bytes) client_step" where
  "fetch_bundle env to =
     cbind (on_net (nw_lookup (env_network env) to)) (\<lambda>response c.
       (case response of
          DResp_Found ident bundle \<Rightarrow> Inr (ident, bundle)
        | _ \<Rightarrow> Inl (ErrRelay Refused_UnknownRecipient), c))"

text \<open>
  The session both kinds of preparation open on first contact; a group recipient has an expected
  identity, which the one the directory names must equal.
\<close>

definition open_session ::
  "('p, 'n, 'k) client_env \<Rightarrow> device_addr \<Rightarrow> address \<Rightarrow> bytes option \<Rightarrow> ('p, 'n, 'k, unit) client_step" where
  "open_session env to peer expected c =
     (if to \<in> set (cl_sessions c) then (Inr (), c)
      else
        cbind (retry_io env (fetch_bundle env to)) (\<lambda>(peer_identity, peer_bundle) c.
          if expected \<noteq> None \<and> expected \<noteq> Some peer_identity then (Inl ErrCrypto, c)
          else
            cbind (on_party (pv_establish_session_for (env_crypto env) peer peer_bundle peer_identity)) (\<lambda>_ c.
              (Inr (), c\<lparr>cl_sessions := add_session to (cl_sessions c), cl_state_generation := cl_state_generation c + 1\<rparr>)) c) c)"

definition prepare_send_as ::
  "('p, 'n, 'k) client_env \<Rightarrow> device_addr \<Rightarrow> bytes \<Rightarrow> kind \<Rightarrow> ('p, 'n, 'k, bytes) client_step" where
  "prepare_send_as env to message kd c =
     (if length message > MAX_MESSAGE_BYTES then (Inl ErrInvalidArgument, c)
      else
        cbind (\<lambda>c. (peer_address to, c)) (\<lambda>peer.
        cbind (open_session env to peer None) (\<lambda>_.
        cbind (on_party (pv_encrypt (env_crypto env) peer message)) (\<lambda>framed.
        cbind (commit_ratchet_advance env) (\<lambda>_ c.
          (ok_or ErrPanic (encode_request (Req_Send to \<lparr>env_kind = kd, env_payload = framed\<rparr>)), c))))) c)"

definition prepare_group_ciphertext ::
  "('p, 'n, 'k) client_env \<Rightarrow> device_addr \<Rightarrow> bytes \<Rightarrow> bytes \<Rightarrow> ('p, 'n, 'k, bytes \<times> bytes) client_step" where
  "prepare_group_ciphertext env to expected_identity plain c =
     (if length plain > MAX_MESSAGE_BYTES then (Inl ErrInvalidArgument, c)
      else
        cbind (\<lambda>c. (peer_address to, c)) (\<lambda>peer.
        cbind (open_session env to peer (Some expected_identity)) (\<lambda>_.
        cbind (\<lambda>c. case pv_encrypt_with_outcome (env_crypto env) peer plain (cl_party c) of
                     (operation, party) \<Rightarrow>
                       (if cop_peer operation \<noteq> Some expected_identity then Inl ErrCrypto
                        else ok_or ErrCrypto (cop_result operation), c\<lparr>cl_party := party\<rparr>)) (\<lambda>ciphertext.
        cbind (commit_ratchet_advance env) (\<lambda>_ c.
          (rbind (export_state env c) (\<lambda>provider_state. Inr (ciphertext, provider_state)), c))))) c)"

definition send_answer :: "response option \<Rightarrow> unit client_result" where
  "send_answer answer =
     (case answer of
        Some Resp_Ok \<Rightarrow> Inr ()
      | Some Resp_TooLarge \<Rightarrow> Inl (ErrRelay Refused_TooLarge)
      | Some Resp_QueueFull \<Rightarrow> Inl (ErrRelay Refused_QueueFull)
      | Some Resp_UnknownRecipient \<Rightarrow> Inl (ErrRelay Refused_UnknownRecipient)
      | _ \<Rightarrow> Inl ErrProtocol)"

definition dispatch_prepared_send :: "('p, 'n, 'k) client_env \<Rightarrow> bytes \<Rightarrow> ('p, 'n, 'k, unit) client_step" where
  "dispatch_prepared_send env prepared =
     cbind (retry_io env (on_net (nw_relay_request (env_network env) prepared))) (\<lambda>resp c.
       (send_answer (decode_response resp), c))"

definition dispatch_group_ciphertext ::
  "('p, 'n, 'k) client_env \<Rightarrow> device_addr \<Rightarrow> bytes \<Rightarrow> ('p, 'n, 'k, unit) client_step" where
  "dispatch_group_ciphertext env to ciphertext c =
     (if length ciphertext > MAX_MESSAGE_BYTES then (Inl ErrInvalidArgument, c)
      else
        cbind (\<lambda>c. (ok_or ErrPanic (encode_request (Req_Send to \<lparr>env_kind = Group, env_payload = ciphertext\<rparr>)), c))
          (dispatch_prepared_send env) c)"

definition client_send :: "('p, 'n, 'k) client_env \<Rightarrow> device_addr \<Rightarrow> bytes \<Rightarrow> ('p, 'n, 'k, unit) client_step" where
  "client_send env to message = cbind (prepare_send_as env to message Dm) (dispatch_prepared_send env)"

section \<open>Receiving\<close>

datatype message_kind = MessageDirect | MessageGroup | MessageReceipt

fun message_kind_of :: "kind \<Rightarrow> message_kind" where
  "message_kind_of Dm = MessageDirect"
| "message_kind_of Group = MessageGroup"
| "message_kind_of Receipt = MessageReceipt"

record received =
  rcv_from :: device_addr
  rcv_plaintext :: bytes
  rcv_kind :: message_kind

record staged_item =
  stg_from :: device_addr
  stg_peer :: address
  stg_kind :: message_kind
  stg_plaintext :: "bytes option"
  stg_identity :: "bytes option"
  stg_effect :: crypto_state_effect
  stg_provider_state :: bytes

definition fetch_staged :: "('p, 'n, 'k) client_env \<Rightarrow> ('p, 'n, 'k, u64 \<times> stored_message list) client_step" where
  "fetch_staged env c =
     cbind (\<lambda>c. (ok_or ErrPanic (encode_request (Req_Poll (cl_me c))), c)) (\<lambda>poll.
     cbind (on_net (nw_relay_request (env_network env) poll)) (\<lambda>resp c.
       (case decode_response resp of
          Some (Resp_Delivered from messages) \<Rightarrow> Inr (from, messages)
        | _ \<Rightarrow> Inl ErrProtocol, c))) c"

text \<open>A message that decrypted opens a session with its sender when there was none.\<close>

definition note_session :: "device_addr \<Rightarrow> ('p, 'n, 'k) client \<Rightarrow> ('p, 'n, 'k) client" where
  "note_session addr c =
     (if addr \<in> set (cl_sessions c) then c
      else c\<lparr>cl_sessions := add_session addr (cl_sessions c), cl_state_generation := cl_state_generation c + 1\<rparr>)"

definition open_staged :: "('p, 'n, 'k) client_env \<Rightarrow> stored_message \<Rightarrow> ('p, 'n, 'k, staged_item) client_step" where
  "open_staged env message c =
     (case peer_address (msg_from message) of
        Inl _ \<Rightarrow>
          (Inr \<lparr>stg_from = msg_from message, stg_peer = Address (dev_user (msg_from message)) 0,
                stg_kind = message_kind_of (env_kind (msg_envelope message)), stg_plaintext = None, stg_identity = None,
                stg_effect = Unchanged, stg_provider_state = []\<rparr>, c)
      | Inr peer \<Rightarrow>
          (case pv_decrypt_with_outcome (env_crypto env) peer (env_payload (msg_envelope message)) (cl_party c) of
             (outcome, party) \<Rightarrow>
               let c = c\<lparr>cl_party := party\<rparr>;
                   c = (if cop_result outcome \<noteq> None then note_session (msg_from message) c else c);
                   c = (if cop_result outcome \<noteq> None then snd (commit_ratchet_advance env c) else c)
               in (rbind (if cop_effect outcome = Unchanged then Inr [] else export_state env c) (\<lambda>provider_state.
                     Inr \<lparr>stg_from = msg_from message, stg_peer = peer,
                          stg_kind = message_kind_of (env_kind (msg_envelope message)), stg_plaintext = cop_result outcome,
                          stg_identity = cop_peer outcome, stg_effect = cop_effect outcome,
                          stg_provider_state = provider_state\<rparr>), c)))"

text \<open>\<open>PreparedAcknowledgement::for_fetched\<close>, then the request.\<close>

definition acknowledgement_for :: "device_addr \<Rightarrow> u64 \<Rightarrow> nat \<Rightarrow> request option" where
  "acknowledgement_for device first_sequence n =
     (if n = 0 then None
      else if n < 2 ^ 64 then map_option (Req_Ack device) (checked_add first_sequence (of_nat n)) else None)"

definition acknowledge_fetched :: "('p, 'n, 'k) client_env \<Rightarrow> u64 \<Rightarrow> nat \<Rightarrow> ('p, 'n, 'k, unit) client_step" where
  "acknowledge_fetched env from n c =
     (if n = 0 then (Inr (), c)
      else case acknowledgement_for (cl_me c) from n of
        None \<Rightarrow> (Inl ErrProtocol, c)
      | Some request \<Rightarrow>
          cbind (\<lambda>c. (ok_or ErrPanic (encode_request request), c)) (\<lambda>req.
          cbind (on_net (nw_relay_request (env_network env) req)) (\<lambda>resp c.
            (if decode_response resp = Some (Resp_Acked True) then Inr () else Inl ErrProtocol, c))) c)"

text \<open>The loop of \<open>poll_batch\<close>: what does not decrypt is skipped.\<close>

fun decrypt_batch :: "('p, 'n, 'k) client_env \<Rightarrow> stored_message list \<Rightarrow> ('p, 'n, 'k) client \<Rightarrow> received list \<times> ('p, 'n, 'k) client" where
  "decrypt_batch env [] c = ([], c)"
| "decrypt_batch env (message # messages) c =
     (case peer_address (msg_from message) of
        Inl _ \<Rightarrow> decrypt_batch env messages c
      | Inr peer \<Rightarrow>
          (case pv_decrypt (env_crypto env) peer (env_payload (msg_envelope message)) (cl_party c) of
             (None, party) \<Rightarrow> decrypt_batch env messages (c\<lparr>cl_party := party\<rparr>)
           | (Some plaintext, party) \<Rightarrow>
               (case decrypt_batch env messages (note_session (msg_from message) (c\<lparr>cl_party := party\<rparr>)) of
                  (received, c) \<Rightarrow>
                    (\<lparr>rcv_from = msg_from message, rcv_plaintext = plaintext,
                      rcv_kind = message_kind_of (env_kind (msg_envelope message))\<rparr> # received, c))))"

definition poll_batch :: "('p, 'n, 'k) client_env \<Rightarrow> ('p, 'n, 'k, received list) client_step" where
  "poll_batch env =
     cbind (fetch_staged env) (\<lambda>(from, messages) c.
       case decrypt_batch env messages c of
         (received, c) \<Rightarrow>
           let c = (if received = [] then c else snd (commit_ratchet_advance env c))
           in cbind (acknowledge_fetched env from (length messages)) (\<lambda>_ c. (Inr received, c)) c)"

definition client_drain :: "('p, 'n, 'k) client_env \<Rightarrow> ('p, 'n, 'k, received list) client_step" where
  "client_drain env = retry_io env (poll_batch env)"

section \<open>The other requests\<close>

definition client_rotate :: "('p, 'n, 'k) client_env \<Rightarrow> bytes \<Rightarrow> ('p, 'n, 'k, unit) client_step" where
  "client_rotate env seed c =
     (case u8_try_from (unat (dev_device (cl_me c))) of
        None \<Rightarrow> (Inl ErrProtocol, c)
      | Some device \<Rightarrow>
          (case pv_generate (env_crypto env) (dev_user (cl_me c)) device seed of
             None \<Rightarrow> (Inl ErrCrypto, c)
           | Some next \<Rightarrow>
               (case pv_publish_bundle (env_crypto env) next of
                  (None, _) \<Rightarrow> (Inl ErrCrypto, c)
                | (Some new_bundle, next) \<Rightarrow>
                    cbind (on_net (nw_rotate (env_network env) (cl_me c) (pv_identity_key (env_crypto env) next) new_bundle
                             (pv_sign_challenge (env_crypto env) next) (sign_with env c))) (\<lambda>outcome c.
                      if outcome \<noteq> DResp_Rotated then (Inl (ErrDirectory outcome), c)
                      else (Inr (), c\<lparr>cl_party := next, cl_sessions := []\<rparr>)) c)))"

definition delivered_watermark :: "('p, 'n, 'k) client_env \<Rightarrow> device_addr list \<Rightarrow> ('p, 'n, 'k, u64) client_step" where
  "delivered_watermark env addrs =
     cbind (\<lambda>c. (ok_or ErrPanic (encode_request (Req_Delivered addrs)), c)) (\<lambda>req.
     cbind (on_net (nw_relay_request (env_network env) req)) (\<lambda>resp c.
       (case decode_response resp of Some (Resp_DeliveredCount n) \<Rightarrow> Inr n | _ \<Rightarrow> Inl ErrProtocol, c)))"

text \<open>\<open>str::split_once\<close> of a single byte.\<close>

fun split_once :: "byte \<Rightarrow> bytes \<Rightarrow> (bytes \<times> bytes) option" where
  "split_once sep [] = None"
| "split_once sep (b # bs) = (if b = sep then Some ([], bs) else map_option (\<lambda>(front, rest). (b # front, rest)) (split_once sep bs))"

definition client_find :: "('p, 'n, 'k) client_env \<Rightarrow> bytes \<Rightarrow> ('p, 'n, 'k, device_addr option) client_step" where
  "client_find env username c =
     (case split_once 0x2f (dev_user (cl_me c)) of
        None \<Rightarrow> (Inl ErrInvalidArgument, c)
      | Some (tenant, _) \<Rightarrow>
          let addr = DeviceAddr (tenant @ [0x2f] @ username) 1
          in cbind (on_net (nw_lookup (env_network env) addr)) (\<lambda>response c.
               (case response of
                  DResp_Found _ _ \<Rightarrow> Inr (Some addr)
                | DResp_NotFound \<Rightarrow> Inr None
                | other \<Rightarrow> Inl (ErrDirectory other), c)) c)"

section \<open>Rollback\<close>

text \<open>
  The contract of the secure store: the key of the install never changes, a counter that can be read is
  the one committed, and an advance that succeeds commits and returns a larger one.
\<close>

definition secure_counter :: "'k secure_store \<Rightarrow> ('k \<Rightarrow> u64) \<Rightarrow> bytes \<Rightarrow> bool" where
  "secure_counter ks ctr key =
     ((\<forall>k b. ks_wrap_key ks k = Inr b \<longrightarrow> b = key)
      \<and> (\<forall>k n. ks_rollback_counter ks k = Inr n \<longrightarrow> n = ctr k)
      \<and> (\<forall>k k' n. ks_bump ks k = (Inr n, k') \<longrightarrow> n = ctr k' \<and> ctr k < ctr k')
      \<and> (\<forall>k k' e. ks_bump ks k = (Inl e, k') \<longrightarrow> ctr k \<le> ctr k'))"

text \<open>
  The order every step respects: the address stays, an attached store stays attached, and its counter
  never decreases.
\<close>

definition counter_le :: "('k \<Rightarrow> u64) \<Rightarrow> ('p, 'n, 'k) client \<Rightarrow> ('p, 'n, 'k) client \<Rightarrow> bool" where
  "counter_le ctr c c' =
     (cl_me c' = cl_me c
      \<and> (\<forall>k. cl_secure_store c = Some k \<longrightarrow> (\<exists>k'. cl_secure_store c' = Some k' \<and> ctr k \<le> ctr k')))"

definition keeps_counter :: "('k \<Rightarrow> u64) \<Rightarrow> ('p, 'n, 'k, 'a) client_step \<Rightarrow> bool" where
  "keeps_counter ctr m = (\<forall>c. counter_le ctr c (snd (m c)))"

lemma secure_counterD:
  assumes "secure_counter ks ctr key"
  shows secure_key: "ks_wrap_key ks k = Inr b \<Longrightarrow> b = key"
    and secure_read: "ks_rollback_counter ks k = Inr n \<Longrightarrow> n = ctr k"
    and secure_bump: "ks_bump ks k = (Inr n, k') \<Longrightarrow> n = ctr k' \<and> ctr k < ctr k'"
    and secure_bump_le: "ks_bump ks k = (r, k') \<Longrightarrow> ctr k \<le> ctr k'"
  using assms unfolding secure_counter_def by (blast, blast, blast, cases r) (metis order.strict_implies_order)+

lemma counter_le_refl: "counter_le ctr c c"
  by (simp add: counter_le_def)

lemma counter_le_trans: "counter_le ctr a b \<Longrightarrow> counter_le ctr b c \<Longrightarrow> counter_le ctr a c"
  unfolding counter_le_def by (metis order_trans)

lemma counter_le_same:
  "cl_me c' = cl_me c \<Longrightarrow> cl_secure_store c' = cl_secure_store c \<Longrightarrow> counter_le ctr c c'"
  by (simp add: counter_le_def)

lemma keeps_pure:
  "(\<And>c. cl_me (snd (m c)) = cl_me c \<and> cl_secure_store (snd (m c)) = cl_secure_store c) \<Longrightarrow> keeps_counter ctr m"
  by (simp add: keeps_counter_def counter_le_same)

lemma keeps_cbind:
  assumes "keeps_counter ctr m" and "\<And>x. keeps_counter ctr (f x)"
  shows "keeps_counter ctr (cbind m f)"
  unfolding keeps_counter_def
proof
  fix c
  show "counter_le ctr c (snd (cbind m f c))"
  proof (cases "m c")
    case (Pair r d)
    have "counter_le ctr c d"
      using assms(1) Pair unfolding keeps_counter_def by (metis snd_conv)
    moreover have "counter_le ctr d (snd (f x d))" for x
      using assms(2) unfolding keeps_counter_def by blast
    ultimately show ?thesis
      using Pair by (cases r) (auto simp: cbind_def intro: counter_le_trans)
  qed
qed

lemma keeps_on_net: "keeps_counter ctr (on_net f)"
  by (rule keeps_pure) (simp add: on_net_def split: prod.split)

lemma keeps_on_party: "keeps_counter ctr (on_party f)"
  by (rule keeps_pure) (simp add: on_party_def split: prod.split)

lemma keeps_advance:
  assumes "secure_counter (env_store env) ctr key"
  shows "keeps_counter ctr (commit_ratchet_advance env)"
  unfolding keeps_counter_def
proof
  fix c
  show "counter_le ctr c (snd (commit_ratchet_advance env c))"
  proof (cases "cl_secure_store c")
    case (Some k)
    obtain r k' where bump: "ks_bump (env_store env) k = (r, k')" by fastforce
    then have "ctr k \<le> ctr k'"
      by (rule secure_bump_le [OF assms])
    then show ?thesis
      using Some bump by (auto simp: commit_ratchet_advance_def counter_le_def Let_def split: sum.split)
  qed (simp add: commit_ratchet_advance_def counter_le_refl)
qed

lemma keeps_le: "keeps_counter ctr m \<Longrightarrow> counter_le ctr c (snd (m c))"
  by (simp add: keeps_counter_def)

lemma keeps_if: "keeps_counter ctr f \<Longrightarrow> keeps_counter ctr g \<Longrightarrow> keeps_counter ctr (\<lambda>c. if P c then f c else g c)"
  by (simp add: keeps_counter_def)

lemma keeps_reconnect: "keeps_counter ctr (client_reconnect env)"
  by (simp add: keeps_counter_def client_reconnect_def keeps_le [OF keeps_on_net])

lemma reconnect_again_le:
  "counter_le ctr c (snd outcome) \<Longrightarrow> counter_le ctr c (snd (reconnect_again env n outcome))"
proof (induction n arbitrary: outcome)
  case (Suc n)
  obtain r d where outcome: "outcome = (r, d)" by fastforce
  have "counter_le ctr d (snd (client_reconnect env d))"
    by (rule keeps_le [OF keeps_reconnect])
  then have "counter_le ctr c (snd (client_reconnect env d))"
    using Suc.prems outcome counter_le_trans by fastforce
  then show ?case
    using Suc outcome by (cases r) auto
qed simp

lemma keeps_patience: "keeps_counter ctr (reconnect_with_patience env)"
  unfolding keeps_counter_def reconnect_with_patience_def by (blast intro: reconnect_again_le keeps_le [OF keeps_reconnect])

lemma keeps_retry:
  assumes "keeps_counter ctr f"
  shows "keeps_counter ctr (retry_io env f)"
  unfolding keeps_counter_def
proof
  fix c
  obtain r d where fc: "f c = (r, d)" by fastforce
  then have le: "counter_le ctr c d"
    using assms unfolding keeps_counter_def by (metis snd_conv)
  have "keeps_counter ctr (cbind (reconnect_with_patience env) (\<lambda>_. f))"
    by (intro keeps_cbind keeps_patience assms)
  then have "counter_le ctr c (snd (cbind (reconnect_with_patience env) (\<lambda>_. f) d))"
    using le counter_le_trans unfolding keeps_counter_def by blast
  then show "counter_le ctr c (snd (retry_io env f c))"
    using fc le by (auto simp: retry_io_def split: sum.split client_error.split)
qed

lemmas keeps_rules = keeps_cbind keeps_on_net keeps_on_party keeps_patience keeps_retry

lemma cbind_Inr:
  "cbind m f s = (Inr y, t) \<longleftrightarrow> (\<exists>x u. m s = (Inr x, u) \<and> f x u = (Inr y, t))"
  by (auto simp: cbind_def split: prod.split sum.split)

lemma keeps_prod: "(\<And>a b. keeps_counter ctr (f a b)) \<Longrightarrow> keeps_counter ctr (case x of (a, b) \<Rightarrow> f a b)"
  by (cases x) simp

lemma keeps_fetch_bundle: "keeps_counter ctr (fetch_bundle env to)"
  unfolding fetch_bundle_def by (intro keeps_rules; intro keeps_pure; simp)

lemma keeps_open_session: "keeps_counter ctr (open_session env to peer expected)"
  unfolding open_session_def
  by (intro keeps_if keeps_rules keeps_fetch_bundle keeps_prod; intro keeps_pure; simp)

lemma keeps_prepare_send:
  assumes "secure_counter (env_store env) ctr key"
  shows "keeps_counter ctr (prepare_send_as env to message kd)"
  unfolding prepare_send_as_def
  by (intro keeps_if keeps_rules keeps_open_session keeps_advance [OF assms]; intro keeps_pure; simp)

lemma keeps_prepare_group:
  assumes "secure_counter (env_store env) ctr key"
  shows "keeps_counter ctr (prepare_group_ciphertext env to ident plain)"
  unfolding prepare_group_ciphertext_def
  by (intro keeps_if keeps_rules keeps_open_session keeps_advance [OF assms]; intro keeps_pure; simp split: prod.split)

lemma keeps_dispatch: "keeps_counter ctr (dispatch_prepared_send env request)"
  unfolding dispatch_prepared_send_def by (intro keeps_rules; intro keeps_pure; simp)

lemma keeps_fetch_staged: "keeps_counter ctr (fetch_staged env)"
  unfolding fetch_staged_def by (intro keeps_rules; intro keeps_pure; simp)

lemma keeps_acknowledge: "keeps_counter ctr (acknowledge_fetched env from n)"
proof -
  have "keeps_counter ctr (cbind (\<lambda>c. (ok_or ErrPanic (encode_request request), c)) (\<lambda>req.
      cbind (on_net (nw_relay_request (env_network env) req)) (\<lambda>resp c.
        (if decode_response resp = Some (Resp_Acked True) then Inr () else Inl ErrProtocol, c))))" for request
    by (intro keeps_rules; intro keeps_pure; simp)
  then show ?thesis
    by (auto simp: keeps_counter_def acknowledge_fetched_def counter_le_refl split: option.split)
qed

lemma keeps_note: "counter_le ctr c (note_session addr c)"
  by (rule counter_le_same) (simp_all add: note_session_def)

lemma keeps_open_staged:
  assumes "secure_counter (env_store env) ctr key"
  shows "keeps_counter ctr (open_staged env message)"
  unfolding keeps_counter_def
proof
  fix c
  have advance: "counter_le ctr c d \<Longrightarrow> counter_le ctr c (snd (commit_ratchet_advance env d))" for d
    by (rule counter_le_trans [OF _ keeps_le [OF keeps_advance [OF assms]]])
  have "counter_le ctr c (note_session addr (c\<lparr>cl_party := party\<rparr>))" for addr party
    by (rule counter_le_same) (simp_all add: note_session_def)
  moreover have "counter_le ctr c (c\<lparr>cl_party := party\<rparr>)" for party
    by (rule counter_le_same) simp_all
  ultimately show "counter_le ctr c (snd (open_staged env message c))"
    using advance by (auto simp: open_staged_def Let_def counter_le_refl split: sum.split prod.split)
qed

lemma decrypt_batch_le: "counter_le ctr d c \<Longrightarrow> counter_le ctr d (snd (decrypt_batch env messages c))"
proof (induction messages arbitrary: c)
  case (Cons message messages)
  have same: "counter_le ctr d (c\<lparr>cl_party := party\<rparr>)" "counter_le ctr d (note_session addr (c\<lparr>cl_party := party\<rparr>))" for party addr
    by (rule counter_le_trans [OF Cons.prems counter_le_same]; simp add: note_session_def)+
  show ?case
    using Cons.IH [OF Cons.prems] Cons.IH [OF same(1)] Cons.IH [OF same(2)]
    by (auto split: sum.split prod.split option.split) (metis snd_conv)+
qed simp

lemma keeps_poll:
  assumes "secure_counter (env_store env) ctr key"
  shows "keeps_counter ctr (poll_batch env)"
proof -
  have "keeps_counter ctr (\<lambda>c. case decrypt_batch env messages c of (received, c) \<Rightarrow>
      let c = (if received = [] then c else snd (commit_ratchet_advance env c))
      in cbind (acknowledge_fetched env start (length messages)) (\<lambda>_ c. (Inr received, c)) c)" for start messages
    unfolding keeps_counter_def
  proof
    fix c
    obtain rs d where batch: "decrypt_batch env messages c = (rs, d)" by fastforce
    then have "counter_le ctr c d"
      using decrypt_batch_le [OF counter_le_refl, of ctr c env messages] by simp
    then have "counter_le ctr c (if rs = [] then d else snd (commit_ratchet_advance env d))"
      using keeps_le [OF keeps_advance [OF assms], of d] by (auto intro: counter_le_trans)
    moreover have "keeps_counter ctr (cbind (acknowledge_fetched env start (length messages)) (\<lambda>_ c. (Inr rs, c)))"
      by (intro keeps_cbind keeps_acknowledge; intro keeps_pure; simp)
    ultimately show "counter_le ctr c (snd (case decrypt_batch env messages c of (received, c) \<Rightarrow>
      let c = (if received = [] then c else snd (commit_ratchet_advance env c))
      in cbind (acknowledge_fetched env start (length messages)) (\<lambda>_ c. (Inr received, c)) c))"
      using batch by (simp add: Let_def counter_le_trans [OF _ keeps_le])
  qed
  then show ?thesis
    unfolding poll_batch_def by (intro keeps_cbind keeps_fetch_staged keeps_prod)
qed

lemma keeps_checkpoint: "keeps_counter ctr (client_checkpoint env)"
proof -
  have "keeps_counter ctr (cbind (on_net f) (\<lambda>response c.
      (Inr response, if response = DResp_RolledBack then discard_sessions env c else c)))" for f
    by (intro keeps_rules; intro keeps_pure; simp add: discard_sessions_def)
  then show ?thesis
    by (simp add: keeps_counter_def client_checkpoint_def)
qed

lemma keeps_rotate:
  fixes env :: "('p, 'n, 'k) client_env" and ctr :: "'k \<Rightarrow> u64"
  shows "keeps_counter ctr (client_rotate env seed)"
proof -
  have "keeps_counter ctr (cbind (on_net f) (\<lambda>outcome c.
      if outcome \<noteq> DResp_Rotated then (Inl (ErrDirectory outcome), c)
      else (Inr (), c\<lparr>cl_party := party, cl_sessions := []\<rparr>)))" for f :: "'n \<Rightarrow> _" and party :: 'p
    by (intro keeps_rules; intro keeps_pure; simp)
  then show ?thesis
    by (auto simp: keeps_counter_def client_rotate_def counter_le_refl split: option.split prod.split)
qed

lemma keeps_restore_sessions: "keeps_counter ctr (restore_sessions env provider sessions)"
  unfolding restore_sessions_def by (intro keeps_if keeps_rules; intro keeps_pure; simp)

lemma keeps_restore_in_place: "keeps_counter ctr (restore_state_in_place env state)"
proof -
  have keeps: "keeps_counter ctr (cbind (restore_sessions env provider sessions) (\<lambda>_ c. (Inr (), c\<lparr>cl_state_generation := g\<rparr>)))"
    for provider sessions g
    by (intro keeps_cbind keeps_restore_sessions; intro keeps_pure; simp)
  have "counter_le ctr c (snd (cbind (restore_sessions env provider sessions) (\<lambda>_ c. (Inr (), c\<lparr>cl_state_generation := g\<rparr>))
      (c\<lparr>cl_party := party, cl_sessions := [], cl_session_provider := OpenTacenta\<rparr>)))" for c provider sessions g party
    by (rule counter_le_trans [OF counter_le_same keeps_le [OF keeps]]) simp_all
  then show ?thesis
    by (auto simp: keeps_counter_def restore_state_in_place_def counter_le_refl split: sum.split option.split prod.split)
qed

text \<open>What a client does between its constructor and its end; the answer tells whether it prepared a send.\<close>

datatype client_op =
    ClPrepareSend device_addr bytes kind
  | ClPrepareGroup device_addr bytes bytes
  | ClDispatch bytes
  | ClFetch
  | ClStage stored_message
  | ClAcknowledge u64 nat
  | ClDrain
  | ClCheckpoint
  | ClReconnect
  | ClRotate bytes
  | ClRestore bytes

fun client_op_step :: "('p, 'n, 'k) client_env \<Rightarrow> client_op \<Rightarrow> ('p, 'n, 'k) client \<Rightarrow> bool \<times> ('p, 'n, 'k) client" where
  "client_op_step env (ClPrepareSend to message kd) c = map_prod (\<lambda>r. \<not> isl r) id (prepare_send_as env to message kd c)"
| "client_op_step env (ClPrepareGroup to ident plain) c = map_prod (\<lambda>r. \<not> isl r) id (prepare_group_ciphertext env to ident plain c)"
| "client_op_step env (ClDispatch request) c = (False, snd (dispatch_prepared_send env request c))"
| "client_op_step env ClFetch c = (False, snd (fetch_staged env c))"
| "client_op_step env (ClStage message) c = (False, snd (open_staged env message c))"
| "client_op_step env (ClAcknowledge from n) c = (False, snd (acknowledge_fetched env from n c))"
| "client_op_step env ClDrain c = (False, snd (client_drain env c))"
| "client_op_step env ClCheckpoint c = (False, snd (client_checkpoint env c))"
| "client_op_step env ClReconnect c = (False, snd (reconnect_with_patience env c))"
| "client_op_step env (ClRotate seed) c = (False, snd (client_rotate env seed c))"
| "client_op_step env (ClRestore state) c = (False, snd (restore_state_in_place env state c))"

lemma client_op_le:
  assumes "secure_counter (env_store env) ctr key"
  shows "counter_le ctr c (snd (client_op_step env op c))"
  using keeps_le [OF keeps_prepare_send [OF assms]] keeps_le [OF keeps_prepare_group [OF assms]] keeps_le [OF keeps_dispatch]
    keeps_le [OF keeps_fetch_staged] keeps_le [OF keeps_open_staged [OF assms]] keeps_le [OF keeps_acknowledge]
    keeps_le [OF keeps_retry [OF keeps_poll [OF assms]]] keeps_le [OF keeps_checkpoint] keeps_le [OF keeps_patience]
    keeps_le [OF keeps_rotate] keeps_le [OF keeps_restore_in_place]
  by (cases op) (simp_all add: client_drain_def)

text \<open>A prepared send committed a larger counter.\<close>

lemma advance_less:
  assumes "secure_counter (env_store env) ctr key" and "commit_ratchet_advance env c = (Inr u, c')" and "cl_secure_store c = Some k"
  shows "\<exists>k'. cl_secure_store c' = Some k' \<and> ctr k < ctr k'"
proof -
  obtain n k' where "ks_bump (env_store env) k = (Inr n, k')" "cl_secure_store c' = Some k'"
    using assms(2,3) by (auto simp: commit_ratchet_advance_def Let_def split: prod.splits sum.splits if_splits)
  then show ?thesis using secure_bump [OF assms(1)] by blast
qed

definition counter_less :: "('k \<Rightarrow> u64) \<Rightarrow> ('p, 'n, 'k) client \<Rightarrow> ('p, 'n, 'k) client \<Rightarrow> bool" where
  "counter_less ctr c c' =
     (cl_me c' = cl_me c
      \<and> (\<forall>k. cl_secure_store c = Some k \<longrightarrow> (\<exists>k'. cl_secure_store c' = Some k' \<and> ctr k < ctr k')))"

lemma le_advance_le:
  assumes "secure_counter (env_store env) ctr key" and "counter_le ctr c d" and "commit_ratchet_advance env d = (Inr u, e)"
    and "counter_le ctr e c'"
  shows "counter_less ctr c c'"
proof -
  have "cl_me e = cl_me d"
    using keeps_le [OF keeps_advance [OF assms(1)], of d] assms(3) by (simp add: counter_le_def)
  moreover have "\<exists>k'. cl_secure_store c' = Some k' \<and> ctr k < ctr k'" if store: "cl_secure_store c = Some k" for k
  proof -
    obtain l where l: "cl_secure_store d = Some l" "ctr k \<le> ctr l"
      using assms(2) store by (auto simp: counter_le_def)
    obtain l' where l': "cl_secure_store e = Some l'" "ctr l < ctr l'"
      using advance_less [OF assms(1,3) l(1)] by blast
    obtain k' where "cl_secure_store c' = Some k'" "ctr l' \<le> ctr k'"
      using assms(4) l'(1) by (auto simp: counter_le_def)
    then show ?thesis using l(2) l'(2) by (intro exI [of _ k']) simp
  qed
  ultimately show ?thesis
    using assms(2,4) by (simp add: counter_less_def counter_le_def)
qed

lemma prepare_send_less:
  assumes "secure_counter (env_store env) ctr key" and "prepare_send_as env to message kd c = (Inr x, c')"
  shows "counter_less ctr c c'"
proof -
  obtain peer u d1 framed d2 v where steps: "open_session env to peer None c = (Inr u, d1)"
      "on_party (pv_encrypt (env_crypto env) peer message) d1 = (Inr framed, d2)"
      "commit_ratchet_advance env d2 = (Inr v, c')"
    using assms(2) by (auto simp: prepare_send_as_def cbind_Inr split: if_splits)
  have "counter_le ctr c d2"
    using keeps_le [OF keeps_open_session, of ctr c env to peer None] steps(1)
      keeps_le [OF keeps_on_party, of ctr d1 "pv_encrypt (env_crypto env) peer message"] steps(2)
    by (auto intro: counter_le_trans)
  then show ?thesis
    by (rule le_advance_le [OF assms(1) _ steps(3) counter_le_refl])
qed

lemma prepare_group_less:
  assumes "secure_counter (env_store env) ctr key" and "prepare_group_ciphertext env to ident plain c = (Inr x, c')"
  shows "counter_less ctr c c'"
proof -
  obtain peer u d1 party v where steps: "open_session env to peer (Some ident) c = (Inr u, d1)"
      "commit_ratchet_advance env (d1\<lparr>cl_party := party\<rparr>) = (Inr v, c')"
    using assms(2) by (auto simp: prepare_group_ciphertext_def cbind_Inr case_prod_beta split: if_splits)
  have "counter_le ctr c (d1\<lparr>cl_party := party\<rparr>)"
    using keeps_le [OF keeps_open_session, of ctr c env to peer "Some ident"] steps(1)
    by (simp add: counter_le_trans [OF _ counter_le_same])
  then show ?thesis
    by (rule le_advance_le [OF assms(1) _ steps(2) counter_le_refl])
qed

lemma answered_Inr: "map_prod (\<lambda>r. \<not> isl r) id p = (True, c) \<longleftrightarrow> (\<exists>x. p = (Inr x, c))"
  by (cases p; cases "fst p") auto

lemma client_op_less:
  assumes "secure_counter (env_store env) ctr key" and "client_op_step env op c = (True, c')"
  shows "counter_less ctr c c'"
  using assms(2) prepare_send_less [OF assms(1)] prepare_group_less [OF assms(1)]
  by (cases op) (auto simp: answered_Inr)

lemma less_le_counter: "counter_less ctr c d \<Longrightarrow> counter_le ctr d e \<Longrightarrow> counter_less ctr c e"
  unfolding counter_less_def counter_le_def by (metis order.strict_trans2)

lemma le_less_counter: "counter_le ctr c d \<Longrightarrow> counter_less ctr d e \<Longrightarrow> counter_less ctr c e"
  unfolding counter_less_def counter_le_def by (metis order.strict_trans1)

lemma run_counter_le:
  assumes "secure_counter (env_store env) ctr key"
  shows "counter_le ctr c (final (client_op_step env) ops c)"
  by (induction ops arbitrary: c)
     (auto simp: counter_le_refl intro: counter_le_trans client_op_le [OF assms])

lemma run_counter_less:
  assumes "secure_counter (env_store env) ctr key" and "True \<in> set (answers (client_op_step env) ops c)"
  shows "counter_less ctr c (final (client_op_step env) ops c)"
  using assms(2)
proof (induction ops arbitrary: c)
  case (Cons op ops)
  show ?case
  proof (cases "fst (client_op_step env op c)")
    case True
    then have "counter_less ctr c (snd (client_op_step env op c))"
      by (intro client_op_less [OF assms(1)]) (simp add: prod_eq_iff)
    then show ?thesis
      by (simp add: less_le_counter [OF _ run_counter_le [OF assms(1)]])
  next
    case False
    then have "counter_less ctr (snd (client_op_step env op c)) (final (client_op_step env) ops (snd (client_op_step env op c)))"
      using Cons by simp
    then show ?thesis
      by (simp add: le_less_counter [OF client_op_le [OF assms(1)]])
  qed
qed simp

lemma finish_sealed_stale:
  assumes "finish_sealed env store True result = (Inr r, net)"
  shows "cl_sessions r = [] \<and> cl_restore r = RestoreSessionsDiscarded \<and> (\<exists>p. cl_party r = pv_clear_sessions (env_crypto env) p)"
proof -
  have "cl_sessions (snd (client_checkpoint env (discard_sessions env c))) = []
      \<and> cl_restore (snd (client_checkpoint env (discard_sessions env c))) = RestoreSessionsDiscarded
      \<and> (\<exists>p. cl_party (snd (client_checkpoint env (discard_sessions env c))) = pv_clear_sessions (env_crypto env) p)" for c
    by (auto simp: client_checkpoint_def discard_sessions_def cbind_def on_net_def split: prod.split sum.split)
  then show ?thesis
    using assms by (auto simp: finish_sealed_def Let_def split: prod.splits sum.splits)
qed

lemma export_sealed_opens:
  assumes "secure_counter (env_store env) ctr key" and "hmac_sized (env_hmac env)" and "contact_typed (cl_me c)"
    and "export_state_sealed env c = Inr blob" and "cl_secure_store c = Some k"
    and "open_sealed (env_hmac env) (env_store env) store blob = Inr opn"
  shows "opn_bound opn = Some (cl_me c) \<and> opn_stale opn = (ctr k < ctr store)"
proof -
  obtain wrap body where wrap: "ks_wrap_key (env_store env) k = Inr wrap"
    and blob: "blob = sealed_state (env_hmac env) wrap (ctr k) (cl_me c) (cl_state_generation c) body"
    using assms(4,5) secure_read [OF assms(1)] by (auto simp: export_state_sealed_def rbind_eq_Inr)
  obtain wrap' highest where keys: "ks_wrap_key (env_store env) store = Inr wrap'" "ks_rollback_counter (env_store env) store = Inr highest"
    using assms(6) blob
    by (auto simp: open_sealed_def sealed_state_def rbind_eq_Inr STATE_TAGGED_def STATE_VERSION_5_def STATE_VERSION_6_def Let_def
        split: if_splits list.splits)
  have same: "wrap' = wrap" "highest = ctr store"
    using secure_key [OF assms(1)] secure_read [OF assms(1)] wrap keys by blast+
  let ?opn = "\<lparr>opn_body = body, opn_generation = cl_state_generation c, opn_stale = (ctr k < ctr store), opn_bound = Some (cl_me c)\<rparr>"
  have "open_sealed (env_hmac env) (env_store env) store blob = Inr ?opn \<and> opn_bound ?opn = Some (cl_me c)"
    unfolding open_sealed_parts [OF assms(2) keys] using assms(3) blob same by auto
  then show ?thesis
    using assms(6) by auto
qed

lemma finish_sealed_me:
  assumes "finish_sealed env store stale result = (Inr r, net)"
  shows "\<exists>d n. result = (Inr d, n) \<and> cl_me r = cl_me d"
proof -
  have "cl_me (snd (client_checkpoint env d)) = cl_me d" for d
    using keeps_le [OF keeps_checkpoint, of undefined d env] by (simp add: counter_le_def)
  moreover have "cl_me (discard_sessions env d) = cl_me d" for d
    by (simp add: discard_sessions_def)
  ultimately show ?thesis
    using assms by (auto simp: finish_sealed_def attach_secure_store_def Let_def split: prod.splits sum.splits if_splits)
qed

lemma restore_into_built:
  assumes "restore_into env user device build admit sp generation net = (Inr d, n)"
  shows "\<exists>party b n'. build party net = (Inr b, n') \<and> admit b = Inr () \<and> cl_me d = cl_me b"
proof -
  have "cl_me e = cl_me b" if "restore_sessions env provider sessions b = (Inr u, e)" for provider sessions b u e
    using keeps_le [OF keeps_restore_sessions, of undefined b env provider sessions] that by (simp add: counter_le_def)
  then show ?thesis
    using assms by (fastforce simp: restore_into_def cbind_def rbind_eq_Inr split: option.splits prod.splits sum.splits)
qed

lemma connect_with_party_me:
  assumes "connect_with_party env user device party net = (Inr b, n)"
  shows "cl_me b = DeviceAddr user (ucast device)"
proof -
  have net: "cl_me e = cl_me d" if "on_net f d = (r, e)" for f d r e
    using that by (auto simp: on_net_def split: prod.splits)
  have "cl_me (client_deposit_prekeys env d) = cl_me d" for d
    by (auto simp: client_deposit_prekeys_def on_net_def split: option.split prod.split)
  then show ?thesis
    using assms
    by (auto simp: connect_with_party_def rbind_eq_Inr cbind_Inr on_party_def new_client_def Let_def dest!: net
        split: prod.splits if_splits)
qed

lemma sealed_restore_opened:
  assumes "connect_with_state_sealed env user device blob store net = (Inr r, net')
           \<or> sign_in_with_state_sealed env api_key user password device blob store net = (Inr r, net')"
  shows "\<exists>opn result. open_sealed (env_hmac env) (env_store env) store blob = Inr opn
           \<and> finish_sealed env store (opn_stale opn) result = (Inr r, net') \<and> expect_address opn (cl_me r) = Inr ()"
  using assms
proof
  assume "connect_with_state_sealed env user device blob store net = (Inr r, net')"
  then obtain opn sp where opn: "open_sealed (env_hmac env) (env_store env) store blob = Inr opn"
      "expect_address opn (DeviceAddr user (ucast device)) = Inr ()"
    and fin: "finish_sealed env store (opn_stale opn)
        (restore_into env user device (connect_with_party env user device) (\<lambda>_. Inr ()) sp (opn_generation opn) net) = (Inr r, net')"
    by (auto simp: connect_with_state_sealed_def rbind_eq_Inr split: sum.splits prod.splits)
  then show ?thesis
    using finish_sealed_me [OF fin] by (fastforce dest: restore_into_built connect_with_party_me)
next
  assume "sign_in_with_state_sealed env api_key user password device blob store net = (Inr r, net')"
  then obtain opn sp where opn: "open_sealed (env_hmac env) (env_store env) store blob = Inr opn"
    and fin: "finish_sealed env store (opn_stale opn)
        (restore_into env user device (sign_in_with_party env api_key user password device)
           (\<lambda>c. expect_address opn (cl_me c)) sp (opn_generation opn) net) = (Inr r, net')"
    by (auto simp: sign_in_with_state_sealed_def rbind_eq_Inr split: sum.splits prod.splits)
  then show ?thesis
    using finish_sealed_me [OF fin] by (fastforce dest: restore_into_built)
qed

text \<open>
  C3. Anchor B of the rollback protection.  A client seals its state, and then goes on: any sequence of
  sends, fetches, acknowledgements, drains, checkpoints, reconnects, rotations and restores, in which at
  least one send was prepared.  Restoring the earlier blob with the store as it is then, by connecting
  or by signing in, either fails or gives a client at the sealed address whose party is one the provider
  has cleared of its sessions, with an empty session list, and which says that its sessions were
  discarded.  No ratchet state from before the send is resumed, whatever the provider and the servers
  do, as long as the store keeps its key and never counts backwards and the authenticator is 32 bytes.
\<close>

theorem older_state_resumes_nothing:
  assumes "secure_counter (env_store env) ctr key" and "hmac_sized (env_hmac env)" and "contact_typed (cl_me c)"
    and "export_state_sealed env c = Inr blob"
    and "True \<in> set (answers (client_op_step env) ops c)"
    and "cl_secure_store (final (client_op_step env) ops c) = Some store"
    and "connect_with_state_sealed env user device blob store net = (Inr r, net')
         \<or> sign_in_with_state_sealed env api_key user password device blob store net = (Inr r, net')"
  shows "cl_me r = cl_me c \<and> cl_sessions r = [] \<and> cl_restore r = RestoreSessionsDiscarded
    \<and> (\<exists>p. cl_party r = pv_clear_sessions (env_crypto env) p)"
proof -
  obtain k where k: "cl_secure_store c = Some k"
    using assms(4) by (auto simp: export_state_sealed_def rbind_eq_Inr ok_or_eq_Inr)
  then have "ctr k < ctr store"
    using run_counter_less [OF assms(1,5)] assms(6) by (simp add: counter_less_def)
  moreover obtain opn result where opn: "open_sealed (env_hmac env) (env_store env) store blob = Inr opn"
    and fin: "finish_sealed env store (opn_stale opn) result = (Inr r, net')" and me: "expect_address opn (cl_me r) = Inr ()"
    using sealed_restore_opened [OF assms(7)] by blast
  ultimately have "opn_stale opn" "opn_bound opn = Some (cl_me c)"
    using export_sealed_opens [OF assms(1-4) k opn] by simp_all
  then show ?thesis
    using finish_sealed_stale fin me by (simp add: expect_address_def split: if_splits)
qed


text \<open>
  A concrete environment, for evaluation: a provider that exchanges plaintext, servers that accept
  everything and note whom they provisioned, a store that is its counter, and a constant authenticator.
\<close>

definition plain_provider :: "bytes crypto_provider" where
  "plain_provider =
     \<lparr>pv_generate = (\<lambda>_ _ seed. Some seed), pv_from_identity = (\<lambda>_ _ ident. Some ident), pv_export_identity = id,
      pv_identity_key = id, pv_sign_challenge = (\<lambda>_ challenge. challenge), pv_publish_bundle = (\<lambda>p. (Some [9], p)),
      pv_publish_one_time_batch = (\<lambda>p. (Some [], p)), pv_establish_session_for = (\<lambda>_ _ _ p. (Some (), p)),
      pv_encrypt = (\<lambda>_ m p. (Some m, p)), pv_decrypt = (\<lambda>_ m p. (Some m, p)),
      pv_encrypt_with_outcome = (\<lambda>_ m p. (\<lparr>cop_result = Some m, cop_peer = Some [8], cop_effect = Unchanged\<rparr>, p)),
      pv_decrypt_with_outcome = (\<lambda>_ m p. (\<lparr>cop_result = Some m, cop_peer = Some [8], cop_effect = Unchanged\<rparr>, p)),
      pv_export_sessions = (\<lambda>_ _. Some []), pv_import_sessions = (\<lambda>_ p. (Some [], p)), pv_export_prekeys = (\<lambda>_. None),
      pv_import_prekeys = (\<lambda>_ p. (Some (), p)), pv_clear_sessions = id\<rparr>"

definition open_network :: "bytes list network" where
  "open_network =
     \<lparr>nw_dial_directory = (\<lambda>n. (Inr (), n)), nw_dial_relay = (\<lambda>_ _ n. (Inr (), n)), nw_reconnect = (\<lambda>_ _ n. (Inr (), n)),
      nw_relay_request = (\<lambda>_ n. (Inr [], n)), nw_lookup = (\<lambda>_ n. (Inr (DResp_Found [8] [9]), n)),
      nw_register = (\<lambda>_ _ _ _ n. (Inr DResp_Registered, n)), nw_deposit_prekeys = (\<lambda>_ _ _ _ n. (Inr DResp_Refreshed, n)),
      nw_rotate = (\<lambda>_ _ _ _ _ n. (Inr DResp_Rotated, n)), nw_witness = (\<lambda>_ _ _ n. (Inr DResp_Fresh, n)),
      nw_sign_in = (\<lambda>_ _ _ n. (Inr (SignedIn [1] [2]), n)),
      nw_provision = (\<lambda>_ _ ident _ _ n. (Inr (Provisioned [66, 47, 97]), ident # n))\<rparr>"

definition counting_store :: "u64 secure_store" where
  "counting_store =
     \<lparr>ks_wrap_key = (\<lambda>_. Inr [3]), ks_rollback_counter = Inr,
      ks_bump = (\<lambda>k. case checked_add k 1 of None \<Rightarrow> (Inl StoreUnavailable, k) | Some n \<Rightarrow> (Inr n, n))\<rparr>"

definition plain_env :: "(bytes, bytes list, u64) client_env" where
  "plain_env =
     \<lparr>env_crypto = plain_provider, env_network = open_network, env_store = counting_store, env_hmac = (\<lambda>_ _. replicate 32 0)\<rparr>"

definition plain_client :: "(bytes, bytes list, u64) client" where
  "plain_client = (new_client [7] [] (DeviceAddr [65, 47, 97] 1))\<lparr>cl_secure_store := Some 5, cl_counter_seen := 5\<rparr>"

lemma counting_store_counts: "secure_counter (env_store plain_env) id [3]"
  by (auto simp: secure_counter_def plain_env_def counting_store_def checked_add_def word_less_nat_alt unat_word_ariths
      split: option.splits if_splits)

lemmas plain_steps = prepare_send_as_def MAX_MESSAGE_BYTES_def MAX_ENVELOPE_BYTES_def cbind_def peer_address_def u8_try_from_def
  open_session_def retry_io_def fetch_bundle_def on_net_def on_party_def commit_ratchet_advance_def checked_add_def
  plain_env_def plain_client_def new_client_def plain_provider_def open_network_def counting_store_def rmap_err_def ok_or_def
  rbind_def Let_def

definition plain_sealed :: bytes where
  "plain_sealed = (case export_state_sealed plain_env plain_client of Inl _ \<Rightarrow> [] | Inr blob \<Rightarrow> blob)"

text \<open>
  A provider whose sessions are what follows the first byte of the party: exported, imported behind the
  identity, and cleared.
\<close>

definition session_env :: "(bytes, bytes list, u64) client_env" where
  "session_env = plain_env\<lparr>env_crypto := plain_provider\<lparr>pv_export_identity := take 1, pv_identity_key := take 1,
     pv_export_sessions := (\<lambda>_ p. Some (drop 1 p)), pv_import_sessions := (\<lambda>ss p. (Some [], p @ ss)), pv_clear_sessions := take 1\<rparr>\<rparr>"

definition session_client :: "(bytes, bytes list, u64) client" where
  "session_client = plain_client\<lparr>cl_party := [7, 4]\<rparr>"

definition session_sealed :: bytes where
  "session_sealed = (case export_state_sealed session_env session_client of Inl _ \<Rightarrow> [] | Inr blob \<Rightarrow> blob)"

definition session_restored :: "u64 \<Rightarrow> (bytes, bytes list, u64) client" where
  "session_restored k = projr (fst (connect_with_state_sealed session_env [65, 47, 97] 1 session_sealed k []))"

lemma session_resumed: "cl_party (session_restored 5) = [7, 4] \<and> cl_party (session_restored 6) = [7]"
  by code_simp

theorem older_state_resumes_nothing_witness:
  "export_state_sealed session_env session_client = Inr session_sealed
   \<and> connect_with_state_sealed session_env [65, 47, 97] 1 session_sealed 6 [] = (Inr (session_restored 6), [])
   \<and> cl_sessions (session_restored 6) = [] \<and> cl_restore (session_restored 6) = RestoreSessionsDiscarded
   \<and> (\<exists>p. cl_party (session_restored 6) = take 1 p) \<and> cl_party (session_restored 5) = [7, 4]"
proof -
  let ?ops = "[ClPrepareSend (DeviceAddr [66] 1) [5] Dm]"
  have sealed: "export_state_sealed session_env session_client = Inr session_sealed"
    by code_simp
  have restored: "connect_with_state_sealed session_env [65, 47, 97] 1 session_sealed 6 [] = (Inr (session_restored 6), [])"
  proof -
    have "\<not> isl (fst (connect_with_state_sealed session_env [65, 47, 97] 1 session_sealed 6 []))"
      by code_simp
    moreover have "snd (connect_with_state_sealed session_env [65, 47, 97] 1 session_sealed 6 []) = []"
      by code_simp
    ultimately show ?thesis
      by (simp add: session_restored_def prod_eq_iff)
  qed
  have "\<not> Option.is_none (encode_request (Req_Send (DeviceAddr [66] 1) \<lparr>env_kind = Dm, env_payload = [5]\<rparr>))"
    by code_simp
  then have sent: "True \<in> set (answers (client_op_step session_env) ?ops session_client)"
    and store: "cl_secure_store (final (client_op_step session_env) ?ops session_client) = Some 6"
    by (auto simp: plain_steps session_env_def session_client_def Option.is_none_def)
  have counts: "secure_counter (env_store session_env) id [3]"
    using counting_store_counts by (simp add: session_env_def)
  have "hmac_sized (env_hmac session_env)" "contact_typed (cl_me session_client)"
    by (simp_all add: hmac_sized_def session_env_def plain_env_def contact_typed_def session_client_def plain_client_def new_client_def)
  moreover have "pv_clear_sessions (env_crypto session_env) = take 1"
    by (simp add: session_env_def)
  ultimately show ?thesis
    using older_state_resumes_nothing [OF counts _ _ sealed sent store disjI1 [OF restored]] sealed restored session_resumed by auto
qed


section \<open>Signing in with the state of another tenant's user\<close>

text \<open>
  The error path of a sealed sign-in, with its order.  A state sealed for an address whose user has
  the name signed in with, under another tenant, passes the check before the sign-in.  The exact check
  comes after the sign-in, so the answer is the mismatch, and the servers are as the sign-in left them:
  the identity of the state has been provisioned under the account's address, where the comment of
  \<^verbatim>\<open>StateMismatch\<close> says that it is refused before it could be registered.
\<close>

theorem sealed_sign_in_registers_first:
  assumes "open_sealed (env_hmac env) (env_store env) store blob = Inr opn" and "opn_bound opn = Some me"
    and "expect_user opn identifier (ucast device) = Inr ()" and "split_state (opn_body opn) = Inr sp"
    and "pv_from_identity (env_crypto env) identifier device (split_identity sp) = Some p0"
    and "restore_prekeys_into env sp p0 = (Inr (), party)"
    and "sign_in_with_party env api_key identifier password device party net = (Inr c, net')" and "cl_me c \<noteq> me"
  shows "sign_in_with_state_sealed env api_key identifier password device blob store net
    = (Inl (ErrStateMismatch me (cl_me c)), net')"
proof -
  have "cl_net c = net'"
    using assms(7) by (auto simp: sign_in_with_party_def rbind_eq_Inr split: prod.splits)
  moreover have "expect_address opn (cl_me c) = Inl (ErrStateMismatch me (cl_me c))"
    using assms(2,8) by (simp add: expect_address_def)
  ultimately show ?thesis
    using assms(1,3-7)
    by (simp add: sign_in_with_state_sealed_def restore_into_def finish_sealed_def cbind_def rbind_def)
qed

text \<open>The state of \<open>A/a\<close>, in a sign-in as \<open>a\<close> that the server maps to \<open>B/a\<close>.\<close>

definition plain_opened :: opened where
  "plain_opened = projr (open_sealed (env_hmac plain_env) (env_store plain_env) 6 plain_sealed)"

definition plain_split :: split where
  "plain_split = projr (split_state (opn_body plain_opened))"

definition plain_signed_in :: "(bytes, bytes list, u64) client" where
  "plain_signed_in = new_client [7] [[7]] (DeviceAddr [66, 47, 97] 1)"

theorem sealed_sign_in_registers_first_witness:
  "sign_in_with_state_sealed plain_env [] [97] [] 1 plain_sealed 6 []
   = (Inl (ErrStateMismatch (DeviceAddr [65, 47, 97] 1) (DeviceAddr [66, 47, 97] 1)), [[7]])"
proof -
  have "\<not> isl (open_sealed (env_hmac plain_env) (env_store plain_env) 6 plain_sealed)" "\<not> isl (split_state (opn_body plain_opened))"
    by code_simp+
  then have opn: "open_sealed (env_hmac plain_env) (env_store plain_env) 6 plain_sealed = Inr plain_opened"
    and sp: "split_state (opn_body plain_opened) = Inr plain_split"
    by (simp_all add: plain_opened_def plain_split_def)
  have bound: "opn_bound plain_opened = Some (DeviceAddr [65, 47, 97] 1)"
    by code_simp
  have user: "expect_user plain_opened [97] (ucast (1 :: byte)) = Inr ()"
    by code_simp
  have ident: "split_identity plain_split = [7]"
    by code_simp
  have party: "pv_from_identity (env_crypto plain_env) [97] 1 (split_identity plain_split) = Some [7]"
    unfolding ident by (simp add: plain_env_def plain_provider_def)
  have prekeys: "restore_prekeys_into plain_env plain_split [7] = (Inr (), [7])"
    by code_simp
  have signed: "sign_in_with_party plain_env [] [97] [] 1 [7] [] = (Inr plain_signed_in, [[7]])"
    by (simp add: sign_in_with_party_def plain_signed_in_def sign_with_def plain_steps)
  show ?thesis
    using sealed_sign_in_registers_first [OF opn bound user sp party prekeys signed] by (simp add: plain_signed_in_def new_client_def)
qed

end
