(* ===== verification/Client_Commit.thy ===== *)
theory Client_Commit
  imports Client_Records
begin

text \<open>
  Crate \<^verbatim>\<open>tacenta-client\<close>, \<^verbatim>\<open>group_operations.rs\<close>: the \<open>commit_*\<close> functions.  Each builds a candidate
  snapshot and candidate values, publishes the snapshot, and exposes the values only when the store
  reports that it committed.

  A commit takes the store, the snapshot and the values the code borrows mutably, and returns its
  result with what it leaves in them.  The store is any implementation of the port; the commitments
  of the core library are parameters.
\<close>

type_synonym ('s, 'l, 'r) committed = "'r op_result \<times> 's \<times> operation_snapshot \<times> 'l"

section \<open>Publishing a candidate\<close>

definition begin_candidate :: "'s operation_store \<Rightarrow> 's \<Rightarrow> operation_snapshot \<Rightarrow> operation_snapshot op_result" where
  "begin_candidate port s snapshot =
     (if st_is_frozen port s then Inl OpFrozen
      else rbind (ok_or OpFrozen (st_next_generation port s (snap_generation snapshot))) (\<lambda>g.
             Inr (snapshot\<lparr>snap_generation := g\<rparr>)))"

text \<open>
  The end every commit shares: a candidate that was refused changes nothing; one that was built is
  published, and replaces the snapshot and the live values only when it committed.
\<close>

definition commit_candidate ::
  "'s operation_store \<Rightarrow> (operation_snapshot \<times> 'l \<times> 'r) op_result \<Rightarrow> 's \<Rightarrow> operation_snapshot \<Rightarrow> 'l \<Rightarrow> ('s, 'l, 'r) committed" where
  "commit_candidate port candidate s snapshot live =
     (case candidate of
        Inl e \<Rightarrow> (Inl e, s, snapshot, live)
      | Inr (snapshot', live', r) \<Rightarrow>
          (case st_commit port snapshot' s of
             (outcome, s) \<Rightarrow>
               if outcome \<noteq> Committed then (Inl OpFrozen, s, snapshot, live) else (Inr r, s, snapshot', live')))"

text \<open>A store that accepts and forgets.\<close>

definition discard_port :: "unit operation_store" where
  "discard_port =
     (let commit = (\<lambda>_ s. (Committed, s)); recover = (\<lambda>s. (Inr None, s))
      in \<lparr>st_commit = commit, st_recover = recover, st_is_frozen = default_is_frozen,
          st_next_generation = default_next_generation,
          st_durable_generation = default_durable_generation recover,
          st_commit_after = default_commit_after (default_durable_generation recover) commit\<rparr>)"

section \<open>Logical sends\<close>

definition commit_logical_intent ::
  "'s operation_store \<Rightarrow> logical_send \<Rightarrow> 's \<Rightarrow> operation_snapshot \<Rightarrow> group_outbox \<Rightarrow> ('s, group_outbox, outbox_disposition) committed" where
  "commit_logical_intent port send s snapshot ob =
     (case rbind (policy (encode_intent send)) (\<lambda>intent.
             case outbox_record send ob of (r, ob') \<Rightarrow> rbind (policy r) (\<lambda>d. Inr (intent, d, ob'))) of
        Inl e \<Rightarrow> (Inl e, s, snapshot, ob)
      | Inr (intent, disposition, ob') \<Rightarrow>
          if disposition = OutboxDuplicate then (Inr disposition, s, snapshot, ob)
          else
            commit_candidate port
              (rbind (begin_candidate port s snapshot) (\<lambda>c.
               rbind (encode_intent_record intent) (\<lambda>r.
                 Inr (c\<lparr>snap_outbox := snap_outbox c @ [r]\<rparr>, ob', disposition)))) s snapshot ob)"

definition bind_prepared_ciphertext ::
  "(bytes \<Rightarrow> bytes) \<Rightarrow> member \<Rightarrow> bytes \<Rightarrow> logical_send \<Rightarrow> recipient_progress group_result \<times> logical_send" where
  "bind_prepared_ciphertext payload_commitment recipient ciphertext s =
     (case rbind (send_application_context s recipient) context_encode of
        Inl e \<Rightarrow> (Inl e, s)
      | Inr context \<Rightarrow> record_prepared recipient (payload_commitment context) ciphertext s)"

text \<open>A change of one recipient, and the context of that recipient encoded after it.\<close>

definition with_context ::
  "member \<Rightarrow> (logical_send \<Rightarrow> recipient_progress group_result \<times> logical_send) \<Rightarrow> logical_send
     \<Rightarrow> (recipient_progress \<times> bytes) group_result \<times> logical_send" where
  "with_context recipient f s =
     (case f s of (r, s') \<Rightarrow>
        (rbind r (\<lambda>p. rbind (rbind (send_application_context s' recipient) context_encode) (\<lambda>context. Inr (p, context))), s'))"

record recipient_change =
  chg_outbox :: group_outbox
  chg_progress :: recipient_progress
  chg_context :: bytes
  chg_commitment :: bytes
  chg_ciphertext :: bytes

definition change_recipient ::
  "logical_id \<Rightarrow> member \<Rightarrow> (logical_send \<Rightarrow> recipient_progress group_result \<times> logical_send) \<Rightarrow> group_outbox
     \<Rightarrow> recipient_change op_result" where
  "change_recipient ident recipient f ob =
     (case send_mut ident (with_context recipient f) ob of (r, ob') \<Rightarrow>
        rbind (policy r) (\<lambda>(p, context).
        rbind (ok_or OpPolicy (prog_commitment p)) (\<lambda>commitment.
        rbind (ok_or OpPolicy (prog_ciphertext p)) (\<lambda>ciphertext.
          Inr \<lparr>chg_outbox = ob', chg_progress = p, chg_context = context, chg_commitment = commitment,
               chg_ciphertext = ciphertext\<rparr>))))"

definition commit_outbox_prepared_ciphertext ::
  "'s operation_store \<Rightarrow> (bytes \<Rightarrow> bytes) \<Rightarrow> logical_id \<Rightarrow> member \<Rightarrow> bytes \<Rightarrow> bytes
     \<Rightarrow> 's \<Rightarrow> operation_snapshot \<Rightarrow> group_outbox \<Rightarrow> ('s, group_outbox, recipient_progress) committed" where
  "commit_outbox_prepared_ciphertext port payload_commitment ident recipient ciphertext provider_state s snapshot ob =
     commit_candidate port
       (rbind (change_recipient ident recipient (bind_prepared_ciphertext payload_commitment recipient ciphertext) ob) (\<lambda>chg.
        rbind (begin_candidate port s snapshot) (\<lambda>c.
        rbind (encode_prepared_record (chg_context chg) (chg_commitment chg) (chg_ciphertext chg)) (\<lambda>r.
          Inr (c\<lparr>snap_outbox := snap_outbox c @ [r], snap_provider_state := provider_state\<rparr>,
               chg_outbox chg, chg_progress chg))))) s snapshot ob"

text \<open>The compaction both handoff commits end with.\<close>

definition compacted ::
  "(bytes \<Rightarrow> bytes) \<Rightarrow> bytes \<Rightarrow> operation_snapshot \<Rightarrow> group_outbox \<Rightarrow> (operation_snapshot \<times> group_outbox) op_result" where
  "compacted payload_commitment group_id candidate ob =
     rbind (compact_group_outbox payload_commitment group_id candidate) (\<lambda>(rebuilt, candidate).
       Inr (candidate, case rebuilt of None \<Rightarrow> ob | Some ob \<Rightarrow> ob))"

definition commit_outbox_handoff_reservation ::
  "'s operation_store \<Rightarrow> (bytes \<Rightarrow> bytes) \<Rightarrow> logical_id \<Rightarrow> member
     \<Rightarrow> 's \<Rightarrow> operation_snapshot \<Rightarrow> group_outbox \<Rightarrow> ('s, group_outbox, recipient_progress) committed" where
  "commit_outbox_handoff_reservation port payload_commitment ident recipient s snapshot ob =
     commit_candidate port
       (rbind (change_recipient ident recipient (reserve_handoff recipient) ob) (\<lambda>chg.
        rbind (begin_candidate port s snapshot) (\<lambda>c.
        rbind (encode_handoff_record (chg_context chg) (chg_commitment chg) (chg_ciphertext chg) (chg_progress chg)) (\<lambda>r.
        rbind (compacted payload_commitment (lid_group_id ident) (c\<lparr>snap_outbox := snap_outbox c @ [r]\<rparr>) (chg_outbox chg)) (\<lambda>(c, ob').
          Inr (c, ob', chg_progress chg)))))) s snapshot ob"

definition commit_outbox_relay_acceptance ::
  "'s operation_store \<Rightarrow> (bytes \<Rightarrow> bytes) \<Rightarrow> logical_id \<Rightarrow> member
     \<Rightarrow> 's \<Rightarrow> operation_snapshot \<Rightarrow> group_outbox \<Rightarrow> ('s, group_outbox, recipient_progress) committed" where
  "commit_outbox_relay_acceptance port payload_commitment ident recipient s snapshot ob =
     commit_candidate port
       (rbind (change_recipient ident recipient (record_relay_accepted recipient) ob) (\<lambda>chg.
        rbind (begin_candidate port s snapshot) (\<lambda>c.
        rbind (encode_relay_acceptance_record (chg_context chg) (chg_commitment chg) (chg_ciphertext chg)) (\<lambda>r.
        rbind (compacted payload_commitment (lid_group_id ident) (c\<lparr>snap_outbox := snap_outbox c @ [r]\<rparr>) (chg_outbox chg)) (\<lambda>(c, ob').
          Inr (c, ob', chg_progress chg)))))) s snapshot ob"

section \<open>Controls and invitations\<close>

definition commit_group_control_outbox_transition ::
  "'s operation_store \<Rightarrow> (bytes \<Rightarrow> bytes) \<Rightarrow> (control_outbox \<Rightarrow> 'r group_result \<times> control_outbox)
     \<Rightarrow> 's \<Rightarrow> operation_snapshot \<Rightarrow> control_outbox \<Rightarrow> ('s, control_outbox, 'r) committed" where
  "commit_group_control_outbox_transition port payload_commitment transition s snapshot ob =
     commit_candidate port
       (case transition ob of (r, ob') \<Rightarrow>
          rbind (policy r) (\<lambda>result.
          rbind (policy (ctl_encode_state payload_commitment ob')) (\<lambda>state.
          rbind (begin_candidate port s snapshot) (\<lambda>c.
          rbind (encode_control_outbox_record state) (\<lambda>r.
            Inr (append_group_control_records [r] c, ob', result)))))) s snapshot ob"

definition commit_prepared_control_handoff ::
  "'s operation_store \<Rightarrow> (bytes \<Rightarrow> bytes) \<Rightarrow> member \<Rightarrow> bytes \<Rightarrow> bytes \<Rightarrow> bytes
     \<Rightarrow> 's \<Rightarrow> operation_snapshot \<Rightarrow> control_outbox \<Rightarrow> ('s, control_outbox, control_handoff) committed" where
  "commit_prepared_control_handoff port payload_commitment recipient payload ciphertext provider_state s snapshot ob =
     commit_candidate port
       (case ctl_record_prepared payload_commitment recipient payload ciphertext ob of (r, ob') \<Rightarrow>
          rbind (policy r) (\<lambda>_.
          rbind (policy (ctl_encode_state payload_commitment ob')) (\<lambda>state.
          rbind (policy (ctl_handoff payload_commitment recipient payload ob')) (\<lambda>handoff.
          rbind (begin_candidate port s snapshot) (\<lambda>c.
          rbind (encode_control_outbox_record state) (\<lambda>r.
            Inr (append_group_control_records [r] (c\<lparr>snap_provider_state := provider_state\<rparr>), ob', handoff))))))) s snapshot ob"

definition commit_authority_invitation_revocation_transition ::
  "'s operation_store \<Rightarrow> (bytes \<Rightarrow> bytes) \<Rightarrow> member \<Rightarrow> bytes \<Rightarrow> u64
     \<Rightarrow> 's \<Rightarrow> operation_snapshot \<Rightarrow> invitation_book \<times> control_outbox \<Rightarrow> ('s, invitation_book \<times> control_outbox, invitation) committed" where
  "commit_authority_invitation_revocation_transition port payload_commitment authority invitation_id now s snapshot live =
     commit_candidate port
       (case book_revoke invitation_id authority authority now (fst live) of (r, book) \<Rightarrow>
          rbind (policy r) (\<lambda>invitation.
            let ob = cancel_non_revocation_for_recipient (inv_target invitation) (snd live)
            in
          rbind (policy (book_encode_state book)) (\<lambda>book_state.
          rbind (policy (ctl_encode_state payload_commitment ob)) (\<lambda>outbox_state.
          rbind (begin_candidate port s snapshot) (\<lambda>c.
          rbind (encode_invitation_book_record book_state) (\<lambda>b.
          rbind (encode_control_outbox_record outbox_state) (\<lambda>r.
            Inr (append_group_control_records [b, r] c, (book, ob), invitation)))))))) s snapshot live"

record group_receive_input =
  in_plaintext :: bytes
  in_identity :: bytes
  in_device :: byte
  in_provider_state :: bytes
  in_effect :: crypto_state_effect

definition authenticated_peer :: "group_receive_input \<Rightarrow> member" where
  "authenticated_peer input = Member (in_identity input) [in_device input]"

definition commit_provider_state ::
  "'s operation_store \<Rightarrow> bytes \<Rightarrow> 's \<Rightarrow> operation_snapshot \<Rightarrow> ('s, unit, unit) committed" where
  "commit_provider_state port provider_state s snapshot =
     commit_candidate port
       (rbind (begin_candidate port s snapshot) (\<lambda>c. Inr (c\<lparr>snap_provider_state := provider_state\<rparr>, (), ()))) s snapshot ()"

definition commit_malformed_group_payload ::
  "'s operation_store \<Rightarrow> (bytes \<Rightarrow> bytes) \<Rightarrow> bytes \<Rightarrow> bytes \<Rightarrow> crypto_state_effect
     \<Rightarrow> 's \<Rightarrow> operation_snapshot \<Rightarrow> ('s, unit, unit) committed" where
  "commit_malformed_group_payload port payload_commitment plaintext provider_state effect s snapshot =
     commit_candidate port
       (rbind (begin_candidate port s snapshot) (\<lambda>c.
        rbind (encode_malformed_record payload_commitment effect plaintext) (\<lambda>r.
          Inr (c\<lparr>snap_provider_state := provider_state,
                 snap_inbox := push_bounded r MAX_INBOX_RECORDS (snap_inbox c)\<rparr>, (), ())))) s snapshot ()"

text \<open>
  \<open>commit_invalid_invitation_control\<close>, which the other invitation commits write out: the malformed
  item is committed, and the call is refused unless that commit already was.
\<close>

definition commit_invalid_invitation_control ::
  "'s operation_store \<Rightarrow> (bytes \<Rightarrow> bytes) \<Rightarrow> group_receive_input \<Rightarrow> 's \<Rightarrow> operation_snapshot \<Rightarrow> 'l \<Rightarrow> ('s, 'l, 'r) committed" where
  "commit_invalid_invitation_control port payload_commitment input s snapshot live =
     (case commit_malformed_group_payload port payload_commitment (in_plaintext input) (in_provider_state input)
             (in_effect input) s snapshot of
        (r, s, snapshot, _) \<Rightarrow> (rbind r (\<lambda>_. Inl OpPolicy), s, snapshot, live))"

definition commit_group_invitation_transition_with_provider ::
  "'s operation_store \<Rightarrow> (bytes \<times> crypto_state_effect) option \<Rightarrow> (invitation_book \<Rightarrow> 'r group_result \<times> invitation_book)
     \<Rightarrow> 's \<Rightarrow> operation_snapshot \<Rightarrow> invitation_book \<Rightarrow> ('s, invitation_book, 'r) committed" where
  "commit_group_invitation_transition_with_provider port provider transition s snapshot book =
     commit_candidate port
       (case transition book of (r, book') \<Rightarrow>
          rbind (policy r) (\<lambda>result.
          rbind (policy (book_encode_state book')) (\<lambda>state.
          rbind (begin_candidate port s snapshot) (\<lambda>c.
          rbind (encode_invitation_book_record state) (\<lambda>r.
            Inr (case provider of
                   None \<Rightarrow> append_group_control_records [r] c
                 | Some (provider_state, effect) \<Rightarrow>
                     append_group_control_records [r, encode_control_effect_record effect]
                       (c\<lparr>snap_provider_state := provider_state\<rparr>),
                 book', result)))))) s snapshot book"

definition commit_group_invitation_transition ::
  "'s operation_store \<Rightarrow> (invitation_book \<Rightarrow> 'r group_result \<times> invitation_book)
     \<Rightarrow> 's \<Rightarrow> operation_snapshot \<Rightarrow> invitation_book \<Rightarrow> ('s, invitation_book, 'r) committed" where
  "commit_group_invitation_transition port transition s snapshot book =
     commit_group_invitation_transition_with_provider port None transition s snapshot book"

text \<open>An invitation control whose transition is refused by policy is committed as malformed.\<close>

definition commit_invitation_control ::
  "'s operation_store \<Rightarrow> (bytes \<Rightarrow> bytes) \<Rightarrow> group_receive_input \<Rightarrow> (invitation_book \<Rightarrow> 'r group_result \<times> invitation_book)
     \<Rightarrow> 's \<Rightarrow> operation_snapshot \<Rightarrow> invitation_book \<Rightarrow> ('s, invitation_book, 'r) committed" where
  "commit_invitation_control port payload_commitment input transition s snapshot book =
     (case commit_group_invitation_transition_with_provider port (Some (in_provider_state input, in_effect input)) transition s snapshot book of
        (Inl OpPolicy, s, snapshot, book) \<Rightarrow> commit_invalid_invitation_control port payload_commitment input s snapshot book
      | other \<Rightarrow> other)"

text \<open>The result of a book operation, mapped.\<close>

definition book_result :: "(invitation \<Rightarrow> 'r) \<Rightarrow> invitation group_result \<times> invitation_book \<Rightarrow> 'r group_result \<times> invitation_book" where
  "book_result f r = (case r of (r, book) \<Rightarrow> (rbind r (\<lambda>i. Inr (f i)), book))"

definition commit_group_invitation_bootstrap ::
  "'s operation_store \<Rightarrow> (bytes \<Rightarrow> bytes) \<Rightarrow> (bytes \<Rightarrow> bytes) \<Rightarrow> member \<Rightarrow> u64 \<Rightarrow> group_receive_input
     \<Rightarrow> 's \<Rightarrow> operation_snapshot \<Rightarrow> invitation_book \<Rightarrow> ('s, invitation_book, invitation_bootstrap) committed" where
  "commit_group_invitation_bootstrap port roster_commitment payload_commitment local_member now input s snapshot book =
     (case payload_decode (in_plaintext input) of
        Inr (PayloadBootstrap bootstrap) \<Rightarrow>
          (case policy (roster_encode (boot_source_roster bootstrap)) of
             Inl e \<Rightarrow> (Inl e, s, snapshot, book)
           | Inr preimage \<Rightarrow>
               if isl (validate_source_digest bootstrap (roster_commitment preimage))
                  \<or> ros_closed (boot_source_roster bootstrap)
                  \<or> ros_authority (boot_source_roster bootstrap) \<noteq> authenticated_peer input
                  \<or> inv_target (boot_invitation bootstrap) \<noteq> local_member
               then commit_invalid_invitation_control port payload_commitment input s snapshot book
               else
                 commit_invitation_control port payload_commitment input
                   (\<lambda>b. book_result (\<lambda>_. bootstrap)
                     (book_create (authenticated_peer input) (ros_authority (boot_source_roster bootstrap))
                       (ros_members (boot_source_roster bootstrap)) (boot_invitation bootstrap) now b)) s snapshot book)
      | _ \<Rightarrow> commit_invalid_invitation_control port payload_commitment input s snapshot book)"

definition commit_group_invitation_acceptance ::
  "'s operation_store \<Rightarrow> (bytes \<Rightarrow> bytes) \<Rightarrow> u64 \<Rightarrow> group_receive_input
     \<Rightarrow> 's \<Rightarrow> operation_snapshot \<Rightarrow> invitation_book \<Rightarrow> ('s, invitation_book, invitation_status) committed" where
  "commit_group_invitation_acceptance port payload_commitment now input s snapshot book =
     (case payload_decode (in_plaintext input) of
        Inr (PayloadAcceptance acceptance) \<Rightarrow>
          if ans_group_id acceptance \<noteq> book_group_id book
          then commit_invalid_invitation_control port payload_commitment input s snapshot book
          else
            commit_invitation_control port payload_commitment input
              (\<lambda>b. book_result inv_status
                (book_accept (ans_invitation_id acceptance) (authenticated_peer input) (ans_source_revision acceptance)
                  (ans_source_digest acceptance) now b)) s snapshot book
      | _ \<Rightarrow> commit_invalid_invitation_control port payload_commitment input s snapshot book)"

definition commit_group_invitation_revocation ::
  "'s operation_store \<Rightarrow> (bytes \<Rightarrow> bytes) \<Rightarrow> member \<Rightarrow> member \<Rightarrow> u64 \<Rightarrow> group_receive_input
     \<Rightarrow> 's \<Rightarrow> operation_snapshot \<Rightarrow> invitation_book \<Rightarrow> ('s, invitation_book, invitation_status) committed" where
  "commit_group_invitation_revocation port payload_commitment local_target source_authority now input s snapshot book =
     (case payload_decode (in_plaintext input) of
        Inr (PayloadRevocation revocation) \<Rightarrow>
          if ans_group_id revocation \<noteq> book_group_id book \<or> authenticated_peer input \<noteq> source_authority
             \<or> \<not> list_ex (\<lambda>i. inv_id i = ans_invitation_id revocation \<and> inv_group_id i = ans_group_id revocation
                    \<and> inv_target i = local_target \<and> inv_source_revision i = ans_source_revision revocation
                    \<and> inv_source_digest i = ans_source_digest revocation) (book_invitations book)
          then commit_invalid_invitation_control port payload_commitment input s snapshot book
          else
            commit_invitation_control port payload_commitment input
              (\<lambda>b. book_result inv_status (book_revoke (ans_invitation_id revocation) source_authority source_authority now b))
              s snapshot book
      | _ \<Rightarrow> commit_invalid_invitation_control port payload_commitment input s snapshot book)"

section \<open>Receiving\<close>

definition commit_receive_disposition ::
  "'s operation_store \<Rightarrow> (bytes \<Rightarrow> bytes) \<Rightarrow> application_context \<Rightarrow> member \<Rightarrow> bytes \<Rightarrow> crypto_state_effect
     \<Rightarrow> 's \<Rightarrow> operation_snapshot \<Rightarrow> group_receiver \<Rightarrow> ('s, group_receiver, receive_disposition) committed" where
  "commit_receive_disposition port payload_commitment context peer provider_state effect s snapshot receiver =
     commit_candidate port
       (rbind (policy (context_encode context)) (\<lambda>context_bytes.
          let commitment = payload_commitment context_bytes
          in case receive context peer commitment receiver of (disposition, receiver') \<Rightarrow>
        rbind (begin_candidate port s snapshot) (\<lambda>c.
        rbind (policy (receiver_encode_state receiver')) (\<lambda>state.
        rbind (record_receive effect context_bytes commitment disposition
                 (c\<lparr>snap_provider_state := provider_state, snap_application_state := state\<rparr>)) (\<lambda>c.
          Inr (c, receiver', disposition)))))) s snapshot receiver"

definition commit_delivery_cursor ::
  "'s operation_store \<Rightarrow> u64 \<Rightarrow> 's \<Rightarrow> operation_snapshot \<Rightarrow> ('s, unit, unit) committed" where
  "commit_delivery_cursor port cursor s snapshot =
     commit_candidate port
       (rbind (begin_candidate port s snapshot) (\<lambda>c.
          Inr (deliver_through cursor c, (), ()))) s snapshot ()"

section \<open>Roster transitions\<close>

record prepared_control =
  pre_recipient :: member
  pre_payload :: bytes
  pre_ciphertext :: bytes

record invitation_admission =
  adm_id :: bytes
  adm_target :: member
  adm_now :: u64

text \<open>The values a transition may change; an absent one is a value the caller does not keep.\<close>

record roster_commit_state =
  rc_view :: roster_view
  rc_receiver :: "group_receiver option"
  rc_group_outbox :: "group_outbox option"
  rc_control_outbox :: "control_outbox option"
  rc_invitation_book :: "invitation_book option"
  rc_deferred :: "deferred_rosters option"
  rc_logical_sends :: "logical_send list"

text \<open>The values it only reads.\<close>

record roster_commit_input =
  ri_provider :: "(bytes \<times> crypto_state_effect) option"
  ri_prepared_control :: "prepared_control option"
  ri_admission :: "invitation_admission option"
  ri_applying :: "u64 option"

record roster_commit =
  com_disposition :: roster_disposition
  com_revalidated :: "revalidated list"
  com_held :: bool

text \<open>The held controls after the view has judged \<open>candidate\<close>, and whether it was held.\<close>

definition defer_control ::
  "roster_disposition \<Rightarrow> u64 \<Rightarrow> roster \<Rightarrow> u64 option \<Rightarrow> deferred_rosters \<Rightarrow> bool \<times> deferred_rosters" where
  "defer_control disposition current_revision candidate applying queue =
     (let (held, queue) =
            (case disposition of
               RosterAccepted \<Rightarrow> (False, prune_through (ros_revision candidate) queue)
             | RosterRejected MissingPredecessor \<Rightarrow>
                 if ros_revision candidate > saturating_add current_revision 1
                    \<and> ros_revision candidate \<le> saturating_add current_revision (1 + HOLD_AHEAD)
                 then (case hold candidate queue of (outcome, queue) \<Rightarrow> (outcome = Held \<or> outcome = HoldDuplicate, queue))
                 else (False, queue)
             | _ \<Rightarrow> (False, queue))
      in (held, case applying of None \<Rightarrow> queue | Some revision \<Rightarrow> remove_revision revision queue))"

text \<open>The control outbox and its record, when a control was prepared with the transition.\<close>

definition record_prepared_control ::
  "(bytes \<Rightarrow> bytes) \<Rightarrow> bool \<Rightarrow> prepared_control option \<Rightarrow> control_outbox option \<Rightarrow> (control_outbox option \<times> bytes list) op_result" where
  "record_prepared_control payload_commitment accepted prepared outbox =
     (case prepared of
        None \<Rightarrow> Inr (outbox, [])
      | Some p \<Rightarrow>
          if \<not> accepted then Inl OpPolicy
          else
            rbind (ok_or OpPolicy outbox) (\<lambda>ob.
              case ctl_record_prepared payload_commitment (pre_recipient p) (pre_payload p) (pre_ciphertext p) ob of (r, ob') \<Rightarrow>
            rbind (policy r) (\<lambda>_.
            rbind (policy (ctl_encode_state payload_commitment ob')) (\<lambda>state.
            rbind (encode_control_outbox_record state) (\<lambda>r. Inr (Some ob', [r]))))))"

text \<open>The invitation book and its record, when the transition admits an invitation.\<close>

definition record_admission ::
  "bool \<Rightarrow> member \<Rightarrow> roster \<Rightarrow> invitation_admission option \<Rightarrow> invitation_book option \<Rightarrow> (invitation_book option \<times> bytes list) op_result" where
  "record_admission accepted authenticated_authority candidate admission book =
     (case admission of
        None \<Rightarrow> Inr (book, [])
      | Some a \<Rightarrow>
          if \<not> accepted \<or> adm_target a \<notin> set (ros_members candidate) then Inl OpPolicy
          else
            rbind (ok_or OpPolicy book) (\<lambda>b.
              if \<not> list_ex (\<lambda>i. inv_id i = adm_id a \<and> inv_target i = adm_target a) (book_invitations b) then Inl OpPolicy
              else case book_admit (adm_id a) authenticated_authority (ros_authority candidate) (ros_revision candidate) (adm_now a) b of
                (r, b') \<Rightarrow>
            rbind (policy r) (\<lambda>_.
            rbind (policy (book_encode_state b')) (\<lambda>state.
            rbind (encode_invitation_book_record state) (\<lambda>r. Inr (Some b', [r]))))))"

fun record_revalidated :: "revalidated list \<Rightarrow> operation_snapshot \<Rightarrow> operation_snapshot op_result" where
  "record_revalidated [] c = Inr c"
| "record_revalidated (item # items) c =
     rbind (policy (context_encode (rev_context item))) (\<lambda>context.
     rbind (record_receive Unchanged context (rev_commitment item) (rev_disposition item) c) (record_revalidated items))"

text \<open>The receiver after an accepted roster, with its revalidated items recorded.\<close>

definition install_in_receiver ::
  "bool \<Rightarrow> roster \<Rightarrow> bytes \<Rightarrow> group_receiver option \<Rightarrow> operation_snapshot
     \<Rightarrow> (revalidated list \<times> group_receiver option \<times> operation_snapshot) op_result" where
  "install_in_receiver accepted candidate commitment receiver c =
     (case receiver of
        Some g \<Rightarrow>
          if accepted then
            (case install_accepted_roster candidate commitment g of (r, g') \<Rightarrow>
               rbind (policy r) (\<lambda>items. rbind (record_revalidated items c) (\<lambda>c. Inr (items, Some g', c))))
          else Inr ([], Some g, c)
      | None \<Rightarrow> Inr ([], None, c))"

definition cancel_sends :: "roster \<Rightarrow> logical_send list \<Rightarrow> logical_send list" where
  "cancel_sends candidate sends =
     map (\<lambda>send. if lid_group_id (send_id send) = ros_group_id candidate
                 then send_cancel_for_newer_roster (ros_revision candidate) send else send) sends"

text \<open>The records an accepted transition adds: the cancellation and the roster it replaces.\<close>

definition accepted_records :: "bool \<Rightarrow> roster \<Rightarrow> roster_view \<Rightarrow> bytes list op_result" where
  "accepted_records accepted candidate view =
     (if \<not> accepted then Inr []
      else
        rbind (policy (roster_encode (view_roster view))) (\<lambda>replaced.
        rbind (encode_replaced_roster_record (ros_group_id candidate) replaced) (\<lambda>r.
          Inr [encode_group_outbox_cancellation_record (ros_group_id candidate) (ros_revision candidate), r])))"

text \<open>The record of the held controls, when they changed.\<close>

definition deferred_records :: "bytes \<Rightarrow> deferred_rosters option \<Rightarrow> deferred_rosters option \<Rightarrow> bytes list op_result" where
  "deferred_records group_id original queue =
     (case queue of
        Some q \<Rightarrow>
          if queue \<noteq> original
          then rbind (policy (deferred_encode_record group_id q)) (\<lambda>r. Inr [r])
          else Inr []
      | None \<Rightarrow> Inr [])"

text \<open>The transcript compaction of an accepted transition whose caller keeps an outbox.\<close>

definition compacted_option ::
  "(bytes \<Rightarrow> bytes) \<Rightarrow> bool \<Rightarrow> bytes \<Rightarrow> operation_snapshot \<Rightarrow> group_outbox option
     \<Rightarrow> (operation_snapshot \<times> group_outbox option) op_result" where
  "compacted_option payload_commitment accepted group_id c outbox =
     (case outbox of
        Some ob \<Rightarrow>
          if accepted then rbind (compacted payload_commitment group_id c ob) (\<lambda>(c, ob). Inr (c, Some ob))
          else Inr (c, Some ob)
      | None \<Rightarrow> Inr (c, None))"

text \<open>The application state of a receiver the caller keeps.\<close>

definition with_receiver_state :: "group_receiver option \<Rightarrow> operation_snapshot \<Rightarrow> operation_snapshot op_result" where
  "with_receiver_state receiver c =
     (case receiver of
        None \<Rightarrow> Inr c
      | Some g \<Rightarrow> rbind (policy (receiver_encode_state g)) (\<lambda>state. Inr (c\<lparr>snap_application_state := state\<rparr>)))"

definition provider_records :: "(bytes \<times> crypto_state_effect) option \<Rightarrow> bytes list" where
  "provider_records provider = (case provider of None \<Rightarrow> [] | Some (_, effect) \<Rightarrow> [encode_control_effect_record effect])"

definition with_provider :: "(bytes \<times> crypto_state_effect) option \<Rightarrow> operation_snapshot \<Rightarrow> operation_snapshot" where
  "with_provider provider c =
     (case provider of None \<Rightarrow> c | Some (provider_state, _) \<Rightarrow> c\<lparr>snap_provider_state := provider_state\<rparr>)"

text \<open>The candidate of a transition: everything up to the publication.\<close>

definition roster_candidate ::
  "'s operation_store \<Rightarrow> (bytes \<Rightarrow> bytes) \<Rightarrow> (bytes \<Rightarrow> bytes) \<Rightarrow> roster_commit_input \<Rightarrow> member \<Rightarrow> roster
     \<Rightarrow> 's \<Rightarrow> operation_snapshot \<Rightarrow> roster_commit_state \<Rightarrow> (operation_snapshot \<times> roster_commit_state \<times> roster_commit) op_result" where
  "roster_candidate port roster_commitment payload_commitment input authority candidate s snapshot state =
     rbind (policy (roster_encode candidate)) (\<lambda>preimage.
       let commitment = roster_commitment preimage;
           (disposition, view) = accept_successor authority candidate commitment (rc_view state);
           accepted = (disposition = RosterAccepted);
           deferred = map_option (defer_control disposition (ros_revision (view_roster (rc_view state))) candidate (ri_applying input))
                        (rc_deferred state);
           queue = map_option snd deferred;
           held = (case deferred of None \<Rightarrow> False | Some (held, _) \<Rightarrow> held);
           sends = (if accepted then cancel_sends candidate (rc_logical_sends state) else rc_logical_sends state);
           outbox = (if accepted then map_option (outbox_cancel_for_newer_roster (ros_revision candidate)) (rc_group_outbox state)
                     else rc_group_outbox state)
       in
     rbind (begin_candidate port s snapshot) (\<lambda>c.
     rbind (encode_roster_record preimage commitment disposition) (\<lambda>roster_record.
     rbind (accepted_records accepted candidate (rc_view state)) (\<lambda>accepted_rs.
     rbind (record_prepared_control payload_commitment accepted (ri_prepared_control input) (rc_control_outbox state)) (\<lambda>(control, control_rs).
     rbind (record_admission accepted authority candidate (ri_admission input) (rc_invitation_book state)) (\<lambda>(book, book_rs).
     rbind (rbind (policy (view_encode_state view)) encode_roster_view_record) (\<lambda>view_record.
     rbind (deferred_records (ros_group_id candidate) (rc_deferred state) queue) (\<lambda>deferred_rs.
     rbind (compacted_option payload_commitment accepted (ros_group_id candidate)
              (append_group_control_records
                 ([roster_record] @ accepted_rs @ control_rs @ book_rs @ provider_records (ri_provider input) @ [view_record] @ deferred_rs)
                 (with_provider (ri_provider input) c)) outbox) (\<lambda>(c, outbox).
     rbind (install_in_receiver accepted candidate commitment (rc_receiver state) c) (\<lambda>(items, receiver, c).
     rbind (with_receiver_state receiver c) (\<lambda>c.
       Inr (c, \<lparr>rc_view = view, rc_receiver = receiver, rc_group_outbox = outbox, rc_control_outbox = control,
                rc_invitation_book = book, rc_deferred = queue, rc_logical_sends = sends\<rparr>,
            \<lparr>com_disposition = disposition, com_revalidated = items, com_held = held\<rparr>))))))))))))"

definition commit_roster_transition ::
  "'s operation_store \<Rightarrow> (bytes \<Rightarrow> bytes) \<Rightarrow> (bytes \<Rightarrow> bytes) \<Rightarrow> roster_commit_input \<Rightarrow> member \<Rightarrow> roster
     \<Rightarrow> 's \<Rightarrow> operation_snapshot \<Rightarrow> roster_commit_state \<Rightarrow> ('s, roster_commit_state, roster_commit) committed" where
  "commit_roster_transition port roster_commitment payload_commitment input authority candidate s snapshot state =
     commit_candidate port
       (roster_candidate port roster_commitment payload_commitment input authority candidate s snapshot state) s snapshot state"

text \<open>The values a coordinator with a view passes to its receive commits.\<close>

record member_state =
  ms_view :: roster_view
  ms_receiver :: group_receiver
  ms_outbox :: group_outbox
  ms_deferred :: deferred_rosters

definition as_commit_state :: "member_state \<Rightarrow> roster_commit_state" where
  "as_commit_state m =
     \<lparr>rc_view = ms_view m, rc_receiver = Some (ms_receiver m), rc_group_outbox = Some (ms_outbox m),
      rc_control_outbox = None, rc_invitation_book = None, rc_deferred = Some (ms_deferred m), rc_logical_sends = []\<rparr>"

text \<open>What the transition leaves in them: each value it was passed, the candidate's when it has one.\<close>

definition of_commit_state :: "member_state \<Rightarrow> roster_commit_state \<Rightarrow> member_state" where
  "of_commit_state m state =
     \<lparr>ms_view = rc_view state,
      ms_receiver = (case rc_receiver state of None \<Rightarrow> ms_receiver m | Some g \<Rightarrow> g),
      ms_outbox = (case rc_group_outbox state of None \<Rightarrow> ms_outbox m | Some ob \<Rightarrow> ob),
      ms_deferred = (case rc_deferred state of None \<Rightarrow> ms_deferred m | Some q \<Rightarrow> q)\<rparr>"

definition commit_member_roster ::
  "'s operation_store \<Rightarrow> (bytes \<Rightarrow> bytes) \<Rightarrow> (bytes \<Rightarrow> bytes) \<Rightarrow> roster_commit_input \<Rightarrow> member \<Rightarrow> roster
     \<Rightarrow> 's \<Rightarrow> operation_snapshot \<Rightarrow> member_state \<Rightarrow> ('s, member_state, roster_commit) committed" where
  "commit_member_roster port roster_commitment payload_commitment input authority candidate s snapshot m =
     (case commit_roster_transition port roster_commitment payload_commitment input authority candidate s snapshot (as_commit_state m) of
        (r, s, snapshot, state) \<Rightarrow> (r, s, snapshot, of_commit_state m state))"

datatype group_payload_disposition =
    ApplicationDisposition receive_disposition
  | RosterDisposition roster_commit

definition commit_group_payload_with_deferred ::
  "'s operation_store \<Rightarrow> (bytes \<Rightarrow> bytes) \<Rightarrow> (bytes \<Rightarrow> bytes) \<Rightarrow> group_receive_input
     \<Rightarrow> 's \<Rightarrow> operation_snapshot \<Rightarrow> member_state \<Rightarrow> ('s, member_state, group_payload_disposition) committed" where
  "commit_group_payload_with_deferred port roster_commitment payload_commitment input s snapshot m =
     (case payload_decode (in_plaintext input) of
        Inr (PayloadApplication context) \<Rightarrow>
          (case commit_receive_disposition port payload_commitment context (authenticated_peer input)
                  (in_provider_state input) (in_effect input) s snapshot (ms_receiver m) of
             (r, s, snapshot, receiver) \<Rightarrow>
               (rbind r (\<lambda>d. Inr (ApplicationDisposition d)), s, snapshot, m\<lparr>ms_receiver := receiver\<rparr>))
      | Inr (PayloadRoster candidate) \<Rightarrow>
          (case commit_member_roster port roster_commitment payload_commitment
                  \<lparr>ri_provider = Some (in_provider_state input, in_effect input), ri_prepared_control = None,
                   ri_admission = None, ri_applying = None\<rparr>
                  (authenticated_peer input) candidate s snapshot m of
             (r, s, snapshot, m) \<Rightarrow> (rbind r (\<lambda>d. Inr (RosterDisposition d)), s, snapshot, m))
      | _ \<Rightarrow>
          (case commit_malformed_group_payload port payload_commitment (in_plaintext input) (in_provider_state input)
                  (in_effect input) s snapshot of
             (r, s, snapshot, _) \<Rightarrow>
               (rbind r (\<lambda>_. Inr (ApplicationDisposition (Rejected R_Malformed))), s, snapshot, m)))"

definition commit_hold_roster_without_view ::
  "'s operation_store \<Rightarrow> member \<Rightarrow> bytes \<Rightarrow> roster \<Rightarrow> bytes \<Rightarrow> crypto_state_effect
     \<Rightarrow> 's \<Rightarrow> operation_snapshot \<Rightarrow> deferred_rosters \<Rightarrow> ('s, deferred_rosters, unit) committed" where
  "commit_hold_roster_without_view port pinned_authority group_id control provider_state effect s snapshot queue =
     commit_candidate port
       (case hold_keeping_lowest control queue of (outcome, queue') \<Rightarrow>
          if ros_group_id control \<noteq> group_id \<or> ros_authority control \<noteq> pinned_authority \<or> ros_revision control = 0
             \<or> \<not> (outcome = Held \<or> outcome = HoldDuplicate)
          then Inl OpPolicy
          else
            rbind (begin_candidate port s snapshot) (\<lambda>c.
            rbind (policy (deferred_encode_record group_id queue')) (\<lambda>r.
              Inr (append_group_control_records [encode_control_effect_record effect, r]
                     (c\<lparr>snap_provider_state := provider_state\<rparr>), queue', ())))) s snapshot queue"

definition commit_next_deferred_roster ::
  "'s operation_store \<Rightarrow> (bytes \<Rightarrow> bytes) \<Rightarrow> (bytes \<Rightarrow> bytes) \<Rightarrow> 's \<Rightarrow> operation_snapshot \<Rightarrow> member_state
     \<Rightarrow> ('s, member_state, roster_commit option) committed" where
  "commit_next_deferred_roster port roster_commitment payload_commitment s snapshot m =
     (case next_for (ms_view m) (ms_deferred m) of
        None \<Rightarrow> (Inr None, s, snapshot, m)
      | Some next \<Rightarrow>
          (case commit_member_roster port roster_commitment payload_commitment
                  \<lparr>ri_provider = None, ri_prepared_control = None, ri_admission = None, ri_applying = Some (ros_revision next)\<rparr>
                  (ros_authority (view_roster (ms_view m))) next s snapshot m of
             (r, s, snapshot, m) \<Rightarrow> (rbind r (\<lambda>commit. Inr (Some commit)), s, snapshot, m)))"

definition commit_prune_deferred_rosters ::
  "'s operation_store \<Rightarrow> roster_view \<Rightarrow> bytes \<Rightarrow> 's \<Rightarrow> operation_snapshot \<Rightarrow> deferred_rosters
     \<Rightarrow> ('s, deferred_rosters, bool) committed" where
  "commit_prune_deferred_rosters port view group_id s snapshot queue =
     (let queue' = prune_through (ros_revision (view_roster view)) queue
      in if queue' = queue then (Inr False, s, snapshot, queue)
         else
           commit_candidate port
             (rbind (begin_candidate port s snapshot) (\<lambda>c.
              rbind (policy (deferred_encode_record group_id queue')) (\<lambda>r.
                Inr (append_group_control_records [r] c, queue', True)))) s snapshot queue)"

end
