(* ===== verification/Group_Live.thy ===== *)
theory Group_Live
  imports Client_Link Client_Commit
begin

text \<open>
  Crate \<^verbatim>\<open>tacenta-client\<close>, \<^verbatim>\<open>group_operations.rs\<close>: the functions that drive the live client.  A \<open>prepare_*\<close>
  function encrypts one payload for one recipient and commits the ciphertext with the provider state; a
  \<open>dispatch_*\<close> function reserves an attempt, sends the committed ciphertext and records what the relay
  answered.

  Their state is the client, the store, the snapshot and the values the code borrows mutably.
\<close>

section \<open>Driving the client\<close>

datatype group_live_error = LivePolicy | LiveFrozen | LiveTransport

type_synonym 'a live_result = "group_live_error + 'a"

fun live_error_of_op :: "group_operation_error \<Rightarrow> group_live_error" where
  "live_error_of_op OpPolicy = LivePolicy"
| "live_error_of_op OpFrozen = LiveFrozen"

definition live_client_error :: "error_kind \<Rightarrow> group_live_error" where
  "live_client_error kd = (if kd = KindNetwork \<or> kd = KindRateLimited then LiveTransport else LiveFrozen)"

record ('p, 'n, 'k, 's, 'l) driven =
  dv_client :: "('p, 'n, 'k) client"
  dv_store :: 's
  dv_snapshot :: operation_snapshot
  dv_values :: 'l

type_synonym ('p, 'n, 'k, 's, 'l, 'a) live_step =
  "('p, 'n, 'k, 's, 'l) driven \<Rightarrow> 'a live_result \<times> ('p, 'n, 'k, 's, 'l) driven"

text \<open>A commit, a step of the client, and a check that changes nothing.\<close>

definition on_commit :: "('s \<Rightarrow> operation_snapshot \<Rightarrow> 'l \<Rightarrow> ('s, 'l, 'a) committed) \<Rightarrow> ('p, 'n, 'k, 's, 'l, 'a) live_step" where
  "on_commit f d =
     (case f (dv_store d) (dv_snapshot d) (dv_values d) of
        (r, s, sn, l) \<Rightarrow> (rmap_err live_error_of_op r, d\<lparr>dv_store := s, dv_snapshot := sn, dv_values := l\<rparr>))"

definition on_client :: "('p, 'n, 'k, 'a) client_step \<Rightarrow> ('p, 'n, 'k, 's, 'l, 'a) live_step" where
  "on_client f d =
     (case f (dv_client d) of
        (r, c) \<Rightarrow> (rmap_err (\<lambda>e. live_client_error (error_kind_of e)) r, d\<lparr>dv_client := c\<rparr>))"

definition live_check :: "(('p, 'n, 'k, 's, 'l) driven \<Rightarrow> 'a live_result) \<Rightarrow> ('p, 'n, 'k, 's, 'l, 'a) live_step" where
  "live_check f d = (f d, d)"

text \<open>A step on one of several borrowed values.\<close>

definition on_part ::
  "('l \<Rightarrow> 'm) \<Rightarrow> ('m \<Rightarrow> 'l \<Rightarrow> 'l) \<Rightarrow> (('p, 'n, 'k, 's, 'm) driven \<Rightarrow> 'r \<times> ('p, 'n, 'k, 's, 'm) driven)
     \<Rightarrow> ('p, 'n, 'k, 's, 'l) driven \<Rightarrow> 'r \<times> ('p, 'n, 'k, 's, 'l) driven" where
  "on_part get put f d =
     (case f \<lparr>dv_client = dv_client d, dv_store = dv_store d, dv_snapshot = dv_snapshot d, dv_values = get (dv_values d)\<rparr> of
        (r, e) \<Rightarrow> (r, \<lparr>dv_client = dv_client e, dv_store = dv_store e, dv_snapshot = dv_snapshot e,
                        dv_values = put (dv_values e) (dv_values d)\<rparr>))"

text \<open>The error of a value of the group crate where a live function refuses.\<close>

definition live_policy :: "'e + 'a \<Rightarrow> 'a live_result" where
  "live_policy r = rmap_err (\<lambda>_. LivePolicy) r"

section \<open>Controls\<close>

text \<open>
  A commit run against the store that forgets, on copies: its result, and nothing else.
\<close>

definition preflight :: "(unit \<Rightarrow> operation_snapshot \<Rightarrow> 'l \<Rightarrow> (unit, 'l, 'a) committed) \<Rightarrow> ('p, 'n, 'k, 's, 'l, 'a) live_step" where
  "preflight f = live_check (\<lambda>d. rmap_err live_error_of_op (fst (f () (dv_snapshot d) (dv_values d))))"

definition live_handoff :: "(bytes \<Rightarrow> bytes) \<Rightarrow> member \<Rightarrow> bytes \<Rightarrow> control_outbox \<Rightarrow> control_handoff option" where
  "live_handoff payload_commitment recipient payload ob =
     (case ctl_handoff payload_commitment recipient payload ob of
        Inl _ \<Rightarrow> None
      | Inr existing \<Rightarrow>
          if ho_disposition existing = CtlPrepared \<or> ho_disposition existing = CtlHandedOff then Some existing else None)"

definition prepare_control_handoff ::
  "('p, 'n, 'k) client_env \<Rightarrow> 's operation_store \<Rightarrow> (bytes \<Rightarrow> bytes) \<Rightarrow> member \<Rightarrow> device_addr \<Rightarrow> bytes
     \<Rightarrow> ('p, 'n, 'k, 's, control_outbox, control_handoff) live_step" where
  "prepare_control_handoff env port payload_commitment recipient route payload d =
     (if st_is_frozen port (dv_store d) then (Inl LiveFrozen, d)
      else case live_handoff payload_commitment recipient payload (dv_values d) of
        Some existing \<Rightarrow> (Inr existing, d)
      | None \<Rightarrow>
          cbind (preflight (commit_prepared_control_handoff discard_port payload_commitment recipient payload [0] [])) (\<lambda>_.
          cbind (on_client (prepare_group_ciphertext env route (mem_identity recipient) payload)) (\<lambda>(ciphertext, provider_state).
            on_commit (commit_prepared_control_handoff port payload_commitment recipient payload ciphertext provider_state))) d)"

definition is_invitation_payload :: "group_payload \<Rightarrow> bool" where
  "is_invitation_payload payload =
     (case payload of PayloadBootstrap _ \<Rightarrow> True | PayloadAcceptance _ \<Rightarrow> True | PayloadRevocation _ \<Rightarrow> True | _ \<Rightarrow> False)"

definition prepare_outbound_invitation_control ::
  "('p, 'n, 'k) client_env \<Rightarrow> 's operation_store \<Rightarrow> (bytes \<Rightarrow> bytes) \<Rightarrow> member \<Rightarrow> device_addr \<Rightarrow> group_payload
     \<Rightarrow> ('p, 'n, 'k, 's, control_outbox, control_handoff) live_step" where
  "prepare_outbound_invitation_control env port payload_commitment recipient route payload =
     cbind (live_check (\<lambda>_. if \<not> is_invitation_payload payload then Inl LivePolicy else live_policy (payload_encode payload)))
       (prepare_control_handoff env port payload_commitment recipient route)"

definition is_own_identity :: "('p, 'n, 'k) client_env \<Rightarrow> member \<Rightarrow> ('p, 'n, 'k, 's, 'l) driven \<Rightarrow> bool" where
  "is_own_identity env m d = (pv_identity_key (env_crypto env) (cl_party (dv_client d)) = mem_identity m)"

definition revocation_payload :: "invitation \<Rightarrow> group_payload live_result" where
  "revocation_payload i =
     rbind (live_policy (revocation_new (inv_group_id i) (inv_id i) (inv_source_revision i) (inv_source_digest i))) (\<lambda>a.
       Inr (PayloadRevocation a))"

definition prepare_authority_invitation_revocation ::
  "('p, 'n, 'k) client_env \<Rightarrow> 's operation_store \<Rightarrow> (bytes \<Rightarrow> bytes) \<Rightarrow> member \<Rightarrow> member \<Rightarrow> device_addr \<Rightarrow> bytes \<Rightarrow> u64
     \<Rightarrow> ('p, 'n, 'k, 's, invitation_book \<times> control_outbox, control_handoff) live_step" where
  "prepare_authority_invitation_revocation env port payload_commitment authority recipient route invitation_id now =
     cbind (live_check (\<lambda>d. if is_own_identity env authority d then Inr () else Inl LivePolicy)) (\<lambda>_.
     cbind (on_commit (commit_authority_invitation_revocation_transition port payload_commitment authority invitation_id now)) (\<lambda>invitation.
     cbind (live_check (\<lambda>_. if inv_target invitation \<noteq> recipient then Inl LivePolicy else revocation_payload invitation)) (\<lambda>payload.
     cbind (live_check (\<lambda>_. live_policy (payload_encode payload))) (\<lambda>encoded d.
       case ctl_handoff payload_commitment recipient encoded (snd (dv_values d)) of
         Inr handoff \<Rightarrow> (Inr handoff, d)
       | Inl _ \<Rightarrow> on_part snd (\<lambda>ob live. (fst live, ob)) (prepare_outbound_invitation_control env port payload_commitment recipient route payload) d))))"

definition prepare_outbound_roster_control ::
  "('p, 'n, 'k) client_env \<Rightarrow> 's operation_store \<Rightarrow> (bytes \<Rightarrow> bytes) \<Rightarrow> member \<Rightarrow> device_addr \<Rightarrow> roster
     \<Rightarrow> ('p, 'n, 'k, 's, control_outbox, control_handoff) live_step" where
  "prepare_outbound_roster_control env port payload_commitment recipient route successor =
     cbind (live_check (\<lambda>_. live_policy (payload_encode (PayloadRoster successor))))
       (prepare_control_handoff env port payload_commitment recipient route)"

definition dispatch_outbound_roster_control ::
  "('p, 'n, 'k) client_env \<Rightarrow> 's operation_store \<Rightarrow> (bytes \<Rightarrow> bytes) \<Rightarrow> member \<Rightarrow> bytes \<Rightarrow> device_addr
     \<Rightarrow> ('p, 'n, 'k, 's, control_outbox, control_handoff) live_step" where
  "dispatch_outbound_roster_control env port payload_commitment recipient payload route =
     cbind (on_commit (commit_group_control_outbox_transition port payload_commitment (ctl_reserve payload_commitment recipient payload))) (\<lambda>handoff.
     cbind (on_client (dispatch_group_ciphertext env route (ho_ciphertext handoff))) (\<lambda>_.
     cbind (on_commit (commit_group_control_outbox_transition port payload_commitment (ctl_accept payload_commitment recipient payload))) (\<lambda>_.
       live_check (\<lambda>d. live_policy (ctl_handoff payload_commitment recipient payload (dv_values d))))))"

section \<open>Who may be sent a roster\<close>

definition recipient_can_receive_roster_control :: "roster_view \<Rightarrow> roster \<Rightarrow> member \<Rightarrow> bool" where
  "recipient_can_receive_roster_control view successor recipient =
     (recipient \<in> set (ros_members (view_roster view)) \<or> recipient \<in> set (ros_members successor))"

definition recipient_can_observe_invitation_successor :: "invitation_book option \<Rightarrow> roster \<Rightarrow> member \<Rightarrow> u64 \<Rightarrow> bool" where
  "recipient_can_observe_invitation_successor book successor recipient now =
     (case book of
        None \<Rightarrow> False
      | Some b \<Rightarrow>
          list_ex (\<lambda>i. inv_group_id i = ros_group_id successor \<and> inv_target i = recipient
              \<and> inv_source_revision i \<le> ros_revision successor \<and> now < inv_expires_at i
              \<and> (inv_status i = InvPending \<or> inv_status i = InvAcceptedPendingAdmission)) (book_invitations b))"

definition admission_is_revoked :: "invitation_book option \<Rightarrow> roster \<Rightarrow> invitation_admission \<Rightarrow> bool" where
  "admission_is_revoked book successor admission =
     (case book of
        None \<Rightarrow> False
      | Some b \<Rightarrow>
          list_ex (\<lambda>i. inv_group_id i = ros_group_id successor \<and> inv_id i = adm_id admission
              \<and> inv_target i = adm_target admission \<and> inv_status i = InvRevoked) (book_invitations b))"

definition recipient_can_receive_installed_roster_control :: "roster_view \<Rightarrow> member \<Rightarrow> member \<Rightarrow> bool" where
  "recipient_can_receive_installed_roster_control view authority recipient =
     (ros_authority (view_roster view) = authority \<and> recipient \<in> set (ros_members (view_roster view)))"

definition replaced_roster_members :: "(bytes \<Rightarrow> bytes) \<Rightarrow> operation_snapshot \<Rightarrow> roster_view \<Rightarrow> member list" where
  "replaced_roster_members roster_commitment sn view =
     (let group_id = ros_group_id (view_roster view);
          scope = ascii ''TCGS'' @ group_id
      in case do {
             found \<leftarrow> rfind (\<lambda>r. starts_with r scope) (snap_group_controls sn);
             split_at_checked 4 (drop (length scope) found)
           } of
           None \<Rightarrow> []
         | Some (len, preimage) \<Rightarrow>
             if length preimage \<noteq> unat (u32_from_be len)
                \<or> roster_commitment preimage \<noteq> ros_predecessor (view_roster view) then []
             else case roster_decode preimage of
               Inl _ \<Rightarrow> []
             | Inr roster \<Rightarrow> if ros_group_id roster = group_id then ros_members roster else [])"

definition roster_control_recipient_is_entitled ::
  "(bytes \<Rightarrow> bytes) \<Rightarrow> operation_snapshot \<Rightarrow> roster_view \<Rightarrow> invitation_book option \<Rightarrow> roster \<Rightarrow> member \<Rightarrow> member \<Rightarrow> u64 \<Rightarrow> bool" where
  "roster_control_recipient_is_entitled roster_commitment sn view book successor authority recipient now =
     (if view_roster view = successor then
        recipient_can_receive_installed_roster_control view authority recipient
        \<or> ros_authority (view_roster view) = authority \<and> recipient \<in> set (replaced_roster_members roster_commitment sn view)
        \<or> recipient_can_observe_invitation_successor book successor recipient now
      else
        recipient_can_receive_roster_control view successor recipient
        \<or> recipient_can_observe_invitation_successor book successor recipient now)"

section \<open>The authority's rosters\<close>

record authority_control_state =
  ac_view :: roster_view
  ac_receiver :: group_receiver
  ac_logical_sends :: "logical_send list"
  ac_group_outbox :: "group_outbox option"
  ac_outbox :: control_outbox
  ac_invitation_book :: "invitation_book option"

definition authority_commit_state :: "authority_control_state \<Rightarrow> roster_commit_state" where
  "authority_commit_state a =
     \<lparr>rc_view = ac_view a, rc_receiver = Some (ac_receiver a), rc_group_outbox = ac_group_outbox a,
      rc_control_outbox = Some (ac_outbox a), rc_invitation_book = ac_invitation_book a, rc_deferred = None,
      rc_logical_sends = ac_logical_sends a\<rparr>"

definition authority_of_commit_state :: "authority_control_state \<Rightarrow> roster_commit_state \<Rightarrow> authority_control_state" where
  "authority_of_commit_state a state =
     \<lparr>ac_view = rc_view state,
      ac_receiver = (case rc_receiver state of None \<Rightarrow> ac_receiver a | Some g \<Rightarrow> g),
      ac_logical_sends = rc_logical_sends state,
      ac_group_outbox = rc_group_outbox state,
      ac_outbox = (case rc_control_outbox state of None \<Rightarrow> ac_outbox a | Some ob \<Rightarrow> ob),
      ac_invitation_book = rc_invitation_book state\<rparr>"

definition commit_authority_roster ::
  "'s operation_store \<Rightarrow> (bytes \<Rightarrow> bytes) \<Rightarrow> (bytes \<Rightarrow> bytes) \<Rightarrow> member \<Rightarrow> invitation_admission option \<Rightarrow> prepared_control
     \<Rightarrow> bytes \<Rightarrow> roster \<Rightarrow> 's \<Rightarrow> operation_snapshot \<Rightarrow> authority_control_state \<Rightarrow> ('s, authority_control_state, roster_commit) committed" where
  "commit_authority_roster port roster_commitment payload_commitment authority admission prepared provider_state successor s sn a =
     (case commit_roster_transition port roster_commitment payload_commitment
             \<lparr>ri_provider = Some (provider_state, Advanced), ri_prepared_control = Some prepared, ri_admission = admission,
              ri_applying = None\<rparr> authority successor s sn (authority_commit_state a) of
        (r, s, sn, state) \<Rightarrow> (r, s, sn, authority_of_commit_state a state))"

definition authority_may_send ::
  "member \<Rightarrow> invitation_admission option \<Rightarrow> u64 \<Rightarrow> roster \<Rightarrow> authority_control_state \<Rightarrow> bool" where
  "authority_may_send recipient admission now successor a =
     (\<not> (case admission of
            None \<Rightarrow> False
          | Some adm \<Rightarrow> adm_target adm = recipient \<and> admission_is_revoked (ac_invitation_book a) successor adm)
      \<and> (recipient_can_receive_roster_control (ac_view a) successor recipient
         \<or> recipient_can_observe_invitation_successor (ac_invitation_book a) successor recipient now))"

definition prepare_authority_roster_control ::
  "('p, 'n, 'k) client_env \<Rightarrow> 's operation_store \<Rightarrow> (bytes \<Rightarrow> bytes) \<Rightarrow> (bytes \<Rightarrow> bytes) \<Rightarrow> member \<Rightarrow> member \<Rightarrow> device_addr
     \<Rightarrow> invitation_admission option \<Rightarrow> u64 \<Rightarrow> roster
     \<Rightarrow> ('p, 'n, 'k, 's, authority_control_state, roster_commit \<times> control_handoff) live_step" where
  "prepare_authority_roster_control env port roster_commitment payload_commitment authority recipient route admission now successor =
     cbind (live_check (\<lambda>d.
       if st_is_frozen port (dv_store d) then Inl LiveFrozen
       else if \<not> is_own_identity env authority d then Inl LivePolicy
       else if \<not> authority_may_send recipient admission now successor (dv_values d) then Inl LivePolicy
       else
         rbind (live_policy (roster_encode successor)) (\<lambda>preimage.
           if fst (accept_successor authority successor (roster_commitment preimage) (ac_view (dv_values d))) \<noteq> RosterAccepted
           then Inl LivePolicy else live_policy (payload_encode (PayloadRoster successor))))) (\<lambda>payload.
     cbind (preflight (commit_authority_roster discard_port roster_commitment payload_commitment authority admission
                \<lparr>pre_recipient = recipient, pre_payload = payload, pre_ciphertext = [0]\<rparr> [] successor)) (\<lambda>_.
     cbind (on_client (prepare_group_ciphertext env route (mem_identity recipient) payload)) (\<lambda>(ciphertext, provider_state).
     cbind (on_commit (commit_authority_roster port roster_commitment payload_commitment authority admission
                \<lparr>pre_recipient = recipient, pre_payload = payload, pre_ciphertext = ciphertext\<rparr> provider_state successor)) (\<lambda>roster.
       live_check (\<lambda>d.
         case ctl_handoff payload_commitment recipient payload (ac_outbox (dv_values d)) of
           Inl _ \<Rightarrow> Inl LiveFrozen
         | Inr handoff \<Rightarrow> Inr (roster, handoff))))))"

definition prepare_installed_roster_control ::
  "('p, 'n, 'k) client_env \<Rightarrow> 's operation_store \<Rightarrow> (bytes \<Rightarrow> bytes) \<Rightarrow> (bytes \<Rightarrow> bytes) \<Rightarrow> roster_view \<Rightarrow> invitation_book option
     \<Rightarrow> member \<Rightarrow> member \<Rightarrow> device_addr \<Rightarrow> u64 \<Rightarrow> ('p, 'n, 'k, 's, control_outbox, control_handoff) live_step" where
  "prepare_installed_roster_control env port roster_commitment payload_commitment view book authority recipient route now =
     cbind (live_check (\<lambda>d.
       if \<not> is_own_identity env authority d
          \<or> \<not> roster_control_recipient_is_entitled roster_commitment (dv_snapshot d) view book (view_roster view) authority recipient now
       then Inl LivePolicy else Inr ())) (\<lambda>_.
       prepare_outbound_roster_control env port payload_commitment recipient route (view_roster view))"

section \<open>Logical sends\<close>

text \<open>What a recipient that may be encrypted for has already, and its payload.\<close>

definition recipient_payload ::
  "logical_id \<Rightarrow> member \<Rightarrow> group_outbox \<Rightarrow> (recipient_progress + bytes) live_result" where
  "recipient_payload ident recipient ob =
     rbind (live_policy (send_of ob ident)) (\<lambda>send.
     rbind (live_policy (send_application_context send recipient)) (\<lambda>application.
     rbind (ok_or LivePolicy (find (\<lambda>p. prog_recipient p = recipient) (send_recipients send))) (\<lambda>p.
       case prog_disposition p of
         RecipientPending \<Rightarrow> rbind (live_policy (payload_encode (PayloadApplication application))) (\<lambda>payload. Inr (Inr payload))
       | Prepared \<Rightarrow> Inr (Inl p)
       | HandedOff \<Rightarrow> Inr (Inl p)
       | _ \<Rightarrow> Inl LivePolicy)))"

definition prepare_outbox_group_recipient ::
  "('p, 'n, 'k) client_env \<Rightarrow> 's operation_store \<Rightarrow> (bytes \<Rightarrow> bytes) \<Rightarrow> logical_id \<Rightarrow> member \<Rightarrow> device_addr
     \<Rightarrow> ('p, 'n, 'k, 's, group_outbox, recipient_progress) live_step" where
  "prepare_outbox_group_recipient env port payload_commitment ident recipient route =
     cbind (live_check (\<lambda>d.
       if st_is_frozen port (dv_store d) then Inl LiveFrozen else recipient_payload ident recipient (dv_values d))) (\<lambda>found.
       case found of
         Inl p \<Rightarrow> live_check (\<lambda>_. Inr p)
       | Inr payload \<Rightarrow>
           cbind (preflight (commit_outbox_prepared_ciphertext discard_port payload_commitment ident recipient [0] [])) (\<lambda>_.
           cbind (on_client (prepare_group_ciphertext env route (mem_identity recipient) payload)) (\<lambda>(ciphertext, provider_state).
             on_commit (commit_outbox_prepared_ciphertext port payload_commitment ident recipient ciphertext provider_state))))"

definition dispatch_outbox_group_handoff ::
  "('p, 'n, 'k) client_env \<Rightarrow> 's operation_store \<Rightarrow> (bytes \<Rightarrow> bytes) \<Rightarrow> logical_id \<Rightarrow> member \<Rightarrow> device_addr
     \<Rightarrow> ('p, 'n, 'k, 's, group_outbox, recipient_progress) live_step" where
  "dispatch_outbox_group_handoff env port payload_commitment ident recipient route =
     cbind (on_commit (commit_outbox_handoff_reservation port payload_commitment ident recipient)) (\<lambda>handoff.
     cbind (live_check (\<lambda>_. ok_or LivePolicy (prog_ciphertext handoff))) (\<lambda>ciphertext.
     cbind (on_client (dispatch_group_ciphertext env route ciphertext)) (\<lambda>_.
       on_commit (commit_outbox_relay_acceptance port payload_commitment ident recipient))))"

end
