(* ===== verification/Group_Client.thy ===== *)
theory Group_Client
  imports Group_Live
begin

text \<open>
  Crate \<^verbatim>\<open>tacenta-client\<close>, \<^verbatim>\<open>group_client.rs\<close>: the coordinator of one group.  It owns the client and the
  durable store, keeps the group state that the snapshot records, freezes when a commit is in doubt,
  and recovers.

  The environment is the client's, the store the caller passed, and the two commitments of the core
  library.  A call takes the coordinator and returns its result with the coordinator it leaves.
\<close>

section \<open>Values\<close>

datatype coordinator_error =
    GErrClient client_error | GErrFrozen | GErrPolicy | GErrTransport | GErrNoGroup | GErrRecovery | GErrStateMismatch | GErrRollback

fun group_error_of_op :: "group_operation_error \<Rightarrow> coordinator_error" where
  "group_error_of_op OpPolicy = GErrPolicy"
| "group_error_of_op OpFrozen = GErrFrozen"

fun group_error_of_live :: "group_live_error \<Rightarrow> coordinator_error" where
  "group_error_of_live LivePolicy = GErrPolicy"
| "group_error_of_live LiveFrozen = GErrFrozen"
| "group_error_of_live LiveTransport = GErrTransport"

definition g_policy :: "'e + 'a \<Rightarrow> coordinator_error + 'a" where
  "g_policy r = rmap_err (\<lambda>_. GErrPolicy) r"

definition g_recovery :: "'e + 'a \<Rightarrow> coordinator_error + 'a" where
  "g_recovery r = rmap_err (\<lambda>_. GErrRecovery) r"

record group_event =
  ev_id :: u64
  ev_group_id :: bytes
  ev_revision :: u64
  ev_sender :: member
  ev_sequence :: u64
  ev_payload :: bytes

definition group_event_new :: "u64 \<Rightarrow> application_context \<Rightarrow> group_event" where
  "group_event_new event_id context =
     \<lparr>ev_id = event_id, ev_group_id = ctx_group_id context, ev_revision = ctx_revision context, ev_sender = ctx_sender context,
      ev_sequence = ctx_sequence context, ev_payload = ctx_payload context\<rparr>"

datatype group_outcome =
    OutEvent group_event
  | OutDuplicate u64
  | OutDeferred
  | OutRejected receive_refusal
  | OutRoster roster_disposition "group_event list"
  | OutRosterDeferred
  | OutInvitation invitation_bootstrap
  | OutInvitationStatus invitation_status
  | OutRefused

record inbound =
  ib_redelivered :: "group_event list"
  ib_lost_events :: u64
  ib_items :: "(device_addr \<times> group_outcome) list"
  ib_direct :: "received list"
  ib_dropped :: nat
  ib_frozen :: bool

definition outcome_events :: "group_outcome \<Rightarrow> group_event list" where
  "outcome_events outcome = (case outcome of OutEvent event \<Rightarrow> [event] | OutRoster _ unlocked \<Rightarrow> unlocked | _ \<Rightarrow> [])"

definition inbound_events :: "inbound \<Rightarrow> group_event list" where
  "inbound_events ib = ib_redelivered ib @ concat (map (\<lambda>(_, outcome). outcome_events outcome) (ib_items ib))"

fun receive_outcome :: "receive_disposition \<Rightarrow> application_context \<Rightarrow> group_outcome" where
  "receive_outcome (Accepted event_id) context = OutEvent (group_event_new event_id context)"
| "receive_outcome (Duplicate event_id) context = OutDuplicate event_id"
| "receive_outcome Deferred context = OutDeferred"
| "receive_outcome (Rejected refusal) context = OutRejected refusal"

definition unlocked_events :: "revalidated list \<Rightarrow> group_event list" where
  "unlocked_events items =
     List.map_filter (\<lambda>item. case rev_disposition item of
        Accepted event_id \<Rightarrow> Some (group_event_new event_id (rev_context item)) | _ \<Rightarrow> None) items"

record group_state =
  gs_group_id :: bytes
  gs_authority :: member
  gs_source :: "roster option"
  gs_local :: member
  gs_view :: "roster_view option"
  gs_receiver :: "group_receiver option"
  gs_outbox :: group_outbox
  gs_control :: control_outbox
  gs_book :: invitation_book
  gs_deferred :: deferred_rosters

text \<open>The parts of a state with a view that the receive commits and the authority's commits borrow.\<close>

definition member_part :: "group_state \<Rightarrow> member_state option" where
  "member_part st =
     (case (gs_view st, gs_receiver st) of
        (Some view, Some receiver) \<Rightarrow>
          Some \<lparr>ms_view = view, ms_receiver = receiver, ms_outbox = gs_outbox st, ms_deferred = gs_deferred st\<rparr>
      | _ \<Rightarrow> None)"

definition put_member_part :: "member_state \<Rightarrow> group_state \<Rightarrow> group_state" where
  "put_member_part m st =
     st\<lparr>gs_view := Some (ms_view m), gs_receiver := Some (ms_receiver m), gs_outbox := ms_outbox m, gs_deferred := ms_deferred m\<rparr>"

definition authority_part :: "group_state \<Rightarrow> authority_control_state option" where
  "authority_part st =
     (case (gs_view st, gs_receiver st) of
        (Some view, Some receiver) \<Rightarrow>
          Some \<lparr>ac_view = view, ac_receiver = receiver, ac_logical_sends = [], ac_group_outbox = Some (gs_outbox st),
                ac_outbox = gs_control st, ac_invitation_book = Some (gs_book st)\<rparr>
      | _ \<Rightarrow> None)"

definition put_authority_part :: "authority_control_state \<Rightarrow> group_state \<Rightarrow> group_state" where
  "put_authority_part a st =
     st\<lparr>gs_view := Some (ac_view a), gs_receiver := Some (ac_receiver a),
        gs_outbox := (case ac_group_outbox a of None \<Rightarrow> gs_outbox st | Some ob \<Rightarrow> ob), gs_control := ac_outbox a,
        gs_book := (case ac_invitation_book a of None \<Rightarrow> gs_book st | Some book \<Rightarrow> book)\<rparr>"

record ('p, 'n, 'k, 's) group_env =
  ge_client :: "('p, 'n, 'k) client_env"
  ge_inner :: "'s operation_store"
  ge_roster_commitment :: "bytes \<Rightarrow> bytes"
  ge_payload_commitment :: "bytes \<Rightarrow> bytes"

record ('p, 'n, 'k, 's) group_client =
  gc_client :: "('p, 'n, 'k) client"
  gc_store :: "'s durable_store"
  gc_snapshot :: operation_snapshot
  gc_group :: "group_state option"
  gc_poisoned :: bool
  gc_handed_over :: u64

type_synonym ('p, 'n, 'k, 's, 'a) group_step =
  "('p, 'n, 'k, 's) group_client \<Rightarrow> (coordinator_error + 'a) \<times> ('p, 'n, 'k, 's) group_client"

abbreviation ge_port :: "('p, 'n, 'k, 's) group_env \<Rightarrow> 's durable_store operation_store" where
  "ge_port e \<equiv> durable_port (ge_inner e)"

text \<open>A step of the client, and a commit that changes only the snapshot.\<close>

definition gc_on_client :: "('p, 'n, 'k, 'a) client_step \<Rightarrow> ('p, 'n, 'k, 's, 'a) group_step" where
  "gc_on_client f g = (case f (gc_client g) of (r, c) \<Rightarrow> (rmap_err GErrClient r, g\<lparr>gc_client := c\<rparr>))"

definition gc_commit ::
  "('s durable_store \<Rightarrow> operation_snapshot \<Rightarrow> ('s durable_store, unit, 'a) committed) \<Rightarrow> ('p, 'n, 'k, 's, 'a) group_step" where
  "gc_commit f g =
     (case f (gc_store g) (gc_snapshot g) of
        (r, s, sn, _) \<Rightarrow> (rmap_err group_error_of_op r, g\<lparr>gc_store := s, gc_snapshot := sn\<rparr>))"

definition gc_check :: "(('p, 'n, 'k, 's) group_client \<Rightarrow> coordinator_error + 'a) \<Rightarrow> ('p, 'n, 'k, 's, 'a) group_step" where
  "gc_check f g = (f g, g)"

definition gc_is_frozen :: "('p, 'n, 'k, 's) group_client \<Rightarrow> bool" where
  "gc_is_frozen g = (gc_poisoned g \<or> ds_frozen (gc_store g))"

definition gc_member :: "('p, 'n, 'k, 's) group_env \<Rightarrow> ('p, 'n, 'k, 's) group_client \<Rightarrow> coordinator_error + member" where
  "gc_member e g =
     rbind (ok_or GErrPolicy (u8_try_from (unat (dev_device (cl_me (gc_client g)))))) (\<lambda>device.
       Inr (Member (pv_identity_key (env_crypto (ge_client e)) (cl_party (gc_client g))) [device]))"

section \<open>Held rosters\<close>

text \<open>Each pass of the loop applies one held control, and its commit takes it out of the queue.\<close>

lemma next_for_found:
  assumes "next_for view q = Some held"
  shows "held \<in> set q" "checked_add (ros_revision (view_roster view)) 1 = Some (ros_revision held)"
  using assms by (auto simp: next_for_def find_Some_iff dest: nth_mem)

lemma applied_shrinks:
  assumes "held \<in> set q" and "checked_add current 1 = Some (ros_revision held)"
  shows "length (snd (defer_control disposition current held (Some (ros_revision held)) q)) < length q"
proof -
  have now: "\<not> ros_revision held > saturating_add current 1"
    using assms(2) by (auto simp: checked_add_def saturating_add_def split: if_splits)
  have less: "length (remove_revision (ros_revision held) q) < length q"
    unfolding remove_revision_def using assms(1) by (intro length_filter_less [where x = held]) simp_all
  have "remove_revision (ros_revision held) (prune_through r q) = prune_through r (remove_revision (ros_revision held) q)" for r
    unfolding remove_revision_def prune_through_def by (simp add: conj_commute)
  then have "length (remove_revision (ros_revision held) (prune_through r q)) < length q" for r
    using le_less_trans [OF length_filter_le less] by (simp add: prune_through_def)
  then show ?thesis
    using now less by (auto simp: defer_control_def split: roster_disposition.split roster_refusal.split)
qed

lemma roster_candidate_deferred:
  assumes "roster_candidate port rc pc input authority candidate s sn state = Inr (c, state', com)"
  shows "rc_deferred state' = map_option (\<lambda>q. snd (defer_control (com_disposition com) (ros_revision (view_roster (rc_view state))) candidate (ri_applying input) q)) (rc_deferred state)"
  using assms
  by (cases "rc_deferred state") (auto simp: roster_candidate_def Let_def rbind_eq_Inr case_prod_beta)

lemma next_deferred_shrinks:
  assumes "commit_next_deferred_roster port rc pc s sn m = (Inr (Some commit), s', sn', m')"
  shows "length (ms_deferred m') < length (ms_deferred m)"
proof -
  obtain held state where held: "next_for (ms_view m) (ms_deferred m) = Some held"
    and com: "commit_roster_transition port rc pc \<lparr>ri_provider = None, ri_prepared_control = None, ri_admission = None,
        ri_applying = Some (ros_revision held)\<rparr> (ros_authority (view_roster (ms_view m))) held s sn (as_commit_state m)
      = (Inr commit, s', sn', state)" and m': "m' = of_commit_state m state"
    using assms
    by (auto simp: commit_next_deferred_roster_def commit_member_roster_def rbind_eq_Inr split: option.splits prod.splits)
  obtain c where "roster_candidate port rc pc \<lparr>ri_provider = None, ri_prepared_control = None, ri_admission = None,
        ri_applying = Some (ros_revision held)\<rparr> (ros_authority (view_roster (ms_view m))) held s sn (as_commit_state m) = Inr (c, state, commit)"
    using com by (auto simp: commit_roster_transition_def commit_candidate_def split: sum.splits prod.splits if_splits)
  from roster_candidate_deferred [OF this]
  have "rc_deferred state = Some (snd (defer_control (com_disposition commit) (ros_revision (view_roster (ms_view m))) held
      (Some (ros_revision held)) (ms_deferred m)))"
    by (simp add: as_commit_state_def)
  then show ?thesis
    using applied_shrinks [OF next_for_found [OF held]] m' by (simp add: of_commit_state_def)
qed

text \<open>\<open>drain_deferred_rosters\<close>: the loop, and then the held controls the view has passed are dropped.\<close>

function drain_loop ::
  "'s operation_store \<Rightarrow> (bytes \<Rightarrow> bytes) \<Rightarrow> (bytes \<Rightarrow> bytes) \<Rightarrow> 's \<Rightarrow> operation_snapshot \<Rightarrow> member_state
     \<Rightarrow> ('s, member_state, group_event list) committed" where
  "drain_loop port rc pc s sn m =
     (case commit_next_deferred_roster port rc pc s sn m of
        (Inl e, s', sn', m') \<Rightarrow> (Inl e, s', sn', m')
      | (Inr None, s', sn', m') \<Rightarrow> (Inr [], s', sn', m')
      | (Inr (Some commit), s', sn', m') \<Rightarrow>
          (case drain_loop port rc pc s' sn' m' of
             (r, s'', sn'', m'') \<Rightarrow> (rbind r (\<lambda>events. Inr (unlocked_events (com_revalidated commit) @ events)), s'', sn'', m'')))"
  by pat_completeness auto
termination
  by (relation "measure (\<lambda>(port, rc, pc, s, sn, m). length (ms_deferred m))") (auto intro: next_deferred_shrinks [OF sym])

definition drain_deferred_rosters ::
  "'s operation_store \<Rightarrow> (bytes \<Rightarrow> bytes) \<Rightarrow> (bytes \<Rightarrow> bytes) \<Rightarrow> 's \<Rightarrow> operation_snapshot \<Rightarrow> group_state
     \<Rightarrow> ('s, group_state, group_event list) committed" where
  "drain_deferred_rosters port rc pc s sn st =
     (case member_part st of
        None \<Rightarrow> (Inr [], s, sn, st)
      | Some m \<Rightarrow>
          (case drain_loop port rc pc s sn m of
             (Inl e, s, sn, m) \<Rightarrow> (Inl e, s, sn, put_member_part m st)
           | (Inr events, s, sn, m) \<Rightarrow>
               (case commit_prune_deferred_rosters port (ms_view m) (gs_group_id st) s sn (ms_deferred m) of
                  (r, s, sn, queue) \<Rightarrow>
                    (rbind r (\<lambda>_. Inr events), s, sn, put_member_part (m\<lparr>ms_deferred := queue\<rparr>) st))))"

section \<open>Opening, attaching and recovering\<close>

definition recovered_provider_state :: "'s operation_store \<Rightarrow> 's \<Rightarrow> (coordinator_error + bytes option) \<times> 's" where
  "recovered_provider_state inner s =
     (case st_recover inner s of
        (r, s) \<Rightarrow> (rbind (g_recovery r) (\<lambda>recovered. Inr (map_option snap_provider_state recovered)), s))"

definition group_open ::
  "('p, 'n, 'k, 's) group_env \<Rightarrow> ('p, 'n, 'k) client \<Rightarrow> 's \<Rightarrow> (coordinator_error + ('p, 'n, 'k, 's) group_client) \<times> 's durable_store" where
  "group_open e c s =
     (let coordinator = (\<lambda>d sn. \<lparr>gc_client = c, gc_store = d, gc_snapshot = sn, gc_group = None, gc_poisoned = False, gc_handed_over = 0\<rparr>)
      in case st_recover (ge_port e) (durable_new s) of
        (Inl _, d) \<Rightarrow> (Inl GErrRecovery, d)
      | (Inr (Some sn), d) \<Rightarrow>
          (if \<not> state_has_this_identity (ge_client e) (snap_provider_state sn) c then Inl GErrRecovery
           else rbind (rmap_err GErrClient (export_state (ge_client e) c)) (\<lambda>state.
             if state \<noteq> snap_provider_state sn then Inl GErrStateMismatch else Inr (coordinator d sn)), d)
      | (Inr None, d) \<Rightarrow>
          (case export_state (ge_client e) c of
             Inl err \<Rightarrow> (Inl (GErrClient err), d)
           | Inr state \<Rightarrow>
               (case commit_provider_state (ge_port e) state d (snapshot_empty 0) of
                  (r, d, sn, _) \<Rightarrow> (rbind (rmap_err group_error_of_op r) (\<lambda>_. Inr (coordinator d sn)), d))))"

text \<open>What \<open>attach\<close> rebuilds from the snapshot, before it applies held controls.\<close>

definition has_control :: "bytes \<Rightarrow> operation_snapshot \<Rightarrow> bool" where
  "has_control tag sn = list_ex (\<lambda>r. starts_with r tag) (snap_group_controls sn)"

definition rebuild_view ::
  "(bytes \<Rightarrow> bytes) \<Rightarrow> operation_snapshot \<Rightarrow> bytes \<Rightarrow> member \<Rightarrow> roster option \<Rightarrow> coordinator_error + roster_view option" where
  "rebuild_view rc sn group_id authority source =
     (if has_control (ascii ''TCGV'') sn then
        rbind (g_recovery (recover_group_roster_view rc sn authority)) (\<lambda>view.
          if ros_group_id (view_roster view) \<noteq> group_id then Inl GErrPolicy else Inr (Some view))
      else case source of
        Some r \<Rightarrow>
          if ros_group_id r \<noteq> group_id then Inl GErrPolicy
          else rbind (g_policy (roster_encode r)) (\<lambda>preimage.
               rbind (g_policy (accept_source authority r (rc preimage))) (\<lambda>view. Inr (Some view)))
      | None \<Rightarrow> Inr None)"

definition rebuild_receiver ::
  "(bytes \<Rightarrow> bytes) \<Rightarrow> (bytes \<Rightarrow> bytes) \<Rightarrow> operation_snapshot \<Rightarrow> member \<Rightarrow> roster_view option \<Rightarrow> coordinator_error + group_receiver option" where
  "rebuild_receiver rc pc sn local_member view =
     (case view of
        None \<Rightarrow> Inr None
      | Some v \<Rightarrow>
          if snap_application_state sn = [] then Inr (Some (receiver_new (view_roster v) (view_digest v) local_member))
          else rbind (g_recovery (recover_group_receiver rc pc sn)) (\<lambda>receiver. Inr (Some receiver)))"

definition rebuild ::
  "(bytes \<Rightarrow> bytes) \<Rightarrow> (bytes \<Rightarrow> bytes) \<Rightarrow> operation_snapshot \<Rightarrow> member \<Rightarrow> bytes \<Rightarrow> member \<Rightarrow> roster option \<Rightarrow> coordinator_error + group_state" where
  "rebuild rc pc sn local_member group_id authority source =
     rbind (rebuild_view rc sn group_id authority source) (\<lambda>view.
     rbind (rebuild_receiver rc pc sn local_member view) (\<lambda>receiver.
     rbind (g_recovery (recover_group_outbox pc sn group_id)) (\<lambda>outbox.
     rbind (g_recovery (recover_group_control_outbox pc sn)) (\<lambda>control.
     rbind (if has_control (ascii ''TCGB'') sn then g_recovery (recover_group_invitation_book sn group_id)
            else Inr (book_new group_id)) (\<lambda>book.
     rbind (g_recovery (recover_group_deferred_rosters sn group_id authority)) (\<lambda>deferred.
       Inr \<lparr>gs_group_id = group_id, gs_authority = authority, gs_source = source, gs_local = local_member, gs_view = view,
            gs_receiver = receiver, gs_outbox = outbox, gs_control = control, gs_book = book, gs_deferred = deferred\<rparr>))))))"

definition attach ::
  "('p, 'n, 'k, 's) group_env \<Rightarrow> bytes \<Rightarrow> member \<Rightarrow> roster option \<Rightarrow> ('p, 'n, 'k, 's, unit) group_step" where
  "attach e group_id authority source g =
     (case rbind (gc_member e g) (\<lambda>local_member.
             rebuild (ge_roster_commitment e) (ge_payload_commitment e) (gc_snapshot g) local_member group_id authority source) of
        Inl err \<Rightarrow> (Inl err, g)
      | Inr st \<Rightarrow>
          (case drain_deferred_rosters (ge_port e) (ge_roster_commitment e) (ge_payload_commitment e) (gc_store g) (gc_snapshot g) st of
             (r, s, sn, st) \<Rightarrow>
               (rbind (rmap_err group_error_of_op r) (\<lambda>_. Inr ()), g\<lparr>gc_store := s, gc_snapshot := sn, gc_group := Some st\<rparr>)))"

definition create_group :: "('p, 'n, 'k, 's) group_env \<Rightarrow> bytes \<Rightarrow> ('p, 'n, 'k, 's, unit) group_step" where
  "create_group e group_id =
     cbind (gc_check (\<lambda>g.
       rbind (gc_member e g) (\<lambda>local_member.
       rbind (g_policy (roster_new group_id 0 (replicate DIGEST_LEN 0) local_member POLICY_VERSION_V1 False [local_member])) (\<lambda>genesis.
         Inr (local_member, genesis))))) (\<lambda>(local_member, genesis).
       attach e group_id local_member (Some genesis))"

definition join_group :: "('p, 'n, 'k, 's) group_env \<Rightarrow> roster \<Rightarrow> member \<Rightarrow> ('p, 'n, 'k, 's, unit) group_step" where
  "join_group e source authority = attach e (ros_group_id source) authority (Some source)"

definition await_group :: "('p, 'n, 'k, 's) group_env \<Rightarrow> bytes \<Rightarrow> member \<Rightarrow> ('p, 'n, 'k, 's, unit) group_step" where
  "await_group e group_id authority = attach e group_id authority None"

definition group_recover :: "('p, 'n, 'k, 's) group_env \<Rightarrow> ('p, 'n, 'k, 's, unit) group_step" where
  "group_recover e g =
     (case recover_not_behind (ge_inner e) (gc_store g) of
        (Inl recover_error.Unreadable, d) \<Rightarrow> (Inl GErrRecovery, g\<lparr>gc_poisoned := True, gc_store := d\<rparr>)
      | (Inl recover_error.RolledBack, d) \<Rightarrow> (Inl GErrRollback, g\<lparr>gc_poisoned := True, gc_store := d\<rparr>)
      | (Inr None, d) \<Rightarrow> (Inl GErrRecovery, g\<lparr>gc_poisoned := True, gc_store := d\<rparr>)
      | (Inr (Some sn), d) \<Rightarrow>
          cbind (gc_on_client (restore_state_in_place (ge_client e) (snap_provider_state sn))) (\<lambda>_.
          cbind (\<lambda>g. (Inr (), g\<lparr>gc_snapshot := sn\<rparr>)) (\<lambda>_.
          cbind (\<lambda>g. case gc_group g of
                       None \<Rightarrow> (Inr (), g)
                     | Some st \<Rightarrow> attach e (gs_group_id st) (gs_authority st) (gs_source st) g) (\<lambda>_ g.
            (Inr (), g\<lparr>gc_poisoned := False\<rparr>)))) (g\<lparr>gc_poisoned := True, gc_store := d\<rparr>))"

definition gc_roster :: "('p, 'n, 'k, 's) group_client \<Rightarrow> roster option" where
  "gc_roster g = (case gc_group g of None \<Rightarrow> None | Some st \<Rightarrow> map_option view_roster (gs_view st))"

definition roster_digest :: "('p, 'n, 'k, 's) group_client \<Rightarrow> bytes option" where
  "roster_digest g = (case gc_group g of None \<Rightarrow> None | Some st \<Rightarrow> map_option view_digest (gs_view st))"

definition next_roster :: "member list \<Rightarrow> ('p, 'n, 'k, 's) group_client \<Rightarrow> coordinator_error + roster" where
  "next_roster members g =
     rbind (ok_or GErrNoGroup (gc_group g)) (\<lambda>st.
     rbind (ok_or GErrPolicy (gs_view st)) (\<lambda>view.
     rbind (ok_or GErrPolicy (checked_add (ros_revision (view_roster view)) 1)) (\<lambda>revision.
       g_policy (roster_new (gs_group_id st) revision (view_digest view) (gs_authority st) POLICY_VERSION_V1 False (sort members)))))"

definition held_roster_controls :: "('p, 'n, 'k, 's) group_client \<Rightarrow> u64 list" where
  "held_roster_controls g = (case gc_group g of None \<Rightarrow> [] | Some st \<Rightarrow> map ros_revision (gs_deferred st))"

section \<open>Receiving\<close>

text \<open>A commit on the values of a part of the group state, and a refusal, which commits only the provider state.\<close>

definition refuse ::
  "'s operation_store \<Rightarrow> (bytes \<Rightarrow> bytes) \<Rightarrow> group_receive_input \<Rightarrow> 's \<Rightarrow> operation_snapshot \<Rightarrow> 'l \<Rightarrow> ('s, 'l, group_outcome) committed" where
  "refuse port pc input s sn live =
     (case commit_malformed_group_payload port pc (in_plaintext input) (in_provider_state input) (in_effect input) s sn of
        (r, s, sn, _) \<Rightarrow> (rbind r (\<lambda>_. Inr OutRefused), s, sn, live))"

definition route_application ::
  "'s operation_store \<Rightarrow> (bytes \<Rightarrow> bytes) \<Rightarrow> (bytes \<Rightarrow> bytes) \<Rightarrow> group_receive_input \<Rightarrow> application_context
     \<Rightarrow> 's \<Rightarrow> operation_snapshot \<Rightarrow> group_state \<Rightarrow> ('s, group_state, group_outcome) committed" where
  "route_application port rc pc input context s sn st =
     (case member_part st of
        None \<Rightarrow> refuse port pc input s sn st
      | Some m \<Rightarrow>
          (case commit_group_payload_with_deferred port rc pc input s sn m of
             (r, s, sn, m) \<Rightarrow>
               (rbind r (\<lambda>d. case d of
                   ApplicationDisposition disposition \<Rightarrow> Inr (receive_outcome disposition context)
                 | RosterDisposition _ \<Rightarrow> Inl OpPolicy), s, sn, put_member_part m st)))"

definition hold_without_view ::
  "'s operation_store \<Rightarrow> (bytes \<Rightarrow> bytes) \<Rightarrow> group_receive_input \<Rightarrow> roster
     \<Rightarrow> 's \<Rightarrow> operation_snapshot \<Rightarrow> group_state \<Rightarrow> ('s, group_state, group_outcome) committed" where
  "hold_without_view port pc input control s sn st =
     (if authenticated_peer input \<noteq> gs_authority st then refuse port pc input s sn st
      else case commit_hold_roster_without_view port (gs_authority st) (gs_group_id st) control (in_provider_state input)
                  (in_effect input) s sn (gs_deferred st) of
        (Inr _, s, sn, queue) \<Rightarrow> (Inr OutRosterDeferred, s, sn, st\<lparr>gs_deferred := queue\<rparr>)
      | (Inl OpPolicy, s, sn, queue) \<Rightarrow> refuse port pc input s sn (st\<lparr>gs_deferred := queue\<rparr>)
      | (Inl err, s, sn, queue) \<Rightarrow> (Inl err, s, sn, st\<lparr>gs_deferred := queue\<rparr>))"

definition route_roster ::
  "'s operation_store \<Rightarrow> (bytes \<Rightarrow> bytes) \<Rightarrow> (bytes \<Rightarrow> bytes) \<Rightarrow> group_receive_input \<Rightarrow> roster
     \<Rightarrow> 's \<Rightarrow> operation_snapshot \<Rightarrow> group_state \<Rightarrow> ('s, group_state, group_outcome) committed" where
  "route_roster port rc pc input control s sn st =
     (case member_part st of
        None \<Rightarrow> hold_without_view port pc input control s sn st
      | Some m \<Rightarrow>
          (case commit_group_payload_with_deferred port rc pc input s sn m of
             (Inl err, s, sn, m) \<Rightarrow> (Inl err, s, sn, put_member_part m st)
           | (Inr (ApplicationDisposition _), s, sn, m) \<Rightarrow> (Inl OpPolicy, s, sn, put_member_part m st)
           | (Inr (RosterDisposition commit), s, sn, m) \<Rightarrow>
               if com_held commit then (Inr OutRosterDeferred, s, sn, put_member_part m st)
               else
                 (case (if com_disposition commit = RosterAccepted
                        then drain_deferred_rosters port rc pc s sn (put_member_part m st)
                        else (Inr [], s, sn, put_member_part m st)) of
                    (r, s, sn, st) \<Rightarrow>
                      (rbind r (\<lambda>events. Inr (OutRoster (com_disposition commit)
                         (unlocked_events (com_revalidated commit) @ events))), s, sn, st))))"

text \<open>An invitation control: what its own commit refuses by policy is a refusal of the item.\<close>

definition route_invitation ::
  "('a \<Rightarrow> group_outcome) \<Rightarrow> ('s, invitation_book, 'a) committed \<Rightarrow> group_state \<Rightarrow> ('s, group_state, group_outcome) committed" where
  "route_invitation f result st =
     (case result of
        (r, s, sn, book) \<Rightarrow>
          (case r of Inr x \<Rightarrow> Inr (f x) | Inl OpPolicy \<Rightarrow> Inr OutRefused | Inl err \<Rightarrow> Inl err, s, sn, st\<lparr>gs_book := book\<rparr>))"

definition route_payload ::
  "'s operation_store \<Rightarrow> (bytes \<Rightarrow> bytes) \<Rightarrow> (bytes \<Rightarrow> bytes) \<Rightarrow> u64 \<Rightarrow> group_receive_input \<Rightarrow> group_payload
     \<Rightarrow> 's \<Rightarrow> operation_snapshot \<Rightarrow> group_state \<Rightarrow> ('s, group_state, group_outcome) committed" where
  "route_payload port rc pc now input payload s sn st =
     (case payload of
        PayloadApplication context \<Rightarrow> route_application port rc pc input context s sn st
      | PayloadRoster control \<Rightarrow> route_roster port rc pc input control s sn st
      | PayloadBootstrap _ \<Rightarrow>
          if authenticated_peer input \<noteq> gs_authority st then refuse port pc input s sn st
          else route_invitation OutInvitation (commit_group_invitation_bootstrap port rc pc (gs_local st) now input s sn (gs_book st)) st
      | PayloadAcceptance _ \<Rightarrow>
          route_invitation OutInvitationStatus (commit_group_invitation_acceptance port pc now input s sn (gs_book st)) st
      | PayloadRevocation _ \<Rightarrow>
          route_invitation OutInvitationStatus
            (commit_group_invitation_revocation port pc (gs_local st) (gs_authority st) now input s sn (gs_book st)) st)"

definition route ::
  "('p, 'n, 'k, 's) group_env \<Rightarrow> u64 \<Rightarrow> group_receive_input \<Rightarrow> ('p, 'n, 'k, 's, group_outcome) group_step" where
  "route e now input g =
     (case (case payload_decode (in_plaintext input) of
              Inl _ \<Rightarrow> refuse (ge_port e) (ge_payload_commitment e) input (gc_store g) (gc_snapshot g) (gc_group g)
            | Inr payload \<Rightarrow>
                (case gc_group g of
                   None \<Rightarrow> refuse (ge_port e) (ge_payload_commitment e) input (gc_store g) (gc_snapshot g) None
                 | Some st \<Rightarrow>
                     (case route_payload (ge_port e) (ge_roster_commitment e) (ge_payload_commitment e) now input payload
                             (gc_store g) (gc_snapshot g) st of
                        (r, s, sn, st) \<Rightarrow> (r, s, sn, Some st)))) of
        (r, s, sn, grp) \<Rightarrow> (rmap_err group_error_of_op r, g\<lparr>gc_store := s, gc_snapshot := sn, gc_group := grp\<rparr>))"

text \<open>One staged item: its disposition is committed, and what it is reported as is added to the result.\<close>

definition commit_item ::
  "('p, 'n, 'k, 's) group_env \<Rightarrow> u64 \<Rightarrow> staged_item \<Rightarrow> inbound \<Rightarrow> ('p, 'n, 'k, 's, inbound) group_step" where
  "commit_item e now item ib =
     (case stg_plaintext item of
        None \<Rightarrow>
          if stg_effect item \<noteq> Unchanged then
            cbind (gc_commit (commit_malformed_group_payload (ge_port e) (ge_payload_commitment e) [] (stg_provider_state item) (stg_effect item)))
              (\<lambda>_ g. (Inr (ib\<lparr>ib_dropped := ib_dropped ib + 1\<rparr>), g))
          else (\<lambda>g. (Inr (ib\<lparr>ib_dropped := ib_dropped ib + 1\<rparr>), g))
      | Some plaintext \<Rightarrow>
          if stg_kind item \<noteq> MessageGroup then
            cbind (gc_commit (commit_provider_state (ge_port e) (stg_provider_state item))) (\<lambda>_ g.
              (Inr (ib\<lparr>ib_direct := ib_direct ib @ [\<lparr>rcv_from = stg_from item, rcv_plaintext = plaintext, rcv_kind = stg_kind item\<rparr>]\<rparr>), g))
          else case stg_identity item of
            None \<Rightarrow>
              cbind (gc_commit (commit_malformed_group_payload (ge_port e) (ge_payload_commitment e) plaintext (stg_provider_state item) (stg_effect item)))
                (\<lambda>_ g. (Inr (ib\<lparr>ib_items := ib_items ib @ [(stg_from item, OutRefused)]\<rparr>), g))
          | Some identity_key \<Rightarrow>
              cbind (route e now \<lparr>in_plaintext = plaintext, in_identity = identity_key, in_device = adr_device (stg_peer item),
                       in_provider_state = stg_provider_state item, in_effect = stg_effect item\<rparr>) (\<lambda>outcome g.
                (Inr (ib\<lparr>ib_items := ib_items ib @ [(stg_from item, outcome)]\<rparr>), g)))"

definition stage ::
  "('p, 'n, 'k, 's) group_env \<Rightarrow> u64 \<Rightarrow> stored_message \<Rightarrow> inbound \<Rightarrow> ('p, 'n, 'k, 's, inbound) group_step" where
  "stage e now message ib g =
     (case cbind (gc_on_client (open_staged (ge_client e) message)) (\<lambda>item. commit_item e now item ib) g of
        (Inl err, g) \<Rightarrow> (Inl err, g\<lparr>gc_poisoned := True\<rparr>)
      | done \<Rightarrow> done)"

text \<open>The loop over the fetched messages: how many were committed, the error it stopped at, and the result so far.\<close>

fun stage_all ::
  "('p, 'n, 'k, 's) group_env \<Rightarrow> u64 \<Rightarrow> stored_message list \<Rightarrow> nat \<Rightarrow> inbound \<Rightarrow> ('p, 'n, 'k, 's) group_client
     \<Rightarrow> (nat \<times> coordinator_error option \<times> inbound) \<times> ('p, 'n, 'k, 's) group_client" where
  "stage_all e now [] processed ib g = ((processed, None, ib), g)"
| "stage_all e now (message # messages) processed ib g =
     (case stage e now message ib g of
        (Inr ib, g) \<Rightarrow> stage_all e now messages (processed + 1) ib g
      | (Inl err, g) \<Rightarrow> ((processed, Some err, ib), g))"

definition MAX_RECEIVE_ITEMS :: nat where "MAX_RECEIVE_ITEMS = 32"

definition acknowledge_delivery :: "('p, 'n, 'k, 's) group_env \<Rightarrow> ('p, 'n, 'k, 's, unit) group_step" where
  "acknowledge_delivery e g =
     (if gc_is_frozen g then (Inl GErrFrozen, g)
      else if gc_handed_over g > snap_delivery_cursor (gc_snapshot g)
      then gc_commit (commit_delivery_cursor (ge_port e) (gc_handed_over g)) g
      else (Inr (), g))"

definition events_issued_by :: "group_state option \<Rightarrow> u64" where
  "events_issued_by grp =
     (case grp of None \<Rightarrow> 0 | Some st \<Rightarrow> (case gs_receiver st of None \<Rightarrow> 0 | Some receiver \<Rightarrow> recv_next_event receiver))"

definition begin_inbound :: "('p, 'n, 'k, 's) group_client \<Rightarrow> inbound" where
  "begin_inbound g =
     (let undelivered = undelivered_events (gc_snapshot g)
      in \<lparr>ib_redelivered = map (\<lambda>(event_id, context). group_event_new event_id context) undelivered,
          ib_lost_events = saturating_sub (saturating_sub (events_issued_by (gc_group g)) (snap_delivery_cursor (gc_snapshot g)))
             (of_nat (length undelivered)),
          ib_items = [], ib_direct = [], ib_dropped = 0, ib_frozen = False\<rparr>)"

definition hand_over :: "u64 \<Rightarrow> inbound \<Rightarrow> ('p, 'n, 'k, 's) group_client \<Rightarrow> ('p, 'n, 'k, 's) group_client" where
  "hand_over issued ib g =
     (let g = (case iter_max (map ev_id (inbound_events ib)) of
                 None \<Rightarrow> g | Some highest \<Rightarrow> g\<lparr>gc_handed_over := max (gc_handed_over g) (saturating_add highest 1)\<rparr>)
      in if ib_lost_events ib > 0 then g\<lparr>gc_handed_over := max (gc_handed_over g) issued\<rparr> else g)"

definition group_receive :: "('p, 'n, 'k, 's) group_env \<Rightarrow> u64 \<Rightarrow> ('p, 'n, 'k, 's, inbound) group_step" where
  "group_receive e now g =
     (if gc_is_frozen g then (Inl GErrFrozen, g)
      else
        cbind (acknowledge_delivery e) (\<lambda>_ g.
          let ib = begin_inbound g; issued = events_issued_by (gc_group g)
          in cbind (gc_on_client (retry_io (ge_client e) (fetch_staged (ge_client e)))) (\<lambda>(from, messages) g.
               case stage_all e now (take MAX_RECEIVE_ITEMS messages) 0 ib g of
                 ((processed, stopped, ib), g) \<Rightarrow>
                   cbind (if processed > 0 then gc_on_client (acknowledge_fetched (ge_client e) from processed) else (\<lambda>g. (Inr (), g)))
                     (\<lambda>_ g.
                       case stopped of
                         Some GErrFrozen \<Rightarrow> (let ib = ib\<lparr>ib_frozen := True\<rparr> in (Inr ib, hand_over issued ib g))
                       | Some err \<Rightarrow> if processed = 0 then (Inl err, g) else (Inr ib, hand_over issued ib g)
                       | None \<Rightarrow> (Inr ib, hand_over issued ib g)) g) g) g)"

definition send_direct :: "('p, 'n, 'k, 's) group_env \<Rightarrow> device_addr \<Rightarrow> bytes \<Rightarrow> ('p, 'n, 'k, 's, unit) group_step" where
  "send_direct e to message g =
     (if gc_is_frozen g then (Inl GErrFrozen, g)
      else
        cbind (gc_on_client (prepare_send_as (ge_client e) to message Dm)) (\<lambda>prepared.
        cbind (\<lambda>g. (Inr (), g\<lparr>gc_poisoned := True\<rparr>)) (\<lambda>_.
        cbind (gc_on_client (\<lambda>c. (export_state (ge_client e) c, c))) (\<lambda>provider_state.
        cbind (gc_commit (commit_provider_state (ge_port e) provider_state)) (\<lambda>_.
        cbind (\<lambda>g. (Inr (), g\<lparr>gc_poisoned := False\<rparr>)) (\<lambda>_ g.
          case dispatch_prepared_send (ge_client e) prepared (gc_client g) of
            (r, c) \<Rightarrow>
              (rmap_err (\<lambda>err. if error_kind_of err = KindNetwork \<or> error_kind_of err = KindRateLimited then GErrTransport
                               else GErrClient err) r, g\<lparr>gc_client := c\<rparr>)))))) g)"

section \<open>Sending\<close>

definition route_is_members_device :: "member \<Rightarrow> device_addr \<Rightarrow> bool" where
  "route_is_members_device m addr = (case mem_device m of [device] \<Rightarrow> ucast device = dev_device addr | _ \<Rightarrow> False)"

definition check_routes :: "(member \<times> device_addr) list \<Rightarrow> coordinator_error + unit" where
  "check_routes routes = (if list_all (\<lambda>(m, addr). route_is_members_device m addr) routes then Inr () else Inl GErrPolicy)"

text \<open>What every call that drives the client begins with: it is refused while frozen, then by \<open>pre\<close>, then without a group.\<close>

definition with_group ::
  "(coordinator_error + unit)
     \<Rightarrow> (('p, 'n, 'k, 's durable_store, group_state) driven \<Rightarrow> (coordinator_error + 'a) \<times> ('p, 'n, 'k, 's durable_store, group_state) driven)
     \<Rightarrow> ('p, 'n, 'k, 's, 'a) group_step" where
  "with_group pre f g =
     (if gc_is_frozen g then (Inl GErrFrozen, g)
      else case rbind pre (\<lambda>_. ok_or GErrNoGroup (gc_group g)) of
        Inl err \<Rightarrow> (Inl err, g)
      | Inr st \<Rightarrow>
          (case f \<lparr>dv_client = gc_client g, dv_store = gc_store g, dv_snapshot = gc_snapshot g, dv_values = st\<rparr> of
             (r, d) \<Rightarrow> (r, g\<lparr>gc_client := dv_client d, gc_store := dv_store d, gc_snapshot := dv_snapshot d,
                             gc_group := Some (dv_values d)\<rparr>)))"

text \<open>A live step whose error is returned.\<close>

definition lifted ::
  "('p, 'n, 'k, 's, 'l, 'a) live_step \<Rightarrow> ('p, 'n, 'k, 's, 'l) driven \<Rightarrow> (coordinator_error + 'a) \<times> ('p, 'n, 'k, 's, 'l) driven" where
  "lifted f d = (case f d of (r, d) \<Rightarrow> (rmap_err group_error_of_live r, d))"

definition dv_check ::
  "(('p, 'n, 'k, 's, 'l) driven \<Rightarrow> coordinator_error + 'a)
     \<Rightarrow> ('p, 'n, 'k, 's, 'l) driven \<Rightarrow> (coordinator_error + 'a) \<times> ('p, 'n, 'k, 's, 'l) driven" where
  "dv_check f d = (f d, d)"

abbreviation on_control where
  "on_control \<equiv> on_part gs_control (\<lambda>ob st. st\<lparr>gs_control := ob\<rparr>)"

abbreviation on_outbox where
  "on_outbox \<equiv> on_part gs_outbox (\<lambda>ob st. st\<lparr>gs_outbox := ob\<rparr>)"

definition route_of :: "member \<Rightarrow> (member \<times> device_addr) list \<Rightarrow> device_addr option" where
  "route_of m routes = map_option snd (find (\<lambda>(n, _). n = m) routes)"

fun drive_recipients ::
  "('p, 'n, 'k, 's) group_env \<Rightarrow> logical_id \<Rightarrow> (member \<times> device_addr) list \<Rightarrow> member list
     \<Rightarrow> ('p, 'n, 'k, 's durable_store, group_outbox) driven \<Rightarrow> (coordinator_error + unit) \<times> ('p, 'n, 'k, 's durable_store, group_outbox) driven" where
  "drive_recipients e ident routes [] d = (Inr (), d)"
| "drive_recipients e ident routes (recipient # recipients) d =
     (case route_of recipient routes of
        None \<Rightarrow> drive_recipients e ident routes recipients d
      | Some addr \<Rightarrow>
          (case prepare_outbox_group_recipient (ge_client e) (ge_port e) (ge_payload_commitment e) ident recipient addr d of
             (Inl LiveFrozen, d) \<Rightarrow> (Inl GErrFrozen, d)
           | (Inl _, d) \<Rightarrow> drive_recipients e ident routes recipients d
           | (Inr _, d) \<Rightarrow>
               (case dispatch_outbox_group_handoff (ge_client e) (ge_port e) (ge_payload_commitment e) ident recipient addr d of
                  (Inl LiveFrozen, d) \<Rightarrow> (Inl GErrFrozen, d)
                | (_, d) \<Rightarrow> drive_recipients e ident routes recipients d)))"

definition drive_send ::
  "('p, 'n, 'k, 's) group_env \<Rightarrow> logical_id \<Rightarrow> (member \<times> device_addr) list
     \<Rightarrow> ('p, 'n, 'k, 's durable_store, group_outbox) driven \<Rightarrow> (coordinator_error + unit) \<times> ('p, 'n, 'k, 's durable_store, group_outbox) driven" where
  "drive_send e ident routes =
     cbind (dv_check (\<lambda>d. rbind (g_policy (send_of (dv_values d) ident)) (\<lambda>send. Inr (map prog_recipient (send_recipients send)))))
       (drive_recipients e ident routes)"

definition send_group ::
  "('p, 'n, 'k, 's) group_env \<Rightarrow> (member \<times> device_addr) list \<Rightarrow> bytes \<Rightarrow> ('p, 'n, 'k, 's, logical_id \<times> recipient_progress list) group_step" where
  "send_group e recipients payload =
     with_group (Inr ()) (
       cbind (dv_check (\<lambda>d.
         let st = dv_values d; routes = sort_key fst recipients
         in rbind (ok_or GErrPolicy (gs_view st)) (\<lambda>view.
            rbind (check_routes recipients) (\<lambda>_.
            rbind (g_policy (next_sequence (gs_outbox st) (ros_revision (view_roster view)) (gs_local st))) (\<lambda>sequence.
              g_policy (logical_send_new (view_roster view) (view_digest view) (gs_local st) sequence (map fst routes) payload)))))) (\<lambda>send.
       cbind (lifted (on_outbox (on_commit (commit_logical_intent (ge_port e) send)))) (\<lambda>_.
       cbind (on_outbox (drive_send e (send_id send) (sort_key fst recipients))) (\<lambda>_.
         dv_check (\<lambda>d. rbind (g_policy (send_of (gs_outbox (dv_values d)) (send_id send))) (\<lambda>sent.
           Inr (send_id send, send_recipients sent)))))))"

fun drive_all ::
  "('p, 'n, 'k, 's) group_env \<Rightarrow> (member \<times> device_addr) list \<Rightarrow> logical_id list
     \<Rightarrow> ('p, 'n, 'k, 's durable_store, group_outbox) driven \<Rightarrow> (coordinator_error + unit) \<times> ('p, 'n, 'k, 's durable_store, group_outbox) driven" where
  "drive_all e routes [] = (\<lambda>d. (Inr (), d))"
| "drive_all e routes (ident # idents) = cbind (drive_send e ident routes) (\<lambda>_. drive_all e routes idents)"

definition dispatch_pending_group_sends ::
  "('p, 'n, 'k, 's) group_env \<Rightarrow> (member \<times> device_addr) list \<Rightarrow> ('p, 'n, 'k, 's, nat) group_step" where
  "dispatch_pending_group_sends e routes =
     with_group (check_routes routes) (\<lambda>d.
       let pending = map send_id (filter (\<lambda>send. \<not> is_terminal send) (out_sends (gs_outbox (dv_values d))))
       in cbind (on_outbox (drive_all e routes pending)) (\<lambda>_ d. (Inr (length pending), d)) d)"

section \<open>Rosters and invitations of the authority\<close>

record install =
  ins_disposition :: roster_disposition
  ins_delivered :: "member list"
  ins_pending :: "member list"
  ins_unprepared :: "member list"

abbreviation on_authority_control where
  "on_authority_control \<equiv> on_part ac_outbox (\<lambda>ob a. a\<lparr>ac_outbox := ob\<rparr>)"

text \<open>
  One recipient of an installation: the handoff, and the disposition when this recipient's commit
  installed the roster.
\<close>

definition prepare_install ::
  "('p, 'n, 'k, 's) group_env \<Rightarrow> member \<Rightarrow> roster \<Rightarrow> invitation_admission option \<Rightarrow> u64 \<Rightarrow> bool \<Rightarrow> member \<Rightarrow> device_addr
     \<Rightarrow> ('p, 'n, 'k, 's durable_store, authority_control_state, roster_disposition option \<times> control_handoff) live_step" where
  "prepare_install e local_member successor admission now is_installed recipient addr d =
     (if is_installed then
        cbind (on_authority_control (prepare_installed_roster_control (ge_client e) (ge_port e) (ge_roster_commitment e)
                 (ge_payload_commitment e) (ac_view (dv_values d)) (ac_invitation_book (dv_values d)) local_member recipient addr now))
          (\<lambda>handoff d. (Inr (None, handoff), d)) d
      else
        cbind (prepare_authority_roster_control (ge_client e) (ge_port e) (ge_roster_commitment e) (ge_payload_commitment e)
                 local_member recipient addr admission now successor)
          (\<lambda>(commit, handoff) d. (Inr (Some (com_disposition commit), handoff), d)) d)"

fun install_recipients ::
  "('p, 'n, 'k, 's) group_env \<Rightarrow> member \<Rightarrow> roster \<Rightarrow> bytes \<Rightarrow> invitation_admission option \<Rightarrow> u64 \<Rightarrow> (member \<times> device_addr) list
     \<Rightarrow> bool \<Rightarrow> install \<Rightarrow> ('p, 'n, 'k, 's durable_store, authority_control_state) driven
     \<Rightarrow> (coordinator_error + install) \<times> ('p, 'n, 'k, 's durable_store, authority_control_state) driven" where
  "install_recipients e local_member successor payload admission now [] is_installed ins d = (Inr ins, d)"
| "install_recipients e local_member successor payload admission now ((recipient, addr) # recipients) is_installed ins d =
     (case (if is_installed then map_option ho_disposition (result_ok (ctl_handoff (ge_payload_commitment e) recipient payload (ac_outbox (dv_values d))))
            else None) of
        Some CtlRelayAccepted \<Rightarrow>
          install_recipients e local_member successor payload admission now recipients is_installed
            (ins\<lparr>ins_delivered := ins_delivered ins @ [recipient]\<rparr>) d
      | Some CtlExhaustedUnknown \<Rightarrow>
          install_recipients e local_member successor payload admission now recipients is_installed
            (ins\<lparr>ins_pending := ins_pending ins @ [recipient]\<rparr>) d
      | Some CtlCancelled \<Rightarrow>
          install_recipients e local_member successor payload admission now recipients is_installed
            (ins\<lparr>ins_pending := ins_pending ins @ [recipient]\<rparr>) d
      | Some CtlCancelledAfterHandoff \<Rightarrow>
          install_recipients e local_member successor payload admission now recipients is_installed
            (ins\<lparr>ins_pending := ins_pending ins @ [recipient]\<rparr>) d
      | _ \<Rightarrow>
          (case prepare_install e local_member successor admission now is_installed recipient addr d of
             (Inl LiveFrozen, d) \<Rightarrow> (Inl GErrFrozen, d)
           | (Inl err, d) \<Rightarrow>
               if \<not> is_installed then (Inl (group_error_of_live err), d)
               else install_recipients e local_member successor payload admission now recipients is_installed
                      (ins\<lparr>ins_unprepared := ins_unprepared ins @ [recipient]\<rparr>) d
           | (Inr (disposition, handoff), d) \<Rightarrow>
               let ins = (case disposition of None \<Rightarrow> ins | Some r \<Rightarrow> ins\<lparr>ins_disposition := r\<rparr>)
               in case on_authority_control (dispatch_outbound_roster_control (ge_client e) (ge_port e) (ge_payload_commitment e) recipient
                           (ho_payload handoff) addr) d of
                    (Inr _, d) \<Rightarrow>
                      install_recipients e local_member successor payload admission now recipients True
                        (ins\<lparr>ins_delivered := ins_delivered ins @ [recipient]\<rparr>) d
                  | (Inl LiveFrozen, d) \<Rightarrow> (Inl GErrFrozen, d)
                  | (Inl _, d) \<Rightarrow>
                      install_recipients e local_member successor payload admission now recipients True
                        (ins\<lparr>ins_pending := ins_pending ins @ [recipient]\<rparr>) d))"

definition install_roster ::
  "('p, 'n, 'k, 's) group_env \<Rightarrow> roster \<Rightarrow> (member \<times> device_addr) list \<Rightarrow> (bytes \<times> member) option \<Rightarrow> u64
     \<Rightarrow> ('p, 'n, 'k, 's, install) group_step" where
  "install_roster e successor recipients admission now =
     with_group (Inr ()) (\<lambda>d.
       let st = dv_values d
       in if gs_authority st \<noteq> gs_local st then (Inl GErrPolicy, d)
          else case authority_part st of
            None \<Rightarrow> (Inl GErrPolicy, d)
          | Some a \<Rightarrow>
              let is_installed = (view_roster (ac_view a) = successor)
              in case rbind (check_routes recipients) (\<lambda>_.
                      if recipients = [] \<and> \<not> is_installed
                         \<or> \<not> list_all (\<lambda>(recipient, _). roster_control_recipient_is_entitled (ge_roster_commitment e) (dv_snapshot d)
                                  (ac_view a) (Some (gs_book st)) successor (gs_local st) recipient now) recipients
                      then Inl GErrPolicy else g_policy (payload_encode (PayloadRoster successor))) of
                   Inl err \<Rightarrow> (Inl err, d)
                 | Inr payload \<Rightarrow>
                     on_part (\<lambda>_. a) put_authority_part
                       (install_recipients e (gs_local st) successor payload
                          (map_option (\<lambda>(ident, target). \<lparr>adm_id = ident, adm_target = target, adm_now = now\<rparr>) admission) now recipients
                          is_installed \<lparr>ins_disposition = RosterDuplicate, ins_delivered = [], ins_pending = [], ins_unprepared = []\<rparr>) d)"

fun dispatch_controls ::
  "('p, 'n, 'k, 's) group_env \<Rightarrow> (member \<times> device_addr) list \<Rightarrow> control_handoff list \<Rightarrow> nat
     \<Rightarrow> ('p, 'n, 'k, 's durable_store, control_outbox) driven \<Rightarrow> (coordinator_error + nat) \<times> ('p, 'n, 'k, 's durable_store, control_outbox) driven" where
  "dispatch_controls e routes [] accepted d = (Inr accepted, d)"
| "dispatch_controls e routes (handoff # handoffs) accepted d =
     (case route_of (ho_recipient handoff) routes of
        None \<Rightarrow> dispatch_controls e routes handoffs accepted d
      | Some addr \<Rightarrow>
          (case dispatch_outbound_roster_control (ge_client e) (ge_port e) (ge_payload_commitment e) (ho_recipient handoff)
                  (ho_payload handoff) addr d of
             (Inr _, d) \<Rightarrow> dispatch_controls e routes handoffs (accepted + 1) d
           | (Inl LiveFrozen, d) \<Rightarrow> (Inl GErrFrozen, d)
           | (Inl _, d) \<Rightarrow> dispatch_controls e routes handoffs accepted d))"

definition dispatch_pending_controls ::
  "('p, 'n, 'k, 's) group_env \<Rightarrow> (member \<times> device_addr) list \<Rightarrow> ('p, 'n, 'k, 's, nat) group_step" where
  "dispatch_pending_controls e routes =
     with_group (check_routes routes) (\<lambda>d. on_control (dispatch_controls e routes (ctl_pending (gs_control (dv_values d))) 0) d)"

text \<open>The two steps each invitation call ends with.\<close>

definition send_control ::
  "('p, 'n, 'k, 's) group_env \<Rightarrow> member \<Rightarrow> device_addr \<Rightarrow> group_payload
     \<Rightarrow> ('p, 'n, 'k, 's durable_store, control_outbox, control_handoff) live_step" where
  "send_control e recipient addr payload =
     cbind (prepare_outbound_invitation_control (ge_client e) (ge_port e) (ge_payload_commitment e) recipient addr payload) (\<lambda>handoff.
       dispatch_outbound_roster_control (ge_client e) (ge_port e) (ge_payload_commitment e) recipient (ho_payload handoff) addr)"

abbreviation on_book where
  "on_book \<equiv> on_part gs_book (\<lambda>book st. st\<lparr>gs_book := book\<rparr>)"

definition invite ::
  "('p, 'n, 'k, 's) group_env \<Rightarrow> bytes \<Rightarrow> member \<Rightarrow> device_addr \<Rightarrow> u64 \<Rightarrow> u64 \<Rightarrow> ('p, 'n, 'k, 's, invitation_bootstrap) group_step" where
  "invite e ident target addr expires_at now =
     with_group (Inr ()) (
       cbind (dv_check (\<lambda>d.
         let st = dv_values d
         in if gs_authority st \<noteq> gs_local st then Inl GErrPolicy
            else rbind (ok_or GErrPolicy (gs_view st)) (\<lambda>view.
              if ros_closed (view_roster view) \<or> \<not> route_is_members_device target addr then Inl GErrPolicy
              else rbind (g_policy (invitation_new ident (gs_group_id st) target (ros_revision (view_roster view)) (view_digest view)
                        POLICY_VERSION_V1 expires_at)) (\<lambda>invitation. Inr (st, view_roster view, invitation))))) (\<lambda>(st, roster, invitation).
       cbind (lifted (on_book (on_commit (commit_group_invitation_transition (ge_port e)
                (\<lambda>book. book_result (\<lambda>_. ()) (book_create (gs_local st) (gs_authority st) (ros_members roster) invitation now book)))))) (\<lambda>_.
       cbind (dv_check (\<lambda>_. g_policy (bootstrap_new invitation roster))) (\<lambda>bootstrap.
       cbind (lifted (on_control (send_control e target addr (PayloadBootstrap bootstrap)))) (\<lambda>_ d.
         (Inr bootstrap, d))))))"

definition find_invitation :: "bytes \<Rightarrow> invitation_book \<Rightarrow> coordinator_error + invitation" where
  "find_invitation ident book = ok_or GErrPolicy (find (\<lambda>i. inv_id i = ident) (book_invitations book))"

definition accept_group_invitation ::
  "('p, 'n, 'k, 's) group_env \<Rightarrow> bytes \<Rightarrow> device_addr \<Rightarrow> u64 \<Rightarrow> ('p, 'n, 'k, 's, invitation_status) group_step" where
  "accept_group_invitation e ident addr now =
     with_group (Inr ()) (
       cbind (dv_check (\<lambda>d.
         let st = dv_values d
         in if \<not> route_is_members_device (gs_authority st) addr then Inl GErrPolicy
            else rbind (find_invitation ident (gs_book st)) (\<lambda>found. Inr (st, found)))) (\<lambda>(st, found).
       cbind (lifted (on_book (on_commit (commit_group_invitation_transition (ge_port e)
                (\<lambda>book. book_result inv_status
                  (book_accept ident (gs_local st) (inv_source_revision found) (inv_source_digest found) now book)))))) (\<lambda>status.
       cbind (dv_check (\<lambda>_. g_policy (acceptance_new (gs_group_id st) ident (inv_source_revision found) (inv_source_digest found)))) (\<lambda>acceptance.
       cbind (lifted (on_control (send_control e (gs_authority st) addr (PayloadAcceptance acceptance)))) (\<lambda>_ d.
         (Inr status, d))))))"

definition revoke_group_invitation ::
  "('p, 'n, 'k, 's) group_env \<Rightarrow> bytes \<Rightarrow> device_addr \<Rightarrow> u64 \<Rightarrow> ('p, 'n, 'k, 's, unit) group_step" where
  "revoke_group_invitation e ident addr now =
     with_group (Inr ()) (
       cbind (dv_check (\<lambda>d.
         let st = dv_values d
         in if gs_authority st \<noteq> gs_local st then Inl GErrPolicy
            else rbind (find_invitation ident (gs_book st)) (\<lambda>found.
              if \<not> route_is_members_device (inv_target found) addr then Inl GErrPolicy else Inr (gs_local st, inv_target found)))) (\<lambda>(local_member, target).
       cbind (lifted (on_part (\<lambda>st. (gs_book st, gs_control st)) (\<lambda>(book, ob) st. st\<lparr>gs_book := book, gs_control := ob\<rparr>)
                (prepare_authority_invitation_revocation (ge_client e) (ge_port e) (ge_payload_commitment e) local_member target addr ident now))) (\<lambda>handoff.
       cbind (lifted (on_control (dispatch_outbound_roster_control (ge_client e) (ge_port e) (ge_payload_commitment e) target (ho_payload handoff) addr))) (\<lambda>_ d.
         (Inr (), d)))))"

end
