(* ===== verification/Client_Relay.thy ===== *)
theory Client_Relay
  imports Client_Link
begin

text \<open>
  The client and the relay together: the client of \<^verbatim>\<open>tacenta-client\<close>, \<^verbatim>\<open>lib.rs\<close>, on a relay connection
  whose other end is the \<open>handle_bytes\<close> of \<^verbatim>\<open>tacenta-relay\<close>, \<^verbatim>\<open>protocol.rs\<close>.  Both ends are the models of
  their own crates, and the requests and responses cross as bytes.
\<close>

section \<open>A connection to the relay\<close>

definition relay_network :: "device_addr \<Rightarrow> relay network \<Rightarrow> relay network" where
  "relay_network me base =
     base\<lparr>nw_relay_request := (\<lambda>req r.
       case handle_bytes me req r of Some (Some out, r') \<Rightarrow> (Inr out, r') | _ \<Rightarrow> (Inl Io_Other, r))\<rparr>"

text \<open>A relay as it is after requests that came off the wire, with its cursors far from the end of their range.\<close>

definition relay_live :: "relay \<Rightarrow> bool" where
  "relay_live r = (relay_ok r \<and> relay_limits r \<and> relay_typed r \<and> (\<forall>a. unat (relay_cursor a r) + length (q_tail (relay_queue a r)) < 2 ^ 64))"

definition addr_fits :: "device_addr \<Rightarrow> bool" where
  "addr_fits a = (addr_typed a \<and> length (dev_user a) < 2 ^ 32)"

lemma relay_answer:
  assumes "encode_request request = Some bytes" and "request_typed request" and "relay_step (me, request) r = (Some response, r')"
    and "encode_response response = Some out"
  shows "nw_relay_request (relay_network me base) bytes r = (Inr out, r')"
proof -
  have "decode_request bytes = Some request"
    using assms(1,2) by (simp add: decode_request_iff)
  moreover have "handle me request r = Some (response, r')"
    using assms(3) by (auto simp: relay_step_def split: option.splits)
  ultimately show ?thesis
    using assms(4) by (simp add: relay_network_def handle_bytes_def)
qed

lemma delivered_encodes:
  assumes "relay_live r"
  shows "\<exists>out. encode_response (Resp_Delivered n (q_tail (relay_queue a r))) = Some out
           \<and> decode_response out = Some (Resp_Delivered n (q_tail (relay_queue a r)))"
proof -
  let ?ms = "q_tail (relay_queue a r)"
  have "list_all (\<lambda>m. byte_len m \<le> MAX_ENVELOPE_BYTES) ?ms" "length ?ms < 2 ^ 32" "list_all message_typed ?ms"
    using assms by (auto simp: relay_live_def relay_limits_def queue_limits_def relay_typed_def limit_defs intro: le_less_trans)
  then obtain out where out: "encode_response (Resp_Delivered n ?ms) = Some out"
    using put_many_message_fits [of ?ms]
    by (auto simp: encode_response_def put_messages_def u32_try_from_def)
  moreover have "response_typed (Resp_Delivered n ?ms)"
    using \<open>list_all message_typed ?ms\<close> by simp
  ultimately show ?thesis
    using decode_response_iff [of out "Resp_Delivered n ?ms"] by blast
qed

lemma poll_request:
  assumes "relay_live r" and "addr_fits me"
  shows "\<exists>bytes out. encode_request (Req_Poll me) = Some bytes
    \<and> nw_relay_request (relay_network me base) bytes r = (Inr out, r)
    \<and> decode_response out = Some (Resp_Delivered (relay_cursor me r) (q_tail (relay_queue me r)))"
proof -
  obtain bytes where bytes: "encode_request (Req_Poll me) = Some bytes"
    using assms(2) by (auto simp: encode_request_def put_addr_def put_bytes_def addr_fits_def u32_try_from_def)
  obtain out where out: "encode_response (Resp_Delivered (relay_cursor me r) (q_tail (relay_queue me r))) = Some out"
      "decode_response out = Some (Resp_Delivered (relay_cursor me r) (q_tail (relay_queue me r)))"
    using delivered_encodes [OF assms(1)] by blast
  have "relay_step (me, Req_Poll me) r = (Some (Resp_Delivered (relay_cursor me r) (q_tail (relay_queue me r))), r)"
    using assms(1) relay_pending_ok by (simp add: relay_step_def handle_def relay_live_def)
  then show ?thesis
    using relay_answer [OF bytes _ _ out(1)] assms(2) bytes out(2) by (auto simp: addr_fits_def)
qed

lemma fetch_staged_relay:
  assumes "relay_live (cl_net c)" and "addr_fits (cl_me c)" and "env_network env = relay_network (cl_me c) base"
  shows "fetch_staged env c = (Inr (relay_cursor (cl_me c) (cl_net c), q_tail (relay_queue (cl_me c) (cl_net c))), c)"
  using poll_request [OF assms(1,2), of base]
  by (auto simp: fetch_staged_def cbind_def on_net_def rmap_err_def ok_or_def assms(3))

lemma ack_accepted:
  assumes "relay_live r" and "0 < n" and "n \<le> length (q_tail (relay_queue me r))"
  shows "\<exists>r'. relay_step (me, Req_Ack me (relay_cursor me r + of_nat n)) r = (Some (Resp_Acked True), r')
    \<and> relay_cursor me r' = relay_cursor me r + of_nat n"
proof -
  let ?q = "relay_queue me r" and ?up = "relay_cursor me r + of_nat n"
  have ok: "queue_ok ?q" and room: "unat (relay_cursor me r) + length (q_tail ?q) < 2 ^ 64"
    using assms(1) by (auto simp: relay_live_def relay_ok_def)
  then have up: "unat ?up = unat (queue_cursor ?q) + n"
    using assms(3) by (simp add: relay_cursor_queue unat_word_ariths unat_of_nat)
  have lookup: "fmlookup (queues r) me = Some ?q"
    using assms(2,3) queue_ok_default by (cases "fmlookup (queues r) me") (simp_all add: fmget_def)
  have "unat ?up \<le> unat (q_base ?q) + length (session_log (q_inner ?q))"
    using up unat_queue_cursor [OF ok] assms(3) ok by (auto simp: q_tail_def queue_ok_def session_valid_def)
  then obtain q' where q': "queue_ack ?up ?q = Some (True, q')"
    using queue_ack_eq [OF ok, of ?up] up assms(2) by simp
  then have "queue_cursor q' = ?up"
    using queue_ack_accepted [OF ok q'] by simp
  then show ?thesis
    using lookup q' by (auto simp: relay_step_def handle_def relay_ack_def Let_def relay_cursor_def)
qed

lemma relay_live_step:
  assumes "relay_live r" and "from_wire x" and "\<forall>to e. snd x \<noteq> Req_Send to e" and "relay_step x r = (answer, r')"
  shows "relay_live r'"
proof -
  have ok: "relay_ok r" and typed: "relay_typed r" using assms(1) by (auto simp: relay_live_def)
  have "sent_to a x answer = []" for a
    using assms(3) by (auto simp: sent_to_def split: prod.splits request.splits)
  then have "unat (relay_cursor a r') + length (q_tail (relay_queue a r')) = unat (relay_cursor a r) + length (q_tail (relay_queue a r))" for a
    using relay_step_ok [OF ok assms(4), of a] by simp
  then show ?thesis
    using assms(1) relay_step_ok [OF ok assms(4)] relay_typed_step [OF ok typed assms(2,4)] by (auto simp: relay_live_def)
qed

lemma acknowledge_relay:
  assumes "relay_live (cl_net c)" and "addr_fits (cl_me c)" and "env_network env = relay_network (cl_me c) base"
    and "n \<le> length (q_tail (relay_queue (cl_me c) (cl_net c)))"
  shows "\<exists>r'. acknowledge_fetched env (relay_cursor (cl_me c) (cl_net c)) n c = (Inr (), c\<lparr>cl_net := r'\<rparr>)
    \<and> relay_live r' \<and> q_tail (relay_queue (cl_me c) r') = drop n (q_tail (relay_queue (cl_me c) (cl_net c)))
    \<and> (\<forall>a. a \<noteq> cl_me c \<longrightarrow> q_tail (relay_queue a r') = q_tail (relay_queue a (cl_net c)))"
proof (cases "n = 0")
  case True
  then show ?thesis using assms(1) by (intro exI [of _ "cl_net c"]) (simp add: acknowledge_fetched_def)
next
  case False
  let ?me = "cl_me c" and ?r = "cl_net c"
  let ?up = "relay_cursor ?me ?r + of_nat n"
  obtain r' where step: "relay_step (?me, Req_Ack ?me ?up) ?r = (Some (Resp_Acked True), r')" and cursor: "relay_cursor ?me r' = ?up"
    using ack_accepted [OF assms(1) _ assms(4)] False by auto
  have "unat (relay_cursor ?me ?r) + length (q_tail (relay_queue ?me ?r)) < 2 ^ 64" and ok: "relay_ok ?r"
    using assms(1) unfolding relay_live_def by blast+
  then have up: "unat ?up = unat (relay_cursor ?me ?r) + n" and request: "acknowledgement_for ?me (relay_cursor ?me ?r) n = Some (Req_Ack ?me ?up)"
    using False assms(4) by (simp_all add: unat_word_ariths unat_of_nat acknowledgement_for_def checked_add_def)
  obtain bytes where bytes: "encode_request (Req_Ack ?me ?up) = Some bytes"
    using assms(2) by (auto simp: encode_request_def put_addr_def put_bytes_def addr_fits_def u32_try_from_def)
  obtain out where out: "encode_response (Resp_Acked True) = Some out" "decode_response out = Some (Resp_Acked True)"
    using decode_response_iff [of _ "Resp_Acked True"] by (auto simp: encode_response_def)
  have "nw_relay_request (relay_network ?me base) bytes ?r = (Inr out, r')"
    using relay_answer [OF bytes _ step out(1)] assms(2) by (simp add: addr_fits_def)
  then have "acknowledge_fetched env (relay_cursor ?me ?r) n c = (Inr (), c\<lparr>cl_net := r'\<rparr>)"
    using False request bytes out(2) by (simp add: acknowledge_fetched_def cbind_def on_net_def rmap_err_def ok_or_def assms(3))
  moreover have "relay_live r'"
    using relay_live_step [OF assms(1) _ _ step] assms(2) bytes by (auto simp: from_wire_def addr_fits_def)
  moreover have "q_tail (relay_queue ?me r') = drop n (q_tail (relay_queue ?me ?r))"
    using relay_step_ok [OF ok step, of ?me] cursor up by (simp add: sent_to_def)
  moreover have "q_tail (relay_queue a r') = q_tail (relay_queue a ?r)" if "a \<noteq> ?me" for a
    using relay_step_ok [OF ok step, of a] that by (simp add: sent_to_def)
  ultimately show ?thesis by blast
qed

lemma relay_positions_run:
  "relay_ok r \<Longrightarrow> unat (relay_cursor a (final relay_step xs r)) + length (q_tail (relay_queue a (final relay_step xs r)))
     \<le> unat (relay_cursor a r) + length (q_tail (relay_queue a r)) + length xs"
proof (induction xs arbitrary: r)
  case (Cons x xs)
  obtain answer r' where r': "relay_step x r = (answer, r')" by fastforce
  have "length (sent_to a x answer) \<le> 1"
    by (auto simp: sent_to_def split: prod.splits request.splits)
  then show ?case
    using Cons.IH [of r'] relay_step_ok [OF Cons.prems r', of a] r' by simp
qed simp

lemma reached_live:
  assumes "r = final relay_step xs relay_new" and "list_all from_wire xs" and "length xs < 2 ^ 32"
  shows "relay_live r"
proof -
  have new: "relay_ok relay_new" "relay_limits relay_new" "relay_typed relay_new"
    using relay_new_ok queue_ok_default by (auto simp: relay_typed_def relay_new_def)
  have le: "unat (relay_cursor a r) + length (q_tail (relay_queue a r)) \<le> length xs" for a
    using relay_positions_run [OF new(1), of a xs] assms(1) queue_ok_default by (simp add: relay_new_def relay_cursor_def)
  have "unat (relay_cursor a r) + length (q_tail (relay_queue a r)) < 2 ^ 64" for a
    using le_less_trans [OF le [of a] assms(3)] by simp
  then show ?thesis
    using relay_wire_run [OF new assms(2,1)] by (auto simp: relay_live_def)
qed

section \<open>Draining\<close>

lemma decrypt_batch_same: "decrypt_batch env ms c = (rs, c') \<Longrightarrow> cl_net c' = cl_net c \<and> cl_me c' = cl_me c"
proof (induction ms arbitrary: c rs)
  case (Cons m ms)
  then show ?case
    by (fastforce simp: note_session_def split: sum.splits prod.splits option.splits if_splits)
qed simp

text \<open>What becomes of one message: it is given to the provider, and is received when it decrypts.\<close>

definition opened_one :: "('p, 'n, 'k) client_env \<Rightarrow> stored_message \<Rightarrow> 'p \<Rightarrow> received option \<times> 'p" where
  "opened_one env m p =
     (case peer_address (msg_from m) of
        Inl _ \<Rightarrow> (None, p)
      | Inr peer \<Rightarrow>
          (case pv_decrypt (env_crypto env) peer (env_payload (msg_envelope m)) p of
             (t, p) \<Rightarrow> (map_option (\<lambda>t. \<lparr>rcv_from = msg_from m, rcv_plaintext = t, rcv_kind = message_kind_of (env_kind (msg_envelope m))\<rparr>) t, p)))"

lemma decrypt_batch_opened:
  "decrypt_batch env ms c = (rs, c') \<Longrightarrow>
   rs = List.map_filter id (answers (opened_one env) ms (cl_party c)) \<and> cl_party c' = final (opened_one env) ms (cl_party c)"
proof (induction ms arbitrary: c rs)
  case (Cons m ms)
  show ?case
  proof (cases "peer_address (msg_from m)")
    case (Inl x)
    then have "opened_one env m (cl_party c) = (None, cl_party c)" by (simp add: opened_one_def)
    then show ?thesis using Cons Inl by (simp add: map_filter_simps)
  next
    case (Inr peer)
    obtain t p where t: "pv_decrypt (env_crypto env) peer (env_payload (msg_envelope m)) (cl_party c) = (t, p)" by fastforce
    show ?thesis
    proof (cases t)
      case None
      then have "opened_one env m (cl_party c) = (None, p)" using Inr t by (simp add: opened_one_def)
      then show ?thesis
        using Cons.IH [of "c\<lparr>cl_party := p\<rparr>"] Cons.prems Inr t None by (simp add: map_filter_simps)
    next
      case (Some plain)
      obtain rs' where "decrypt_batch env ms (note_session (msg_from m) (c\<lparr>cl_party := p\<rparr>)) = (rs', c')"
        and "rs = \<lparr>rcv_from = msg_from m, rcv_plaintext = plain, rcv_kind = message_kind_of (env_kind (msg_envelope m))\<rparr> # rs'"
        using Cons.prems Inr t Some by (auto split: prod.splits)
      moreover have "cl_party (note_session (msg_from m) (c\<lparr>cl_party := p\<rparr>)) = p" by (simp add: note_session_def)
      moreover have "opened_one env m (cl_party c)
          = (Some \<lparr>rcv_from = msg_from m, rcv_plaintext = plain, rcv_kind = message_kind_of (env_kind (msg_envelope m))\<rparr>, p)"
        using Inr t Some by (simp add: opened_one_def)
      ultimately show ?thesis
        using Cons.IH [of "note_session (msg_from m) (c\<lparr>cl_party := p\<rparr>)" rs'] by (simp add: map_filter_simps)
    qed
  qed
qed (simp add: map_filter_simps)

lemma advance_same:
  "cl_net (snd (commit_ratchet_advance env c)) = cl_net c \<and> cl_me (snd (commit_ratchet_advance env c)) = cl_me c
   \<and> cl_party (snd (commit_ratchet_advance env c)) = cl_party c"
  by (auto simp: commit_ratchet_advance_def Let_def split: option.split prod.split sum.split)

lemma drain_relay:
  assumes "relay_live (cl_net c)" and "addr_fits (cl_me c)" and "env_network env = relay_network (cl_me c) base"
  shows "\<exists>c'. client_drain env c = (Inr (List.map_filter id (answers (opened_one env) (q_tail (relay_queue (cl_me c) (cl_net c))) (cl_party c))), c')
    \<and> cl_party c' = final (opened_one env) (q_tail (relay_queue (cl_me c) (cl_net c))) (cl_party c) \<and> relay_live (cl_net c') \<and> cl_me c' = cl_me c \<and> q_tail (relay_queue (cl_me c) (cl_net c')) = []
    \<and> (\<forall>a. a \<noteq> cl_me c \<longrightarrow> q_tail (relay_queue a (cl_net c')) = q_tail (relay_queue a (cl_net c)))"
proof -
  let ?ms = "q_tail (relay_queue (cl_me c) (cl_net c))"
  obtain rs d where batch: "decrypt_batch env ?ms c = (rs, d)" by fastforce
  define e where "e = (if rs = [] then d else snd (commit_ratchet_advance env d))"
  have same: "cl_net e = cl_net c" "cl_me e = cl_me c"
    using decrypt_batch_same [OF batch] by (auto simp: e_def advance_same)
  have party: "cl_party e = cl_party d" by (simp add: e_def advance_same)
  obtain r' where ack: "acknowledge_fetched env (relay_cursor (cl_me c) (cl_net c)) (length ?ms) e = (Inr (), e\<lparr>cl_net := r'\<rparr>)"
    and r': "relay_live r'" "q_tail (relay_queue (cl_me c) r') = []"
      "\<forall>a. a \<noteq> cl_me c \<longrightarrow> q_tail (relay_queue a r') = q_tail (relay_queue a (cl_net c))"
    using acknowledge_relay [of e env base "length ?ms"] assms same by auto
  have "poll_batch env c = (Inr rs, e\<lparr>cl_net := r'\<rparr>)"
    using fetch_staged_relay [OF assms] batch ack by (simp add: poll_batch_def cbind_def Let_def e_def)
  then show ?thesis
    using r' same party decrypt_batch_opened [OF batch] by (simp add: client_drain_def retry_io_def)
qed



text \<open>A client of the plain provider on an empty network that is otherwise silent, as \<open>bob\<close>.\<close>

definition silent_network :: "relay network" where
  "silent_network =
     \<lparr>nw_dial_directory = (\<lambda>n. (Inl Io_Other, n)), nw_dial_relay = (\<lambda>_ _ n. (Inl Io_Other, n)), nw_reconnect = (\<lambda>_ _ n. (Inl Io_Other, n)),
      nw_relay_request = (\<lambda>_ n. (Inl Io_Other, n)), nw_lookup = (\<lambda>_ n. (Inl Io_Other, n)), nw_register = (\<lambda>_ _ _ _ n. (Inl Io_Other, n)),
      nw_deposit_prekeys = (\<lambda>_ _ _ _ n. (Inl Io_Other, n)), nw_rotate = (\<lambda>_ _ _ _ _ n. (Inl Io_Other, n)),
      nw_witness = (\<lambda>_ _ _ n. (Inl Io_Other, n)), nw_sign_in = (\<lambda>_ _ _ n. (Inl Io_Other, n)),
      nw_provision = (\<lambda>_ _ _ _ _ n. (Inl Io_Other, n))\<rparr>"

definition relay_env :: "device_addr \<Rightarrow> (bytes, relay, u64) client_env" where
  "relay_env me =
     \<lparr>env_crypto = plain_provider, env_network = relay_network me silent_network, env_store = counting_store,
      env_hmac = (\<lambda>_ _. replicate 32 0)\<rparr>"

lemma hello_from_wire: "list_all from_wire [(alice, Req_Send bob hello)]"
  by (simp add: from_wire_def addr_typed_def alice_def bob_def ascii_def utf8_valid.simps
      encode_request_def put_addr_def put_bytes_def u32_try_from_def encode_def hello_def)

lemma names_fit: "addr_fits alice" "addr_fits bob"
  by (simp_all add: addr_fits_def addr_typed_def alice_def bob_def ascii_def utf8_valid.simps)

lemmas small_relay = relay_step_def handle_def relay_enqueue_def relay_new_def relay_pending_def queue_pending_def queue_enqueue_def
  queue_default_def session_defs slice_from_def byte_len_def alice_def ascii_def hello_def limit_defs fmget_def Let_def
  usize_saturating_add_def usize_max_def saturating_add_def

lemma hello_accepted: "fst (relay_step (alice, Req_Send bob hello) relay_new) = Some Resp_Ok"
  by (simp add: small_relay)

lemma hello_queued:
  "relay_pending bob (final relay_step [(alice, Req_Send bob hello)] relay_new) = Some [\<lparr>msg_from = alice, msg_envelope = hello\<rparr>]"
  by (simp add: small_relay)






section \<open>Sending\<close>

text \<open>
  From one client to another through the relay.  When the dispatch of a prepared request answers
  that it was sent, the peer's next drain gives the provider what was pending for it before and then this
  envelope, last, with the address the sender authenticated as, and returns those that decrypt.  The relay is again as any requests off
  the wire left it.
\<close>

theorem dispatched_is_drained:
  assumes "cl_net c = final relay_step xs relay_new" and "list_all from_wire xs" and "length xs + 1 < 2 ^ 32"
    and "addr_fits (cl_me c)" and "env_network env = relay_network (cl_me c) base"
    and "encode_request (Req_Send to e) = Some bytes" and "addr_typed to" and "relay_pending to (cl_net c) = Some pending"
    and "dispatch_prepared_send env bytes c = (Inr (), c')"
    and "cl_net d = cl_net c'" and "cl_me d = to" and "env_network peer = relay_network to base'"
  shows "fst (client_drain peer d)
    = Inr (List.map_filter id (answers (opened_one peer) (pending @ [\<lparr>msg_from = cl_me c, msg_envelope = e\<rparr>]) (cl_party d)))"
proof -
  let ?x = "(cl_me c, Req_Send to e)"
  have live: "relay_live (cl_net c)" using reached_live [OF assms(1,2)] assms(3) by simp
  have wire: "from_wire ?x" using assms(4,6,7) by (simp add: from_wire_def addr_fits_def)
  obtain response r' where step: "relay_step ?x (cl_net c) = (Some response, r')"
    using relay_step_ok [of "cl_net c" ?x] live by (metis not_None_eq prod.collapse relay_live_def)
  have "response \<in> {Resp_Ok, Resp_QueueFull, Resp_TooLarge}"
    using step by (auto simp: relay_step_def handle_def option_bind_simps split: option.splits) (metis enqueued.exhaust enqueued.simps(7-9))
  then obtain out where out: "encode_response response = Some out" "response_typed response"
    by (auto simp: encode_response_def)
  have "nw_relay_request (relay_network (cl_me c) base) bytes (cl_net c) = (Inr out, r')"
    using relay_answer [OF assms(6) _ step out(1)] assms(7) by simp
  then have "send_answer (decode_response out) = Inr ()" and c': "cl_net c' = r'"
    using assms(9) by (auto simp: dispatch_prepared_send_def retry_io_def on_net_def cbind_def rmap_err_def assms(5))
  moreover have "decode_response out = Some response"
    using out by (simp add: decode_response_iff)
  ultimately have "response = Resp_Ok"
    by (simp add: send_answer_def split: response.splits)
  then have "q_tail (relay_queue to r') = pending @ [\<lparr>msg_from = cl_me c, msg_envelope = e\<rparr>]"
    using relay_step_ok [of "cl_net c" ?x _ r' to] step live relay_pending_ok assms(8) by (auto simp: sent_to_def relay_live_def)
  moreover have "addr_fits to"
    using assms(6,7) by (auto simp: addr_fits_def encode_request_def put_addr_def put_bytes_Some option_bind_simps)
  moreover have "relay_live r'"
    using reached_live [of r' "xs @ [?x]"] assms(1-3) wire step by (simp add: final_append)
  ultimately show ?thesis
    using drain_relay [of d peer base'] assms(10-12) c' by auto
qed


text \<open>Alice's client sends, and Bob's client on the relay as it then is drains.\<close>

definition plain_sender :: "(bytes, relay, u64) client" where
  "plain_sender = new_client [7] relay_new alice"

theorem dispatched_is_drained_witness:
  "let request = (case encode_request (Req_Send bob hello) of Some bytes \<Rightarrow> bytes | None \<Rightarrow> []);
       (answer, c) = dispatch_prepared_send (relay_env alice) request plain_sender
   in answer = Inr ()
      \<and> fst (client_drain (relay_env bob) (new_client [8] (cl_net c) bob))
        = Inr [\<lparr>rcv_from = alice, rcv_plaintext = [7, 7], rcv_kind = MessageDirect\<rparr>]"
proof -
  obtain bytes where bytes: "encode_request (Req_Send bob hello) = Some bytes"
    using hello_from_wire by (auto simp: from_wire_def)
  let ?r = "snd (relay_step (alice, Req_Send bob hello) relay_new)" and ?c = "plain_sender\<lparr>cl_net := snd (relay_step (alice, Req_Send bob hello) relay_new)\<rparr>"
  let ?d = "new_client [8] ?r bob :: (bytes, relay, u64) client"
  have me: "cl_me plain_sender = alice" "cl_net plain_sender = relay_new" and typed: "addr_typed bob"
    using names_fit by (simp_all add: plain_sender_def new_client_def addr_fits_def)
  obtain out where out: "encode_response Resp_Ok = Some out" "decode_response out = Some Resp_Ok"
    using decode_response_iff [of _ Resp_Ok] by (auto simp: encode_response_def)
  have "nw_relay_request (relay_network alice silent_network) bytes relay_new = (Inr out, ?r)"
    using relay_answer [OF bytes _ _ out(1)] typed hello_accepted by (simp add: prod_eq_iff)
  then have sent: "dispatch_prepared_send (relay_env alice) bytes plain_sender = (Inr (), ?c)"
    by (simp add: dispatch_prepared_send_def retry_io_def on_net_def cbind_def rmap_err_def relay_env_def me send_answer_def out(2))
  have empty: "relay_pending bob (cl_net plain_sender) = Some []"
    by (simp add: me relay_pending_def relay_new_def)
  have "addr_fits (cl_me plain_sender)" "cl_net plain_sender = final relay_step [] relay_new" "cl_net ?d = cl_net ?c" "cl_me ?d = bob"
      "env_network (relay_env alice) = relay_network (cl_me plain_sender) silent_network"
      "env_network (relay_env bob) = relay_network bob silent_network"
    using names_fit by (simp_all add: me new_client_def relay_env_def)
  then have "fst (client_drain (relay_env bob) ?d)
      = Inr (List.map_filter id (answers (opened_one (relay_env bob)) ([] @ [\<lparr>msg_from = cl_me plain_sender, msg_envelope = hello\<rparr>]) (cl_party ?d)))"
    using dispatched_is_drained [OF _ _ _ _ _ bytes typed empty sent, where xs = "[]" and d = ?d and peer = "relay_env bob"] by simp
  then show ?thesis
    using bytes sent
    by (simp add: me opened_one_def map_filter_simps peer_address_def alice_def u8_try_from_def relay_env_def plain_provider_def hello_def ok_or_def rbind_def)
qed

end
