(* ===== verification/Group_Relay.thy ===== *)
theory Group_Relay
  imports Group_Client Client_Relay
begin

text \<open>
  The coordinator of \<^verbatim>\<open>group_client.rs\<close> on the relay of \<^verbatim>\<open>tacenta-relay\<close>: what a receive acknowledges at the
  relay is what it committed and reports.
\<close>

section \<open>Staging\<close>

lemma note_session_same: "cl_net (note_session a c) = cl_net c" "cl_me (note_session a c) = cl_me c"
  by (simp_all add: note_session_def)

lemma open_staged_same: "cl_net (snd (open_staged env m c)) = cl_net c" "cl_me (snd (open_staged env m c)) = cl_me c"
  by (simp_all add: open_staged_def Let_def advance_same note_session_same split: sum.split prod.split)

lemma gc_commit_client: "gc_client (snd (gc_commit f g)) = gc_client g"
  by (simp add: gc_commit_def split: prod.split)

lemma route_client: "gc_client (snd (route e now input g)) = gc_client g"
  by (simp add: route_def split: prod.split)

definition reported :: "inbound \<Rightarrow> nat" where
  "reported ib = length (ib_items ib) + length (ib_direct ib) + ib_dropped ib"

lemma commit_item_reports:
  assumes "commit_item e now item ib g = (r, g')"
  shows "gc_client g' = gc_client g \<and> (\<forall>ib'. r = Inr ib' \<longrightarrow> reported ib' = Suc (reported ib))"
proof -
  have commits: "gc_commit f g = (x, h) \<Longrightarrow> gc_client h = gc_client g" for f :: "_ \<Rightarrow> _ \<Rightarrow> (_, _, unit) committed" and x h
    using gc_commit_client [of f g] by simp
  have routes: "route e now input g = (x, h) \<Longrightarrow> gc_client h = gc_client g" for input x h
    using route_client [of e now input g] by simp
  show ?thesis
    using assms
    by (auto simp: commit_item_def cbind_def reported_def dest!: commits routes
        split: option.splits if_splits prod.splits sum.splits)
qed

lemma stage_reports:
  assumes "stage e now message ib g = (r, g')"
  shows "cl_net (gc_client g') = cl_net (gc_client g) \<and> cl_me (gc_client g') = cl_me (gc_client g)
    \<and> (\<forall>ib'. r = Inr ib' \<longrightarrow> reported ib' = Suc (reported ib)) \<and> (isl r \<longrightarrow> gc_poisoned g')"
proof -
  obtain x c where staged: "open_staged (ge_client e) message (gc_client g) = (x, c)" by fastforce
  have c: "cl_net c = cl_net (gc_client g)" "cl_me c = cl_me (gc_client g)"
    using open_staged_same [of "ge_client e" message "gc_client g"] staged by simp_all
  show ?thesis
    using assms staged c
    by (auto simp: stage_def cbind_def gc_on_client_def rmap_err_def dest!: commit_item_reports split: prod.splits sum.splits)
qed

lemma stage_all_reports:
  assumes "stage_all e now messages processed ib g = ((processed', stopped, ib'), g')"
  shows "cl_net (gc_client g') = cl_net (gc_client g) \<and> cl_me (gc_client g') = cl_me (gc_client g)
    \<and> processed \<le> processed' \<and> processed' \<le> processed + length messages
    \<and> reported ib' + processed = reported ib + processed'
    \<and> (stopped = None \<longrightarrow> processed' = processed + length messages) \<and> (stopped \<noteq> None \<longrightarrow> gc_poisoned g')"
  using assms
proof (induction messages arbitrary: processed ib g)
  case (Cons m ms)
  obtain r h where step: "stage e now m ib g = (r, h)" by fastforce
  show ?case
  proof (cases r)
    case (Inr ib1)
    then show ?thesis
      using Cons.IH [of "processed + 1" ib1 h] Cons.prems step stage_reports [OF step] by auto
  qed (use Cons.prems step stage_reports [OF step] in auto)
qed simp

section \<open>Receiving\<close>

lemma acknowledge_delivery_client: "gc_client (snd (acknowledge_delivery e g)) = gc_client g"
  by (simp add: acknowledge_delivery_def gc_commit_client)

lemma hand_over_same: "gc_client (hand_over issued ib g) = gc_client g" "gc_poisoned (hand_over issued ib g) = gc_poisoned g"
  by (simp_all add: hand_over_def Let_def split: option.split)

lemma begin_inbound_reports: "reported (begin_inbound g) = 0"
  by (simp add: begin_inbound_def Let_def reported_def)

text \<open>What happened at the relay for a device whose first \<open>n\<close> pending messages were acknowledged, and for the others.\<close>

definition acknowledged :: "device_addr \<Rightarrow> nat \<Rightarrow> relay \<Rightarrow> relay \<Rightarrow> bool" where
  "acknowledged me n r r' \<longleftrightarrow> q_tail (relay_queue me r') = drop n (q_tail (relay_queue me r))
     \<and> (\<forall>a. a \<noteq> me \<longrightarrow> q_tail (relay_queue a r') = q_tail (relay_queue a r)) \<and> relay_live r'"

lemma acknowledged_none: "relay_live r \<Longrightarrow> acknowledged me 0 r r"
  by (simp add: acknowledged_def)

lemma fetched_relay:
  assumes "relay_live (cl_net c)" and "addr_fits (cl_me c)" and "env_network env = relay_network (cl_me c) base"
  shows "retry_io env (fetch_staged env) c = (Inr (relay_cursor (cl_me c) (cl_net c), q_tail (relay_queue (cl_me c) (cl_net c))), c)"
  using fetch_staged_relay [OF assms] by (simp add: retry_io_def)

text \<open>The rest of a receive, from the fetched batch on.\<close>

definition receive_batch ::
  "('p, 'n, 'k, 's) group_env \<Rightarrow> u64 \<Rightarrow> u64 \<Rightarrow> inbound \<Rightarrow> u64 \<Rightarrow> stored_message list \<Rightarrow> ('p, 'n, 'k, 's, inbound) group_step" where
  "receive_batch e now issued ib start messages g =
     (case stage_all e now (take MAX_RECEIVE_ITEMS messages) 0 ib g of
        ((processed, stopped, ib), g) \<Rightarrow>
          cbind (if processed > 0 then gc_on_client (acknowledge_fetched (ge_client e) start processed) else (\<lambda>g. (Inr (), g)))
            (\<lambda>_ g.
              case stopped of
                Some GErrFrozen \<Rightarrow> (let ib = ib\<lparr>ib_frozen := True\<rparr> in (Inr ib, hand_over issued ib g))
              | Some err \<Rightarrow> if processed = 0 then (Inl err, g) else (Inr ib, hand_over issued ib g)
              | None \<Rightarrow> (Inr ib, hand_over issued ib g)) g)"

lemma group_receive_batch:
  "group_receive e now g =
     (if gc_is_frozen g then (Inl GErrFrozen, g)
      else cbind (acknowledge_delivery e) (\<lambda>_ g.
        cbind (gc_on_client (retry_io (ge_client e) (fetch_staged (ge_client e))))
          (\<lambda>(start, messages). receive_batch e now (events_issued_by (gc_group g)) (begin_inbound g) start messages) g) g)"
  unfolding group_receive_def receive_batch_def Let_def by (rule refl)

lemma receive_batch_relay:
  assumes "relay_live (cl_net (gc_client g))" and "addr_fits (cl_me (gc_client g))" and "reported ib = 0"
    and "env_network (ge_client e) = relay_network (cl_me (gc_client g)) base"
    and "pending = q_tail (relay_queue (cl_me (gc_client g)) (cl_net (gc_client g)))"
    and "receive_batch e now issued ib (relay_cursor (cl_me (gc_client g)) (cl_net (gc_client g))) pending g = (r, g')"
  shows "case r of
      Inl _ \<Rightarrow> acknowledged (cl_me (gc_client g)) 0 (cl_net (gc_client g)) (cl_net (gc_client g'))
    | Inr ib' \<Rightarrow> acknowledged (cl_me (gc_client g)) (reported ib') (cl_net (gc_client g)) (cl_net (gc_client g'))
        \<and> reported ib' \<le> min MAX_RECEIVE_ITEMS (length pending)
        \<and> (reported ib' < min MAX_RECEIVE_ITEMS (length pending) \<longrightarrow> gc_is_frozen g')"
proof -
  let ?me = "cl_me (gc_client g)" and ?net = "cl_net (gc_client g)" and ?ms = "take MAX_RECEIVE_ITEMS pending"
  obtain n stopped ib1 h where staged: "stage_all e now ?ms 0 ib g = ((n, stopped, ib1), h)"
    by (metis prod.collapse)
  have h: "cl_net (gc_client h) = ?net" "cl_me (gc_client h) = ?me" "n \<le> length ?ms" "reported ib1 = n"
      "stopped = None \<longrightarrow> n = length ?ms" "stopped \<noteq> None \<longrightarrow> gc_poisoned h"
    using stage_all_reports [OF staged] assms(3) by auto
  have le: "n \<le> length (q_tail (relay_queue (cl_me (gc_client h)) (cl_net (gc_client h))))"
    using h(1-3) assms(5) by simp
  obtain r' where ack: "acknowledge_fetched (ge_client e) (relay_cursor ?me ?net) n (gc_client h) = (Inr (), (gc_client h)\<lparr>cl_net := r'\<rparr>)"
    and r': "acknowledged ?me n ?net r'"
    using acknowledge_relay [of "gc_client h" "ge_client e" base n, OF _ _ _ le] assms(1,2,4) h(1,2) by (auto simp: acknowledged_def)
  define h' where "h' = (if 0 < n then h\<lparr>gc_client := (gc_client h)\<lparr>cl_net := r'\<rparr>\<rparr> else h)"
  have h': "acknowledged ?me n ?net (cl_net (gc_client h'))" "gc_poisoned h' = gc_poisoned h"
    using r' acknowledged_none [OF assms(1)] h(1) by (simp_all add: h'_def)
  have "(if n > 0 then gc_on_client (acknowledge_fetched (ge_client e) (relay_cursor ?me ?net) n) else (\<lambda>g. (Inr (), g))) h = (Inr (), h')"
    using ack by (simp add: gc_on_client_def rmap_err_def h'_def)
  then have "(r, g') = (case stopped of
      Some GErrFrozen \<Rightarrow> (let ib = ib1\<lparr>ib_frozen := True\<rparr> in (Inr ib, hand_over issued ib h'))
    | Some err \<Rightarrow> if n = 0 then (Inl err, h') else (Inr ib1, hand_over issued ib1 h')
    | None \<Rightarrow> (Inr ib1, hand_over issued ib1 h'))"
    using assms(6) staged by (simp add: receive_batch_def cbind_def)
  then show ?thesis
    using h(3-6) h' by (auto simp: Let_def hand_over_same gc_is_frozen_def reported_def split: option.splits coordinator_error.splits if_splits)
qed

text \<open>
  C1. A receive acknowledges what it reports.  The coordinator's client is connected to a relay as any
  requests off the wire, fewer than 2 to the 32nd, left it.  A receive that returns a result has removed from the device's queue
  exactly the items it reports, whether as group items, as direct messages or as dropped, at most
  thirty-two of them and from the front; when it stopped before the items it could take, the
  coordinator is frozen.  A receive that fails has removed nothing.  The other queues do not change.
\<close>

theorem receive_acknowledges_reported:
  assumes "cl_net (gc_client g) = final relay_step xs relay_new" and "list_all from_wire xs" and "length xs < 2 ^ 32"
    and "addr_fits (cl_me (gc_client g))" and "env_network (ge_client e) = relay_network (cl_me (gc_client g)) base"
    and "relay_pending (cl_me (gc_client g)) (cl_net (gc_client g)) = Some pending"
    and "group_receive e now g = (r, g')"
  shows "(case r of
      Inl _ \<Rightarrow> relay_pending (cl_me (gc_client g)) (cl_net (gc_client g')) = Some pending
    | Inr ib \<Rightarrow> relay_pending (cl_me (gc_client g)) (cl_net (gc_client g')) = Some (drop (reported ib) pending)
        \<and> reported ib \<le> min MAX_RECEIVE_ITEMS (length pending)
        \<and> (reported ib < min MAX_RECEIVE_ITEMS (length pending) \<longrightarrow> gc_is_frozen g'))
    \<and> (\<forall>a. a \<noteq> cl_me (gc_client g) \<longrightarrow> relay_pending a (cl_net (gc_client g')) = relay_pending a (cl_net (gc_client g)))"
proof -
  let ?me = "cl_me (gc_client g)" and ?net = "cl_net (gc_client g)"
  have live: "relay_live ?net" using reached_live [OF assms(1-3)] .
  have pending: "relay_live x \<Longrightarrow> relay_pending a x = Some (q_tail (relay_queue a x))" for a x
    by (simp add: relay_live_def relay_pending_ok)
  have removed: "relay_pending ?me x = Some (drop n pending) \<and> (\<forall>a. a \<noteq> ?me \<longrightarrow> relay_pending a x = relay_pending a ?net)"
    if "acknowledged ?me n ?net x" for n x
    using that pending live assms(6) by (auto simp: acknowledged_def)
  have untouched: ?thesis if "isl r" "gc_client g' = gc_client g"
    using that assms(6) by (auto simp: isl_def)
  show ?thesis
  proof (cases "gc_is_frozen g \<or> isl (fst (acknowledge_delivery e g))")
    case True
    then show ?thesis
      using untouched assms(7) acknowledge_delivery_client [of e g]
      by (auto simp: group_receive_batch cbind_def isl_def split: prod.splits sum.splits if_splits)
  next
    case False
    then obtain h where h: "acknowledge_delivery e g = (Inr (), h)" "gc_client h = gc_client g"
      using acknowledge_delivery_client [of e g] by (cases "acknowledge_delivery e g") (auto simp: isl_def, metis sum.exhaust old.unit.exhaust)
    have "receive_batch e now (events_issued_by (gc_group h)) (begin_inbound h)
        (relay_cursor (cl_me (gc_client h)) (cl_net (gc_client h))) pending h = (r, g')"
      using assms(7) False h fetched_relay [OF live assms(4,5)] pending [OF live, of ?me] assms(6)
      by (cases h) (simp add: group_receive_batch cbind_def gc_on_client_def rmap_err_def)
    note batched = this
    have same: "relay_live (cl_net (gc_client h))" "addr_fits (cl_me (gc_client h))"
        "env_network (ge_client e) = relay_network (cl_me (gc_client h)) base"
        "pending = q_tail (relay_queue (cl_me (gc_client h)) (cl_net (gc_client h)))"
      using live assms(4,5,6) pending [OF live, of ?me] by (simp_all add: h(2))
    have batch: "case r of
        Inl _ \<Rightarrow> acknowledged ?me 0 ?net (cl_net (gc_client g'))
      | Inr ib \<Rightarrow> acknowledged ?me (reported ib) ?net (cl_net (gc_client g'))
          \<and> reported ib \<le> min MAX_RECEIVE_ITEMS (length pending)
          \<and> (reported ib < min MAX_RECEIVE_ITEMS (length pending) \<longrightarrow> gc_is_frozen g')"
      using receive_batch_relay [OF same(1,2) begin_inbound_reports same(3,4) batched] unfolding h(2) .
    show ?thesis
      using batch removed [of 0] removed by (cases r) auto
  qed
qed


text \<open>Bob's coordinator on a store that forgets, with Alice's direct message pending.\<close>

definition relay_group_env :: "(bytes, relay, u64, unit) group_env" where
  "relay_group_env =
     \<lparr>ge_client = relay_env bob, ge_inner = discard_port, ge_roster_commitment = (\<lambda>_. replicate DIGEST_LEN 0),
      ge_payload_commitment = (\<lambda>_. replicate DIGEST_LEN 0)\<rparr>"

definition bob_coordinator :: "(bytes, relay, u64, unit) group_client" where
  "bob_coordinator =
     \<lparr>gc_client = new_client [7] (final relay_step [(alice, Req_Send bob hello)] relay_new) bob, gc_store = durable_new (),
      gc_snapshot = snapshot_empty 0, gc_group = None, gc_poisoned = False, gc_handed_over = 0\<rparr>"

lemma bob_stages_hello:
  "\<exists>g. stage relay_group_env now \<lparr>msg_from = alice, msg_envelope = hello\<rparr> ib bob_coordinator
     = (Inr (ib\<lparr>ib_direct := ib_direct ib @ [\<lparr>rcv_from = alice, rcv_plaintext = [7, 7], rcv_kind = MessageDirect\<rparr>]\<rparr>), g)"
  by (simp add: stage_def cbind_def gc_on_client_def open_staged_def peer_address_def alice_def u8_try_from_def rbind_def
      bob_coordinator_def relay_group_env_def relay_env_def plain_provider_def hello_def commit_item_def gc_commit_def
      commit_provider_state_def commit_candidate_def begin_candidate_def durable_port_def durable_new_def durable_commit_def
      durable_next_generation_def discard_port_def default_commit_after_def default_durable_generation_def snapshot_empty_def
      checked_add_def ok_or_def rmap_err_def new_client_def Let_def)


lemma bob_live: "relay_live (cl_net (gc_client bob_coordinator))" "cl_me (gc_client bob_coordinator) = bob"
  using reached_live [OF refl hello_from_wire] by (simp_all add: bob_coordinator_def new_client_def)

lemma bob_receives_hello:
  "\<exists>ib g. group_receive relay_group_env 0 bob_coordinator = (Inr ib, g) \<and> reported ib = 1"
proof -
  let ?g = bob_coordinator and ?ib = "begin_inbound bob_coordinator"
  have queue: "q_tail (relay_queue bob (cl_net (gc_client ?g))) = [\<lparr>msg_from = alice, msg_envelope = hello\<rparr>]"
    using hello_queued bob_live(1) by (simp add: bob_coordinator_def new_client_def relay_live_def relay_pending_ok)
  obtain g1 where s: "stage relay_group_env 0 \<lparr>msg_from = alice, msg_envelope = hello\<rparr> ?ib ?g
      = (Inr (?ib\<lparr>ib_direct := ib_direct ?ib @ [\<lparr>rcv_from = alice, rcv_plaintext = [7, 7], rcv_kind = MessageDirect\<rparr>]\<rparr>), g1)"
    using bob_stages_hello by blast
  have g1: "cl_net (gc_client g1) = cl_net (gc_client ?g)" "cl_me (gc_client g1) = bob"
    using stage_reports [OF s] bob_live(2) by simp_all
  have net: "env_network (ge_client relay_group_env) = relay_network (cl_me (gc_client ?g)) silent_network"
    by (simp add: relay_group_env_def relay_env_def bob_live(2))
  obtain r' where ack: "acknowledge_fetched (ge_client relay_group_env) (relay_cursor bob (cl_net (gc_client ?g))) 1 (gc_client g1)
      = (Inr (), (gc_client g1)\<lparr>cl_net := r'\<rparr>)"
    using acknowledge_relay [of "gc_client g1" "ge_client relay_group_env" silent_network 1] bob_live names_fit net g1 queue by auto
  have fetch: "retry_io (ge_client relay_group_env) (fetch_staged (ge_client relay_group_env)) (gc_client ?g)
      = (Inr (relay_cursor bob (cl_net (gc_client ?g)), [\<lparr>msg_from = alice, msg_envelope = hello\<rparr>]), gc_client ?g)"
    using fetched_relay [OF bob_live(1) _ net] names_fit bob_live(2) queue by simp
  have "\<not> gc_is_frozen ?g" "acknowledge_delivery relay_group_env ?g = (Inr (), ?g)"
    by (simp_all add: gc_is_frozen_def acknowledge_delivery_def bob_coordinator_def durable_new_def snapshot_empty_def)
  moreover have "reported (?ib\<lparr>ib_direct := ib_direct ?ib @ [\<lparr>rcv_from = alice, rcv_plaintext = [7, 7], rcv_kind = MessageDirect\<rparr>]\<rparr>) = 1"
    using begin_inbound_reports [of ?g] by (simp add: reported_def)
  ultimately show ?thesis
    using s ack fetch
    by (simp add: group_receive_batch receive_batch_def cbind_def gc_on_client_def rmap_err_def MAX_RECEIVE_ITEMS_def)
qed

theorem receive_acknowledges_reported_witness:
  "\<exists>ib g. group_receive relay_group_env 0 bob_coordinator = (Inr ib, g) \<and> reported ib = 1 \<and> relay_pending bob (cl_net (gc_client g)) = Some []"
proof -
  obtain ib g where r: "group_receive relay_group_env 0 bob_coordinator = (Inr ib, g)" "reported ib = 1"
    using bob_receives_hello by blast
  have "relay_pending bob (cl_net (gc_client g)) = Some []"
    using receive_acknowledges_reported [OF _ hello_from_wire _ _ _ _ r(1), where base = silent_network] r(2) names_fit hello_queued
    by (simp add: bob_coordinator_def new_client_def relay_group_env_def relay_env_def)
  then show ?thesis using r by blast
qed

end
