(* ===== verification/Client_Replay.thy ===== *)
theory Client_Replay
  imports Client_Commit
begin

text \<open>
  The transcript in a snapshot is the group outbox: every commit on the outbox appends a record whose
  replay is the change it made, and a restart from the snapshot gives the outbox the coordinator has.
\<close>

section \<open>The records read back\<close>

text \<open>The core library's commitments are digests.\<close>

definition digests :: "(bytes \<Rightarrow> bytes) \<Rightarrow> bool" where
  "digests commitment \<longleftrightarrow> (\<forall>b. length (commitment b) = DIGEST_LEN)"

lemma digests_length: "digests commitment \<Longrightarrow> length (commitment b) = DIGEST_LEN"
  by (simp add: digests_def)

lemma ascii_tag4: "length (ascii [a, b, c, d]) = 4"
  by (simp add: ascii_def)

lemma take_tag: "take 4 (ascii [a, b, c, d] @ xs) = ascii [a, b, c, d]" "drop 4 (ascii [a, b, c, d] @ xs) = xs"
  by (simp_all add: ascii_def)

lemma record_tags:
  "ascii ''TCGI'' \<noteq> ascii ''TCGP''" "ascii ''TCGI'' \<noteq> ascii ''TCGH''" "ascii ''TCGI'' \<noteq> ascii ''TCGA''"
  "ascii ''TCGP'' \<noteq> ascii ''TCGH''" "ascii ''TCGP'' \<noteq> ascii ''TCGA''" "ascii ''TCGH'' \<noteq> ascii ''TCGA''"
  by code_simp+

lemma not_short: "\<not> length (ascii [a, b, c, d] @ xs) < 4"
  by (simp add: ascii_def)

lemma recover_entry_tags:
  "recover_entry gid c pc (ascii ''TCGI'' @ body) ob = recover_intent gid c body ob"
  "recover_entry gid c pc (ascii ''TCGP'' @ body) ob = recover_prepared gid pc body ob"
  "recover_entry gid c pc (ascii ''TCGH'' @ body) ob = recover_handoff gid pc body ob"
  "recover_entry gid c pc (ascii ''TCGA'' @ body) ob = recover_acceptance gid pc body ob"
  unfolding recover_entry_def Let_def take_tag if_not_P [OF not_short]
  by (simp_all only: record_tags record_tags [symmetric] if_True if_False simp_thms)

lemma length_prefixed_lp: "length v < 2 ^ 32 \<Longrightarrow> length_prefixed (lp v @ rest) = Inr v"
  by (simp add: length_prefixed_def lp_def unat_of_nat_u32 Let_def)

lemma outbox_record_id_tags:
  "outbox_record_id (ascii ''TCGI'' @ body) =
     rbind (length_prefixed body) (\<lambda>v. rbind (policy (decode_intent v)) (\<lambda>s. Inr (Some (send_id s))))"
  "tag \<in> {ascii ''TCGP'', ascii ''TCGH'', ascii ''TCGA''} \<Longrightarrow> outbox_record_id (tag @ body) =
     rbind (length_prefixed body) (\<lambda>v. rbind (policy (context_decode v)) (\<lambda>ctx.
       rbind (policy (logical_id_from_context ctx)) (\<lambda>ident. Inr (Some ident))))"
proof -
  show "outbox_record_id (ascii ''TCGI'' @ body) =
      rbind (length_prefixed body) (\<lambda>v. rbind (policy (decode_intent v)) (\<lambda>s. Inr (Some (send_id s))))"
    unfolding outbox_record_id_def Let_def take_tag if_not_P [OF not_short] by (simp only: simp_thms if_True)
  assume "tag \<in> {ascii ''TCGP'', ascii ''TCGH'', ascii ''TCGA''}"
  then consider "tag = ascii ''TCGP''" | "tag = ascii ''TCGH''" | "tag = ascii ''TCGA''" by blast
  then show "outbox_record_id (tag @ body) =
     rbind (length_prefixed body) (\<lambda>v. rbind (policy (context_decode v)) (\<lambda>ctx.
       rbind (policy (logical_id_from_context ctx)) (\<lambda>ident. Inr (Some ident))))"
    unfolding outbox_record_id_def Let_def logical_id_from_context_def
    by cases (simp_all only: take_tag if_not_P [OF not_short] record_tags record_tags [symmetric] simp_thms if_True if_False)
qed

lemma send_context:
  assumes "send_application_context s m = Inr ctx" "intent_typed s"
  shows "context_typed ctx" "ctx_recipient ctx = m" "ctx_group_id ctx = lid_group_id (send_id s)"
    "logical_id_from_context ctx = Inr (send_id s)"
  using assms
  by (auto simp: send_application_context_def context_new_def rbind_eq_Inr context_validate_Inr context_valid_def
      context_typed_def intent_typed_def logical_id_from_context_def logical_id_new_def Let_def)

lemma progress_record_read:
  assumes "context_typed ctx" "context_encode ctx = Inr b" "length b < 2 ^ 32" "length k = DIGEST_LEN" "length ct < 2 ^ 32"
  shows "decode_progress_record (lp b @ k @ lp ct @ rest) =
    Inr \<lparr>rec_context = ctx, rec_commitment = k, rec_ciphertext = ct, rec_rest = rest\<rparr>"
proof -
  have "take_lp (lp b @ k @ lp ct @ rest) = Inr (b, k @ lp ct @ rest)" "take_lp (lp ct @ rest) = Inr (ct, rest)"
    using assms(3,5) by (simp_all add: take_lp_Inr)
  moreover have "context_decode b = Inr ctx" using assms(1,2) by (simp add: context_decode_exact)
  moreover have "g_take DIGEST_LEN (k @ lp ct @ rest) = Inr (k, lp ct @ rest)" using assms(4) by (simp add: g_take_Inr)
  ultimately show ?thesis using assms(4) by (simp add: decode_progress_record_def digest_try_from_def)
qed

lemma progress_record_id:
  assumes "tag \<in> {ascii ''TCGP'', ascii ''TCGH'', ascii ''TCGA''}" "context_encode ctx = Inr b" "length b < 2 ^ 32"
    and "send_application_context s m = Inr ctx" "intent_typed s"
  shows "outbox_record_id (tag @ lp b @ rest) = Inr (Some (send_id s))"
proof -
  have "context_decode b = Inr ctx" using send_context(1) [OF assms(4,5)] assms(2) by (simp add: context_decode_exact)
  then show ?thesis
    unfolding outbox_record_id_tags(2) [OF assms(1)] length_prefixed_lp [OF assms(3)]
    using send_context(4) [OF assms(4,5)] by simp
qed

section \<open>A change of one recipient\<close>

lemma changed_recipient:
  assumes "change_recipient ident m f (cancel_to c ob) = Inr chg" "replayed pc ob" "send_change_ok f"
  obtains as s bs ctx where "out_sends ob = as @ s # bs" "send_id s = ident" "\<forall>t \<in> set as. send_id t \<noteq> ident"
    "replayed_send pc s" "lid_group_id ident = out_group_id ob"
    "fst (f (cancel_send c s)) = Inr (chg_progress chg)"
    "send_application_context s m = Inr ctx" "context_encode ctx = Inr (chg_context chg)"
    "prog_commitment (chg_progress chg) = Some (chg_commitment chg)"
    "prog_ciphertext (chg_progress chg) = Some (chg_ciphertext chg)"
    "\<And>t. cancel_send c t = snd (f (cancel_send c s)) \<Longrightarrow> chg_outbox chg = cancel_to c (ob\<lparr>out_sends := as @ t # bs\<rparr>)"
proof -
  obtain p cb ob' where mut: "send_mut ident (with_context m f) (cancel_to c ob) = (Inr (p, cb), ob')"
    and chg: "chg_outbox chg = ob'" "chg_progress chg = p" "chg_context chg = cb"
      "prog_commitment p = Some (chg_commitment chg)" "prog_ciphertext p = Some (chg_ciphertext chg)"
    using assms(1) by (cases "send_mut ident (with_context m f) (cancel_to c ob)")
      (auto simp: change_recipient_def rbind_eq_Inr ok_or_eq_Inr)
  from mut show thesis
  proof (rule send_mut_replay, goal_cases)
    case (1 as s bs)
    have rs: "replayed_send pc s" "lid_group_id ident = out_group_id ob" using assms(2) 1(1,2) by (auto simp: replayed_def)
    have ok: "send_ok s" "send_le s (cancel_send c s)" "send_ok (cancel_send c s)"
      using rs(1) cancel_send_le send_cancel_ok by (auto simp: replayed_send_def cancel_send_def split: option.split)
    then have "send_le (cancel_send c s) (snd (f (cancel_send c s)))" using assms(3) by (simp add: send_change_ok_def)
    then have "send_application_context (snd (f (cancel_send c s))) m = send_application_context s m"
      using ok(2) send_le_context by metis
    then obtain ctx where "fst (f (cancel_send c s)) = Inr p" "send_application_context s m = Inr ctx" "context_encode ctx = Inr cb"
      using 1(4) by (cases "f (cancel_send c s)") (auto simp: with_context_def rbind_eq_Inr)
    moreover have "snd (with_context m f (cancel_send c s)) = snd (f (cancel_send c s))"
      by (cases "f (cancel_send c s)") (simp add: with_context_def)
    ultimately show thesis using that [of as s bs ctx] 1 rs chg by simp
  qed
qed

text \<open>
  A record that replays a change: it belongs to a send of the group, and replaying it on the replayed
  outbox and cancelling afterwards gives the running outbox the change left.
\<close>

definition replays_to :: "bytes \<Rightarrow> u64 option \<Rightarrow> (bytes \<Rightarrow> bytes) \<Rightarrow> bytes \<Rightarrow> group_outbox \<Rightarrow> group_outbox \<Rightarrow> bool" where
  "replays_to gid c pc r ob live \<longleftrightarrow>
     (\<exists>ident ob'. outbox_record_id r = Inr (Some ident) \<and> lid_group_id ident = gid \<and>
        recover_entry gid c pc r ob = Inr ob' \<and> live = cancel_to c ob')"

lemma bind_prepared_change: "send_change_ok (bind_prepared_ciphertext pc m ct)"
proof -
  have "send_ok s \<Longrightarrow> send_le s (snd (bind_prepared_ciphertext pc m ct s)) \<and> send_ok (snd (bind_prepared_ciphertext pc m ct s))" for s
    using send_changes_ok(1) [of m _ ct] by (simp add: bind_prepared_ciphertext_def send_change_ok_def send_le_refl split: sum.split)
  then show ?thesis by (simp add: send_change_ok_def)
qed

lemma prepared_progress:
  assumes "fst (record_prepared m k ct s) = Inr p"
  shows "prog_commitment p = Some k" "prog_ciphertext p = Some ct"
proof -
  obtain as q bs where "fst (prepare_progress k ct q) = Inr p"
    using assms progress_mut_first unfolding record_prepared_def by metis
  then show "prog_commitment p = Some k" "prog_ciphertext p = Some ct"
    by (auto simp: prepare_progress_def Let_def split: recipient_disposition.splits if_splits)
qed

lemma prepared_entry:
  assumes "change_recipient ident m (bind_prepared_ciphertext pc m ct) (cancel_to c ob) = Inr chg" "replayed pc ob"
    and "encode_prepared_record (chg_context chg) (chg_commitment chg) (chg_ciphertext chg) = Inr r" "digests pc"
  shows "replays_to (out_group_id ob) c pc r ob (chg_outbox chg)"
  using assms(1,2) bind_prepared_change
proof (rule changed_recipient, goal_cases)
  case (1 as s bs ctx)
  let ?b = "chg_context chg"
  have typed: "intent_typed s" using 1(4) by (simp add: replayed_send_def)
  have "send_ok s" using 1(4) by (simp add: replayed_send_def)
  then have own: "send_application_context (cancel_send c s) m = Inr ctx" using send_le_context [OF cancel_send_le] 1(7) by simp
  then have f: "bind_prepared_ciphertext pc m ct (cancel_send c s) = record_prepared m (pc ?b) ct (cancel_send c s)"
    using 1(8) by (simp add: bind_prepared_ciphertext_def)
  then have k: "chg_commitment chg = pc ?b" "chg_ciphertext chg = ct" using prepared_progress 1(6,9,10) by fastforce+
  obtain t where t: "prepare_recovered ctx (pc ?b) ct False s = (Inr (), t)"
      "cancel_send c t = snd (record_prepared m (pc ?b) ct (cancel_send c s))"
    using prepared_replay [of m "pc ?b" ct c s] 1(6,7) f send_context(2) [OF 1(7) typed] by metis
  have r: "r = ascii ''TCGP'' @ lp ?b @ pc ?b @ lp ct" and len: "length ?b < 2 ^ 32" "length ct < 2 ^ 32"
    using assms(3) by (auto simp: encode_prepared_record_def rbind_eq_Inr op_put_lp_Inr k)
  have "try_send ident (prepare_recovered ctx (pc ?b) ct False) ob = Inr (ob\<lparr>out_sends := as @ t # bs\<rparr>)"
    using 1(1-3) t(1) by (rule try_send_at)
  moreover have "decode_progress_record (lp ?b @ pc ?b @ lp ct) = Inr \<lparr>rec_context = ctx, rec_commitment = pc ?b, rec_ciphertext = ct, rec_rest = []\<rparr>"
    using progress_record_read [OF send_context(1) [OF 1(7) typed] 1(8) len(1) digests_length [OF assms(4)] len(2), of ?b "[]"] by simp
  ultimately have "recover_entry (out_group_id ob) c pc r ob = Inr (ob\<lparr>out_sends := as @ t # bs\<rparr>)"
    using 1(2,5,8) send_context(3,4) [OF 1(7) typed]
    by (simp add: r recover_entry_tags recover_prepared_def apply_recovered_preparation_def)
  moreover have "outbox_record_id r = Inr (Some ident)"
    unfolding r using progress_record_id [OF _ 1(8) len(1) 1(7) typed] 1(2) by simp
  ultimately show ?case using 1(5,11) f t(2) unfolding replays_to_def by auto
qed

lemma stored_commitment:
  assumes "replayed_send pc s" "\<exists>q \<in> set (send_recipients s). prog_recipient q = m \<and> prog_commitment q = Some k"
    and "send_application_context s m = Inr ctx" "context_encode ctx = Inr b"
  shows "k = pc b"
  using assms by (auto simp: replayed_send_def context_commitment_def)

lemma handoff_entry:
  assumes "change_recipient ident m (reserve_handoff m) (cancel_to c ob) = Inr chg" "replayed pc ob"
    and "encode_handoff_record (chg_context chg) (chg_commitment chg) (chg_ciphertext chg) (chg_progress chg) = Inr r"
      "digests pc"
  shows "replays_to (out_group_id ob) c pc r ob (chg_outbox chg)"
  using assms(1,2) send_changes_ok(2)
proof (rule changed_recipient, goal_cases)
  case (1 as s bs ctx)
  let ?b = "chg_context chg" and ?p = "chg_progress chg"
  have typed: "intent_typed s" using 1(4) by (simp add: replayed_send_def)
  note ctx = send_context [OF 1(7) typed]
  note replay = handoff_replay [OF 1(6,7) ctx(2) 1(9,10)]
  have k: "chg_commitment chg = pc ?b" using stored_commitment [OF 1(4) replay(3) 1(7,8)] .
  obtain t where t: "reserve_recovered m (prog_attempts ?p) (prog_disposition ?p) s = (Inr (), t)"
      "cancel_send c t = snd (reserve_handoff m (cancel_send c s))"
    using replay(2) by blast
  define code :: byte where "code = (if prog_disposition ?p = HandedOff then 0 else 1)"
  have r: "r = ascii ''TCGH'' @ lp ?b @ pc ?b @ lp (chg_ciphertext chg) @ [prog_attempts ?p, code]"
    and len: "length ?b < 2 ^ 32" "length (chg_ciphertext chg) < 2 ^ 32"
    using assms(3) replay(4) by (auto simp: encode_handoff_record_def rbind_eq_Inr op_put_lp_Inr k code_def)
  have suffix: "decode_handoff_suffix [prog_attempts ?p, code] = Inr (prog_attempts ?p, prog_disposition ?p)"
    using replay(4) by (auto simp: decode_handoff_suffix_def code_def)
  have same: "try_send ident (prepare_recovered ctx (pc ?b) (chg_ciphertext chg) False) ob = Inr ob"
    using try_send_at [OF 1(1-3), of "prepare_recovered ctx (pc ?b) (chg_ciphertext chg) False" "()" s] replay(1) 1(1) k by simp
  have "try_send ident (reserve_recovered m (prog_attempts ?p) (prog_disposition ?p)) ob = Inr (ob\<lparr>out_sends := as @ t # bs\<rparr>)"
    using 1(1-3) t(1) by (rule try_send_at)
  then have "recover_entry (out_group_id ob) c pc r ob = Inr (ob\<lparr>out_sends := as @ t # bs\<rparr>)"
    using 1(2,5,8) ctx same suffix progress_record_read [OF ctx(1) 1(8) len(1) digests_length [OF assms(4)] len(2), of ?b "[prog_attempts ?p, code]"]
    by (simp add: r recover_entry_tags recover_handoff_def apply_recovered_preparation_def)
  moreover have "outbox_record_id r = Inr (Some ident)"
    unfolding r using progress_record_id [OF _ 1(8) len(1) 1(7) typed] 1(2) by simp
  ultimately show ?case using 1(5,11) t(2) unfolding replays_to_def by auto
qed

lemma acceptance_entry:
  assumes "change_recipient ident m (record_relay_accepted m) (cancel_to c ob) = Inr chg" "replayed pc ob"
    and "encode_relay_acceptance_record (chg_context chg) (chg_commitment chg) (chg_ciphertext chg) = Inr r"
      "digests pc"
  shows "replays_to (out_group_id ob) c pc r ob (chg_outbox chg)"
  using assms(1,2) send_changes_ok(3)
proof (rule changed_recipient, goal_cases)
  case (1 as s bs ctx)
  let ?b = "chg_context chg"
  have typed: "intent_typed s" using 1(4) by (simp add: replayed_send_def)
  note ctx = send_context [OF 1(7) typed]
  note replay = acceptance_replay [OF 1(6,7) ctx(2) 1(9,10)]
  have k: "chg_commitment chg = pc ?b" using stored_commitment [OF 1(4) replay(3) 1(7,8)] .
  obtain t where t: "record_relay_accepted m s = (Inr (chg_progress chg), t)"
      "cancel_send c t = snd (record_relay_accepted m (cancel_send c s))"
    using replay(2) by blast
  have r: "r = ascii ''TCGA'' @ lp ?b @ pc ?b @ lp (chg_ciphertext chg)"
    and len: "length ?b < 2 ^ 32" "length (chg_ciphertext chg) < 2 ^ 32"
    using assms(3) by (auto simp: encode_relay_acceptance_record_def rbind_eq_Inr op_put_lp_Inr k)
  have same: "try_send ident (prepare_recovered ctx (pc ?b) (chg_ciphertext chg) True) ob = Inr ob"
    using try_send_at [OF 1(1-3), of "prepare_recovered ctx (pc ?b) (chg_ciphertext chg) True" "()" s] replay(1) 1(1) k by simp
  have "try_send ident (record_relay_accepted m) ob = Inr (ob\<lparr>out_sends := as @ t # bs\<rparr>)"
    using 1(1-3) t(1) by (rule try_send_at)
  then have "recover_entry (out_group_id ob) c pc r ob = Inr (ob\<lparr>out_sends := as @ t # bs\<rparr>)"
    using 1(2,5,8) ctx same progress_record_read [OF ctx(1) 1(8) len(1) digests_length [OF assms(4)] len(2), of ?b "[]"]
    by (simp add: r recover_entry_tags recover_acceptance_def apply_recovered_preparation_def)
  moreover have "outbox_record_id r = Inr (Some ident)"
    unfolding r using progress_record_id [OF _ 1(8) len(1) 1(7) typed] 1(2) by simp
  ultimately show ?case using 1(5,11) t(2) unfolding replays_to_def by auto
qed

lemma intent_entry:
  assumes "outbox_record s (cancel_to c ob) = (Inr Inserted, live)" "replayed pc ob" "encode_intent s = Inr b"
    and "encode_intent_record b = Inr r" "intent_typed s" "intent_fresh s"
  shows "replays_to (out_group_id ob) c pc r ob live"
proof -
  have r: "r = ascii ''TCGI'' @ lp b" and len: "length b < 2 ^ 32"
    using assms(4) by (auto simp: encode_intent_record_def rbind_eq_Inr op_put_lp_Inr)
  have dec: "decode_intent b = Inr s" using assms(3,5,6) by (simp add: decode_intent_exact)
  note ins = intent_replay [OF assms(2,1)]
  have gid: "lid_group_id (send_id s) = out_group_id ob"
    using outbox_insert_cases [of s c ob] ins(1) by auto
  have "decode_intent_record (lp b) = Inr s"
    using len dec by (simp add: decode_intent_record_def lp_def unat_of_nat_u32)
  then have "recover_entry (out_group_id ob) c pc r ob = Inr (ob\<lparr>out_sends := out_sends ob @ [s]\<rparr>)"
    using ins(1) gid by (simp add: r recover_entry_tags recover_intent_def)
  moreover have "outbox_record_id r = Inr (Some (send_id s))"
    using length_prefixed_lp [OF len, of "[]"] dec by (simp add: r outbox_record_id_tags)
  ultimately show ?thesis using gid ins(2) unfolding replays_to_def by auto
qed

section \<open>What a restart recovers\<close>

lemma group_entries_append:
  assumes "group_entries gid es = Inr xs" "outbox_record_id r = Inr (Some ident)" "lid_group_id ident = gid"
  shows "group_entries gid (es @ [r]) = Inr (xs @ [(ident, r)])"
  using assms by (induction es arbitrary: xs) (auto simp: rbind_eq_Inr split: option.splits)

lemma recover_group_outbox_Inr:
  "recover_group_outbox pc snapshot gid = Inr live \<longleftrightarrow>
   (\<exists>c xs ob. latest_group_outbox_cancellation snapshot gid = Inr c \<and> group_entries gid (snap_outbox snapshot) = Inr xs \<and>
      recover_loop gid c pc (map snd xs) (outbox_new gid) = Inr ob \<and> live = cancel_to c ob)"
  by (auto simp: recover_group_outbox_def rbind_eq_Inr recover_at_revision_Inr)

lemma recovered_outbox:
  assumes "recover_loop gid c pc es (outbox_new gid) = Inr ob"
  shows "replayed pc ob" "out_group_id ob = gid"
  using recover_loop_replayed [OF assms replayed_new] by (simp_all add: outbox_new_def)

text \<open>A snapshot with one more transcript record that replays the change recovers the changed outbox.\<close>

lemma recover_appended:
  assumes "recover_group_outbox pc snapshot gid = Inr live"
    and "\<And>c ob. live = cancel_to c ob \<Longrightarrow> replayed pc ob \<Longrightarrow> out_group_id ob = gid \<Longrightarrow> replays_to gid c pc r ob live'"
    and "snap_outbox snapshot' = snap_outbox snapshot @ [r]" "snap_group_controls snapshot' = snap_group_controls snapshot"
  shows "recover_group_outbox pc snapshot' gid = Inr live'"
proof -
  obtain c xs ob where ob: "latest_group_outbox_cancellation snapshot gid = Inr c" "group_entries gid (snap_outbox snapshot) = Inr xs"
    "recover_loop gid c pc (map snd xs) (outbox_new gid) = Inr ob" "live = cancel_to c ob"
    using assms(1) by (auto simp: recover_group_outbox_Inr)
  have "replays_to gid c pc r ob live'" using assms(2) ob(4) recovered_outbox [OF ob(3)] by blast
  then obtain ident ob' where r: "outbox_record_id r = Inr (Some ident)" "lid_group_id ident = gid"
      "recover_entry gid c pc r ob = Inr ob'" "live' = cancel_to c ob'"
    by (auto simp: replays_to_def)
  have "recover_loop gid c pc (map snd (xs @ [(ident, r)])) (outbox_new gid) = Inr ob'"
    using ob(3) r(3) by (simp add: recover_loop_append)
  then show ?thesis
    using group_entries_append [OF ob(2) r(1,2)] ob(1) r(4) assms(3,4)
    by (auto simp: recover_group_outbox_Inr latest_group_outbox_cancellation_def simp del: map_append)
qed

text \<open>The records of roster cancellations, of which a coordinator keeps one.\<close>

definition cancels_ok :: "bytes \<Rightarrow> bytes list \<Rightarrow> bool" where
  "cancels_ok gid controls \<longleftrightarrow> single (ascii ''TCGX'') controls \<and>
     (\<forall>r \<in> set controls. starts_with r (ascii ''TCGX'') \<longrightarrow> (\<exists>revision. r = encode_group_outbox_cancellation_record gid revision))"

lemma cancellation_record_read:
  assumes "length gid = GROUP_ID_LEN"
  shows "starts_with (encode_group_outbox_cancellation_record gid revision) (ascii ''TCGX'')"
    "split_at_checked GROUP_ID_LEN (drop 4 (encode_group_outbox_cancellation_record gid revision)) = Some (gid, u64_to_be revision)"
  using assms by (simp_all add: encode_group_outbox_cancellation_record_def take_tag split_at_checked_Some)

lemma cancellation_loop_same:
  assumes "length gid = GROUP_ID_LEN" "latest \<in> {None, Some revision}"
    and "\<forall>r \<in> set rs. starts_with r (ascii ''TCGX'') \<longrightarrow> r = encode_group_outbox_cancellation_record gid revision"
  shows "cancellation_loop gid rs latest =
    Inr (if list_ex (\<lambda>r. starts_with r (ascii ''TCGX'')) rs then Some revision else latest)"
  using assms(2,3)
proof (induction rs arbitrary: latest)
  case (Cons r rs)
  show ?case
  proof (cases "starts_with r (ascii ''TCGX'')")
    case True
    then have "r = encode_group_outbox_cancellation_record gid revision" using Cons.prems(2) by simp
    moreover have "(case latest of None \<Rightarrow> 0 | Some l \<Rightarrow> l) \<le> revision" using Cons.prems(1) by auto
    ultimately show ?thesis
      using Cons.IH [of "Some revision"] Cons.prems(2) True assms(1) cancellation_record_read [OF assms(1)]
      by (simp add: group_id_try_from_def max_def)
  qed (use Cons in simp)
qed simp

definition cancelled_at :: "bytes list \<Rightarrow> u64 option" where
  "cancelled_at controls =
     map_option (\<lambda>r. u64_from_be (drop (4 + GROUP_ID_LEN) r)) (rfind (\<lambda>r. starts_with r (ascii ''TCGX'')) controls)"

lemma latest_cancellation:
  assumes "cancels_ok gid (snap_group_controls snapshot)" "length gid = GROUP_ID_LEN"
  shows "latest_group_outbox_cancellation snapshot gid = Inr (cancelled_at (snap_group_controls snapshot))"
proof (cases "rfind (\<lambda>r. starts_with r (ascii ''TCGX'')) (snap_group_controls snapshot)")
  case None
  then have none: "\<forall>r \<in> set (snap_group_controls snapshot). \<not> starts_with r (ascii ''TCGX'')" by (simp add: rfind_None)
  then have "cancellation_loop gid (snap_group_controls snapshot) None = Inr None"
    using cancellation_loop_same [OF assms(2), of None 0 "snap_group_controls snapshot"] by (auto simp: list_ex_iff)
  then show ?thesis using None by (simp add: latest_group_outbox_cancellation_def cancelled_at_def)
next
  case (Some r)
  then have r: "r \<in> set (snap_group_controls snapshot)" "starts_with r (ascii ''TCGX'')" using rfind_Some by fast+
  then obtain revision where rev: "r = encode_group_outbox_cancellation_record gid revision"
    using assms(1) by (auto simp: cancels_ok_def)
  have same: "\<forall>k \<in> set (snap_group_controls snapshot). starts_with k (ascii ''TCGX'') \<longrightarrow> k = encode_group_outbox_cancellation_record gid revision"
    using assms(1) Some unfolding rev [symmetric] cancels_ok_def single_def by auto
  have "list_ex (\<lambda>r. starts_with r (ascii ''TCGX'')) (snap_group_controls snapshot)" using r unfolding list_ex_iff by blast
  then have "cancellation_loop gid (snap_group_controls snapshot) None = Inr (Some revision)"
    using cancellation_loop_same [OF assms(2) _ same, of None] by simp
  moreover have "u64_from_be (drop (4 + GROUP_ID_LEN) r) = revision"
    using rev assms(2) by (simp add: encode_group_outbox_cancellation_record_def)
  ultimately show ?thesis using Some by (simp add: latest_group_outbox_cancellation_def cancelled_at_def)
qed

section \<open>Commits on the outbox\<close>

lemma commit_candidate_cases:
  assumes "commit_candidate port candidate s snapshot live = (r, s', snapshot', live')"
  obtains (same) "snapshot' = snapshot" "live' = live" "r = Inl OpFrozen \<or> (\<exists>e. candidate = Inl e \<and> r = Inl e)"
  | (new) x where "candidate = Inr (snapshot', live', x)" "r = Inr x" "st_commit port snapshot' s = (Committed, s')"
proof (cases candidate)
  case (Inr y)
  obtain a b x where y: "y = (a, b, x)" by (cases y)
  obtain outcome t where c: "st_commit port a s = (outcome, t)" by fastforce
  show thesis
  proof (cases "outcome = Committed")
    case True
    then show thesis using assms Inr y c new by (simp add: commit_candidate_def)
  next
    case False
    then show thesis using assms Inr y c same by (simp add: commit_candidate_def)
  qed
qed (use assms same in \<open>simp add: commit_candidate_def\<close>)

lemma begin_candidate_Inr:
  "begin_candidate port s snapshot = Inr c \<longleftrightarrow>
   (\<exists>g. \<not> st_is_frozen port s \<and> st_next_generation port s (snap_generation snapshot) = Some g \<and> c = snapshot\<lparr>snap_generation := g\<rparr>)"
  by (auto simp: begin_candidate_def rbind_eq_Inr ok_or_eq_Inr)

text \<open>The port's promise to the coordinator: a candidate's generation is above the published one.\<close>

locale group_store =
  fixes port :: "'s operation_store"
  assumes next_above: "st_next_generation port s g = Some g' \<Longrightarrow> g < g'"
begin

lemma begun: "begin_candidate port s snapshot = Inr c \<Longrightarrow> \<exists>g > snap_generation snapshot. c = snapshot\<lparr>snap_generation := g\<rparr>"
  using next_above by (auto simp: begin_candidate_Inr)

end

interpretation durable: group_store "durable_port inner"
proof unfold_locales
  fix d :: "'a durable_store" and g g' assume "st_next_generation (durable_port inner) d g = Some g'"
  then have "checked_add (max g (ds_high_water d)) 1 = Some g'" by (simp add: durable_port_def durable_next_generation_def)
  then show "g < g'" using next_generation_above(2) [of d g g'] by (simp add: durable_next_generation_def)
qed

interpretation discard: group_store discard_port
proof unfold_locales
  fix s g g' assume "st_next_generation discard_port s g = Some g'"
  then show "g < g'" by (auto simp: discard_port_def Let_def default_next_generation_def checked_add_Some word_less_nat_alt)
qed

text \<open>What a commit on the outbox leaves: a restart recovers the outbox, and nothing else that a restart reads changed.\<close>

definition outbox_kept :: "(bytes \<Rightarrow> bytes) \<Rightarrow> bytes \<Rightarrow> operation_snapshot \<Rightarrow> operation_snapshot \<Rightarrow> group_outbox \<Rightarrow> bool" where
  "outbox_kept pc gid snapshot snapshot' ob' \<longleftrightarrow>
     recover_group_outbox pc snapshot' gid = Inr ob' \<and> snap_group_controls snapshot' = snap_group_controls snapshot \<and>
     snap_application_state snapshot' = snap_application_state snapshot \<and> snap_generation snapshot \<le> snap_generation snapshot'"

lemma outbox_kept_refl: "recover_group_outbox pc snapshot gid = Inr ob \<Longrightarrow> outbox_kept pc gid snapshot snapshot ob"
  by (simp add: outbox_kept_def)

lemma compacted_keeps:
  assumes "compacted pc gid c ob = Inr (c', ob')" "recover_group_outbox pc c gid = Inr ob"
  shows "recover_group_outbox pc c' gid = Inr ob'" "\<exists>es. c' = c\<lparr>snap_outbox := es\<rparr>"
proof -
  obtain rebuilt where comp: "compact_group_outbox pc gid c = Inr (rebuilt, c')"
    and ob': "ob' = (case rebuilt of None \<Rightarrow> ob | Some ob \<Rightarrow> ob)"
    using assms(1) by (auto simp: compacted_def rbind_eq_Inr)
  then have "recover_group_outbox pc c' gid = Inr ob' \<and> (\<exists>es. c' = c\<lparr>snap_outbox := es\<rparr>)"
    using assms(2) by (auto simp: compact_group_outbox_def rbind_eq_Inr Let_def split: if_splits) (metis operation_snapshot.surjective operation_snapshot.update_convs(5))
  then show "recover_group_outbox pc c' gid = Inr ob'" "\<exists>es. c' = c\<lparr>snap_outbox := es\<rparr>" by blast+
qed

context group_store
begin

lemma commit_logical_intent_kept:
  assumes "commit_logical_intent port send s snapshot ob = (r, s', snapshot', ob')" "recover_group_outbox pc snapshot gid = Inr ob"
    and "intent_typed send" "intent_fresh send"
  shows "outbox_kept pc gid snapshot snapshot' ob'"
proof (cases "rbind (policy (encode_intent send)) (\<lambda>intent.
    case outbox_record send ob of (r, ob') \<Rightarrow> rbind (policy r) (\<lambda>d. Inr (intent, d, ob')))")
  case (Inr y)
  then obtain intent d live where y: "encode_intent send = Inr intent" "outbox_record send ob = (Inr d, live)" "y = (intent, d, live)"
    by (cases "outbox_record send ob") (auto simp: rbind_eq_Inr)
  show ?thesis
  proof (cases "d = OutboxDuplicate")
    case False
    then have ins: "d = Inserted" by (cases d) simp_all
    from assms(1) Inr y False have "commit_candidate port
        (rbind (begin_candidate port s snapshot) (\<lambda>c. rbind (encode_intent_record intent) (\<lambda>r.
           Inr (c\<lparr>snap_outbox := snap_outbox c @ [r]\<rparr>, live, d)))) s snapshot ob = (r, s', snapshot', ob')"
      by (simp add: commit_logical_intent_def)
    then show ?thesis
    proof (cases rule: commit_candidate_cases)
      case (new x)
      then obtain c b where c: "begin_candidate port s snapshot = Inr c" "encode_intent_record intent = Inr b"
          "snapshot' = c\<lparr>snap_outbox := snap_outbox c @ [b]\<rparr>" "ob' = live"
        by (auto simp: rbind_eq_Inr)
      obtain g where g: "g > snap_generation snapshot" "c = snapshot\<lparr>snap_generation := g\<rparr>" using begun [OF c(1)] by blast
      have "recover_group_outbox pc snapshot' gid = Inr live"
        using assms(2) by (rule recover_appended [where r = b])
          (use intent_entry [OF _ _ y(1) c(2) assms(3,4)] y(2) ins c(3) g(2) in auto)
      then show ?thesis using c g by (simp add: outbox_kept_def)
    qed (use assms(2) outbox_kept_refl in simp)
  qed (use assms(1,2) Inr y outbox_kept_refl in \<open>simp add: commit_logical_intent_def\<close>)
qed (use assms(1,2) outbox_kept_refl in \<open>simp add: commit_logical_intent_def\<close>)

end

lemma changed_group:
  assumes "change_recipient ident m f live = Inr chg" "recover_group_outbox pc snapshot gid = Inr live" "send_change_ok f"
  shows "lid_group_id ident = gid"
proof -
  obtain c es ob where ob: "recover_loop gid c pc es (outbox_new gid) = Inr ob" "live = cancel_to c ob"
    using assms(2) unfolding recover_group_outbox_Inr by blast
  note r = recovered_outbox [OF ob(1)]
  show ?thesis
    using assms(1) unfolding ob(2)
    by (rule changed_recipient [OF _ r(1) assms(3)]) (use r(2) in simp)
qed

text \<open>A change of a recipient whose record is appended, with or without the compaction after it.\<close>

context group_store
begin

lemma changed_and_begun:
  assumes "recover_group_outbox pc snapshot gid = Inr ob" "change_recipient ident m f ob = Inr chg"
    and "begin_candidate port s snapshot = Inr c" "enc chg = Inr r"
    and entry: "\<And>c ob. change_recipient ident m f (cancel_to c ob) = Inr chg \<Longrightarrow> replayed pc ob \<Longrightarrow>
      enc chg = Inr r \<Longrightarrow> replays_to (out_group_id ob) c pc r ob (chg_outbox chg)"
  shows "outbox_kept pc gid snapshot (c\<lparr>snap_outbox := snap_outbox c @ [r]\<rparr>) (chg_outbox chg)"
proof -
  obtain g where g: "g > snap_generation snapshot" "c = snapshot\<lparr>snap_generation := g\<rparr>" using begun [OF assms(3)] by blast
  have "recover_group_outbox pc (c\<lparr>snap_outbox := snap_outbox c @ [r]\<rparr>) gid = Inr (chg_outbox chg)"
    using assms(1) by (rule recover_appended [where r = r]) (use entry assms(2,4) g(2) in auto)
  then show ?thesis using g by (simp add: outbox_kept_def)
qed

lemma changed_and_compacted:
  assumes "commit_candidate port
      (rbind (change_recipient ident m f ob) (\<lambda>chg. rbind (begin_candidate port s snapshot) (\<lambda>c. rbind (enc chg) (\<lambda>r.
       rbind (compacted pc (lid_group_id ident) (c\<lparr>snap_outbox := snap_outbox c @ [r]\<rparr>) (chg_outbox chg)) (\<lambda>(c, ob').
         Inr (c, ob', chg_progress chg)))))) s snapshot ob = (r, s', snapshot', ob')"
    and "recover_group_outbox pc snapshot gid = Inr ob" "send_change_ok f"
    and entry: "\<And>c ob chg r. change_recipient ident m f (cancel_to c ob) = Inr chg \<Longrightarrow> replayed pc ob \<Longrightarrow>
      enc chg = Inr r \<Longrightarrow> replays_to (out_group_id ob) c pc r ob (chg_outbox chg)"
  shows "outbox_kept pc gid snapshot snapshot' ob'"
  using assms(1)
proof (cases rule: commit_candidate_cases)
  case (new x)
  then obtain chg c b where c: "change_recipient ident m f ob = Inr chg" "begin_candidate port s snapshot = Inr c"
      "enc chg = Inr b" and comp: "compacted pc (lid_group_id ident) (c\<lparr>snap_outbox := snap_outbox c @ [b]\<rparr>) (chg_outbox chg) = Inr (snapshot', ob')"
    by (auto simp: rbind_eq_Inr)
  have kept: "outbox_kept pc gid snapshot (c\<lparr>snap_outbox := snap_outbox c @ [b]\<rparr>) (chg_outbox chg)"
    using assms(2) c entry by (rule changed_and_begun)
  have "lid_group_id ident = gid" using changed_group [OF c(1) assms(2,3)] .
  then have "recover_group_outbox pc snapshot' gid = Inr ob'" "\<exists>es. snapshot' = (c\<lparr>snap_outbox := snap_outbox c @ [b]\<rparr>)\<lparr>snap_outbox := es\<rparr>"
    using compacted_keeps [OF comp] kept by (simp_all add: outbox_kept_def)
  then show ?thesis using kept by (auto simp: outbox_kept_def)
qed (use assms(2) outbox_kept_refl in simp)

lemma commit_outbox_prepared_ciphertext_kept:
  assumes "commit_outbox_prepared_ciphertext port pc ident m ct provider_state s snapshot ob = (r, s', snapshot', ob')"
    and "recover_group_outbox pc snapshot gid = Inr ob" and pc: "digests pc"
  shows "outbox_kept pc gid snapshot snapshot' ob'"
  using assms(1) unfolding commit_outbox_prepared_ciphertext_def
proof (cases rule: commit_candidate_cases)
  case (new x)
  then obtain chg c b where c: "change_recipient ident m (bind_prepared_ciphertext pc m ct) ob = Inr chg"
      "begin_candidate port s snapshot = Inr c"
      "encode_prepared_record (chg_context chg) (chg_commitment chg) (chg_ciphertext chg) = Inr b"
    and snap: "snapshot' = c\<lparr>snap_outbox := snap_outbox c @ [b], snap_provider_state := provider_state\<rparr>" "ob' = chg_outbox chg"
    by (auto simp: rbind_eq_Inr)
  have "outbox_kept pc gid snapshot (c\<lparr>snap_outbox := snap_outbox c @ [b]\<rparr>) (chg_outbox chg)"
    using changed_and_begun [of pc snapshot gid ob ident m _ chg s c "\<lambda>chg. encode_prepared_record (chg_context chg) (chg_commitment chg) (chg_ciphertext chg)" b]
      assms(2) c prepared_entry [OF _ _ _ pc] by blast
  then show ?thesis
    using snap by (auto simp: outbox_kept_def recover_group_outbox_def latest_group_outbox_cancellation_def)
qed (use assms(2) outbox_kept_refl in simp)

lemma commit_outbox_handoff_reservation_kept:
  assumes "commit_outbox_handoff_reservation port pc ident m s snapshot ob = (r, s', snapshot', ob')"
    and "recover_group_outbox pc snapshot gid = Inr ob" and pc: "digests pc"
  shows "outbox_kept pc gid snapshot snapshot' ob'"
  using assms(1) unfolding commit_outbox_handoff_reservation_def
  by (rule changed_and_compacted [OF _ assms(2) send_changes_ok(2)]) (rule handoff_entry [OF _ _ _ pc])

lemma commit_outbox_relay_acceptance_kept:
  assumes "commit_outbox_relay_acceptance port pc ident m s snapshot ob = (r, s', snapshot', ob')"
    and "recover_group_outbox pc snapshot gid = Inr ob" and pc: "digests pc"
  shows "outbox_kept pc gid snapshot snapshot' ob'"
  using assms(1) unfolding commit_outbox_relay_acceptance_def
  by (rule changed_and_compacted [OF _ assms(2) send_changes_ok(3)]) (rule acceptance_entry [OF _ _ _ pc])

end

end
