(* ===== verification/Commit_Restart.thy ===== *)
theory Commit_Restart
  imports Client_Replay
begin

text \<open>
  What the other commits of \<^verbatim>\<open>group_operations.rs\<close> leave of the sends a restart recovers: commits of controls,
  invitations and received items leave them alone, and an accepted roster cancels exactly the older ones.
\<close>

section \<open>Records that do not concern the sends\<close>

abbreviation cancellation :: "bytes \<Rightarrow> bool" where
  "cancellation r \<equiv> starts_with r (ascii ''TCGX'')"

lemma quiet_records:
  "encode_control_outbox_record state = Inr r \<Longrightarrow> \<not> cancellation r"
  "encode_invitation_book_record state = Inr r \<Longrightarrow> \<not> cancellation r"
  "encode_roster_view_record state = Inr r \<Longrightarrow> \<not> cancellation r"
  "encode_replaced_roster_record gid preimage = Inr r \<Longrightarrow> \<not> cancellation r"
  "encode_roster_record preimage commitment disposition = Inr r \<Longrightarrow> \<not> cancellation r"
  "deferred_encode_record gid q = Inr r \<Longrightarrow> \<not> cancellation r"
  "\<not> cancellation (encode_control_effect_record effect)"
  by (auto simp: encode_control_outbox_record_def encode_invitation_book_record_def encode_roster_view_record_def
      encode_replaced_roster_record_def encode_roster_record_def deferred_encode_record_def encode_control_effect_record_def
      rbind_eq_Inr starts_with_def ascii_def DEFERRED_TAG_def)

lemma scope_of_cancellation:
  "length gid = GROUP_ID_LEN \<Longrightarrow>
   get_to (checkpoint_scope (ascii ''TCGX'')) (encode_group_outbox_cancellation_record gid revision) = Some (ascii ''TCGX'' @ gid)"
  by (simp add: get_to_def checkpoint_scope_def encode_group_outbox_cancellation_record_def ascii_def GROUP_ID_LEN_def)

lemma quiet_controls:
  assumes "\<forall>r \<in> set rs. \<not> cancellation r" "cancels_ok gid ks" "length gid = GROUP_ID_LEN"
  shows "cancels_ok gid (append_controls rs ks)" "cancelled_at (append_controls rs ks) = cancelled_at ks"
proof -
  have tag: "ascii ''TCGX'' \<in> set CHECKPOINT_TAGS" by (simp add: CHECKPOINT_TAGS_def)
  have "rfind cancellation (append_controls rs ks) = rfind cancellation (ks @ rs)"
    using append_controls_latest [OF tag] by simp
  then have latest: "rfind cancellation (append_controls rs ks) = rfind cancellation ks"
    using assms(1) by (simp add: rfind_append rfind_None [THEN iffD2])
  have "\<forall>r \<in> set (ks @ rs). cancellation r \<longrightarrow> get_to (checkpoint_scope (ascii ''TCGX'')) r = Some (ascii ''TCGX'' @ gid)"
    using assms scope_of_cancellation by (fastforce simp: cancels_ok_def)
  then have "single (ascii ''TCGX'') (append_controls rs ks)"
    using assms(2) by (intro append_controls_single [OF tag, where p = "ascii ''TCGX'' @ gid"]) (simp_all add: cancels_ok_def)
  moreover have "set (append_controls rs ks) \<subseteq> set ks \<union> set rs"
    using subseq_set [OF evict_controls_subseq] subseq_set [OF fold_push_subseq [of rs ks]] by (fastforce simp: append_controls_def)
  ultimately show "cancels_ok gid (append_controls rs ks)"
    using assms(1,2) by (auto simp: cancels_ok_def)
  show "cancelled_at (append_controls rs ks) = cancelled_at ks" by (simp add: cancelled_at_def latest)
qed

definition leaves_sends :: "operation_snapshot \<Rightarrow> operation_snapshot \<Rightarrow> bool" where
  "leaves_sends snapshot snapshot' \<longleftrightarrow> snap_outbox snapshot' = snap_outbox snapshot \<and>
     (\<forall>gid. length gid = GROUP_ID_LEN \<longrightarrow> cancels_ok gid (snap_group_controls snapshot) \<longrightarrow>
        cancels_ok gid (snap_group_controls snapshot') \<and>
        cancelled_at (snap_group_controls snapshot') = cancelled_at (snap_group_controls snapshot))"

lemma leaves_sends_refl [simp]: "leaves_sends snapshot snapshot"
  by (simp add: leaves_sends_def)

lemma leaves_sends_trans: "leaves_sends a b \<Longrightarrow> leaves_sends b c \<Longrightarrow> leaves_sends a c"
  by (simp add: leaves_sends_def)

lemma leaves_same: "snap_outbox b = snap_outbox a \<Longrightarrow> snap_group_controls b = snap_group_controls a \<Longrightarrow> leaves_sends a b"
  by (simp add: leaves_sends_def)

lemma leaves_quiet:
  "\<forall>r \<in> set rs. \<not> cancellation r \<Longrightarrow> snap_outbox c = snap_outbox a \<Longrightarrow> snap_group_controls c = snap_group_controls a
     \<Longrightarrow> leaves_sends a (append_group_control_records rs c)"
  using quiet_controls by (simp add: leaves_sends_def append_group_control_records_def)

text \<open>What a restart reads of the sends.\<close>

definition sends_read :: "(bytes \<Rightarrow> bytes) \<Rightarrow> bytes \<Rightarrow> operation_snapshot \<Rightarrow> group_outbox \<Rightarrow> bool" where
  "sends_read pc gid snapshot ob \<longleftrightarrow> length gid = GROUP_ID_LEN \<and> recover_group_outbox pc snapshot gid = Inr ob
     \<and> cancels_ok gid (snap_group_controls snapshot)"

lemma sends_read_leaves:
  assumes "sends_read pc gid snapshot ob" "leaves_sends snapshot snapshot'"
  shows "sends_read pc gid snapshot' ob"
    "cancelled_at (snap_group_controls snapshot') = cancelled_at (snap_group_controls snapshot)"
proof -
  have ok: "cancels_ok gid (snap_group_controls snapshot')"
      "cancelled_at (snap_group_controls snapshot') = cancelled_at (snap_group_controls snapshot)"
    using assms by (auto simp: sends_read_def leaves_sends_def)
  moreover have "latest_group_outbox_cancellation snapshot' gid = latest_group_outbox_cancellation snapshot gid"
    using latest_cancellation ok assms(1) by (simp add: sends_read_def)
  ultimately show "sends_read pc gid snapshot' ob"
      "cancelled_at (snap_group_controls snapshot') = cancelled_at (snap_group_controls snapshot)"
    using assms by (auto simp: sends_read_def leaves_sends_def recover_group_outbox_def)
qed

section \<open>Commits that leave the sends alone\<close>

definition quiet :: "('s \<Rightarrow> operation_snapshot \<Rightarrow> 'l \<Rightarrow> ('s, 'l, 'r) committed) \<Rightarrow> bool" where
  "quiet f \<longleftrightarrow> (\<forall>s snapshot live r s' snapshot' live'. f s snapshot live = (r, s', snapshot', live') \<longrightarrow> leaves_sends snapshot snapshot')"

lemma begun_same:
  "begin_candidate port s snapshot = Inr c \<Longrightarrow> snap_outbox c = snap_outbox snapshot \<and> snap_group_controls c = snap_group_controls snapshot"
  by (auto simp: begin_candidate_Inr)

lemma quiet_candidate:
  assumes "\<And>s snapshot live snapshot' live' r. candidate s snapshot live = Inr (snapshot', live', r) \<Longrightarrow> leaves_sends snapshot snapshot'"
  shows "quiet (\<lambda>s snapshot live. commit_candidate port (candidate s snapshot live) s snapshot live)"
  using assms by (auto simp: quiet_def elim!: commit_candidate_cases)

lemma recorded_receive:
  "record_receive effect context commitment disposition snapshot = Inr snapshot' \<Longrightarrow>
   snap_outbox snapshot' = snap_outbox snapshot \<and> snap_group_controls snapshot' = snap_group_controls snapshot"
  by (auto simp: record_receive_def rbind_eq_Inr Let_def)

lemma quiet_control_commits:
  "quiet (commit_group_control_outbox_transition port pc transition)"
  "quiet (commit_prepared_control_handoff port pc recipient payload ciphertext state)"
  "quiet (commit_authority_invitation_revocation_transition port pc authority ident now)"
  "quiet (commit_group_invitation_transition_with_provider port provider step)"
  "quiet (commit_hold_roster_without_view port pinned gid control state effect)"
  unfolding commit_group_control_outbox_transition_def commit_prepared_control_handoff_def
    commit_authority_invitation_revocation_transition_def commit_group_invitation_transition_with_provider_def
    commit_hold_roster_without_view_def
  by (rule quiet_candidate; auto simp: rbind_eq_Inr Let_def quiet_records(7) split: prod.splits option.splits if_splits
      intro!: leaves_quiet dest!: begun_same quiet_records(1-6))+

lemma quiet_receive: "quiet (commit_receive_disposition port pc context peer state effect)"
  unfolding commit_receive_disposition_def
  by (rule quiet_candidate; auto simp: rbind_eq_Inr Let_def case_prod_beta intro!: leaves_same dest!: begun_same recorded_receive)

lemma quiet_unit_commits:
  "commit_provider_state port state s snapshot = (r, s', snapshot', u) \<Longrightarrow> leaves_sends snapshot snapshot'"
  "commit_delivery_cursor port cursor s snapshot = (r, s', snapshot', u) \<Longrightarrow> leaves_sends snapshot snapshot'"
  "commit_malformed_group_payload port pc plaintext state effect s snapshot = (r, s', snapshot', u) \<Longrightarrow> leaves_sends snapshot snapshot'"
  unfolding commit_provider_state_def commit_delivery_cursor_def commit_malformed_group_payload_def
  by (erule commit_candidate_cases; auto simp: rbind_eq_Inr deliver_through_def intro!: leaves_same dest!: begun_same)+

lemma quietD: "quiet f \<Longrightarrow> f s snapshot live = (r, s', snapshot', live') \<Longrightarrow> leaves_sends snapshot snapshot'"
  unfolding quiet_def by blast

lemma quiet_prune: "quiet (commit_prune_deferred_rosters port view gid)"
proof -
  have "quiet (\<lambda>s snapshot queue. commit_candidate port (rbind (begin_candidate port s snapshot) (\<lambda>c.
      rbind (policy (deferred_encode_record gid (prune_through (ros_revision (view_roster view)) queue))) (\<lambda>r.
        Inr (append_group_control_records [r] c, prune_through (ros_revision (view_roster view)) queue, True)))) s snapshot queue)"
    by (rule quiet_candidate) (auto simp: rbind_eq_Inr intro!: leaves_quiet dest: begun_same quiet_records(6))
  then show ?thesis by (simp add: quiet_def commit_prune_deferred_rosters_def Let_def)
qed

lemma quiet_invalid: "quiet (commit_invalid_invitation_control port pc input)"
  using quiet_unit_commits(3) by (fastforce simp: quiet_def commit_invalid_invitation_control_def split: prod.splits)

lemma quiet_invitation_control: "quiet (commit_invitation_control port pc input step)"
  unfolding quiet_def
proof (intro allI impI)
  fix s snapshot book r s' snapshot' book' assume f: "commit_invitation_control port pc input step s snapshot book = (r, s', snapshot', book')"
  obtain r1 s1 sn1 b1 where c: "commit_group_invitation_transition_with_provider port (Some (in_provider_state input, in_effect input)) step s snapshot book
      = (r1, s1, sn1, b1)" by (metis prod.collapse)
  have one: "leaves_sends snapshot sn1" using quietD [OF quiet_control_commits(4) c] .
  show "leaves_sends snapshot snapshot'"
  proof (cases "r1 = Inl OpPolicy")
    case True
    then have "commit_invalid_invitation_control port pc input s1 sn1 b1 = (r, s', snapshot', book')"
      using f c by (simp add: commit_invitation_control_def)
    then show ?thesis by (rule leaves_sends_trans [OF one quietD [OF quiet_invalid]])
  next
    case False
    then show ?thesis
      using f c one by (auto simp: commit_invitation_control_def split: sum.splits group_operation_error.splits)
  qed
qed

lemma quiet_invitations:
  "quiet (commit_group_invitation_transition port step)"
  "quiet (commit_group_invitation_bootstrap port rc pc local_member now input)"
  "quiet (commit_group_invitation_acceptance port pc now input)"
  "quiet (commit_group_invitation_revocation port pc target authority now input)"
  unfolding quiet_def commit_group_invitation_transition_def commit_group_invitation_bootstrap_def
    commit_group_invitation_acceptance_def commit_group_invitation_revocation_def
  by (auto split: sum.splits group_payload.splits if_splits
      dest: quietD [OF quiet_control_commits(4)] quietD [OF quiet_invalid] quietD [OF quiet_invitation_control])

section \<open>A roster transition\<close>

definition view_ok :: "bytes \<Rightarrow> operation_snapshot \<Rightarrow> roster_view \<Rightarrow> bool" where
  "view_ok gid snapshot view \<longleftrightarrow> ros_group_id (view_roster view) = gid \<and> length (view_digest view) = DIGEST_LEN
     \<and> (\<forall>c. cancelled_at (snap_group_controls snapshot) = Some c \<longrightarrow> c \<le> ros_revision (view_roster view))"

lemma cancel_progress_twice: "cancel_progress (cancel_progress p) = cancel_progress p"
  by (simp add: cancel_progress_def split: recipient_disposition.split)

lemma cancel_twice:
  assumes "\<forall>c. old = Some c \<longrightarrow> c \<le> revision"
  shows "outbox_cancel_for_newer_roster revision (cancel_to old ob) = cancel_to (Some revision) ob"
proof -
  have "send_cancel_for_newer_roster revision (send_cancel_for_newer_roster c s) = send_cancel_for_newer_roster revision s" if "c \<le> revision" for c s
    using that by (auto simp: send_cancel_for_newer_roster_def cancel_progress_twice comp_def)
  then show ?thesis
    using assms by (auto simp: cancel_to_def outbox_cancel_for_newer_roster_def max_def split: option.split)
qed

text \<open>One more cancellation record, among records that do not concern the sends.\<close>

lemma cancelling_controls:
  assumes "cancels_ok gid ks" "length gid = GROUP_ID_LEN" "\<forall>r \<in> set (as @ bs). \<not> cancellation r"
    and ks'_def: "ks' = append_controls (as @ encode_group_outbox_cancellation_record gid revision # bs) ks"
  shows "cancels_ok gid ks'" "cancelled_at ks' = Some revision"
proof -
  let ?x = "encode_group_outbox_cancellation_record gid revision"
  have tag: "ascii ''TCGX'' \<in> set CHECKPOINT_TAGS" by (simp add: CHECKPOINT_TAGS_def)
  have "rfind cancellation ks' = rfind cancellation (ks @ as @ ?x # bs)"
    unfolding ks'_def by (rule append_controls_latest [OF tag])
  moreover have "rfind cancellation bs = None" "rfind cancellation as = None" using assms(3) by (simp_all add: rfind_None)
  moreover have "rfind cancellation (?x # bs) = Some ?x"
    using rfind_append [of cancellation "[?x]" bs] rfind_simps(2) [of cancellation "[]" ?x] calculation(2)
      cancellation_record_read(1) [OF assms(2)] by simp
  ultimately have latest: "rfind cancellation ks' = Some ?x" by (simp add: rfind_append)
  have records: "set ks' \<subseteq> set ks \<union> set (as @ ?x # bs)"
    using subseq_set [OF evict_controls_subseq] subseq_set [OF fold_push_subseq [of "as @ ?x # bs" ks]]
    unfolding ks'_def append_controls_def by (metis set_append subset_trans)
  have written: "\<exists>revision. r = encode_group_outbox_cancellation_record gid revision" if "r \<in> set ks \<union> set (as @ ?x # bs)" "cancellation r" for r
    using that assms(1,3) by (auto simp: cancels_ok_def)
  then have "\<forall>r \<in> set (ks @ as @ ?x # bs). cancellation r \<longrightarrow> get_to (checkpoint_scope (ascii ''TCGX'')) r = Some (ascii ''TCGX'' @ gid)"
    using scope_of_cancellation [OF assms(2)] by (metis set_append)
  then have "single (ascii ''TCGX'') ks'"
    unfolding ks'_def using assms(1) by (intro append_controls_single [OF tag, where p = "ascii ''TCGX'' @ gid"]) (simp_all add: cancels_ok_def)
  then show "cancels_ok gid ks'" using records written by (auto simp: cancels_ok_def)
  show "cancelled_at ks' = Some revision"
    using latest assms(2) by (simp add: cancelled_at_def encode_group_outbox_cancellation_record_def)
qed

lemma read_cancelled:
  assumes "sends_read pc gid snapshot ob" "view_ok gid snapshot view" "ros_revision (view_roster view) \<le> revision"
    and "snap_outbox snapshot' = snap_outbox snapshot" "cancels_ok gid (snap_group_controls snapshot')"
    and "cancelled_at (snap_group_controls snapshot') = Some revision"
  shows "recover_group_outbox pc snapshot' gid = Inr (outbox_cancel_for_newer_roster revision ob)"
proof -
  let ?c = "cancelled_at (snap_group_controls snapshot)"
  have gid: "length gid = GROUP_ID_LEN" and le: "\<forall>c. ?c = Some c \<longrightarrow> c \<le> revision"
    using assms(1-3) by (auto simp: sends_read_def view_ok_def)
  obtain xs old where old: "group_entries gid (snap_outbox snapshot) = Inr xs"
      "recover_loop gid ?c pc (map snd xs) (outbox_new gid) = Inr old" "ob = cancel_to ?c old"
    using assms(1) latest_cancellation [of gid snapshot] by (auto simp: sends_read_def recover_group_outbox_Inr)
  have "recover_loop gid (Some revision) pc (map snd xs) (outbox_new gid) = Inr old"
    by (rule recover_loop_widen [OF _ old(2)]) (use le in \<open>auto simp: stays_live_def split: option.splits\<close>)
  then show ?thesis
    using latest_cancellation [OF assms(5) gid] assms(4,6) old(1) cancel_twice [OF le, of old] old(3)
    by (simp add: recover_group_outbox_Inr)
qed


lemma recorded_revalidated:
  "record_revalidated items snapshot = Inr snapshot' \<Longrightarrow>
   snap_outbox snapshot' = snap_outbox snapshot \<and> snap_group_controls snapshot' = snap_group_controls snapshot"
  by (induction items arbitrary: snapshot) (auto simp: rbind_eq_Inr dest!: recorded_receive)

lemma receiver_parts_same:
  "install_in_receiver accepted candidate commitment receiver c = Inr part \<Longrightarrow>
     snap_outbox (snd (snd part)) = snap_outbox c \<and> snap_group_controls (snd (snd part)) = snap_group_controls c"
  "with_receiver_state receiver c = Inr c' \<Longrightarrow> snap_outbox c' = snap_outbox c \<and> snap_group_controls c' = snap_group_controls c"
  "snap_outbox (with_provider provider c) = snap_outbox c" "snap_group_controls (with_provider provider c) = snap_group_controls c"
  by (auto simp: install_in_receiver_def with_receiver_state_def with_provider_def rbind_eq_Inr case_prod_beta
      dest!: recorded_revalidated split: option.splits if_splits prod.splits)

lemma sends_read_same:
  "sends_read pc gid c ob \<Longrightarrow> snap_outbox c' = snap_outbox c \<Longrightarrow> snap_group_controls c' = snap_group_controls c \<Longrightarrow> sends_read pc gid c' ob"
  using sends_read_leaves(1) leaves_same by blast

text \<open>The records of a candidate beside the cancellation.\<close>

lemma quiet_parts:
  "record_prepared_control pc accepted prepared outbox = Inr part \<Longrightarrow> \<forall>r \<in> set (snd part). \<not> cancellation r"
  "record_admission accepted authority candidate admission book = Inr part2 \<Longrightarrow> \<forall>r \<in> set (snd part2). \<not> cancellation r"
  "deferred_records gid original queue = Inr rs \<Longrightarrow> \<forall>r \<in> set rs. \<not> cancellation r"
  "\<forall>r \<in> set (provider_records provider). \<not> cancellation r"
  by (auto simp: record_prepared_control_def record_admission_def deferred_records_def provider_records_def rbind_eq_Inr quiet_records(7)
      case_prod_beta dest!: quiet_records(1-6) split: option.splits if_splits)

lemma roster_candidate_parts:
  assumes "roster_candidate port rc pc input authority candidate s snapshot state = Inr (snapshot', state', commit)"
  obtains (parts) preimage disposition c r1 accepted_rs control_rs book_rs v deferred_rs c' where
    "accept_successor authority candidate (rc preimage) (rc_view state) = (disposition, rc_view state')"
    "begin_candidate port s snapshot = Inr c" "accepted_records (disposition = RosterAccepted) candidate (rc_view state) = Inr accepted_rs"
    "\<forall>r \<in> set ([r1] @ control_rs @ book_rs @ provider_records (ri_provider input) @ [v] @ deferred_rs). \<not> cancellation r"
    "compacted_option pc (disposition = RosterAccepted) (ros_group_id candidate) (append_group_control_records
        ([r1] @ accepted_rs @ control_rs @ book_rs @ provider_records (ri_provider input) @ [v] @ deferred_rs)
        (with_provider (ri_provider input) c))
      (if disposition = RosterAccepted then map_option (outbox_cancel_for_newer_roster (ros_revision candidate)) (rc_group_outbox state)
       else rc_group_outbox state) = Inr (c', rc_group_outbox state')"
    "snap_outbox snapshot' = snap_outbox c'" "snap_group_controls snapshot' = snap_group_controls c'"
  using assms unfolding roster_candidate_def
  apply (simp only: Let_def rbind_eq_Inr case_prod_beta policy_Inr)
  apply (elim exE conjE)
  subgoal premises prems for preimage c r1 accepted_rs control book v view_state deferred_rs cut inst last
  proof -
    let ?view = "accept_successor authority candidate (rc preimage) (rc_view state)"
    have quiet: "\<not> cancellation r1" "\<forall>r \<in> set (snd control). \<not> cancellation r" "\<forall>r \<in> set (snd book). \<not> cancellation r"
        "\<not> cancellation v" "\<forall>r \<in> set deferred_rs. \<not> cancellation r"
      by (rule quiet_records(5) quiet_parts(1-3) quiet_records(3), rule prems)+
    have same: "snap_outbox (snd (snd inst)) = snap_outbox (fst cut) \<and> snap_group_controls (snd (snd inst)) = snap_group_controls (fst cut)"
        "snap_outbox last = snap_outbox (snd (snd inst)) \<and> snap_group_controls last = snap_group_controls (snd (snd inst))"
      by (rule receiver_parts_same(1), rule prems) (rule receiver_parts_same(2), rule prems)
    have last: "snapshot' = last" "rc_view state' = snd ?view" "rc_group_outbox state' = snd cut" using prems(14) by auto
    show thesis
      by (rule parts [of preimage "fst ?view" c accepted_rs r1 "snd control" "snd book" v deferred_rs "fst cut"])
        (use prems(2-14) quiet quiet_parts(4) same last in \<open>auto simp: prod_eq_iff\<close>)
  qed
  done


lemma accepted_view:
  assumes "accept_successor authority candidate digest view = (disposition, view')"
  shows "disposition \<noteq> RosterAccepted \<Longrightarrow> view' = view"
    "disposition = RosterAccepted \<Longrightarrow> view' = \<lparr>view_roster = candidate, view_digest = digest\<rparr> \<and>
      ros_group_id candidate = ros_group_id (view_roster view) \<and> ros_revision (view_roster view) \<le> ros_revision candidate"
  using assms by (auto simp: accept_successor_def Let_def split: if_splits)

lemma accepted_records_split:
  assumes "accepted_records True candidate view = Inr rs"
  obtains r where "rs = [encode_group_outbox_cancellation_record (ros_group_id candidate) (ros_revision candidate), r]" "\<not> cancellation r"
  using assms by (auto simp: accepted_records_def rbind_eq_Inr dest!: quiet_records(4))

lemma roster_candidate_read:
  assumes "roster_candidate port rc pc input authority candidate s snapshot state = Inr (snapshot', state', commit)"
    and "sends_read pc gid snapshot ob" "view_ok gid snapshot (rc_view state)" "rc_group_outbox state = Some ob" "digests rc"
  shows "\<exists>ob'. rc_group_outbox state' = Some ob' \<and> sends_read pc gid snapshot' ob' \<and> view_ok gid snapshot' (rc_view state')"
  using assms(1)
proof (cases rule: roster_candidate_parts)
  case 1: (parts preimage disposition c r1 accepted_rs control_rs book_rs v deferred_rs c')
  let ?others = "control_rs @ book_rs @ provider_records (ri_provider input) @ [v] @ deferred_rs"
  let ?c = "with_provider (ri_provider input) c"
  have begun: "snap_outbox ?c = snap_outbox snapshot" "snap_group_controls ?c = snap_group_controls snapshot"
    using begun_same [OF 1(2)] by (simp_all add: receiver_parts_same)
  show ?thesis
  proof (cases "disposition = RosterAccepted")
    case False
    then have "accepted_rs = []" "c' = append_group_control_records ([r1] @ ?others) ?c" "rc_group_outbox state' = Some ob"
      using 1(3,5) assms(4) by (simp_all add: accepted_records_def compacted_option_def)
    note parts = this
    have "leaves_sends snapshot c'" using leaves_quiet [OF 1(4) begun] unfolding parts(2) .
    then have leaves: "leaves_sends snapshot snapshot'" using leaves_same [OF 1(6,7)] by (rule leaves_sends_trans)
    have "rc_view state' = rc_view state" using accepted_view(1) [OF 1(1) False] .
    then have "view_ok gid snapshot' (rc_view state')"
      using assms(3) sends_read_leaves(2) [OF assms(2) leaves] by (simp add: view_ok_def)
    then show ?thesis using sends_read_leaves(1) [OF assms(2) leaves] parts(3) by blast
  next
    case True
    obtain r where r: "accepted_rs = [encode_group_outbox_cancellation_record (ros_group_id candidate) (ros_revision candidate), r]" "\<not> cancellation r"
      using 1(3) unfolding True by (auto elim: accepted_records_split)
    note view = accepted_view(2) [OF 1(1) True]
    have gid: "ros_group_id candidate = gid" "length gid = GROUP_ID_LEN" "cancels_ok gid (snap_group_controls snapshot)"
      using view assms(2,3) by (simp_all add: view_ok_def sends_read_def)
    let ?a = "append_group_control_records ([r1] @ accepted_rs @ ?others) ?c"
    have "snap_group_controls ?a = append_controls ([r1] @ encode_group_outbox_cancellation_record gid (ros_revision candidate) # (r # ?others))
        (snap_group_controls snapshot)"
      by (simp add: append_group_control_records_def begun(2) r(1) gid(1))
    note controls = cancelling_controls [OF gid(3,2) _ this]
    have cancels: "cancels_ok gid (snap_group_controls ?a)" "cancelled_at (snap_group_controls ?a) = Some (ros_revision candidate)"
      using controls 1(4) r(2) by simp_all
    have read: "recover_group_outbox pc ?a gid = Inr (outbox_cancel_for_newer_roster (ros_revision candidate) ob)"
      by (rule read_cancelled [OF assms(2,3) _ _ cancels]) (use view begun in \<open>simp_all add: append_group_control_records_def\<close>)
    obtain ob' where ob': "compacted pc gid ?a (outbox_cancel_for_newer_roster (ros_revision candidate) ob) = Inr (c', ob')" "rc_group_outbox state' = Some ob'"
      using 1(5) True gid(1) assms(4) by (auto simp: compacted_option_def rbind_eq_Inr)
    obtain es where es: "recover_group_outbox pc c' gid = Inr ob'" "c' = ?a\<lparr>snap_outbox := es\<rparr>"
      using compacted_keeps [OF ob'(1) read] by blast
    have "sends_read pc gid c' ob'" using es cancels(1) gid(2) by (simp add: sends_read_def)
    moreover have "view_ok gid snapshot' (rc_view state')"
      using view 1(7) es(2) cancels(2) gid(1) assms(5) by (simp add: view_ok_def digests_length)
    ultimately show ?thesis using sends_read_same 1(6,7) ob'(2) by blast
  qed
qed

lemma roster_transition_read:
  assumes "commit_roster_transition port rc pc input authority candidate s snapshot state = (r, s', snapshot', state')"
    and "sends_read pc gid snapshot ob" "view_ok gid snapshot (rc_view state)" "rc_group_outbox state = Some ob" "digests rc"
  shows "\<exists>ob'. rc_group_outbox state' = Some ob' \<and> sends_read pc gid snapshot' ob' \<and> view_ok gid snapshot' (rc_view state')"
  using assms(1) unfolding commit_roster_transition_def
proof (cases rule: commit_candidate_cases)
  case (new x)
  then show ?thesis by (intro roster_candidate_read [OF _ assms(2-5)])
qed (use assms in simp)


section \<open>The values of a member\<close>

definition member_read :: "(bytes \<Rightarrow> bytes) \<Rightarrow> bytes \<Rightarrow> operation_snapshot \<Rightarrow> member_state \<Rightarrow> bool" where
  "member_read pc gid snapshot m \<longleftrightarrow> sends_read pc gid snapshot (ms_outbox m) \<and> view_ok gid snapshot (ms_view m)"

lemma member_read_leaves:
  assumes "member_read pc gid snapshot m" "leaves_sends snapshot snapshot'" "ms_outbox m' = ms_outbox m" "ms_view m' = ms_view m"
  shows "member_read pc gid snapshot' m'"
  using assms(1,3,4) sends_read_leaves [OF _ assms(2)] by (auto simp: member_read_def view_ok_def)

lemma member_roster_read:
  assumes "commit_member_roster port rc pc input authority candidate s snapshot m = (r, s', snapshot', m')"
    and "member_read pc gid snapshot m" "digests rc"
  shows "member_read pc gid snapshot' m'"
proof -
  obtain state' where c: "commit_roster_transition port rc pc input authority candidate s snapshot (as_commit_state m) = (r, s', snapshot', state')"
    and m': "m' = of_commit_state m state'"
    using assms(1) by (auto simp: commit_member_roster_def split: prod.splits)
  obtain ob' where "rc_group_outbox state' = Some ob'" "sends_read pc gid snapshot' ob'" "view_ok gid snapshot' (rc_view state')"
    using roster_transition_read [OF c, of gid "ms_outbox m"] assms(2,3) by (auto simp: member_read_def as_commit_state_def)
  then show ?thesis by (simp add: m' member_read_def of_commit_state_def)
qed

lemma group_payload_read:
  assumes "commit_group_payload_with_deferred port rc pc input s snapshot m = (r, s', snapshot', m')"
    and "member_read pc gid snapshot m" "digests rc"
  shows "member_read pc gid snapshot' m'"
proof -
  consider (roster) candidate where "payload_decode (in_plaintext input) = Inr (PayloadRoster candidate)"
    | (application) sent where "payload_decode (in_plaintext input) = Inr (PayloadApplication sent)"
    | (other) "\<And>sent candidate. payload_decode (in_plaintext input) \<notin> {Inr (PayloadRoster candidate), Inr (PayloadApplication sent)}"
    by auto
  then show ?thesis
  proof cases
    case roster
    then show ?thesis
      using assms by (auto simp: commit_group_payload_with_deferred_def split: prod.splits intro: member_roster_read)
  next
    case (application sent)
    obtain x g where c: "commit_receive_disposition port pc sent (authenticated_peer input) (in_provider_state input) (in_effect input) s snapshot
        (ms_receiver m) = (x, s', snapshot', g)" and m': "m' = m\<lparr>ms_receiver := g\<rparr>"
      using assms(1) application by (auto simp: commit_group_payload_with_deferred_def split: prod.splits)
    show ?thesis by (rule member_read_leaves [OF assms(2) quietD [OF quiet_receive c]]) (simp_all add: m')
  next
    case other
    then obtain x u where c: "commit_malformed_group_payload port pc (in_plaintext input) (in_provider_state input) (in_effect input) s snapshot
        = (x, s', snapshot', u)" and m': "m' = m"
      using assms(1) by (auto simp: commit_group_payload_with_deferred_def split: prod.splits sum.splits group_payload.splits)
    show ?thesis by (rule member_read_leaves [OF assms(2) quiet_unit_commits(3) [OF c]]) (simp_all add: m')
  qed
qed

lemma next_deferred_read:
  assumes "commit_next_deferred_roster port rc pc s snapshot m = (r, s', snapshot', m')"
    and "member_read pc gid snapshot m" "digests rc"
  shows "member_read pc gid snapshot' m'"
  using assms by (auto simp: commit_next_deferred_roster_def split: option.splits prod.splits intro: member_roster_read)

lemma outbox_kept_read:
  "sends_read pc gid snapshot ob \<Longrightarrow> outbox_kept pc gid snapshot snapshot' ob' \<Longrightarrow>
   sends_read pc gid snapshot' ob' \<and> snap_group_controls snapshot' = snap_group_controls snapshot"
  by (simp add: sends_read_def outbox_kept_def)

end
