(* ===== verification/Group_Restart.thy ===== *)
theory Group_Restart
  imports Group_Relay Commit_Restart
begin

text \<open>
  The coordinator's sends across a restart: whatever the store, the provider, the peers and the network do
  during its calls, the outbox in memory is the one that \<open>recover_group_outbox\<close> reads from the snapshot.
\<close>

section \<open>Steps that keep a property of the state\<close>

definition keeps :: "('d \<Rightarrow> bool) \<Rightarrow> ('d \<Rightarrow> 'r \<times> 'd) \<Rightarrow> bool" where
  "keeps P f \<longleftrightarrow> (\<forall>d. P d \<longrightarrow> P (snd (f d)))"

named_theorems kept

lemma keepsD: "keeps P f \<Longrightarrow> P d \<Longrightarrow> P (snd (f d))"
  by (simp add: keeps_def)

lemma keeps_check [kept]: "keeps P (live_check f)" "keeps P (dv_check g)" "keeps P (\<lambda>d. (r d, d))"
  by (simp_all add: keeps_def live_check_def dv_check_def)

lemma keeps_pair: "keeps P (Pair x)"
  by (simp add: keeps_def)

lemma keeps_preflight [kept]: "keeps P (preflight f)"
  by (simp add: preflight_def kept)

lemma keeps_lifted [kept]: "keeps P f \<Longrightarrow> keeps P (lifted f)"
  by (auto simp: keeps_def lifted_def split: prod.splits)

lemma keeps_bind_post:
  assumes "keeps P f" "\<And>d x. P d \<Longrightarrow> fst (f d) = Inr x \<Longrightarrow> Q x" "\<And>x. Q x \<Longrightarrow> keeps P (g x)"
  shows "keeps P (cbind f g)"
  unfolding keeps_def
proof (intro allI impI)
  fix d assume "P d"
  then show "P (snd (cbind f g d))"
    using assms by (cases "f d"; cases "fst (f d)") (force simp: keeps_def cbind_def)+
qed

lemma keeps_bind [kept]: "keeps P f \<Longrightarrow> (\<And>x. keeps P (g x)) \<Longrightarrow> keeps P (cbind f g)"
  by (rule keeps_bind_post [where Q = "\<lambda>_. True"]) simp_all

lemma keeps_cases:
  assumes "keeps P f" "\<And>d. snd (h d) = d \<or> snd (h d) = snd (f d)"
  shows "keeps P h"
  unfolding keeps_def
proof (intro allI impI)
  fix d assume "P d"
  then show "P (snd (h d))" using assms(1) assms(2) [of d] by (auto simp: keeps_def)
qed

section \<open>The sends\<close>

definition sends_recorded :: "(bytes \<Rightarrow> bytes) \<Rightarrow> bytes \<Rightarrow> bytes list \<Rightarrow> ('p, 'n, 'k, 's, group_outbox) driven \<Rightarrow> bool" where
  "sends_recorded pc gid controls d \<longleftrightarrow>
     sends_read pc gid (dv_snapshot d) (dv_values d) \<and> snap_group_controls (dv_snapshot d) = controls"

lemma keeps_sends_client [kept]: "keeps (sends_recorded pc gid controls) (on_client f)"
  by (simp add: keeps_def sends_recorded_def on_client_def split: prod.split)

lemma keeps_sends_commit:
  assumes "\<And>s sn ob r s' sn' ob'. f s sn ob = (r, s', sn', ob') \<Longrightarrow>
    recover_group_outbox pc sn gid = Inr ob \<Longrightarrow> outbox_kept pc gid sn sn' ob'"
  shows "keeps (sends_recorded pc gid controls) (on_commit f)"
  unfolding keeps_def
proof (intro allI impI, goal_cases)
  case d: (1 d)
  obtain r s' sn' ob' where f: "f (dv_store d) (dv_snapshot d) (dv_values d) = (r, s', sn', ob')" by (metis prod.collapse)
  show ?case
    using d outbox_kept_read [OF _ assms [OF f]] by (auto simp: sends_recorded_def on_commit_def f sends_read_def)
qed

lemma keeps_intent:
  assumes "intent_typed send" "intent_fresh send"
  shows "keeps (sends_recorded pc gid controls) (on_commit (commit_logical_intent (durable_port inner) send))"
  by (rule keeps_sends_commit) (rule durable.commit_logical_intent_kept [OF _ _ assms])

lemma keeps_progress [kept]:
  assumes "digests pc"
  shows "keeps (sends_recorded pc gid controls) (on_commit (commit_outbox_prepared_ciphertext (durable_port inner) pc ident m ct state))"
    "keeps (sends_recorded pc gid controls) (on_commit (commit_outbox_handoff_reservation (durable_port inner) pc ident m))"
    "keeps (sends_recorded pc gid controls) (on_commit (commit_outbox_relay_acceptance (durable_port inner) pc ident m))"
  by (rule keeps_sends_commit, rule durable.commit_outbox_prepared_ciphertext_kept [OF _ _ assms], assumption+)
    (rule keeps_sends_commit, rule durable.commit_outbox_handoff_reservation_kept [OF _ _ assms], assumption+,
     rule keeps_sends_commit, rule durable.commit_outbox_relay_acceptance_kept [OF _ _ assms], assumption+)

lemma keeps_recipient [kept]:
  assumes "digests pc"
  shows "keeps (sends_recorded pc gid controls) (prepare_outbox_group_recipient env (durable_port inner) pc ident m addr)"
    "keeps (sends_recorded pc gid controls) (dispatch_outbox_group_handoff env (durable_port inner) pc ident m addr)"
  unfolding prepare_outbox_group_recipient_def dispatch_outbox_group_handoff_def
  by (auto intro!: kept assms split: sum.split prod.split)

lemma keeps_case_live:
  assumes "keeps P f" "keeps P next" and "h = (\<lambda>d. case f d of (Inl LiveFrozen, d) \<Rightarrow> (Inl GErrFrozen, d) | (Inl _, d) \<Rightarrow> next d | (Inr _, d) \<Rightarrow> step d)"
    and "keeps P step"
  shows "keeps P h"
  unfolding keeps_def assms(3)
proof (intro allI impI)
  fix d assume "P d"
  then have "P (snd (f d))" using assms(1) by (simp add: keeps_def)
  then show "P (snd (case f d of (Inl LiveFrozen, d) \<Rightarrow> (Inl GErrFrozen, d) | (Inl _, d) \<Rightarrow> next d | (Inr _, d) \<Rightarrow> step d))"
    using assms(2,4) by (auto simp: keeps_def split: prod.split sum.split group_live_error.split)
qed

lemma keeps_drive_recipients [kept]:
  assumes "digests (ge_payload_commitment e)"
  shows "keeps (sends_recorded (ge_payload_commitment e) gid controls) (drive_recipients e ident routes ms)"
proof (induction ms)
  case (Cons m ms)
  show ?case
  proof (cases "route_of m routes")
    case (Some addr)
    let ?next = "drive_recipients e ident routes ms"
    let ?prepare = "prepare_outbox_group_recipient (ge_client e) (ge_port e) (ge_payload_commitment e) ident m addr"
    let ?dispatch = "dispatch_outbox_group_handoff (ge_client e) (ge_port e) (ge_payload_commitment e) ident m addr"
    let ?rest = "\<lambda>d. case ?dispatch d of (Inl LiveFrozen, d) \<Rightarrow> (Inl GErrFrozen, d) | (Inl _, d) \<Rightarrow> ?next d | (Inr _, d) \<Rightarrow> ?next d"
    have "drive_recipients e ident routes (m # ms)
        = (\<lambda>d. case ?prepare d of (Inl LiveFrozen, d) \<Rightarrow> (Inl GErrFrozen, d) | (Inl _, d) \<Rightarrow> ?next d | (Inr _, d) \<Rightarrow> ?rest d)"
      by (simp add: Some fun_eq_iff split: prod.split sum.split group_live_error.split)
    then show ?thesis
      by (rule keeps_case_live [OF keeps_recipient(1) [OF assms] Cons.IH _ keeps_case_live [OF keeps_recipient(2) [OF assms] Cons.IH refl Cons.IH]])
  qed (use Cons.IH in \<open>simp add: keeps_def\<close>)
qed (simp add: keeps_def)

lemma keeps_drive [kept]:
  assumes "digests (ge_payload_commitment e)"
  shows "keeps (sends_recorded (ge_payload_commitment e) gid controls) (drive_send e ident routes)"
    "keeps (sends_recorded (ge_payload_commitment e) gid controls) (drive_all e routes idents)"
proof -
  show send: "keeps (sends_recorded (ge_payload_commitment e) gid controls) (drive_send e ident routes)" for ident
    unfolding drive_send_def by (intro kept assms)
  show "keeps (sends_recorded (ge_payload_commitment e) gid controls) (drive_all e routes idents)"
    by (induction idents) (auto intro: kept send)
qed


section \<open>Controls\<close>

definition since :: "operation_snapshot \<Rightarrow> ('p, 'n, 'k, 's, 'l) driven \<Rightarrow> bool" where
  "since sn d \<longleftrightarrow> leaves_sends sn (dv_snapshot d)"

lemma since_client [kept]: "keeps (since sn) (on_client f)"
  by (simp add: keeps_def since_def on_client_def split: prod.split)

lemma since_commit:
  assumes "quiet f"
  shows "keeps (since sn) (on_commit f)"
  unfolding keeps_def
proof (intro allI impI, goal_cases)
  case d: (1 d)
  obtain r s' sn' l' where f: "f (dv_store d) (dv_snapshot d) (dv_values d) = (r, s', sn', l')" by (metis prod.collapse)
  show ?case using leaves_sends_trans [OF _ quietD [OF assms f]] d by (simp add: since_def on_commit_def f)
qed

lemma since_part [kept]: "keeps (since sn) f \<Longrightarrow> keeps (since sn) (on_part get put f)"
  unfolding keeps_def
proof (intro allI impI, goal_cases)
  case d: (1 d)
  then have "since sn (snd (f \<lparr>dv_client = dv_client d, dv_store = dv_store d, dv_snapshot = dv_snapshot d, dv_values = get (dv_values d)\<rparr>))"
    by (simp add: since_def)
  then show ?case by (simp add: since_def on_part_def case_prod_beta)
qed

lemma since_prepare [kept]: "keeps (since sn) (prepare_control_handoff env port pc recipient addr payload)"
proof -
  have "keeps (since sn) (cbind (preflight (commit_prepared_control_handoff discard_port pc recipient payload [0] [])) (\<lambda>_.
      cbind (on_client (prepare_group_ciphertext env addr (mem_identity recipient) payload)) (\<lambda>(ciphertext, provider_state).
        on_commit (commit_prepared_control_handoff port pc recipient payload ciphertext provider_state))))"
    by (auto intro!: kept since_commit quiet_control_commits split: prod.split)
  then show ?thesis by (rule keeps_cases) (auto simp: prepare_control_handoff_def split: option.split)
qed

lemma since_controls [kept]:
  "keeps (since sn) (prepare_outbound_invitation_control env port pc recipient addr invitation)"
  "keeps (since sn) (prepare_outbound_roster_control env port pc recipient addr successor)"
  "keeps (since sn) (dispatch_outbound_roster_control env port pc recipient payload addr)"
  "keeps (since sn) (prepare_installed_roster_control env port rc pc view book authority recipient addr now)"
  unfolding prepare_outbound_invitation_control_def prepare_outbound_roster_control_def dispatch_outbound_roster_control_def
    prepare_installed_roster_control_def
  by (intro kept since_commit quiet_control_commits)+

lemma since_revocation [kept]:
  "keeps (since sn) (prepare_authority_invitation_revocation env port pc authority recipient addr ident now)"
proof -
  have last: "keeps (since sn) (\<lambda>d. case ctl_handoff pc recipient encoded (snd (dv_values d)) of
      Inr handoff \<Rightarrow> (Inr handoff, d)
    | Inl _ \<Rightarrow> on_part snd (\<lambda>ob live. (fst live, ob)) (prepare_outbound_invitation_control env port pc recipient addr payload) d)" for encoded payload
    by (rule keeps_cases [OF since_part [OF since_controls(1)]]) (auto split: sum.split)
  show ?thesis
    unfolding prepare_authority_invitation_revocation_def by (intro kept since_commit quiet_control_commits last)
qed

lemma since_send_control [kept]: "keeps (since sn) (send_control e recipient addr payload)"
  unfolding send_control_def by (intro kept)

lemma since_dispatch_controls [kept]: "keeps (since sn) (dispatch_controls e routes handoffs n)"
proof (induction handoffs arbitrary: n)
  case (Cons h hs)
  show ?case
  proof (cases "route_of (ho_recipient h) routes")
    case (Some addr)
    let ?dispatch = "dispatch_outbound_roster_control (ge_client e) (ge_port e) (ge_payload_commitment e) (ho_recipient h) (ho_payload h) addr"
    have "dispatch_controls e routes (h # hs) n = (\<lambda>d. case ?dispatch d of
        (Inl LiveFrozen, d) \<Rightarrow> (Inl GErrFrozen, d) | (Inl _, d) \<Rightarrow> dispatch_controls e routes hs n d
      | (Inr _, d) \<Rightarrow> dispatch_controls e routes hs (n + 1) d)"
      by (simp add: Some fun_eq_iff split: prod.split sum.split group_live_error.split)
    then show ?thesis by (rule keeps_case_live [OF since_controls(3) Cons.IH _ Cons.IH])
  qed (use Cons.IH in \<open>simp add: keeps_def\<close>)
qed (simp add: keeps_def)


section \<open>The group state\<close>

definition state_read :: "(bytes \<Rightarrow> bytes) \<Rightarrow> bytes \<Rightarrow> operation_snapshot \<Rightarrow> group_state \<Rightarrow> bool" where
  "state_read pc gid sn st \<longleftrightarrow> gs_group_id st = gid \<and> sends_read pc gid sn (gs_outbox st) \<and>
     (\<forall>view. gs_view st = Some view \<longrightarrow> view_ok gid sn view)"

definition state_recorded :: "(bytes \<Rightarrow> bytes) \<Rightarrow> bytes \<Rightarrow> ('p, 'n, 'k, 's, group_state) driven \<Rightarrow> bool" where
  "state_recorded pc gid d \<longleftrightarrow> state_read pc gid (dv_snapshot d) (dv_values d)"

definition group_recorded :: "(bytes \<Rightarrow> bytes) \<Rightarrow> bytes \<Rightarrow> ('p, 'n, 'k, 's) group_client \<Rightarrow> bool" where
  "group_recorded pc gid g \<longleftrightarrow> (\<exists>st. gc_group g = Some st \<and> state_read pc gid (gc_snapshot g) st)"

lemma state_read_leaves:
  assumes "state_read pc gid sn st" "leaves_sends sn sn'"
    and "gs_outbox st' = gs_outbox st" "gs_view st' = gs_view st" "gs_group_id st' = gs_group_id st"
  shows "state_read pc gid sn' st'"
  using assms(1,3-5) sends_read_leaves [OF _ assms(2)] by (auto simp: state_read_def view_ok_def)

lemma state_read_member: "state_read pc gid sn st \<Longrightarrow> member_part st = Some m \<Longrightarrow> member_read pc gid sn m"
  by (auto simp: state_read_def member_part_def member_read_def split: option.splits)

lemma member_read_state: "member_read pc gid sn m \<Longrightarrow> gs_group_id st = gid \<Longrightarrow> state_read pc gid sn (put_member_part m st)"
  by (simp add: state_read_def put_member_part_def member_read_def)

lemma keeps_on_outbox [kept]:
  assumes "\<And>gid controls. keeps (sends_recorded pc gid controls) f"
  shows "keeps (state_recorded pc gid) (on_outbox f)"
  unfolding keeps_def
proof (intro allI impI, goal_cases)
  case d: (1 d)
  have "sends_recorded pc (gs_group_id (dv_values d)) (snap_group_controls (dv_snapshot d)) (snd (f \<lparr>dv_client = dv_client d,
      dv_store = dv_store d, dv_snapshot = dv_snapshot d, dv_values = gs_outbox (dv_values d)\<rparr>))"
    using d assms [of "gs_group_id (dv_values d)" "snap_group_controls (dv_snapshot d)"]
    by (simp add: keeps_def sends_recorded_def state_recorded_def state_read_def)
  then show ?case
    using d by (simp add: sends_recorded_def state_recorded_def state_read_def view_ok_def on_part_def case_prod_beta)
qed

lemma keeps_quiet_part:
  assumes "\<And>sn. keeps (since sn) f"
    and "\<And>x st. gs_outbox (put x st) = gs_outbox st \<and> gs_view (put x st) = gs_view st \<and> gs_group_id (put x st) = gs_group_id st"
  shows "keeps (state_recorded pc gid) (on_part get put f)"
  unfolding keeps_def
proof (intro allI impI, goal_cases)
  case d: (1 d)
  let ?d = "\<lparr>dv_client = dv_client d, dv_store = dv_store d, dv_snapshot = dv_snapshot d, dv_values = get (dv_values d)\<rparr>"
  have "leaves_sends (dv_snapshot d) (dv_snapshot (snd (f ?d)))"
    using assms(1) [of "dv_snapshot d"] by (simp add: keeps_def since_def)
  then show ?case
    using d state_read_leaves [of pc gid "dv_snapshot d" "dv_values d"] assms(2) by (simp add: state_recorded_def on_part_def case_prod_beta)
qed

lemma keeps_with_group:
  assumes "keeps (state_recorded pc gid) f"
  shows "keeps (group_recorded pc gid) (with_group pre f)"
  unfolding keeps_def
proof (intro allI impI, goal_cases)
  case g: (1 g)
  show ?case
  proof (cases "gc_group g")
    case (Some st)
    let ?d = "\<lparr>dv_client = gc_client g, dv_store = gc_store g, dv_snapshot = gc_snapshot g, dv_values = st\<rparr>"
    have "state_recorded pc gid (snd (f ?d))"
      using assms g Some by (simp add: keeps_def state_recorded_def group_recorded_def)
    then show ?thesis
      using g Some by (simp add: with_group_def ok_or_def rbind_eq_Inr group_recorded_def state_recorded_def case_prod_beta split: sum.split)
  qed (use g in \<open>simp add: with_group_def ok_or_def rbind_def split: sum.split\<close>)
qed

section \<open>The calls that send\<close>

lemma new_send_intent:
  assumes "logical_send_new r digest sender sequence recipients payload = Inr send"
    and "length (ros_group_id r) = GROUP_ID_LEN" "length digest = DIGEST_LEN"
  shows "intent_typed send \<and> intent_fresh send"
  using assms
  by (auto simp: logical_send_new_def logical_id_new_def rbind_eq_Inr intent_typed_def intent_fresh_def fresh_progress_def
      split: if_splits)

lemma keeps_send_group:
  assumes "digests (ge_payload_commitment e)"
  shows "keeps (group_recorded (ge_payload_commitment e) gid) (send_group e recipients payload)"
  unfolding send_group_def
  by (intro keeps_with_group, rule keeps_bind_post [where Q = "\<lambda>send. intent_typed send \<and> intent_fresh send"])
    (auto intro!: kept keeps_intent assms simp: dv_check_def state_recorded_def state_read_def sends_read_def view_ok_def rbind_eq_Inr
      ok_or_eq_Inr g_policy_def Let_def dest: new_send_intent)

lemma keeps_dispatch_sends:
  assumes "digests (ge_payload_commitment e)"
  shows "keeps (group_recorded (ge_payload_commitment e) gid) (dispatch_pending_group_sends e routes)"
proof -
  have "keeps (state_recorded (ge_payload_commitment e) gid) (cbind (on_outbox (drive_all e routes idents)) (\<lambda>_ d. (Inr n, d)))" for idents and n :: nat
    by (intro kept assms)
  then show ?thesis
    unfolding dispatch_pending_group_sends_def
    by (intro keeps_with_group) (simp add: keeps_def Let_def)
qed

lemma keeps_gc_commit:
  assumes "\<And>s sn r s' sn' u. f s sn = (r, s', sn', u) \<Longrightarrow> leaves_sends sn sn'"
  shows "keeps (group_recorded pc gid) (gc_commit f)"
  unfolding keeps_def
proof (intro allI impI, goal_cases)
  case g: (1 g)
  obtain r s' sn' u where f: "f (gc_store g) (gc_snapshot g) = (r, s', sn', u)" by (metis prod.collapse)
  show ?case
    using g by (auto simp: gc_commit_def f group_recorded_def intro: state_read_leaves [OF _ assms [OF f] refl refl refl])
qed

lemma keeps_quiet_commits [kept]:
  "keeps (group_recorded pc gid) (gc_commit (commit_provider_state port state))"
  "keeps (group_recorded pc gid) (gc_commit (commit_delivery_cursor port cursor))"
  "keeps (group_recorded pc gid) (gc_commit (commit_malformed_group_payload port pc' plaintext state effect))"
  by (rule keeps_gc_commit, erule quiet_unit_commits)+

lemma keeps_same_group [kept]:
  "keeps (group_recorded pc gid) (gc_on_client f)" "keeps (group_recorded pc gid) (\<lambda>g. (r, g\<lparr>gc_poisoned := b\<rparr>))"
  "keeps (group_recorded pc gid) (gc_check f')"
  by (simp_all add: keeps_def group_recorded_def gc_on_client_def gc_check_def case_prod_beta)

lemma keeps_direct:
  "keeps (group_recorded pc gid) (send_direct e addr message)" "keeps (group_recorded pc gid) (acknowledge_delivery e)"
proof -
  let ?dispatch = "\<lambda>prepared g. case dispatch_prepared_send (ge_client e) prepared (gc_client g) of
    (r, c) \<Rightarrow> (rmap_err (\<lambda>err. if error_kind_of err = KindNetwork \<or> error_kind_of err = KindRateLimited then GErrTransport else GErrClient err) r,
      g\<lparr>gc_client := c\<rparr>)"
  have dispatch: "keeps (group_recorded pc gid) (?dispatch prepared)" for prepared
    by (simp add: keeps_def group_recorded_def case_prod_beta)
  show "keeps (group_recorded pc gid) (send_direct e addr message)"
    by (rule keeps_cases [where f = "cbind (gc_on_client (prepare_send_as (ge_client e) addr message Dm)) (\<lambda>prepared.
          cbind (\<lambda>g. (Inr (), g\<lparr>gc_poisoned := True\<rparr>)) (\<lambda>_.
          cbind (gc_on_client (\<lambda>c. (export_state (ge_client e) c, c))) (\<lambda>provider_state.
          cbind (gc_commit (commit_provider_state (ge_port e) provider_state)) (\<lambda>_.
          cbind (\<lambda>g. (Inr (), g\<lparr>gc_poisoned := False\<rparr>)) (\<lambda>_. ?dispatch prepared)))))"])
      (intro kept dispatch, simp add: send_direct_def)
  show "keeps (group_recorded pc gid) (acknowledge_delivery e)"
    unfolding keeps_def
  proof (intro allI impI, goal_cases)
    case g: (1 g)
    show ?case
      using g by (simp add: acknowledge_delivery_def keepsD [OF keeps_quiet_commits(2)])
  qed
qed


section \<open>Invitations and rosters\<close>

lemma keeps_invitations:
  "keeps (group_recorded pc gid) (invite e ident target addr expires_at now)"
  "keeps (group_recorded pc gid) (accept_group_invitation e ident addr now)"
  "keeps (group_recorded pc gid) (revoke_group_invitation e ident addr now)"
  unfolding invite_def accept_group_invitation_def revoke_group_invitation_def
  by (auto intro!: keeps_with_group kept keeps_quiet_part since_commit quiet_invitations split: prod.split)

lemma keeps_dispatch_controls: "keeps (group_recorded pc gid) (dispatch_pending_controls e routes)"
proof -
  have "keeps (state_recorded pc gid) (on_control (dispatch_controls e routes handoffs n))" for handoffs n
    by (auto intro!: keeps_quiet_part kept)
  then show ?thesis
    unfolding dispatch_pending_controls_def by (intro keeps_with_group) (simp add: keeps_def)
qed

definition authority_recorded :: "(bytes \<Rightarrow> bytes) \<Rightarrow> bytes \<Rightarrow> ('p, 'n, 'k, 's, authority_control_state) driven \<Rightarrow> bool" where
  "authority_recorded pc gid d \<longleftrightarrow> (\<exists>ob. ac_group_outbox (dv_values d) = Some ob \<and> sends_read pc gid (dv_snapshot d) ob)
     \<and> view_ok gid (dv_snapshot d) (ac_view (dv_values d))"

lemma keeps_authority_client [kept]: "keeps (authority_recorded pc gid) (on_client f)"
  by (simp add: keeps_def authority_recorded_def on_client_def split: prod.split)

lemma keeps_authority_commit:
  assumes "digests rc"
  shows "keeps (authority_recorded pc gid) (on_commit (commit_authority_roster port rc pc authority admission prepared state successor))"
  unfolding keeps_def
proof (intro allI impI, goal_cases)
  case d: (1 d)
  let ?input = "\<lparr>ri_provider = Some (state, Advanced), ri_prepared_control = Some prepared, ri_admission = admission, ri_applying = None\<rparr>"
  obtain r s' sn' st' where c: "commit_roster_transition port rc pc ?input authority successor (dv_store d) (dv_snapshot d)
      (authority_commit_state (dv_values d)) = (r, s', sn', st')" by (metis prod.collapse)
  obtain ob where "ac_group_outbox (dv_values d) = Some ob" "sends_read pc gid (dv_snapshot d) ob" "view_ok gid (dv_snapshot d) (ac_view (dv_values d))"
    using d by (auto simp: authority_recorded_def)
  then obtain ob' where "rc_group_outbox st' = Some ob'" "sends_read pc gid sn' ob'" "view_ok gid sn' (rc_view st')"
    using roster_transition_read [OF c, of gid ob] assms by (auto simp: authority_commit_state_def)
  then show ?case
    by (simp add: authority_recorded_def on_commit_def commit_authority_roster_def c authority_of_commit_state_def)
qed

lemma keeps_authority_control [kept]:
  assumes "\<And>sn. keeps (since sn) f"
  shows "keeps (authority_recorded pc gid) (on_authority_control f)"
  unfolding keeps_def
proof (intro allI impI, goal_cases)
  case d: (1 d)
  let ?d = "\<lparr>dv_client = dv_client d, dv_store = dv_store d, dv_snapshot = dv_snapshot d, dv_values = ac_outbox (dv_values d)\<rparr>"
  have leaves: "leaves_sends (dv_snapshot d) (dv_snapshot (snd (f ?d)))"
    using assms [of "dv_snapshot d"] by (simp add: keeps_def since_def)
  then show ?case
    using d sends_read_leaves [OF _ leaves] by (auto simp: authority_recorded_def view_ok_def on_part_def case_prod_beta)
qed

lemma keeps_prepare_authority [kept]:
  "digests rc \<Longrightarrow> keeps (authority_recorded pc gid) (prepare_authority_roster_control env port rc pc authority recipient addr admission now successor)"
  unfolding prepare_authority_roster_control_def by (auto intro!: kept keeps_authority_commit split: prod.split)

lemma keeps_prepare_install:
  assumes "digests (ge_roster_commitment e)"
  shows "keeps (authority_recorded (ge_payload_commitment e) gid) (prepare_install e local_member successor admission now is_installed recipient addr)"
proof (cases is_installed)
  case True
  have "keeps (authority_recorded (ge_payload_commitment e) gid) (cbind (on_authority_control (prepare_installed_roster_control (ge_client e)
      (ge_port e) (ge_roster_commitment e) (ge_payload_commitment e) view book local_member recipient addr now)) (\<lambda>handoff d. (Inr (None :: roster_disposition option, handoff), d)))" for view book
    by (intro kept)
  then show ?thesis using True by (simp add: keeps_def prepare_install_def)
next
  case False
  have "keeps (authority_recorded (ge_payload_commitment e) gid) (cbind (prepare_authority_roster_control (ge_client e) (ge_port e)
      (ge_roster_commitment e) (ge_payload_commitment e) local_member recipient addr admission now successor)
      (\<lambda>(commit, handoff) d. (Inr (Some (com_disposition commit), handoff), d)))"
    by (auto intro!: kept assms split: prod.split)
  then show ?thesis using False by (simp add: keeps_def prepare_install_def)
qed


lemma keeps_install_recipients [kept]:
  assumes "digests (ge_roster_commitment e)"
  shows "keeps (authority_recorded (ge_payload_commitment e) gid) (install_recipients e local_member successor payload admission now recipients is_installed ins)"
proof (induction recipients arbitrary: is_installed ins)
  case (Cons rr recipients)
  obtain recipient addr where rr: "rr = (recipient, addr)" by fastforce
  let ?P = "authority_recorded (ge_payload_commitment e) gid"
  let ?next = "install_recipients e local_member successor payload admission now recipients"
  have IH: "?P d \<Longrightarrow> ?P (snd (?next i x d))" for i x d using Cons.IH [of i x] by (simp add: keeps_def)
  have prepared: "?P d'" if "?P d" "prepare_install e local_member successor admission now is_installed recipient addr d = (r, d')" for d r d'
    using keeps_prepare_install [OF assms] that by (metis keeps_def snd_conv)
  have dispatched: "?P d'" if "?P d" "on_authority_control (dispatch_outbound_roster_control (ge_client e) (ge_port e) (ge_payload_commitment e) recipient
      x addr) d = (r, d')" for d r d' x
    using keeps_authority_control [OF since_controls(3)] that by (metis keeps_def snd_conv)
  have one: "?P (snd (case prepare_install e local_member successor admission now is_installed recipient addr d of
      (Inl LiveFrozen, d) \<Rightarrow> (Inl GErrFrozen, d)
    | (Inl err, d) \<Rightarrow>
        if \<not> is_installed then (Inl (group_error_of_live err), d)
        else ?next is_installed (ins\<lparr>ins_unprepared := ins_unprepared ins @ [recipient]\<rparr>) d
    | (Inr (disposition, handoff), d) \<Rightarrow>
        let ins = (case disposition of None \<Rightarrow> ins | Some r \<Rightarrow> ins\<lparr>ins_disposition := r\<rparr>)
        in case on_authority_control (dispatch_outbound_roster_control (ge_client e) (ge_port e) (ge_payload_commitment e) recipient
                    (ho_payload handoff) addr) d of
             (Inr _, d) \<Rightarrow> ?next True (ins\<lparr>ins_delivered := ins_delivered ins @ [recipient]\<rparr>) d
           | (Inl LiveFrozen, d) \<Rightarrow> (Inl GErrFrozen, d)
           | (Inl _, d) \<Rightarrow> ?next True (ins\<lparr>ins_pending := ins_pending ins @ [recipient]\<rparr>) d))" if "?P d" for d
    using prepared [OF that]
    by (simp add: Let_def split: prod.split sum.split group_live_error.split) (auto intro!: IH intro: dispatched)
  show ?case
    unfolding keeps_def rr using one by (auto simp: IH split: option.split control_disposition.split)
qed (simp add: keeps_def)


lemma authority_part_read:
  "state_read pc gid sn st \<Longrightarrow> authority_part st = Some a \<Longrightarrow>
   ac_group_outbox a = Some (gs_outbox st) \<and> sends_read pc (gs_group_id st) sn (gs_outbox st) \<and> view_ok (gs_group_id st) sn (ac_view a)"
  by (auto simp: state_read_def authority_part_def split: option.splits)

lemma keeps_refused: "P d \<Longrightarrow> (\<And>x. P (snd (f x))) \<Longrightarrow> P (snd (case r of Inl err \<Rightarrow> (Inl err, d) | Inr x \<Rightarrow> f x))"
  by (simp split: sum.split)

lemma keeps_install_roster:
  assumes "digests (ge_roster_commitment e)"
  shows "keeps (group_recorded (ge_payload_commitment e) gid) (install_roster e successor recipients admission now)"
  unfolding install_roster_def
proof (rule keeps_with_group, unfold keeps_def, intro allI impI, goal_cases)
  case d: (1 d)
  let ?pc = "ge_payload_commitment e"
  have installed: "state_recorded ?pc gid (snd (on_part (\<lambda>_. a) put_authority_part
      (install_recipients e local_member successor payload adm now recipients b ins) d))" if "authority_part (dv_values d) = Some a" for a local_member payload adm b ins
  proof -
    let ?d = "\<lparr>dv_client = dv_client d, dv_store = dv_store d, dv_snapshot = dv_snapshot d, dv_values = a\<rparr>"
    have "authority_recorded ?pc (gs_group_id (dv_values d)) ?d"
      using d authority_part_read [OF _ that] by (simp add: authority_recorded_def state_recorded_def)
    then have "authority_recorded ?pc (gs_group_id (dv_values d)) (snd (install_recipients e local_member successor payload adm now recipients b ins ?d))"
      using keeps_install_recipients [OF assms] unfolding keeps_def by blast
    then show ?thesis
      using d by (auto simp: authority_recorded_def state_recorded_def state_read_def put_authority_part_def on_part_def case_prod_beta)
  qed
  show ?case
  proof (cases "gs_authority (dv_values d) \<noteq> gs_local (dv_values d)")
    case False
    show ?thesis
    proof (cases "authority_part (dv_values d)")
      case None
      show ?thesis unfolding Let_def None option.case if_not_P [OF False] snd_conv by (rule d)
    next
      case (Some a)
      show ?thesis
        unfolding Let_def Some option.case if_not_P [OF False] by (rule keeps_refused [OF d installed [OF Some]])
    qed
  qed (use d in simp)
qed

section \<open>Receiving\<close>

declare drain_loop.simps [simp del]

definition reads :: "(bytes \<Rightarrow> bytes) \<Rightarrow> bytes \<Rightarrow> ('s \<Rightarrow> operation_snapshot \<Rightarrow> group_state \<Rightarrow> ('s, group_state, 'r) committed) \<Rightarrow> bool" where
  "reads pc gid f \<longleftrightarrow> (\<forall>s sn st r s' sn' st'. f s sn st = (r, s', sn', st') \<longrightarrow> state_read pc gid sn st \<longrightarrow> state_read pc gid sn' st')"

lemma readsD: "reads pc gid f \<Longrightarrow> f s sn st = (r, s', sn', st') \<Longrightarrow> state_read pc gid sn st \<Longrightarrow> state_read pc gid sn' st'"
  unfolding reads_def by blast

lemma refuse_leaves: "refuse port pc input s sn live = (r, s', sn', live') \<Longrightarrow> leaves_sends sn sn' \<and> live' = live"
  by (auto simp: refuse_def split: prod.splits dest: quiet_unit_commits(3))

lemma reads_refuse: "reads pc gid (refuse port pc input)"
  by (auto simp: reads_def dest!: refuse_leaves intro: state_read_leaves)

lemma drain_loop_read:
  "drain_loop port rc pc s sn m = (r, s', sn', m') \<Longrightarrow> member_read pc gid sn m \<Longrightarrow> digests rc \<Longrightarrow> member_read pc gid sn' m'"
proof (induction port rc pc s sn m arbitrary: r s' sn' m' rule: drain_loop.induct)
  case (1 port rc pc s sn m)
  obtain x s1 sn1 m1 where step: "commit_next_deferred_roster port rc pc s sn m = (x, s1, sn1, m1)" by (metis prod.collapse)
  have one: "member_read pc gid sn1 m1" using next_deferred_read [OF step 1(3,4)] .
  show ?case
  proof (cases "\<exists>commit. x = Inr (Some commit)")
    case True
    then obtain commit where x: "x = Inr (Some commit)" by blast
    obtain y s2 sn2 m2 where rest: "drain_loop port rc pc s1 sn1 m1 = (y, s2, sn2, m2)" by (metis prod.collapse)
    then have "member_read pc gid sn2 m2" using 1(1) [OF step [symmetric] x refl refl refl rest one 1(4)] by simp
    moreover have "sn' = sn2" "m' = m2" using 1(2) rest by (simp_all add: drain_loop.simps [of port rc pc s sn m] step x)
    ultimately show ?thesis by simp
  next
    case False
    then have "sn' = sn1" "m' = m1"
      using 1(2) by (auto simp: drain_loop.simps [of port rc pc s sn m] step split: sum.splits option.splits)
    then show ?thesis using one by simp
  qed
qed

lemma reads_drain:
  assumes "digests rc"
  shows "reads pc gid (drain_deferred_rosters port rc pc)"
  unfolding reads_def
proof (intro allI impI)
  fix s sn st r s' sn' st' assume f: "drain_deferred_rosters port rc pc s sn st = (r, s', sn', st')" and st: "state_read pc gid sn st"
  show "state_read pc gid sn' st'"
  proof (cases "member_part st")
    case (Some m)
    obtain x s1 sn1 m1 where loop: "drain_loop port rc pc s sn m = (x, s1, sn1, m1)" by (metis prod.collapse)
    have one: "member_read pc gid sn1 m1" using drain_loop_read [OF loop state_read_member [OF st Some] assms] .
    obtain y s2 sn2 q where prune: "commit_prune_deferred_rosters port (ms_view m1) (gs_group_id st) s1 sn1 (ms_deferred m1) = (y, s2, sn2, q)"
      by (metis prod.collapse)
    have "member_read pc gid sn2 (m1\<lparr>ms_deferred := q\<rparr>)"
      by (rule member_read_leaves [OF one quietD [OF quiet_prune prune]]) simp_all
    then show ?thesis
      using f one st by (auto simp: drain_deferred_rosters_def Some loop prune state_read_def [of pc gid sn] intro: member_read_state split: sum.splits)
  qed (use f st in \<open>simp add: drain_deferred_rosters_def\<close>)
qed


lemma reads_member:
  assumes "member_part st = Some m" "commit_group_payload_with_deferred port rc pc input s sn m = (r, s', sn', m')"
    and "state_read pc gid sn st" "digests rc"
  shows "state_read pc gid sn' (put_member_part m' st)"
  using group_payload_read [OF assms(2) state_read_member [OF assms(3,1)] assms(4)] assms(3)
  by (intro member_read_state) (simp_all add: state_read_def)

lemma reads_application:
  assumes "digests rc"
  shows "reads pc gid (route_application port rc pc input application)"
  unfolding reads_def route_application_def
  by (auto split: option.splits prod.splits intro: readsD [OF reads_refuse] reads_member [OF _ _ _ assms])

lemma reads_hold: "reads pc gid (hold_without_view port pc input control)"
  unfolding reads_def
proof (intro allI impI)
  fix s sn st r s' sn' st' assume f: "hold_without_view port pc input control s sn st = (r, s', sn', st')" and st: "state_read pc gid sn st"
  obtain x s1 sn1 q where c: "commit_hold_roster_without_view port (gs_authority st) (gs_group_id st) control (in_provider_state input)
      (in_effect input) s sn (gs_deferred st) = (x, s1, sn1, q)" by (metis prod.collapse)
  have "state_read pc gid sn1 (st\<lparr>gs_deferred := q\<rparr>)"
    by (rule state_read_leaves [OF st quietD [OF quiet_control_commits(5) c]]) simp_all
  then show "state_read pc gid sn' st'"
    using f st c readsD [OF reads_refuse]
    by (auto simp: hold_without_view_def split: if_splits sum.splits group_operation_error.splits)
qed

lemma reads_roster:
  assumes "digests rc"
  shows "reads pc gid (route_roster port rc pc input control)"
  unfolding reads_def
proof (intro allI impI)
  fix s sn st r s' sn' st' assume f: "route_roster port rc pc input control s sn st = (r, s', sn', st')" and st: "state_read pc gid sn st"
  show "state_read pc gid sn' st'"
  proof (cases "member_part st")
    case (Some m)
    obtain x s1 sn1 m1 where c: "commit_group_payload_with_deferred port rc pc input s sn m = (x, s1, sn1, m1)" by (metis prod.collapse)
    have one: "state_read pc gid sn1 (put_member_part m1 st)" using reads_member [OF Some c st assms] .
    obtain y s2 sn2 st2 where d: "drain_deferred_rosters port rc pc s1 sn1 (put_member_part m1 st) = (y, s2, sn2, st2)" by (metis prod.collapse)
    have two: "state_read pc gid sn2 st2" using readsD [OF reads_drain [OF assms] d one] .
    show ?thesis
      using f one two by (auto simp: route_roster_def Some c d split: sum.splits group_payload_disposition.splits if_splits)
  qed (use f st readsD [OF reads_hold] in \<open>auto simp: route_roster_def\<close>)
qed

lemma reads_invitation:
  assumes "quiet f" "route_invitation h (f s sn (gs_book st)) st = (r, s', sn', st')" "state_read pc gid sn st"
  shows "state_read pc gid sn' st'"
proof -
  obtain x s1 sn1 book where c: "f s sn (gs_book st) = (x, s1, sn1, book)" by (metis prod.collapse)
  have "state_read pc gid sn1 (st\<lparr>gs_book := book\<rparr>)"
    by (rule state_read_leaves [OF assms(3) quietD [OF assms(1) c]]) simp_all
  then show ?thesis using assms(2) by (auto simp: route_invitation_def c)
qed

lemma reads_payload:
  assumes "digests rc"
  shows "reads pc gid (route_payload port rc pc now input payload)"
  unfolding reads_def route_payload_def
  by (auto split: group_payload.splits if_splits intro: readsD [OF reads_application [OF assms]] readsD [OF reads_roster [OF assms]]
      readsD [OF reads_refuse] reads_invitation [OF quiet_invitations(2)] reads_invitation [OF quiet_invitations(3)]
      reads_invitation [OF quiet_invitations(4)])

lemma keeps_route [kept]:
  assumes "digests (ge_roster_commitment e)"
  shows "keeps (group_recorded (ge_payload_commitment e) gid) (route e now input)"
  unfolding keeps_def
proof (intro allI impI, goal_cases)
  case g: (1 g)
  let ?pc = "ge_payload_commitment e"
  have refused: "\<exists>st. grp = Some st \<and> state_read ?pc gid sn' st"
    if "refuse (ge_port e) ?pc input (gc_store g) (gc_snapshot g) (gc_group g) = (r, s', sn', grp)" for r s' sn' grp
    using g refuse_leaves [OF that] state_read_leaves by (auto simp: group_recorded_def)
  show ?case
  proof (cases "isl (payload_decode (in_plaintext input)) \<or> gc_group g = None")
    case True
    obtain r s' sn' grp where c: "refuse (ge_port e) ?pc input (gc_store g) (gc_snapshot g) (gc_group g) = (r, s', sn', grp)" by (metis prod.collapse)
    then have "snd (route e now input g) = g\<lparr>gc_store := s', gc_snapshot := sn', gc_group := grp\<rparr>"
      using True by (auto simp: route_def isl_def split: sum.split)
    then show ?thesis using refused [OF c] by (simp add: group_recorded_def)
  next
    case False
    then obtain payload st where p: "payload_decode (in_plaintext input) = Inr payload" "gc_group g = Some st"
      by (cases "payload_decode (in_plaintext input)") auto
    obtain r s' sn' st' where c: "route_payload (ge_port e) (ge_roster_commitment e) ?pc now input payload (gc_store g) (gc_snapshot g) st = (r, s', sn', st')"
      by (metis prod.collapse)
    have "state_read ?pc gid sn' st'" using readsD [OF reads_payload [OF assms] c] g p(2) by (simp add: group_recorded_def)
    then show ?thesis by (simp add: route_def p c group_recorded_def)
  qed
qed

lemma keeps_commit_item [kept]:
  assumes "digests (ge_roster_commitment e)"
  shows "keeps (group_recorded (ge_payload_commitment e) gid) (commit_item e now item ib)"
  unfolding commit_item_def by (auto simp: keeps_pair intro!: kept assms split: option.split)

lemma keeps_stage:
  assumes "digests (ge_roster_commitment e)"
  shows "keeps (group_recorded (ge_payload_commitment e) gid) (stage e now message ib)"
  unfolding keeps_def
proof (intro allI impI, goal_cases)
  case g: (1 g)
  have "keeps (group_recorded (ge_payload_commitment e) gid) (cbind (gc_on_client (open_staged (ge_client e) message)) (\<lambda>item. commit_item e now item ib))"
    by (intro kept assms)
  then have "group_recorded (ge_payload_commitment e) gid (snd (cbind (gc_on_client (open_staged (ge_client e) message)) (\<lambda>item. commit_item e now item ib) g))"
    using g by (simp add: keeps_def)
  then show ?case
    by (cases "cbind (gc_on_client (open_staged (ge_client e) message)) (\<lambda>item. commit_item e now item ib) g")
      (simp add: stage_def group_recorded_def split: sum.split)
qed

lemma keeps_stage_all [kept]:
  assumes "digests (ge_roster_commitment e)"
  shows "keeps (group_recorded (ge_payload_commitment e) gid) (stage_all e now messages n ib)"
proof (induction messages arbitrary: n ib)
  case (Cons m ms)
  show ?case
    unfolding keeps_def
  proof (intro allI impI, goal_cases)
    case g: (1 g)
    obtain r h where step: "stage e now m ib g = (r, h)" by fastforce
    have "group_recorded (ge_payload_commitment e) gid h" using keeps_stage [OF assms] g step by (metis keeps_def snd_conv)
    then show ?case using Cons.IH by (simp add: step keeps_def split: sum.split)
  qed
qed (simp add: keeps_def)

lemma hand_over_recorded: "group_recorded pc gid (hand_over issued ib g) \<longleftrightarrow> group_recorded pc gid g"
  by (simp add: hand_over_def group_recorded_def Let_def split: option.split)

lemma keeps_receive_batch:
  assumes "digests (ge_roster_commitment e)"
  shows "keeps (group_recorded (ge_payload_commitment e) gid) (receive_batch e now issued ib start messages)"
  unfolding keeps_def
proof (intro allI impI, goal_cases)
  case g: (1 g)
  let ?P = "group_recorded (ge_payload_commitment e) gid"
  obtain n stopped ib1 h where staged: "stage_all e now (take MAX_RECEIVE_ITEMS messages) 0 ib g = ((n, stopped, ib1), h)"
    by (metis prod.collapse)
  have "?P h" using keeps_stage_all [OF assms] g staged by (metis keeps_def snd_conv)
  moreover have "keeps ?P (cbind (if n > 0 then gc_on_client (acknowledge_fetched (ge_client e) start n) else (\<lambda>g. (Inr (), g))) (\<lambda>_ g.
      case stopped of
        Some GErrFrozen \<Rightarrow> (let ib = ib1\<lparr>ib_frozen := True\<rparr> in (Inr ib, hand_over issued ib g))
      | Some err \<Rightarrow> if n = 0 then (Inl err, g) else (Inr ib1, hand_over issued ib1 g)
      | None \<Rightarrow> (Inr ib1, hand_over issued ib1 g)))"
  proof (rule keeps_bind)
    show "keeps ?P (if n > 0 then gc_on_client (acknowledge_fetched (ge_client e) start n) else (\<lambda>g. (Inr (), g)))"
      by (simp add: kept keeps_pair)
  qed (simp add: keeps_def Let_def hand_over_recorded split: option.split coordinator_error.split)
  ultimately show ?case unfolding receive_batch_def staged prod.case by (rule keepsD [rotated])
qed

lemma keeps_receive:
  assumes "digests (ge_roster_commitment e)"
  shows "keeps (group_recorded (ge_payload_commitment e) gid) (group_receive e now)"
proof -
  let ?P = "group_recorded (ge_payload_commitment e) gid"
  let ?fetch = "gc_on_client (retry_io (ge_client e) (fetch_staged (ge_client e)))"
  have batch: "keeps ?P (cbind ?fetch (\<lambda>(start, messages). receive_batch e now issued ib start messages))" for issued ib
    by (auto intro!: kept keeps_receive_batch assms split: prod.split)
  have "keeps ?P (\<lambda>g. cbind ?fetch (\<lambda>(start, messages). receive_batch e now (events_issued_by (gc_group g)) (begin_inbound g) start messages) g)"
    using batch by (simp add: keeps_def)
  then have "keeps ?P (cbind (acknowledge_delivery e) (\<lambda>_ g.
      cbind ?fetch (\<lambda>(start, messages). receive_batch e now (events_issued_by (gc_group g)) (begin_inbound g) start messages) g))"
    by (intro keeps_bind keeps_direct(2))
  then show ?thesis by (rule keeps_cases) (simp add: group_receive_batch)
qed

section \<open>A coordinator on a new store\<close>

lemma new_store_read:
  assumes "snap_group_controls sn = []" "snap_outbox sn = []" "length gid = GROUP_ID_LEN"
  shows "sends_read pc gid sn ob \<longleftrightarrow> ob = outbox_new gid" "cancelled_at (snap_group_controls sn) = None"
proof -
  have none: "cancels_ok gid (snap_group_controls sn)" "cancelled_at (snap_group_controls sn) = None"
    using assms(1) by (simp_all add: cancels_ok_def single_def cancelled_at_def)
  then have "recover_group_outbox pc sn gid = Inr (outbox_new gid)"
    using latest_cancellation [of gid sn] assms by (simp add: recover_group_outbox_Inr cancel_to_def)
  then show "sends_read pc gid sn ob \<longleftrightarrow> ob = outbox_new gid" using none(1) assms(3) by (auto simp: sends_read_def)
qed (simp add: assms(1) cancelled_at_def)

lemma new_store_attached:
  assumes "attach e gid authority source g = (Inr (), g')" "snap_group_controls (gc_snapshot g) = []" "snap_outbox (gc_snapshot g) = []"
    and "length gid = GROUP_ID_LEN" "digests (ge_roster_commitment e)"
  shows "group_recorded (ge_payload_commitment e) gid g'"
proof -
  let ?pc = "ge_payload_commitment e" and ?rc = "ge_roster_commitment e" and ?sn = "gc_snapshot g"
  obtain st where st: "rbind (gc_member e g) (\<lambda>local_member. rebuild ?rc ?pc ?sn local_member gid authority source) = Inr st"
    using assms(1) by (auto simp: attach_def split: sum.splits)
  obtain r s sn st' where drain: "drain_deferred_rosters (ge_port e) ?rc ?pc (gc_store g) ?sn st = (r, s, sn, st')" by (metis prod.collapse)
  have g': "g' = g\<lparr>gc_store := s, gc_snapshot := sn, gc_group := Some st'\<rparr>" using assms(1) st drain by (simp add: attach_def)
  have none: "\<not> has_control tag ?sn" for tag using assms(2) by (simp add: has_control_def)
  have new: "sends_read ?pc gid ?sn (outbox_new gid)" "cancelled_at (snap_group_controls ?sn) = None"
    using new_store_read [OF assms(2-4)] by simp_all
  then have "recover_group_outbox ?pc ?sn gid = Inr (outbox_new gid)" by (simp add: sends_read_def)
  then have outbox: "gs_outbox st = outbox_new gid" "gs_group_id st = gid"
    using st by (auto simp: rebuild_def rbind_eq_Inr g_recovery_def)
  have "view_ok gid ?sn view" if "gs_view st = Some view" for view
    using st that new(2) assms(5)
    by (auto simp: rebuild_def rebuild_view_def none rbind_eq_Inr view_ok_def accept_source_def accept_genesis_def g_policy_def digests_length
        split: option.splits if_splits)
  then have "state_read ?pc gid ?sn st" using outbox new(1) by (simp add: state_read_def)
  then show ?thesis using readsD [OF reads_drain [OF assms(5)] drain] g' by (simp add: group_recorded_def)
qed


text \<open>The calls of a coordinator that is attached to its group; the answer is whether the call succeeded.\<close>

datatype group_call =
    CallSendGroup "(member \<times> device_addr) list" bytes
  | CallDispatchSends "(member \<times> device_addr) list"
  | CallSendDirect device_addr bytes
  | CallReceive u64
  | CallAcknowledgeDelivery
  | CallInstallRoster roster "(member \<times> device_addr) list" "(bytes \<times> member) option" u64
  | CallDispatchControls "(member \<times> device_addr) list"
  | CallInvite bytes member device_addr u64 u64
  | CallAcceptInvitation bytes device_addr u64
  | CallRevokeInvitation bytes device_addr u64

definition answered :: "('e + 'a) \<times> 's \<Rightarrow> bool \<times> 's" where
  "answered x = (\<not> isl (fst x), snd x)"

fun coordinator_step ::
  "('p, 'n, 'k, 's) group_env \<Rightarrow> group_call \<Rightarrow> ('p, 'n, 'k, 's) group_client \<Rightarrow> bool \<times> ('p, 'n, 'k, 's) group_client" where
  "coordinator_step e (CallSendGroup recipients payload) g = answered (send_group e recipients payload g)"
| "coordinator_step e (CallDispatchSends routes) g = answered (dispatch_pending_group_sends e routes g)"
| "coordinator_step e (CallSendDirect addr message) g = answered (send_direct e addr message g)"
| "coordinator_step e (CallReceive now) g = answered (group_receive e now g)"
| "coordinator_step e CallAcknowledgeDelivery g = answered (acknowledge_delivery e g)"
| "coordinator_step e (CallInstallRoster successor recipients admission now) g =
     answered (install_roster e successor recipients admission now g)"
| "coordinator_step e (CallDispatchControls routes) g = answered (dispatch_pending_controls e routes g)"
| "coordinator_step e (CallInvite ident target addr expires_at now) g = answered (invite e ident target addr expires_at now g)"
| "coordinator_step e (CallAcceptInvitation ident addr now) g = answered (accept_group_invitation e ident addr now g)"
| "coordinator_step e (CallRevokeInvitation ident addr now) g = answered (revoke_group_invitation e ident addr now g)"

lemma coordinator_step_recorded:
  assumes "digests (ge_payload_commitment e)" "digests (ge_roster_commitment e)" "group_recorded (ge_payload_commitment e) gid g"
  shows "group_recorded (ge_payload_commitment e) gid (snd (coordinator_step e call g))"
  by (cases call) (simp_all add: answered_def keepsD [OF keeps_send_group [OF assms(1)]] keepsD [OF keeps_dispatch_sends [OF assms(1)]]
      keepsD [OF keeps_direct(1)] keepsD [OF keeps_direct(2)] keepsD [OF keeps_receive [OF assms(2)]]
      keepsD [OF keeps_install_roster [OF assms(2)]] keepsD [OF keeps_dispatch_controls] keepsD [OF keeps_invitations(1)]
      keepsD [OF keeps_invitations(2)] keepsD [OF keeps_invitations(3)] assms(3))

text \<open>
  C2. The outbox a coordinator works on is always the one its snapshot records.  A coordinator attaches to a group on a store that holds no
  group records yet, and then makes any sequence of calls: sends, retries, direct messages, receives, roster installations,
  invitations, acknowledgements (every call but \<open>recover\<close>, which is this reading itself).  Whatever the store, the provider, the servers, the peers and the network do
  in between, with two commitments of thirty-two bytes, the coordinator keeps its group, and the outbox it holds in memory
  is exactly the one \<open>recover_group_outbox\<close> reads from its snapshot: the sends, their recipients, the committed ciphertexts,
  the attempts already reserved, and what newer rosters cancelled.  So a process that stops between any two of these calls and
  reads this snapshot again continues with the same sends.
\<close>

theorem sends_survive_restart:
  assumes "digests (ge_payload_commitment e)" and "digests (ge_roster_commitment e)" and "length gid = GROUP_ID_LEN"
    and "snap_group_controls (gc_snapshot g) = []" and "snap_outbox (gc_snapshot g) = []"
    and "attach e gid authority source g = (Inr (), g0)"
  shows "\<exists>st. gc_group (final (coordinator_step e) calls g0) = Some st \<and> gs_group_id st = gid \<and>
    recover_group_outbox (ge_payload_commitment e) (gc_snapshot (final (coordinator_step e) calls g0)) gid = Inr (gs_outbox st)"
proof -
  have start: "group_recorded (ge_payload_commitment e) gid g0"
    using new_store_attached [OF assms(6,4,5,3,2)] .
  have "group_recorded (ge_payload_commitment e) gid (final (coordinator_step e) calls h)"
    if "group_recorded (ge_payload_commitment e) gid h" for h
    using that
    by (induction calls arbitrary: h) (simp_all add: coordinator_step_recorded [OF assms(1,2)] case_prod_beta)
  from this [OF start] show ?thesis by (auto simp: group_recorded_def state_read_def sends_read_def)
qed

definition bobs_group :: bytes where
  "bobs_group = replicate 16 3"

definition bobs_genesis :: roster where
  "bobs_genesis = \<lparr>ros_group_id = bobs_group, ros_revision = 0, ros_predecessor = replicate 32 0, ros_authority = Member [7] [1],
     ros_policy = POLICY_VERSION_V1, ros_closed = False, ros_members = [Member [7] [1]]\<rparr>"

lemma bob_rebuilds:
  "case rebuild (\<lambda>_. replicate DIGEST_LEN 0) (\<lambda>_. replicate DIGEST_LEN 0) (snapshot_empty 0) (Member [7] [1]) bobs_group (Member [7] [1])
      (Some bobs_genesis) of Inl _ \<Rightarrow> False | Inr st \<Rightarrow> gs_deferred st = []"
  by code_simp

lemma nothing_to_drain: "gs_deferred st = [] \<Longrightarrow> fst (drain_deferred_rosters port rc pc s sn st) = Inr []"
  by (simp add: drain_deferred_rosters_def drain_loop.simps commit_next_deferred_roster_def next_for_def commit_prune_deferred_rosters_def
      prune_through_def member_part_def split: option.split)

lemma bob_attaches: "\<exists>g. attach relay_group_env bobs_group (Member [7] [1]) (Some bobs_genesis) bob_coordinator = (Inr (), g)"
proof -
  obtain st where st: "rebuild (\<lambda>_. replicate DIGEST_LEN 0) (\<lambda>_. replicate DIGEST_LEN 0) (snapshot_empty 0) (Member [7] [1]) bobs_group (Member [7] [1])
      (Some bobs_genesis) = Inr st" "gs_deferred st = []"
    using bob_rebuilds by (auto split: sum.splits)
  have "gc_member relay_group_env bob_coordinator = Inr (Member [7] [1])" "gc_snapshot bob_coordinator = snapshot_empty 0"
    by (simp_all add: gc_member_def relay_group_env_def relay_env_def bob_coordinator_def new_client_def bob_def u8_try_from_def plain_provider_def)
  then show ?thesis
    using st(1) by (simp add: attach_def relay_group_env_def case_prod_beta nothing_to_drain [OF st(2)] rmap_err_def)
qed

text \<open>Bob creates a group, is refused a send to nobody, receives Alice's message, and invites Alice.\<close>

theorem sends_survive_restart_witness:
  "\<exists>g0 st. attach relay_group_env bobs_group (Member [7] [1]) (Some bobs_genesis) bob_coordinator = (Inr (), g0) \<and>
    (let g = final (coordinator_step relay_group_env) [CallSendGroup [] [5], CallReceive 0, CallInvite (replicate 16 9) (Member [8] [1]) alice 10 0] g0
     in gc_group g = Some st \<and> recover_group_outbox (\<lambda>_. replicate DIGEST_LEN 0) (gc_snapshot g) bobs_group = Inr (gs_outbox st))"
proof -
  obtain g0 where g0: "attach relay_group_env bobs_group (Member [7] [1]) (Some bobs_genesis) bob_coordinator = (Inr (), g0)"
    using bob_attaches by blast
  have "digests (ge_payload_commitment relay_group_env)" "digests (ge_roster_commitment relay_group_env)" "length bobs_group = GROUP_ID_LEN"
      "snap_group_controls (gc_snapshot bob_coordinator) = []" "snap_outbox (gc_snapshot bob_coordinator) = []"
    by (simp_all add: relay_group_env_def digests_def bobs_group_def GROUP_ID_LEN_def bob_coordinator_def snapshot_empty_def)
  from sends_survive_restart [OF this g0, of "[CallSendGroup [] [5], CallReceive 0, CallInvite (replicate 16 9) (Member [8] [1]) alice 10 0]"]
  show ?thesis using g0 by (auto simp: Let_def relay_group_env_def [THEN arg_cong [where f = ge_payload_commitment]])
qed

end
