(* ===== verification/Spec2Isabelle.thy ===== *)
theory Spec2Isabelle
  imports Directory_Persist Registration_Limit Group_Restart
begin

text \<open>
  A verification development for the Tacenta messaging workspace.

  \<^bold>\<open>The program.\<close>  Devices of users exchange end-to-end encrypted messages.  A \<^emph>\<open>relay\<close> holds one queue of
  envelopes per device until the device acknowledges them.  A \<^emph>\<open>directory\<close> binds each device address to
  the first identity key registered for it, hands out prekey bundles, and remembers the highest state
  generation a device has shown.  A \<^emph>\<open>client\<close> drives a crypto provider over connections to both, and
  seals its state against rollback.  On top of it a \<^emph>\<open>group coordinator\<close> runs one small closed group:
  an authority issues a hash chain of rosters, members accept them, invitations admit new members, every
  logical send has one durable ciphertext per recipient, and everything is committed to a snapshot in a
  store before a message leaves the device or is acknowledged at the relay.

  \<^bold>\<open>How code is modelled.\<close>  Unsigned integers are words of their width with the wrapping, checked or
  saturating operation the source uses; \<^verbatim>\<open>usize\<close> is \<^typ>\<open>nat\<close>.  Structs are records, enums are
  datatypes, \<^verbatim>\<open>Result<T, E>\<close> is a sum, \<^verbatim>\<open>Option<T>\<close> an option, and a panic is \<^const>\<open>None\<close>.  A function
  that takes \<^verbatim>\<open>&mut self\<close> returns its answer with the new state.  Hash maps are finite maps.  Each
  component with several operations also has a datatype of its operations and a step function, so that
  \<open>final step xs s\<close>, \<open>answers step xs s\<close> and \<open>history\<close> speak of any interleaving of calls; the locales
  \<open>invariant_machine\<close>, \<open>monotone_machine\<close>, \<open>simulation\<close> and \<open>delivery\<close> carry the inductions.  Hashes,
  signatures, the crypto provider, the connections, the secure store and the file system are parameters:
  functions of a record (\<open>crypto_provider\<close>, \<open>network\<close>, \<open>secure_store\<close>, \<open>operation_store\<close>) or arguments,
  with what a theorem needs of them as its hypotheses.

  \<^bold>\<open>The theories\<close>, under \<^verbatim>\<open>crates/\<close>.

  \<^item> \<open>Tacenta_Prelude\<close>: words, big-endian integers, checked slices, UTF-8, results, the locales
    \<open>prefix_codec\<close> and \<open>result_codec\<close> (from the laws of the parts of a message to the exactness of its
    codec), and the machines.
  \<^item> \<open>Wire\<close>: \<^verbatim>\<open>tacenta-wire/src/lib.rs\<close>, the envelope codec.
  \<^item> \<open>Delivery\<close>: \<^verbatim>\<open>tacenta-state/src/session.rs\<close> and \<^verbatim>\<open>user.rs\<close>, a log with one cursor or several;
    \<^theory_text>\<open>locale delivery\<close> is the contract of exactly-once delivery, met by both and by the relay.
  \<^item> \<open>Relay\<close>, \<open>Relay_Protocol\<close>: \<^verbatim>\<open>tacenta-relay/src/lib.rs\<close> and \<^verbatim>\<open>protocol.rs\<close>: compacting queues that
    refine sessions, three byte budgets and their indices, the dispatch of requests, snapshots.
  \<^item> \<open>Directory\<close>, \<open>Directory_Protocol\<close>, \<open>Directory_Persist\<close>, \<open>Registration_Limit\<close>:
    \<^verbatim>\<open>tacenta-directory-core/src/lib.rs\<close> and \<^verbatim>\<open>tacenta-directory/src/\<close> \<^verbatim>\<open>lib.rs\<close>, \<^verbatim>\<open>protocol.rs\<close>, \<^verbatim>\<open>persist.rs\<close>,
    \<^verbatim>\<open>registration_limit.rs\<close>.
  \<^item> \<open>Accounts_Protocol\<close>: \<^verbatim>\<open>tacenta-accounts/src/protocol.rs\<close> and the messages of
    \<^verbatim>\<open>tacenta-transport/src/provisioning.rs\<close>.
  \<^item> \<open>Group_Values\<close>, \<open>Roster_View\<close>, \<open>Group_Receive\<close>, \<open>Group_Receive_State\<close>, \<open>Group_Invitation\<close>,
    \<open>Group_Payload\<close>, \<open>Group_Send\<close>, \<open>Group_Recovery\<close>: \<^verbatim>\<open>tacenta-group/src/\<close> \<^verbatim>\<open>lib.rs\<close>, \<^verbatim>\<open>roster_view.rs\<close>,
    \<^verbatim>\<open>receive.rs\<close>, \<^verbatim>\<open>invitation.rs\<close>, \<^verbatim>\<open>payload.rs\<close>, \<^verbatim>\<open>send.rs\<close>: pure state machines and their checkpoints.
  \<^item> \<open>Operation_Store\<close>, \<open>Deferred_Rosters\<close>, \<open>Control_Outbox\<close>: the files of these names in
    \<^verbatim>\<open>tacenta-client/src/\<close> (the last two with the prefix \<^verbatim>\<open>group_\<close>).
  \<^item> \<open>Client_Records\<close>, \<open>Client_Commit\<close>, \<open>Group_Live\<close>: \<^verbatim>\<open>tacenta-client/src/group_operations.rs\<close>: the records
    of a snapshot, the commits that append them, and the operations that encrypt, commit and dispatch.
  \<^item> \<open>Client_State\<close>, \<open>Client_Link\<close>: \<^verbatim>\<open>tacenta-client/src/lib.rs\<close> with \<^verbatim>\<open>operations.rs\<close> and
    \<^verbatim>\<open>secure_store.rs\<close>: state blobs, and the client's calls.
  \<^item> \<open>Group_Client\<close>: \<^verbatim>\<open>tacenta-client/src/group_client.rs\<close>, the coordinator.
  \<^item> \<open>Client_Relay\<close>, \<open>Group_Relay\<close>: client and coordinator on the relay of \<open>Relay_Protocol\<close>, connected by
    the encoded requests.  \<open>Client_Replay\<close>, \<open>Commit_Restart\<close>, \<open>Group_Restart\<close>: what a restart recovers.

  \<^bold>\<open>What is shown.\<close>
  Delivery: sessions, users, queues and the relay offer exactly what was accepted, in order, from the
  acknowledged position on; no request panics or breaks a budget; only the owner drains a queue.
  Clients: a drain offers every pending message to decryption once and leaves nothing pending; a
  coordinator's receive acknowledges exactly the items it reports.
  Directory: bindings stick, a rotation starts an epoch, rollback is reported, one-time bundles are not
  handed out twice.  Rollback of the client: a sealed state older than a prepared send resumes no session.
  Groups: accepted rosters are a chain without forks, a message makes at most one event, nobody is
  admitted without accepting, ciphertexts are never replaced, queues and attempts are bounded.
  Durability: every snapshot and checkpoint restores what it was taken of; stores fence stale writers
  and always make progress; the sends in memory are the sends on record.
  Codecs: every decoder accepts exactly what its encoder writes.

  \<^bold>\<open>Bounds.\<close>  Every loop is structural or a \<^theory_text>\<open>function\<close> with a termination proof (the stream decoder, the
  reclaiming of handoffs, the eviction of control records, the drain of deferred rosters); no definition has fuel.  The snapshots of the relay count their queues in a \<^verbatim>\<open>u32\<close>,
  so statements about them take fewer than 2 to the 32nd requests.

  \<^bold>\<open>Small helpers.\<close>  Where a source function is long, its loops and stages are definitions of their own
  with the function's name as prefix or stem; they translate parts of the same lines.

  \<^bold>\<open>Not modelled.\<close>  Sockets, TLS, HTTP and WebSocket framing (\<^verbatim>\<open>tacenta-transport\<close>), the services around
  the account store (\<^verbatim>\<open>tacenta-accounts\<close> apart from its protocol, \<^verbatim>\<open>tacenta-gateway\<close>, \<^verbatim>\<open>tacenta-discovery\<close>,
  \<^verbatim>\<open>tacenta-server\<close>), the providers in \<^verbatim>\<open>tacenta-core/src/crypto\<close>, which wrap a cryptographic library,
  the command line, bindings and demos.  Concurrency is that of the code: one owner per state, and for
  the shared file the steps of any number of coordinators in any order, each under the file lock.
\<close>

section \<open>Every codec is exact\<close>

text \<open>
  C39.  The envelope format.  A buffer decodes to an envelope exactly when it is the encoding of that
  envelope: a wrong version, an unknown kind, a length that disagrees with the payload and trailing
  bytes are refused.  A buffer decodes to a list of envelopes exactly when it is the encoding of that
  list, so concatenated envelopes are recovered one by one, and the loop ends on every input.
\<close>

theorem wire_codecs_exact:
  "(decode bytes = Some e \<longleftrightarrow> encode e = Some bytes) \<and>
   (decode_stream bytes = Some es \<longleftrightarrow> encode_stream es = Some bytes)"
  by (simp add: decode_iff_encode decode_stream_iff_encode_stream)

text \<open>
  C38.  The messages of the services: relay, directory, accounts and provisioning.  Each decoder accepts
  exactly the bytes its encoder writes for a message whose strings are UTF-8, so no two messages share an
  encoding, no message has two, and truncated or trailing bytes are refused.
\<close>

theorem service_codecs_exact:
  "(decode_request bytes = Some q \<longleftrightarrow> request_typed q \<and> encode_request q = Some bytes) \<and>
   (decode_response bytes = Some r \<longleftrightarrow> response_typed r \<and> encode_response r = Some bytes) \<and>
   (decode_dir_request bytes = Some dq \<longleftrightarrow> dir_request_typed dq \<and> encode_dir_request dq = Some bytes) \<and>
   (decode_dir_response bytes = Some dr \<longleftrightarrow> encode_dir_response dr = Some bytes) \<and>
   (decode_account_request bytes = Some aq \<longleftrightarrow> account_request_typed aq \<and> encode_account_request aq = Some bytes) \<and>
   (decode_account_response bytes = Some ar \<longleftrightarrow> account_response_typed ar \<and> encode_account_response ar = Some bytes) \<and>
   (decode_provision_request bytes = Some pq \<longleftrightarrow> utf8_valid (pr_session_token pq) \<and> encode_provision_request pq = Some bytes) \<and>
   (decode_provision_outcome bytes = Some po \<longleftrightarrow> provision_outcome_typed po \<and> encode_provision_outcome po = Some bytes)"
  using decode_request_iff decode_response_iff decode_dir_request_iff decode_dir_response_iff account_codecs_exact by blast

text \<open>
  C37.  The values of a group: rosters, application contexts, and the tagged payloads that carry them,
  invitations, acceptances and revocations.  A buffer decodes to a value exactly when it is the encoding
  of that value, so a digest of the bytes commits to the value and the tag alone selects the parser.  A
  roster encodes exactly when it is well formed (a revision that is not reserved, the one policy, at most
  eight members within their size bounds, strictly ordered, one binding per identity, a genesis holding
  only its authority), a context exactly when it is valid.
\<close>

theorem group_codecs_exact:
  "(roster_decode bytes = Inr r \<longleftrightarrow> roster_typed r \<and> roster_encode r = Inr bytes) \<and>
   (roster_typed r \<and> (\<exists>out. roster_encode r = Inr out) \<longleftrightarrow> roster_typed r \<and> roster_valid r) \<and>
   (context_decode bytes = Inr c \<longleftrightarrow> context_typed c \<and> context_encode c = Inr bytes) \<and>
   (context_typed c \<and> (\<exists>out. context_encode c = Inr out) \<longleftrightarrow> context_typed c \<and> context_valid c) \<and>
   (payload_decode bytes = Inr p \<longleftrightarrow> payload_typed p \<and> payload_encode p = Inr bytes)"
  using roster_decode_iff context_decode_iff payload_decode_iff by blast

end
